(* ===== verification/Go_Prelude.thy ===== *)
theory Go_Prelude
  imports Main
begin

text \<open>
  Shared vocabulary of the development. A Go function with a result pair
  \<open>(T, error)\<close> is modelled as \<open>'e + 'a\<close>: \<open>Inl e\<close> is the error return,
  \<open>Inr a\<close> the value with a nil error. Each component has an error datatype of
  its own, one constructor per sentinel of the source; the formatted text of an error
  is not modelled. The collection \<open>result_elim\<close> holds the elimination rules that
  take a successful run of a chain apart.
\<close>

named_theorems result_elim \<open>how a chain of fallible steps can have succeeded\<close>
named_theorems go_defs \<open>defining equations of small helpers, for evaluation\<close>

type_synonym ('e, 'a) result = "'e + 'a"

fun is_ok :: "('e, 'a) result \<Rightarrow> bool" where
  "is_ok (Inr _) = True"
| "is_ok (Inl _) = False"

fun and_then :: "('e, 'a) result \<Rightarrow> ('a \<Rightarrow> ('e, 'b) result) \<Rightarrow> ('e, 'b) result" where
  "and_then (Inl e) f = Inl e"
| "and_then (Inr a) f = f a"

text \<open>A guard of the source: \<open>if !c { return err }\<close>.\<close>

definition ensure :: "bool \<Rightarrow> 'e \<Rightarrow> ('e, unit) result" where
  "ensure c e = (if c then Inr () else Inl e)"

lemma and_then_Inr [result_elim]: "and_then r f = Inr b \<longleftrightarrow> (\<exists>a. r = Inr a \<and> f a = Inr b)"
  by (cases r) auto

lemma and_then_Inl [result_elim]:
  "and_then r f = Inl e \<longleftrightarrow> r = Inl e \<or> (\<exists>a. r = Inr a \<and> f a = Inl e)"
  by (cases r) auto

lemma ensure_Inr [result_elim]: "ensure c e = Inr u \<longleftrightarrow> c"
  by (simp add: ensure_def)

lemma ensure_Inl [result_elim]: "ensure c e = Inl e' \<longleftrightarrow> \<not> c \<and> e' = e"
  by (auto simp: ensure_def)

text \<open>An error wrapped on the way up (\<open>fmt.Errorf\<close> with a \<open>%w\<close>).\<close>

lemma case_err_Inr [result_elim]:
  "(case r of Inl e \<Rightarrow> Inl (g e) | Inr x \<Rightarrow> f x) = Inr b \<longleftrightarrow> (\<exists>a. r = Inr a \<and> f a = Inr b)"
  by (cases r) auto

lemma if_err_Inr [result_elim]: "(if b then Inl e else r) = Inr a \<longleftrightarrow> \<not> b \<and> r = Inr a"
  by simp

lemma is_ok_iff: "is_ok r \<longleftrightarrow> (\<exists>a. r = Inr a)"
  by (cases r) auto

lemma ensure_True [simp]: "ensure True e = Inr ()"
  and ensure_False [simp]: "ensure False e = Inl e"
  by (simp_all add: ensure_def)

text \<open>
  \<open>slices.Compact\<close>: drops every element equal to the one just before it. On a sorted
  list this removes all duplicates.
\<close>

fun compact :: "'a list \<Rightarrow> 'a list" where
  "compact [] = []"
| "compact [x] = [x]"
| "compact (x # y # xs) = (if x = y then compact (y # xs) else x # compact (y # xs))"

lemma compact_eq_remdups_adj: "compact xs = remdups_adj xs"
  by (induction xs rule: compact.induct) auto

lemma set_compact [simp]: "set (compact xs) = set xs"
  by (simp add: compact_eq_remdups_adj)

lemma compact_Nil_iff [simp]: "compact xs = [] \<longleftrightarrow> xs = []"
  by (simp add: compact_eq_remdups_adj)

lemma sorted_compact_distinct: "sorted xs \<Longrightarrow> sorted (compact xs) \<and> distinct (compact xs)"
proof (induction xs rule: compact.induct)
  case (3 x y xs)
  show ?case
  proof (cases "x = y")
    case True
    with 3 show ?thesis by simp
  next
    case False
    from "3.prems" have yx: "\<forall>z \<in> set (y # xs). y \<le> z" and xy: "x \<le> y" by auto
    have "x \<notin> set (compact (y # xs))"
    proof
      assume "x \<in> set (compact (y # xs))"
      then have "x \<in> set (y # xs)" by (simp only: set_compact)
      with yx have "y \<le> x" by blast
      with xy False show False by simp
    qed
    moreover have "\<forall>z \<in> set (compact (y # xs)). x \<le> z"
      using xy yx by (auto simp only: set_compact)
    moreover have "sorted (y # xs)" using "3.prems" by simp
    ultimately show ?thesis using 3 False by simp
  qed
qed auto

text \<open>Appending an element the list does not hold yet (first-seen order kept).\<close>

definition append_new :: "'a list \<Rightarrow> 'a \<Rightarrow> 'a list" where
  "append_new xs x = (if x \<in> set xs then xs else xs @ [x])"

lemma set_append_new [simp]: "set (append_new xs x) = insert x (set xs)"
  by (auto simp: append_new_def)

lemma distinct_append_new [simp]: "distinct (append_new xs x) \<longleftrightarrow> distinct xs"
  by (auto simp: append_new_def)

lemma append_new_not_Nil [simp]: "append_new xs x \<noteq> []"
  by (auto simp: append_new_def)

lemma set_foldl_append_new: "set (foldl append_new xs ys) = set xs \<union> set ys"
  by (induction ys arbitrary: xs) auto

lemma distinct_foldl_append_new: "distinct xs \<Longrightarrow> distinct (foldl append_new xs ys)"
  by (induction ys arbitrary: xs) auto

lemma foldl_append_new_prefix: "\<exists>zs. foldl append_new xs ys = xs @ zs"
proof (induction ys arbitrary: xs)
  case (Cons y ys)
  obtain zs where "foldl append_new (append_new xs y) ys = append_new xs y @ zs"
    using Cons.IH by blast
  then have "foldl append_new xs (y # ys) = append_new xs y @ zs" by simp
  then show ?case unfolding append_new_def by (auto split: if_splits)
qed simp

lemma length_append_new: "length (append_new xs x) \<le> Suc (length xs)"
  by (simp add: append_new_def)

lemma length_foldl_append_new: "length (foldl append_new xs ys) \<le> length xs + length ys"
proof (induction ys arbitrary: xs)
  case (Cons y ys)
  have "length (foldl append_new (append_new xs y) ys) \<le> length (append_new xs y) + length ys"
    by (rule Cons.IH)
  also have "\<dots> \<le> Suc (length xs) + length ys" using length_append_new [of xs y] by simp
  finally show ?case by simp
qed simp

lemma if_Some_eq: "(if b then Some x else None) = Some y \<longleftrightarrow> b \<and> x = y"
  by simp

lemma filter_mem_conv: "x \<in> set (filter P xs) \<longleftrightarrow> x \<in> set xs \<and> P x"
  by auto

end
