(* ===== verification/Go_Strings.thy ===== *)
theory Go_Strings
  imports Go_Prelude
begin

text \<open>
  The part of Go's packages \<open>strings\<close> and \<open>slices\<close> the program uses, over
  byte strings: a Go string is a sequence of bytes, modelled as \<open>string\<close>, whose
  characters are bytes.

  Case mapping works on runes in Go. The model maps the ASCII letters and the four
  non-ASCII code points whose image is ASCII, written in their UTF-8 bytes:
  U+212A (Kelvin sign) and U+0130 under \<open>ToLower\<close>, U+017F (long s) and U+0131
  under \<open>ToUpper\<close>, U+212A and U+017F under the simple folding of
  \<open>EqualFold\<close>. Every other non-ASCII rune has a non-ASCII image, so comparing a
  mapped string with an ASCII constant gives Go's answer; such bytes are left as they
  are.
\<close>

subsection \<open>Prefixes, suffixes, cutting\<close>

definition has_prefix :: "string \<Rightarrow> string \<Rightarrow> bool" where
  "has_prefix s p \<longleftrightarrow> take (length p) s = p"

definition has_suffix :: "string \<Rightarrow> string \<Rightarrow> bool" where
  "has_suffix s p \<longleftrightarrow> length p \<le> length s \<and> drop (length s - length p) s = p"

definition cut_prefix :: "string \<Rightarrow> string \<Rightarrow> string option" where
  "cut_prefix s p = (if has_prefix s p then Some (drop (length p) s) else None)"

definition cut_suffix :: "string \<Rightarrow> string \<Rightarrow> string option" where
  "cut_suffix s p = (if has_suffix s p then Some (take (length s - length p) s) else None)"

definition trim_prefix :: "string \<Rightarrow> string \<Rightarrow> string" where
  "trim_prefix s p = (case cut_prefix s p of Some r \<Rightarrow> r | None \<Rightarrow> s)"

definition trim_suffix :: "string \<Rightarrow> string \<Rightarrow> string" where
  "trim_suffix s p = (case cut_suffix s p of Some r \<Rightarrow> r | None \<Rightarrow> s)"

lemmas affix_defs [go_defs] =
  has_prefix_def has_suffix_def cut_prefix_def cut_suffix_def trim_prefix_def trim_suffix_def

lemma has_prefix_append [simp]: "has_prefix (p @ s) p"
  by (simp add: has_prefix_def)

lemma has_suffix_append [simp]: "has_suffix (s @ p) p"
  by (simp add: has_suffix_def)

lemma has_prefix_iff: "has_prefix s p \<longleftrightarrow> (\<exists>r. s = p @ r)"
  by (auto simp: has_prefix_def) (metis append_take_drop_id)

lemma has_suffix_iff: "has_suffix s p \<longleftrightarrow> (\<exists>r. s = r @ p)"
  by (auto simp: has_suffix_def) (metis append_take_drop_id)

lemma cut_prefix_Some: "cut_prefix s p = Some r \<longleftrightarrow> s = p @ r"
  by (auto simp: cut_prefix_def has_prefix_iff)

lemma cut_prefix_None: "cut_prefix s p = None \<longleftrightarrow> \<not> has_prefix s p"
  by (simp add: cut_prefix_def)

lemma cut_suffix_Some: "cut_suffix s p = Some r \<longleftrightarrow> s = r @ p"
  by (auto simp: cut_suffix_def has_suffix_iff)

lemma cut_suffix_None: "cut_suffix s p = None \<longleftrightarrow> \<not> has_suffix s p"
  by (simp add: cut_suffix_def)

lemma trim_suffix_append [simp]: "trim_suffix (s @ p) p = s"
  using cut_suffix_Some [of "s @ p" p s] by (simp add: trim_suffix_def)

lemma trim_prefix_append [simp]: "trim_prefix (p @ s) p = s"
  using cut_prefix_Some [of "p @ s" p s] by (simp add: trim_prefix_def)

lemma trim_prefix_Cons [simp]: "trim_prefix (c # s) [c] = s"
  using trim_prefix_append [of "[c]" s] by simp

lemma trim_prefix_other: "\<not> has_prefix s p \<Longrightarrow> trim_prefix s p = s"
  by (simp add: trim_prefix_def cut_prefix_def)

subsection \<open>Searching\<close>

fun str_index :: "string \<Rightarrow> string \<Rightarrow> nat option" where
  "str_index [] sub = (if sub = [] then Some 0 else None)"
| "str_index (c # s) sub =
     (if has_prefix (c # s) sub then Some 0 else map_option Suc (str_index s sub))"

definition str_contains :: "string \<Rightarrow> string \<Rightarrow> bool" where
  "str_contains s sub \<longleftrightarrow> str_index s sub \<noteq> None"

text \<open>\<open>strings.Cut\<close>: the text before and after the first separator, and whether there is one.\<close>

definition str_cut :: "string \<Rightarrow> string \<Rightarrow> string \<times> string \<times> bool" where
  "str_cut s sep = (case str_index s sep of
     Some i \<Rightarrow> (take i s, drop (i + length sep) s, True)
   | None \<Rightarrow> (s, [], False))"

lemma str_index_Some:
  "str_index s sub = Some i \<Longrightarrow> i + length sub \<le> length s \<and> take (length sub) (drop i s) = sub"
proof (induction s arbitrary: i)
  case (Cons c s)
  show ?case
  proof (cases "has_prefix (c # s) sub")
    case True
    then have "take (length sub) (c # s) = sub" by (simp only: has_prefix_def)
    moreover from this have "length sub \<le> length (c # s)"
      by (metis length_take min.cobounded1)
    ultimately show ?thesis using Cons.prems True by simp
  next
    case False
    with Cons.prems obtain j where "str_index s sub = Some j" and "i = Suc j" by auto
    with Cons.IH [of j] show ?thesis by simp
  qed
qed (simp split: if_splits)

lemma str_index_None:
  "str_index s sub = None \<longleftrightarrow> (\<forall>i \<le> length s. take (length sub) (drop i s) \<noteq> sub)"
proof (induction s)
  case (Cons c s)
  have "(\<forall>i \<le> length (c # s). take (length sub) (drop i (c # s)) \<noteq> sub) \<longleftrightarrow>
    \<not> has_prefix (c # s) sub \<and> (\<forall>i \<le> length s. take (length sub) (drop i s) \<noteq> sub)" (is "?L \<longleftrightarrow> ?R")
  proof
    assume L: ?L
    have "\<forall>i \<le> length s. take (length sub) (drop i s) \<noteq> sub"
      using L by (auto dest: spec [where x = "Suc _"])
    moreover have "\<not> has_prefix (c # s) sub" using L by (auto simp: has_prefix_def)
    ultimately show ?R by blast
  next
    assume R: ?R
    show ?L
    proof (intro allI impI)
      fix i assume "i \<le> length (c # s)"
      with R show "take (length sub) (drop i (c # s)) \<noteq> sub"
        by (cases i) (auto simp: has_prefix_def)
    qed
  qed
  with Cons show ?case by simp
qed simp

lemma str_index_least:
  "str_index s sub = Some i \<Longrightarrow> j < i \<Longrightarrow> take (length sub) (drop j s) \<noteq> sub"
proof (induction s arbitrary: i j)
  case (Cons c s)
  then have np: "\<not> has_prefix (c # s) sub" by (auto split: if_splits)
  with Cons.prems obtain k where k: "str_index s sub = Some k" "i = Suc k" by auto
  show ?case
  proof (cases j)
    case 0
    with np show ?thesis by (simp add: has_prefix_def)
  next
    case (Suc j')
    with Cons.prems k Cons.IH [of k j'] show ?thesis by simp
  qed
qed (simp split: if_splits)

lemma str_contains_iff: "str_contains s sub \<longleftrightarrow> (\<exists>a b. s = a @ sub @ b)"
proof
  assume "str_contains s sub"
  then obtain i where "str_index s sub = Some i" by (auto simp: str_contains_def)
  then have "take (length sub) (drop i s) = sub" by (simp add: str_index_Some)
  then have "s = take i s @ sub @ drop (length sub) (drop i s)"
    by (metis append_take_drop_id)
  then show "\<exists>a b. s = a @ sub @ b" by blast
next
  assume "\<exists>a b. s = a @ sub @ b"
  then obtain a b where s: "s = a @ sub @ b" by blast
  then have "take (length sub) (drop (length a) s) = sub" and "length a \<le> length s" by simp_all
  then show "str_contains s sub" by (auto simp: str_contains_def str_index_None)
qed

lemma str_cut_found: "str_cut s sep = (a, b, True) \<Longrightarrow> s = a @ sep @ b"
proof -
  assume c: "str_cut s sep = (a, b, True)"
  then obtain i where i: "str_index s sep = Some i" "a = take i s" "b = drop (i + length sep) s"
    by (auto simp: str_cut_def split: option.splits)
  have "drop i s = sep @ b"
    using str_index_Some [OF i(1)] i(3)
    by (metis add.commute append_take_drop_id drop_drop)
  then show "s = a @ sep @ b" using i(2) by (metis append_take_drop_id)
qed

lemma str_cut_not_found: "str_cut s sep = (a, b, False) \<longleftrightarrow> a = s \<and> b = [] \<and> \<not> str_contains s sep"
  by (auto simp: str_cut_def str_contains_def split: option.splits)

text \<open>\<open>strings.LastIndex\<close> of one byte, and the cut at it (\<open>strings.CutLast\<close>).\<close>

fun last_index_char :: "string \<Rightarrow> char \<Rightarrow> nat option" where
  "last_index_char [] c = None"
| "last_index_char (x # s) c = (case last_index_char s c of
     Some i \<Rightarrow> Some (Suc i)
   | None \<Rightarrow> if x = c then Some 0 else None)"

lemma last_index_char_None [simp]: "last_index_char s c = None \<longleftrightarrow> c \<notin> set s"
  by (induction s) (auto split: option.splits)

lemma last_index_char_Some:
  "last_index_char s c = Some i \<Longrightarrow>
   i < length s \<and> s ! i = c \<and> c \<notin> set (drop (Suc i) s) \<and> s = take i s @ c # drop (Suc i) s"
proof (induction s arbitrary: i)
  case (Cons x s)
  then show ?case by (cases "last_index_char s c") (auto split: if_splits)
qed simp

definition count_char :: "string \<Rightarrow> char \<Rightarrow> nat" where
  "count_char s c = length (filter (\<lambda>x. x = c) s)"

lemma count_char_simps [simp]:
  "count_char [] c = 0"
  "count_char (x # s) c = (if x = c then Suc (count_char s c) else count_char s c)"
  "count_char (s @ t) c = count_char s c + count_char t c"
  by (simp_all add: count_char_def)

lemma count_char_0 [simp]: "count_char s c = 0 \<longleftrightarrow> c \<notin> set s"
  by (induction s) auto


subsection \<open>Splitting and joining\<close>

text \<open>\<open>strings.Split\<close> with a one-byte separator: never empty, one more piece than separators.\<close>

fun split_on :: "char \<Rightarrow> string \<Rightarrow> string list" where
  "split_on c [] = [[]]"
| "split_on c (x # s) =
     (if x = c then [] # split_on c s
      else (case split_on c s of [] \<Rightarrow> [[x]] | y # ys \<Rightarrow> (x # y) # ys))"

text \<open>\<open>strings.Join\<close>.\<close>

fun join :: "string \<Rightarrow> string list \<Rightarrow> string" where
  "join sep [] = []"
| "join sep [x] = x"
| "join sep (x # y # ys) = x @ sep @ join sep (y # ys)"

lemma split_on_not_Nil [simp]: "split_on c s \<noteq> []"
  by (cases s) (auto split: list.splits)

lemma split_on_Nil_eq [simp]: "split_on c s = [] \<longleftrightarrow> False"
  by simp

lemma length_split_on: "length (split_on c s) = Suc (count_char s c)"
proof (induction s)
  case (Cons x s)
  then show ?case by (cases "split_on c s") auto
qed simp

lemma split_on_no_sep: "seg \<in> set (split_on c s) \<Longrightarrow> c \<notin> set seg"
proof (induction s arbitrary: seg)
  case (Cons x s)
  show ?case
  proof (cases "x = c")
    case True
    with Cons show ?thesis by auto
  next
    case False
    obtain y ys where y: "split_on c s = y # ys" by (cases "split_on c s") auto
    with False Cons.prems have "seg = x # y \<or> seg \<in> set ys" by auto
    with False y Cons.IH show ?thesis by auto
  qed
qed simp

lemma join_Cons: "xs \<noteq> [] \<Longrightarrow> join sep (x # xs) = x @ sep @ join sep xs"
  by (cases xs) auto

lemma join_snoc: "xs \<noteq> [] \<Longrightarrow> join sep (xs @ [x]) = join sep xs @ sep @ x"
proof (induction xs)
  case (Cons a xs)
  then show ?case by (cases "xs = []") (simp_all add: join_Cons)
qed simp

lemma join_split_on [simp]: "join [c] (split_on c s) = s"
proof (induction s)
  case (Cons x s)
  obtain y ys where y: "split_on c s = y # ys" by (cases "split_on c s") auto
  show ?case
  proof (cases "x = c")
    case True
    with Cons show ?thesis by (simp add: join_Cons)
  next
    case False
    have "join [c] ((x # y) # ys) = x # join [c] (y # ys)" by (cases ys) auto
    with False y Cons show ?thesis by simp
  qed
qed simp

lemma split_on_id: "c \<notin> set s \<Longrightarrow> split_on c s = [s]"
  by (induction s) auto

lemma split_on_append: "c \<notin> set s \<Longrightarrow> split_on c (s @ c # t) = s # split_on c t"
  by (induction s) auto

lemma split_on_join:
  "xs \<noteq> [] \<Longrightarrow> \<forall>x \<in> set xs. c \<notin> set x \<Longrightarrow> split_on c (join [c] xs) = xs"
proof (induction xs)
  case (Cons x xs)
  then show ?case by (cases "xs = []") (auto simp: split_on_id split_on_append join_Cons)
qed simp

lemma split_on_inject: "split_on c s = split_on c t \<longleftrightarrow> s = t"
  by (metis join_split_on)

text \<open>
  \<open>strings.Trim\<close>, \<open>TrimRight\<close> with a one-byte cutset; \<open>TrimSpace\<close>, which trims the
  runes of \<open>unicode.IsSpace\<close>, here by their UTF-8 bytes.
\<close>

definition trim_right_char :: "char \<Rightarrow> string \<Rightarrow> string" where
  "trim_right_char c s = rev (dropWhile (\<lambda>x. x = c) (rev s))"

definition trim_char :: "char \<Rightarrow> string \<Rightarrow> string" where
  "trim_char c s = trim_right_char c (dropWhile (\<lambda>x. x = c) s)"

definition space_runes :: "string list" where
  "space_runes =
     [[CHR '' ''], [CHR 0x09], [CHR 0x0A], [CHR 0x0B], [CHR 0x0C], [CHR 0x0D],
      [CHR 0xC2, CHR 0x85], [CHR 0xC2, CHR 0xA0], [CHR 0xE1, CHR 0x9A, CHR 0x80],
      [CHR 0xE2, CHR 0x80, CHR 0x80], [CHR 0xE2, CHR 0x80, CHR 0x81], [CHR 0xE2, CHR 0x80, CHR 0x82],
      [CHR 0xE2, CHR 0x80, CHR 0x83], [CHR 0xE2, CHR 0x80, CHR 0x84], [CHR 0xE2, CHR 0x80, CHR 0x85],
      [CHR 0xE2, CHR 0x80, CHR 0x86], [CHR 0xE2, CHR 0x80, CHR 0x87], [CHR 0xE2, CHR 0x80, CHR 0x88],
      [CHR 0xE2, CHR 0x80, CHR 0x89], [CHR 0xE2, CHR 0x80, CHR 0x8A], [CHR 0xE2, CHR 0x80, CHR 0xA8],
      [CHR 0xE2, CHR 0x80, CHR 0xA9], [CHR 0xE2, CHR 0x80, CHR 0xAF], [CHR 0xE2, CHR 0x81, CHR 0x9F],
      [CHR 0xE3, CHR 0x80, CHR 0x80]]"

fun trim_runes :: "nat \<Rightarrow> string list \<Rightarrow> string \<Rightarrow> string" where
  "trim_runes 0 rs s = s"
| "trim_runes (Suc n) rs s =
     (case find (has_prefix s) rs of Some r \<Rightarrow> trim_runes n rs (drop (length r) s) | None \<Rightarrow> s)"

text \<open>The count bounds the number of runes in the string.\<close>

definition trim_left_space :: "string \<Rightarrow> string" where
  "trim_left_space s = trim_runes (length s) space_runes s"

definition trim_right_space :: "string \<Rightarrow> string" where
  "trim_right_space s = rev (trim_runes (length s) (map rev space_runes) (rev s))"

definition trim_space :: "string \<Rightarrow> string" where
  "trim_space s = trim_right_space (trim_left_space s)"

lemmas trim_defs [go_defs] = trim_right_char_def trim_char_def trim_space_def

subsection \<open>Case mapping\<close>

text \<open>ASCII letters by their byte value.\<close>

definition byte_val :: "char \<Rightarrow> nat" where
  "byte_val c = of_char c"

definition ascii_lower :: "char \<Rightarrow> char" where
  "ascii_lower c = (if 65 \<le> byte_val c \<and> byte_val c \<le> 90 then char_of (byte_val c + 32) else c)"

definition ascii_upper :: "char \<Rightarrow> char" where
  "ascii_upper c = (if 97 \<le> byte_val c \<and> byte_val c \<le> 122 then char_of (byte_val c - 32) else c)"

function to_lower :: "string \<Rightarrow> string" where
  "to_lower [] = []"
| "to_lower (c # s) =
     (if c = CHR 0xE2 \<and> take 2 s = [CHR 0x84, CHR 0xAA] then CHR ''k'' # to_lower (drop 2 s)
      else if c = CHR 0xC4 \<and> take 1 s = [CHR 0xB0] then CHR ''i'' # to_lower (drop 1 s)
      else ascii_lower c # to_lower s)"
  by pat_completeness auto
termination by (relation "measure length") auto

function to_upper :: "string \<Rightarrow> string" where
  "to_upper [] = []"
| "to_upper (c # s) =
     (if c = CHR 0xC5 \<and> take 1 s = [CHR 0xBF] then CHR ''S'' # to_upper (drop 1 s)
      else if c = CHR 0xC4 \<and> take 1 s = [CHR 0xB1] then CHR ''I'' # to_upper (drop 1 s)
      else ascii_upper c # to_upper s)"
  by pat_completeness auto
termination by (relation "measure length") auto

text \<open>The simple case folding \<open>EqualFold\<close> compares under.\<close>

function fold_case :: "string \<Rightarrow> string" where
  "fold_case [] = []"
| "fold_case (c # s) =
     (if c = CHR 0xE2 \<and> take 2 s = [CHR 0x84, CHR 0xAA] then CHR ''k'' # fold_case (drop 2 s)
      else if c = CHR 0xC5 \<and> take 1 s = [CHR 0xBF] then CHR ''s'' # fold_case (drop 1 s)
      else ascii_lower c # fold_case s)"
  by pat_completeness auto
termination by (relation "measure length") auto

definition equal_fold :: "string \<Rightarrow> string \<Rightarrow> bool" where
  "equal_fold s t \<longleftrightarrow> fold_case s = fold_case t"

definition is_ascii :: "string \<Rightarrow> bool" where
  "is_ascii s \<longleftrightarrow> (\<forall>c \<in> set s. byte_val c < 128)"

lemmas case_defs [go_defs] = ascii_lower_def ascii_upper_def byte_val_def equal_fold_def

lemma equal_fold_refl [simp]: "equal_fold s s"
  by (simp add: equal_fold_def)

lemma equal_fold_sym: "equal_fold s t \<longleftrightarrow> equal_fold t s"
  by (auto simp: equal_fold_def)

lemma equal_fold_trans: "equal_fold s t \<Longrightarrow> equal_fold t u \<Longrightarrow> equal_fold s u"
  by (simp add: equal_fold_def)

lemma byte_val_less: "byte_val c < 256"
  by (simp add: byte_val_def)

lemma byte_val_char_of [simp]: "byte_val (char_of n) = n mod 256"
  by (simp add: byte_val_def)

lemma to_lower_ascii: "is_ascii s \<Longrightarrow> to_lower s = map ascii_lower s"
proof (induction s rule: to_lower.induct)
  case (2 c s)
  then have "byte_val c < 128" by (simp add: is_ascii_def)
  then have "c \<noteq> CHR 0xE2" "c \<noteq> CHR 0xC4" by (auto simp: byte_val_def)
  with 2 show ?case by (simp add: is_ascii_def)
qed simp

lemma ascii_lower_idem [simp]: "ascii_lower (ascii_lower c) = ascii_lower c"
proof (cases "65 \<le> byte_val c \<and> byte_val c \<le> 90")
  case True
  then have "byte_val (ascii_lower c) = byte_val c + 32" by (simp add: ascii_lower_def)
  with True show ?thesis by (simp add: ascii_lower_def)
next
  case False
  then show ?thesis by (auto simp: ascii_lower_def)
qed

lemma is_ascii_Cons [simp]: "is_ascii (c # s) \<longleftrightarrow> byte_val c < 128 \<and> is_ascii s"
  and is_ascii_Nil [simp]: "is_ascii []"
  by (auto simp: is_ascii_def)

lemma byte_val_lower_ascii: "byte_val c < 128 \<Longrightarrow> byte_val (ascii_lower c) < 128"
  by (auto simp: ascii_lower_def)

lemma to_lower_idem_ascii: "is_ascii s \<Longrightarrow> to_lower (to_lower s) = to_lower s"
proof -
  assume a: "is_ascii s"
  then have "is_ascii (map ascii_lower s)"
    by (induction s) (auto simp: byte_val_lower_ascii)
  with a show ?thesis by (simp add: to_lower_ascii o_def)
qed

end
