(* ===== verification/Go_Url.thy ===== *)
theory Go_Url
  imports Go_Strings
begin

text \<open>
  The part of Go's \<open>net/url\<close> and \<open>strconv\<close> the program uses: percent-decoding
  (\<open>PathUnescape\<close>, \<open>QueryUnescape\<close>), query parsing (\<open>ParseQuery\<close>, with the
  values Go keeps when it also reports an error) and \<open>ParseBool\<close>. Query values are
  an association list in the order of the query; \<open>Values.Get\<close> and \<open>Values.Has\<close>
  read it by key.
\<close>

subsection \<open>Percent-decoding\<close>

definition hex_val :: "char \<Rightarrow> nat option" where
  "hex_val c = (let n = byte_val c in
     if 48 \<le> n \<and> n \<le> 57 then Some (n - 48)
     else if 65 \<le> n \<and> n \<le> 70 then Some (n - 55)
     else if 97 \<le> n \<and> n \<le> 102 then Some (n - 87)
     else None)"

fun hex_pair :: "char \<Rightarrow> char \<Rightarrow> char option" where
  "hex_pair a b = (case (hex_val a, hex_val b) of
     (Some h, Some l) \<Rightarrow> Some (char_of (16 * h + l))
   | _ \<Rightarrow> None)"

text \<open>\<open>sp\<close> says whether \<open>+\<close> reads as a space (query) or as itself (path).\<close>

fun unescape :: "bool \<Rightarrow> string \<Rightarrow> string option" where
  "unescape sp [] = Some []"
| "unescape sp (c # s) =
     (if c = CHR ''%'' then
        (case s of
           a # b # r \<Rightarrow> (case hex_pair a b of
              Some d \<Rightarrow> map_option ((#) d) (unescape sp r)
            | None \<Rightarrow> None)
         | _ \<Rightarrow> None)
      else map_option ((#) (if sp \<and> c = CHR ''+'' then CHR '' '' else c)) (unescape sp s))"

definition path_unescape :: "string \<Rightarrow> string option" where
  "path_unescape = unescape False"

definition query_unescape :: "string \<Rightarrow> string option" where
  "query_unescape = unescape True"

lemma unescape_plain:
  "CHR ''%'' \<notin> set s \<Longrightarrow> unescape False s = Some s"
  by (induction s) auto

lemma path_unescape_plain [simp]: "CHR ''%'' \<notin> set s \<Longrightarrow> path_unescape s = Some s"
  by (simp add: path_unescape_def unescape_plain)

lemma path_unescape_Nil [simp]: "path_unescape [] = Some []"
  by simp

lemma unescape_length: "unescape p s = Some d \<Longrightarrow> length d \<le> length s"
  by (induction p s arbitrary: d rule: unescape.induct)
     (fastforce split: if_splits list.splits option.splits)+

text \<open>The upper-case percent-encoding of one byte decodes to that byte.\<close>

definition hex_digit :: "nat \<Rightarrow> char" where
  "hex_digit n = (if n < 10 then char_of (48 + n) else char_of (55 + n))"

definition escape_byte :: "char \<Rightarrow> string" where
  "escape_byte c = [CHR ''%'', hex_digit (byte_val c div 16), hex_digit (byte_val c mod 16)]"

lemma hex_val_digit: "n < 16 \<Longrightarrow> hex_val (hex_digit n) = Some n"
  by (auto simp: hex_val_def hex_digit_def Let_def)

lemma char_of_byte_val [simp]: "char_of (byte_val c) = c"
  by (simp add: byte_val_def)

lemma unescape_escape_byte:
  "unescape p (escape_byte c @ s) = map_option ((#) c) (unescape p s)"
proof -
  have "byte_val c div 16 < 16" using byte_val_less [of c] by simp
  then have "hex_pair (hex_digit (byte_val c div 16)) (hex_digit (byte_val c mod 16)) = Some c"
    by (simp add: hex_val_digit)
  then show ?thesis by (simp add: escape_byte_def del: hex_pair.simps)
qed

lemma unescape_escape_all:
  "unescape p (concat (map escape_byte s)) = Some s"
  by (induction s) (auto simp: unescape_escape_byte)

subsection \<open>Queries\<close>

type_synonym url_values = "(string \<times> string) list"

fun parse_pairs :: "string list \<Rightarrow> url_values \<times> bool" where
  \<comment> \<open>The values kept, and whether some pair was in error.\<close>
  "parse_pairs [] = ([], False)"
| "parse_pairs (kv # rest) =
     (let (vals, bad) = parse_pairs rest in
      if CHR '';'' \<in> set kv then (vals, True)
      else if kv = [] then (vals, bad)
      else (let (k, v, _) = str_cut kv ''='' in
        case query_unescape k of
          None \<Rightarrow> (vals, True)
        | Some k' \<Rightarrow> (case query_unescape v of
             None \<Rightarrow> (vals, True)
           | Some v' \<Rightarrow> ((k', v') # vals, bad))))"

definition max_query_params :: nat where
  "max_query_params = 10000"

text \<open>
  \<open>url.ParseQuery\<close>: the values and whether it returned an error. A query of more than
  \<open>max_query_params\<close> pairs is refused whole.
\<close>

definition parse_query :: "string \<Rightarrow> url_values \<times> bool" where
  "parse_query q =
     (if count_char q CHR ''&'' + 1 > max_query_params then ([], True)
      else if q = [] then ([], False)
      else parse_pairs (split_on CHR ''&'' q))"

definition values_of :: "url_values \<Rightarrow> string \<Rightarrow> string list" where
  "values_of vals k = map snd (filter (\<lambda>(k', _). k' = k) vals)"

definition values_get :: "url_values \<Rightarrow> string \<Rightarrow> string" where
  "values_get vals k = (case values_of vals k of [] \<Rightarrow> [] | v # _ \<Rightarrow> v)"

definition values_has :: "url_values \<Rightarrow> string \<Rightarrow> bool" where
  "values_has vals k \<longleftrightarrow> values_of vals k \<noteq> []"

lemma values_has_iff: "values_has vals k \<longleftrightarrow> k \<in> fst ` set vals"
  by (force simp: values_has_def values_of_def filter_empty_conv)

text \<open>\<open>strconv.ParseBool\<close>; \<open>None\<close> is its error.\<close>

definition parse_bool :: "string \<Rightarrow> bool option" where
  "parse_bool s =
     (if s \<in> set [''1'', ''t'', ''T'', ''TRUE'', ''true'', ''True''] then Some True
      else if s \<in> set [''0'', ''f'', ''F'', ''FALSE'', ''false'', ''False''] then Some False
      else None)"

subsection \<open>Headers\<close>

text \<open>
  \<open>http.Header\<close>: keys with their values, in some order. \<open>Get\<close> canonicalises the
  name it is asked for and reads the first value under exactly that key, and
  \<open>Add\<close> canonicalises the key it stores under. The canonical form upper-cases the
  first letter and every letter after a hyphen and lower-cases the rest, unless the name
  holds a byte that is not a token byte, when it is left alone.
\<close>

type_synonym header = "(string \<times> string list) list"

definition is_token_byte :: "char \<Rightarrow> bool" where
  "is_token_byte c = (let n = byte_val c in
     (48 \<le> n \<and> n \<le> 57) \<or> (65 \<le> n \<and> n \<le> 90) \<or> (97 \<le> n \<and> n \<le> 122) \<or>
     c \<in> set ''!#$%&*+-.^_|~'' \<or> n = 39 \<or> n = 96)"

fun canonical_bytes :: "bool \<Rightarrow> string \<Rightarrow> string" where
  "canonical_bytes up [] = []"
| "canonical_bytes up (c # s) =
     (if up then ascii_upper c else ascii_lower c) # canonical_bytes (c = CHR ''-'') s"

definition canonical_header :: "string \<Rightarrow> string" where
  "canonical_header k = (if list_all is_token_byte k then canonical_bytes True k else k)"

definition header_values :: "header \<Rightarrow> string \<Rightarrow> string list" where
  "header_values h k = (case map_of h (canonical_header k) of None \<Rightarrow> [] | Some vs \<Rightarrow> vs)"

definition header_get :: "header \<Rightarrow> string \<Rightarrow> string" where
  "header_get h k = (case header_values h k of [] \<Rightarrow> [] | v # _ \<Rightarrow> v)"

fun header_upd :: "header \<Rightarrow> string \<Rightarrow> (string list \<Rightarrow> string list) \<Rightarrow> header" where
  "header_upd [] k f = [(k, f [])]"
| "header_upd ((k', vs) # h) k f =
     (if k' = k then (k', f vs) # h else (k', vs) # header_upd h k f)"

definition header_add :: "header \<Rightarrow> string \<Rightarrow> string \<Rightarrow> header" where
  "header_add h k v = header_upd h (canonical_header k) (\<lambda>vs. vs @ [v])"

definition header_set :: "header \<Rightarrow> string \<Rightarrow> string \<Rightarrow> header" where
  "header_set h k v = header_upd h (canonical_header k) (\<lambda>_. [v])"

definition header_del :: "header \<Rightarrow> string \<Rightarrow> header" where
  "header_del h k = filter (\<lambda>(k', _). k' \<noteq> canonical_header k) h"

lemma map_of_header_upd:
  "map_of (header_upd h k f) = (map_of h)(k \<mapsto> f (case map_of h k of None \<Rightarrow> [] | Some vs \<Rightarrow> vs))"
  by (induction h k f rule: header_upd.induct) auto

lemma header_values_set [simp]: "header_values (header_set h k v) k = [v]"
  by (simp add: header_values_def header_set_def map_of_header_upd)

lemma header_values_set_other:
  "canonical_header k \<noteq> canonical_header k' \<Longrightarrow> header_values (header_set h k v) k' = header_values h k'"
  by (simp add: header_values_def header_set_def map_of_header_upd)

lemma header_get_set [simp]: "header_get (header_set h k v) k = v"
  by (simp add: header_get_def)

lemma header_values_add [simp]: "header_values (header_add h k v) k = header_values h k @ [v]"
  by (simp add: header_values_def header_add_def map_of_header_upd)

lemma header_del_values: "header_values (header_del h k) k = []"
  unfolding header_values_def header_del_def
  by (induction h) (auto split: option.splits)

text \<open>Header keys of a given fold (the credential scan reads the real keys).\<close>

lemma header_upd_keys:
  "fst ` set (header_upd h k f) = insert k (fst ` set h)"
  by (induction h k f rule: header_upd.induct) auto

end
