(* ===== verification/Exposure.thy ===== *)
theory Exposure
  imports Go_Url "HOL-Library.AList" "HOL-Library.Char_ord" "HOL-Library.List_Lexorder"
begin

text \<open>
  Package \<open>internal/auth/exposure\<close>: the access-level lattice and the exposure ceiling
  shared by the github and gitlab connectors. An \<open>Exposure\<close> map is an association list
  with distinct keys (\<open>exposure_wf\<close>); a missing key reads as the zero value
  \<open>LevelNone\<close>.
\<close>

datatype level = LevelNone | LevelRead | LevelWrite

fun level_rank :: "level \<Rightarrow> nat" where
  "level_rank LevelNone = 0"
| "level_rank LevelRead = 1"
| "level_rank LevelWrite = 2"

instantiation level :: linorder
begin

definition less_eq_level :: "level \<Rightarrow> level \<Rightarrow> bool" where
  "a \<le> b \<longleftrightarrow> level_rank a \<le> level_rank b"

definition less_level :: "level \<Rightarrow> level \<Rightarrow> bool" where
  "a < b \<longleftrightarrow> level_rank a < level_rank b"

instance
proof
  fix x y z :: level
  show "x < y \<longleftrightarrow> x \<le> y \<and> \<not> y \<le> x" by (auto simp: less_eq_level_def less_level_def)
  show "x \<le> x" by (simp add: less_eq_level_def)
  show "x \<le> y \<Longrightarrow> y \<le> z \<Longrightarrow> x \<le> z" by (simp add: less_eq_level_def)
  show "x \<le> y \<Longrightarrow> y \<le> x \<Longrightarrow> x = y"
    by (cases x; cases y) (auto simp: less_eq_level_def)
  show "x \<le> y \<or> y \<le> x" by (auto simp: less_eq_level_def)
qed

end

definition default_key :: string where
  "default_key = ''default''"

fun level_name :: "level \<Rightarrow> string" where
  "level_name LevelWrite = ''write''"
| "level_name LevelRead = ''read''"
| "level_name LevelNone = ''none''"

definition parse_level :: "string \<Rightarrow> level option" where
  "parse_level s =
     (if s = ''none'' then Some LevelNone
      else if s = ''read'' then Some LevelRead
      else if s = ''write'' then Some LevelWrite
      else None)"

definition allows :: "level \<Rightarrow> level \<Rightarrow> bool" where
  "allows ceiling required \<longleftrightarrow> ceiling \<ge> required"

type_synonym exposure = "(string \<times> level) list"

definition exposure_wf :: "exposure \<Rightarrow> bool" where
  "exposure_wf e \<longleftrightarrow> distinct (map fst e)"

definition exp_get :: "exposure \<Rightarrow> string \<Rightarrow> level" where
  "exp_get e k = (case map_of e k of Some l \<Rightarrow> l | None \<Rightarrow> LevelNone)"

text \<open>\<open>MergeExposure\<close>: \<open>maps.Copy\<close> of the operator map over the baseline.\<close>

definition merge_exposure :: "exposure \<Rightarrow> exposure \<Rightarrow> exposure" where
  "merge_exposure baseline operator = AList.merge baseline operator"

fun parse_operator :: "(string \<times> string) list \<Rightarrow> exposure" where
  "parse_operator [] = []"
| "parse_operator ((k, v) # rest) =
     (case parse_level v of
        Some l \<Rightarrow> AList.update k l (parse_operator rest)
      | None \<Rightarrow> parse_operator rest)"

definition build_exposure :: "exposure \<Rightarrow> (string \<times> string) list \<Rightarrow> exposure" where
  "build_exposure baseline operator = merge_exposure baseline (parse_operator operator)"

definition compact_ceiling :: "exposure \<Rightarrow> string \<Rightarrow> string" where
  "compact_ceiling e sensitive_key =
     (let overrides = sort (map (\<lambda>(k, v). k @ ''='' @ level_name v)
            (filter (\<lambda>(k, v). k \<noteq> default_key \<and> k \<noteq> sensitive_key) e))
      in default_key @ ''='' @ level_name (exp_get e default_key)
         @ concat (map (\<lambda>s. '','' @ s) overrides)
         @ '','' @ sensitive_key @ ''='' @ level_name (exp_get e sensitive_key))"

subsection \<open>Lemmas\<close>

lemmas level_defs [go_defs] = less_eq_level_def less_level_def allows_def

lemma parse_level_name [simp]: "parse_level (level_name l) = Some l"
  by (cases l) (simp_all add: parse_level_def)

lemma parse_level_Some: "parse_level s = Some l \<longleftrightarrow> s = level_name l"
  by (cases l) (auto simp: parse_level_def)

lemma allows_none: "allows LevelNone l \<longleftrightarrow> l = LevelNone"
  by (cases l) (simp_all add: level_defs)

lemma allows_read_write [simp]: "\<not> allows LevelRead LevelWrite"
  by (simp add: level_defs)

lemma allows_mono: "allows c l \<Longrightarrow> c \<le> c' \<Longrightarrow> allows c' l"
  by (auto simp: allows_def intro: order_trans)

lemma map_of_merge_exposure: "map_of (merge_exposure b p) = map_of b ++ map_of p"
  by (simp add: merge_exposure_def merge_conv')

lemma merge_exposure_wf: "exposure_wf b \<Longrightarrow> exposure_wf (merge_exposure b p)"
  by (simp add: exposure_wf_def merge_exposure_def distinct_merge)

lemma map_of_parse_operator:
  "map_of (parse_operator op) k =
     (case map_of (filter (\<lambda>(k, v). parse_level v \<noteq> None) op) k of
        None \<Rightarrow> None | Some v \<Rightarrow> parse_level v)"
  by (induction op) (auto simp: update_conv' split: option.splits)

lemma distinct_parse_operator: "distinct (map fst (parse_operator op))"
  by (induction op) (auto simp: distinct_update split: option.splits)

text \<open>Without an entry for a key the baseline level stays.\<close>

lemma build_exposure_untouched:
  "k \<notin> fst ` set op \<Longrightarrow> map_of (build_exposure b op) k = map_of b k"
proof -
  assume k: "k \<notin> fst ` set op"
  have "map_of (filter (\<lambda>(k, v). parse_level v \<noteq> None) op) k = None"
    using k by (force simp: map_of_eq_None_iff)
  then have "map_of (parse_operator op) k = None" by (simp add: map_of_parse_operator)
  then show ?thesis by (simp add: build_exposure_def map_of_merge_exposure map_add_def)
qed

lemma build_exposure_invalid:
  "distinct (map fst op) \<Longrightarrow> (k, v) \<in> set op \<Longrightarrow> parse_level v = None \<Longrightarrow>
   map_of (build_exposure b op) k = map_of b k"
proof -
  assume d: "distinct (map fst op)" and kv: "(k, v) \<in> set op" and bad: "parse_level v = None"
  have "map_of (filter (\<lambda>(k, v). parse_level v \<noteq> None) op) k = None"
  proof (rule ccontr)
    assume "map_of (filter (\<lambda>(k, v). parse_level v \<noteq> None) op) k \<noteq> None"
    then obtain w where "map_of (filter (\<lambda>(k, v). parse_level v \<noteq> None) op) k = Some w" by blast
    from map_of_SomeD [OF this] have "(k, w) \<in> set op" and "parse_level w \<noteq> None" by auto
    with d kv bad show False by (metis map_of_eq_Some_iff option.inject)
  qed
  then have "map_of (parse_operator op) k = None" by (simp add: map_of_parse_operator)
  then show ?thesis by (simp add: build_exposure_def map_of_merge_exposure map_add_def)
qed

lemma build_exposure_set:
  "distinct (map fst op) \<Longrightarrow> (k, v) \<in> set op \<Longrightarrow> parse_level v = Some l \<Longrightarrow>
   map_of (build_exposure b op) k = Some l"
proof -
  assume d: "distinct (map fst op)" and kv: "(k, v) \<in> set op" and l: "parse_level v = Some l"
  have "distinct (map fst (filter (\<lambda>(k, v). parse_level v \<noteq> None) op))"
    using d by (rule distinct_map_filter)
  moreover have "(k, v) \<in> set (filter (\<lambda>(k, v). parse_level v \<noteq> None) op)" using kv l by simp
  ultimately have "map_of (filter (\<lambda>(k, v). parse_level v \<noteq> None) op) k = Some v"
    by (rule map_of_is_SomeI)
  with l have "map_of (parse_operator op) k = Some l" by (simp add: map_of_parse_operator)
  then show ?thesis by (simp add: build_exposure_def map_of_merge_exposure)
qed

lemma build_exposure_wf: "exposure_wf b \<Longrightarrow> exposure_wf (build_exposure b op)"
  by (simp add: build_exposure_def merge_exposure_wf)

text \<open>
  Building the effective ceiling never over-grants: a key the operator did not set, or
  set to a value that is not a level, keeps the baseline's level, and a key set to a level
  name gets exactly that level.
\<close>

theorem build_exposure_exact:
  "distinct (map fst op) \<Longrightarrow>
   map_of (build_exposure b op) k =
     (case map_of op k of
        None \<Rightarrow> map_of b k
      | Some v \<Rightarrow> (case parse_level v of None \<Rightarrow> map_of b k | Some l \<Rightarrow> Some l))"
proof (cases "map_of op k")
  case None
  then have "k \<notin> fst ` set op" by (simp add: map_of_eq_None_iff)
  with None show ?thesis by (simp add: build_exposure_untouched)
next
  case (Some v)
  assume d: "distinct (map fst op)"
  have kv: "(k, v) \<in> set op" using Some by (rule map_of_SomeD)
  show ?thesis
    using d kv Some by (cases "parse_level v") (auto simp: build_exposure_invalid build_exposure_set)
qed

theorem build_exposure_exact_witness:
  "map_of (build_exposure [(''default'', LevelRead), (''s'', LevelNone)]
      [(''issues'', ''write''), (''s'', ''WRITE'')]) ''s'' = Some LevelNone"
proof -
  have "distinct (map fst [(''issues'', ''write''), (''s'', ''WRITE'')])" by simp
  from build_exposure_exact [OF this] show ?thesis by (simp add: parse_level_def)
qed

end
