(* ===== verification/Json.thy ===== *)
theory Json
  imports Go_Strings
begin

text \<open>
  JSON values as \<open>encoding/json\<close> hands them over: objects keep the document order
  and have distinct keys (\<open>json_wf\<close>), since decoding into a map keeps the last value
  of a key. \<open>struct_get\<close> is the lookup a struct field with a \<open>json\<close> tag does: the
  key equals the tag up to case folding, and the last such key wins.
\<close>

datatype json =
    JNull
  | JBool bool
  | JNum string
  | JStr string
  | JArr "json list"
  | JObj "(string \<times> json) list"

lemma size_json_member [termination_simp]:
  "kv \<in> set kvs \<Longrightarrow> size (snd kv) < Suc (size_list (size_prod (\<lambda>_. 0) size) kvs)"
  by (induction kvs) auto

fun json_wf :: "json \<Rightarrow> bool" where
  "json_wf (JArr js) = list_all json_wf js"
| "json_wf (JObj kvs) =
     (distinct (map fst kvs) \<and> list_all (\<lambda>kv. json_wf (snd kv)) kvs)"
| "json_wf _ = True"

definition struct_values :: "(string \<times> json) list \<Rightarrow> string \<Rightarrow> json list" where
  "struct_values kvs tag = map snd (filter (\<lambda>(k, _). equal_fold k tag) kvs)"

definition struct_get :: "(string \<times> json) list \<Rightarrow> string \<Rightarrow> json option" where
  "struct_get kvs tag = (case struct_values kvs tag of [] \<Rightarrow> None | vs \<Rightarrow> Some (last vs))"

text \<open>Decoding one value into a \<open>string\<close> field: null leaves it, another type is an error.\<close>

fun decode_string :: "json option \<Rightarrow> string \<Rightarrow> string option" where
  "decode_string None old = Some old"
| "decode_string (Some JNull) old = Some old"
| "decode_string (Some (JStr s)) old = Some s"
| "decode_string (Some _) old = None"

end
