(* ===== verification/Github_Table.thy ===== *)
theory Github_Table
  imports Exposure Json "HOL-Library.Product_Lexorder"
begin

text \<open>
  \<open>internal/auth/github/table.go\<close>: the routing table distilled from GitHub's OpenAPI
  and its lookup. \<open>byMethod\<close> is an association list with one entry per method and
  \<open>multiSegment\<close> the list of the parameter names marked \<open>x-multi-segment\<close>.
  The memoised matcher is modelled with its \<open>failed\<close> slice as an explicit state, and
  proved equal to a declarative reading of a template.
\<close>

subsection \<open>Data\<close>

datatype route = Route (category: string) (subcategory: string)

instantiation route :: linorder
begin

definition less_eq_route :: "route \<Rightarrow> route \<Rightarrow> bool" where
  "a \<le> b \<longleftrightarrow> (category a, subcategory a) \<le> (category b, subcategory b)"

definition less_route :: "route \<Rightarrow> route \<Rightarrow> bool" where
  "a < b \<longleftrightarrow> (category a, subcategory a) < (category b, subcategory b)"

instance
  by standard (auto simp: less_eq_route_def less_route_def route.expand)

end

record templ =
  segments :: "string list"
  t_route :: route

record gh_table =
  by_method :: "(string \<times> templ list) list"
  multi_segment :: "string list"

subsection \<open>Templates\<close>

definition split_path :: "string \<Rightarrow> string list" where
  "split_path p0 = (let p = trim_prefix p0 ''/'' in if p = [] then [] else split_on CHR ''/'' p)"

definition is_param :: "string \<Rightarrow> bool" where
  "is_param seg \<longleftrightarrow> has_prefix seg ''{'' \<and> has_suffix seg ''}''"

definition is_multi_segment :: "string list \<Rightarrow> string \<Rightarrow> bool" where
  "is_multi_segment ms seg \<longleftrightarrow> is_param seg \<and> take (length seg - 2) (drop 1 seg) \<in> set ms"

fun literals :: "string list \<Rightarrow> nat" where
  "literals [] = 0"
| "literals (s # segs) = (if \<not> is_param s then Suc (literals segs) else literals segs)"

fun segments_fit :: "string list \<Rightarrow> string list \<Rightarrow> bool" where
  \<comment> \<open>The loop shared by \<open>matchFixed\<close> and \<open>prefixMatches\<close>: every template segment
      is a parameter or equals the request's segment at its index.\<close>
  "segments_fit [] req = True"
| "segments_fit (seg # tmpl) [] = False"
| "segments_fit (seg # tmpl) (r # req) =
     (if \<not> is_param seg \<and> r \<noteq> seg then False else segments_fit tmpl req)"

definition match_fixed :: "string list \<Rightarrow> string list \<Rightarrow> bool" where
  "match_fixed tmpl req = (if length tmpl \<noteq> length req then False else segments_fit tmpl req)"

definition prefix_matches :: "string list \<Rightarrow> string list \<Rightarrow> string list \<Rightarrow> bool" where
  "prefix_matches ms tmpl req =
     (let prefix = takeWhile (\<lambda>s. \<not> is_multi_segment ms s) tmpl
      in if length req < length prefix then False else segments_fit prefix req)"

text \<open>
  The matcher: \<open>match\<close> looks the memo up and records a failure, \<open>step\<close> does the
  work. The slice \<open>failed\<close> is threaded through. Go never calls them with an index past
  the template, where it would panic; the model answers \<open>False\<close> there.
\<close>

function match_at :: "string list \<Rightarrow> string list \<Rightarrow> string list \<Rightarrow> nat \<Rightarrow> nat \<Rightarrow> bool list \<Rightarrow> bool \<times> bool list"
  and step_at :: "string list \<Rightarrow> string list \<Rightarrow> string list \<Rightarrow> nat \<Rightarrow> nat \<Rightarrow> bool list \<Rightarrow> bool \<times> bool list"
  where
  "match_at ms tmpl req ti ri failed =
     (if ti = length tmpl then (ri = length req, failed)
      else (let k = ti * (length req + 1) + ri in
        if failed ! k then (False, failed)
        else (let (ok, failed') = step_at ms tmpl req ti ri failed in
          if ok then (True, failed') else (False, failed'[k := True]))))"
| "step_at ms tmpl req ti ri failed =
     (if ti \<ge> length tmpl then (False, failed)
      else (let seg = tmpl ! ti in
        if is_multi_segment ms seg then
          (if ti = length tmpl - 1 then (True, failed)
           else if ri < length req then
             (let (ok, failed') = match_at ms tmpl req (ti + 1) (ri + 1) failed in
              if ok then (True, failed') else match_at ms tmpl req ti (ri + 1) failed')
           else (False, failed))
        else if ri = length req \<or> (\<not> is_param seg \<and> req ! ri \<noteq> seg) then (False, failed)
        else match_at ms tmpl req (ti + 1) (ri + 1) failed))"
  by pat_completeness auto
termination
  by (relation "measure (\<lambda>x. case x of
      Inl (ms, tmpl, req, ti, ri, failed) \<Rightarrow> 2 * ((length tmpl - ti) + (length req - ri)) + 1
    | Inr (ms, tmpl, req, ti, ri, failed) \<Rightarrow> 2 * ((length tmpl - ti) + (length req - ri)))") auto

declare match_at.simps [simp del] step_at.simps [simp del]

definition match_template :: "string list \<Rightarrow> string list \<Rightarrow> string list \<Rightarrow> bool" where
  "match_template ms tmpl req =
     (if \<not> list_ex (is_multi_segment ms) tmpl then match_fixed tmpl req
      else if \<not> prefix_matches ms tmpl req then False
      else fst (match_at ms tmpl req 0 0
             (replicate ((length tmpl + 1) * (length req + 1)) False)))"

subsection \<open>Lookup\<close>

fun best_loop :: "string list \<Rightarrow> templ list \<Rightarrow> string list \<Rightarrow> int \<Rightarrow> route list \<Rightarrow> route list" where
  "best_loop ms [] segs hi out = out"
| "best_loop ms (t # ts) segs hi out =
     (if \<not> match_template ms (segments t) segs then best_loop ms ts segs hi out
      else (let lit = int (literals (segments t)) in
        if lit > hi then best_loop ms ts segs lit [t_route t]
        else if lit = hi then best_loop ms ts segs hi (out @ [t_route t])
        else best_loop ms ts segs hi out))"

definition best :: "string list \<Rightarrow> templ list \<Rightarrow> string list \<Rightarrow> route list" where
  "best ms tmpls segs = best_loop ms tmpls segs (- 1) []"

definition max_path_segments :: nat where
  "max_path_segments = 8192"

definition drop_one_trailing_slash :: "string list \<Rightarrow> string list option" where
  "drop_one_trailing_slash segs =
     (let n = length segs in
      if n < 2 \<or> segs ! (n - 1) \<noteq> [] \<or> segs ! (n - 2) = [] then None
      else Some (take (n - 1) segs))"

definition method_templates :: "gh_table \<Rightarrow> string \<Rightarrow> templ list" where
  "method_templates t m = (case map_of (by_method t) m of Some ts \<Rightarrow> ts | None \<Rightarrow> [])"

text \<open>\<open>Lookup\<close>; the empty list is Go's nil.\<close>

definition lookup_routes :: "gh_table \<Rightarrow> string \<Rightarrow> string \<Rightarrow> route list" where
  "lookup_routes t method path =
     (let tmpls = method_templates t (to_upper method); ms = multi_segment t in
      if count_char path CHR ''/'' > max_path_segments then []
      else (let segs = split_path path; routes = best ms tmpls segs in
        if routes = [] then []
        else (let routes' = (case drop_one_trailing_slash segs of
                 Some trimmed \<Rightarrow> routes @ best ms tmpls trimmed
               | None \<Rightarrow> routes)
          in compact (sort routes'))))"

definition table_templates :: "gh_table \<Rightarrow> templ list" where
  \<comment> \<open>\<open>Routes\<close>\<close>
  "table_templates t = concat (map snd (by_method t))"

definition knows :: "gh_table \<Rightarrow> string \<Rightarrow> bool" where
  "knows t key = list_ex (\<lambda>(_, ts). list_ex (\<lambda>tm.
     category (t_route tm) = key \<or>
     category (t_route tm) @ ''/'' @ subcategory (t_route tm) = key) ts) (by_method t)"

subsection \<open>Distilling the OpenAPI document\<close>

datatype gh_error =
    GhUnclassifiable
  | GhUnmatched  \<comment> \<open>\<open>UnmatchedRequestError\<close> around \<open>ErrUnclassifiable\<close>\<close>
  | GhGraphQLUnsupported
  | GhExposureExceeded
  | GhTableNotReady
  | GhUnknownKey
  | GhTableRejected
  | GhPort  \<comment> \<open>the port bound of \<open>authorizeRequestPort\<close>\<close>

definition http_methods :: "string list" where
  "http_methods = [''get'', ''head'', ''post'', ''put'', ''patch'', ''delete'', ''options'']"

text \<open>
  The two passes over one operation's \<open>x-github\<close> extension that \<open>json.Unmarshal\<close>
  makes: a value of the wrong type is an error, null leaves the field, and a repeated key
  writes the same struct again.
\<close>

fun decode_route :: "(string \<times> json) list \<Rightarrow> route \<Rightarrow> route option" where
  "decode_route [] r = Some r"
| "decode_route ((k, v) # kvs) r =
     (if equal_fold k ''category'' then
        (case decode_string (Some v) (category r) of
           Some c \<Rightarrow> decode_route kvs (Route c (subcategory r)) | None \<Rightarrow> None)
      else if equal_fold k ''subcategory'' then
        (case decode_string (Some v) (subcategory r) of
           Some c \<Rightarrow> decode_route kvs (Route (category r) c) | None \<Rightarrow> None)
      else decode_route kvs r)"

fun decode_x_github :: "(string \<times> json) list \<Rightarrow> route \<Rightarrow> route option" where
  "decode_x_github [] r = Some r"
| "decode_x_github ((k, v) # kvs) r =
     (if equal_fold k ''x-github'' then
        (case v of
           JNull \<Rightarrow> decode_x_github kvs r
         | JObj xs \<Rightarrow> (case decode_route xs r of
             Some r' \<Rightarrow> decode_x_github kvs r' | None \<Rightarrow> None)
         | _ \<Rightarrow> None)
      else decode_x_github kvs r)"

fun decode_operation :: "json \<Rightarrow> route option" where
  "decode_operation JNull = Some (Route [] [])"
| "decode_operation (JObj kvs) = decode_x_github kvs (Route [] [])"
| "decode_operation _ = None"

text \<open>\<open>walkAny\<close>: every object with \<open>x-multi-segment: true\<close> and a name, at any depth.\<close>

fun walk_any :: "json \<Rightarrow> string list \<Rightarrow> string list" where
  "walk_any (JObj node) out =
     (let out' = (case (map_of node ''x-multi-segment'', map_of node ''name'') of
          (Some (JBool True), Some (JStr n)) \<Rightarrow> if n \<noteq> [] then append_new out n else out
        | _ \<Rightarrow> out)
      in fold (\<lambda>kv. walk_any (snd kv)) node out')"
| "walk_any (JArr node) out = fold walk_any node out"
| "walk_any _ out = out"

definition collect_multi_segment :: "json \<Rightarrow> string list" where
  "collect_multi_segment v = walk_any v []"

type_synonym methods = "(string \<times> templ list) list"

definition add_templ :: "methods \<Rightarrow> string \<Rightarrow> templ \<Rightarrow> methods" where
  "add_templ bm m t = AList.update m ((case map_of bm m of Some ts \<Rightarrow> ts | None \<Rightarrow> []) @ [t]) bm"

fun distill_ops :: "string list \<Rightarrow> (string \<times> json) list \<Rightarrow> methods \<Rightarrow> (gh_error, methods) result" where
  "distill_ops segs [] bm = Inr bm"
| "distill_ops segs ((method, raw_op) # ops) bm =
     (if method \<notin> set http_methods then distill_ops segs ops bm
      else (case decode_operation raw_op of
          None \<Rightarrow> Inl GhTableRejected
        | Some r \<Rightarrow>
            if category r = [] then Inl GhTableRejected
            else distill_ops segs ops
                   (add_templ bm (to_upper method) \<lparr>segments = segs, t_route = r\<rparr>)))"

fun path_item :: "json \<Rightarrow> (string \<times> json) list" where
  \<comment> \<open>\<open>map[string]json.RawMessage\<close>; a value of another type decodes to no operation.\<close>
  "path_item (JObj kvs) = kvs"
| "path_item _ = []"

fun distill_paths :: "(string \<times> json) list \<Rightarrow> methods \<Rightarrow> (gh_error, methods) result" where
  "distill_paths [] bm = Inr bm"
| "distill_paths ((path, ops) # paths) bm =
     and_then (distill_ops (split_path path) (path_item ops) bm) (distill_paths paths)"

definition sort_templates :: "methods \<Rightarrow> methods" where
  "sort_templates bm = map (\<lambda>(m, ts). (m, sort_key (\<lambda>t. join ''/'' (segments t)) ts)) bm"

definition doc_paths :: "json \<Rightarrow> (string \<times> json) list" where
  "doc_paths doc = (case struct_get (path_item doc) ''paths'' of Some p \<Rightarrow> path_item p | None \<Rightarrow> [])"

text \<open>\<open>None\<close> stands for bytes \<open>json.Unmarshal\<close> refuses.\<close>

definition distill_openapi :: "json option \<Rightarrow> (gh_error, gh_table) result" where
  "distill_openapi raw =
     (case raw of
        None \<Rightarrow> Inl GhTableRejected
      | Some doc \<Rightarrow>
          (let multi_seg = collect_multi_segment doc in
           and_then (distill_paths (doc_paths doc) []) (\<lambda>bm.
             if bm = [] then Inl GhTableRejected
             else Inr \<lparr>by_method = sort_templates bm, multi_segment = multi_seg\<rparr>)))"

subsection \<open>The matcher is exact\<close>

fun matches :: "string list \<Rightarrow> string list \<Rightarrow> string list \<Rightarrow> bool" where
  "matches ms [] req \<longleftrightarrow> req = []"
| "matches ms (s # t) [] \<longleftrightarrow> is_multi_segment ms s \<and> t = []"
| "matches ms (s # t) (r # req) \<longleftrightarrow>
     (if is_multi_segment ms s then t = [] \<or> matches ms t req \<or> matches ms (s # t) req
      else (is_param s \<or> r = s) \<and> matches ms t req)"

text \<open>
  The declarative reading: the request is cut into one piece per template segment. A
  literal takes exactly itself, an ordinary parameter any one segment, a multi-segment
  parameter one or more segments, and any number of them when it is last.
\<close>

definition piece_ok :: "string list \<Rightarrow> string \<Rightarrow> bool \<Rightarrow> string list \<Rightarrow> bool" where
  "piece_ok ms seg is_last piece \<longleftrightarrow>
     (if is_multi_segment ms seg then is_last \<or> piece \<noteq> []
      else if is_param seg then length piece = 1
      else piece = [seg])"

definition reads_as :: "string list \<Rightarrow> string list \<Rightarrow> string list \<Rightarrow> bool" where
  "reads_as ms tmpl req \<longleftrightarrow>
     (\<exists>ps. length ps = length tmpl \<and> concat ps = req \<and>
        (\<forall>i < length tmpl. piece_ok ms (tmpl ! i) (Suc i = length tmpl) (ps ! i)))"

lemma reads_as_Nil [simp]: "reads_as ms [] req \<longleftrightarrow> req = []"
  by (auto simp: reads_as_def)

lemma reads_as_Cons:
  "reads_as ms (s # t) req \<longleftrightarrow>
     (\<exists>p rest. req = p @ rest \<and> piece_ok ms s (t = []) p \<and> reads_as ms t rest)"
proof
  assume "reads_as ms (s # t) req"
  then obtain ps where ps: "length ps = Suc (length t)" "concat ps = req"
    and ok: "\<forall>i < Suc (length t). piece_ok ms ((s # t) ! i) (Suc i = Suc (length t)) (ps ! i)"
    by (auto simp: reads_as_def)
  then obtain p qs where p: "ps = p # qs" by (cases ps) auto
  have "piece_ok ms s (t = []) p" using ok [rule_format, of 0] p by simp
  moreover have "\<forall>i < length t. piece_ok ms (t ! i) (Suc i = length t) (qs ! i)"
    using ok p by (auto dest: spec [where x = "Suc _"])
  ultimately show "\<exists>p rest. req = p @ rest \<and> piece_ok ms s (t = []) p \<and> reads_as ms t rest"
    using ps p by (auto simp: reads_as_def)
next
  assume "\<exists>p rest. req = p @ rest \<and> piece_ok ms s (t = []) p \<and> reads_as ms t rest"
  then obtain p qs where "req = p @ concat qs" "piece_ok ms s (t = []) p" "length qs = length t"
    "\<forall>i < length t. piece_ok ms (t ! i) (Suc i = length t) (qs ! i)"
    by (auto simp: reads_as_def)
  then show "reads_as ms (s # t) req"
    unfolding reads_as_def by (intro exI [where x = "p # qs"]) (auto simp: nth_Cons split: nat.splits)
qed

lemma reads_as_multi_tail:
  "is_multi_segment ms s \<Longrightarrow> t \<noteq> [] \<Longrightarrow>
   reads_as ms (s # t) (r # req) \<longleftrightarrow> reads_as ms t req \<or> reads_as ms (s # t) req"
  unfolding reads_as_Cons [of ms s t]
  by (auto simp: piece_ok_def Cons_eq_append_conv) (metis append_Nil append_Cons list.distinct(1))+

lemma reads_as_single:
  assumes m: "\<not> is_multi_segment ms s"
  shows "reads_as ms (s # t) (r # req) \<longleftrightarrow> (is_param s \<or> r = s) \<and> reads_as ms t req"
proof
  assume "reads_as ms (s # t) (r # req)"
  with m show "(is_param s \<or> r = s) \<and> reads_as ms t req"
    by (auto simp: reads_as_Cons piece_ok_def length_Suc_conv Cons_eq_append_conv split: if_splits)
next
  assume a: "(is_param s \<or> r = s) \<and> reads_as ms t req"
  then have "piece_ok ms s (t = []) [r]" using m by (auto simp: piece_ok_def)
  with a show "reads_as ms (s # t) (r # req)"
    unfolding reads_as_Cons by (intro exI [where x = "[r]"] exI [where x = req]) simp
qed

lemma matches_iff_reads_as: "matches ms tmpl req \<longleftrightarrow> reads_as ms tmpl req"
proof (induction ms tmpl req rule: matches.induct)
  case (2 ms s t)
  show ?case by (auto simp: reads_as_Cons piece_ok_def)
next
  case (3 ms s t r req)
  show ?case
  proof (cases "is_multi_segment ms s")
    case True
    then show ?thesis
      using 3 reads_as_multi_tail [OF True, of t r req]
      by (cases "t = []") (auto simp: reads_as_Cons piece_ok_def)
  next
    case False
    then show ?thesis using 3 by (auto simp: reads_as_single)
  qed
qed simp

text \<open>A recorded failure is a real one; the slice has room for every state.\<close>

definition memo_sound :: "string list \<Rightarrow> string list \<Rightarrow> string list \<Rightarrow> bool list \<Rightarrow> bool" where
  "memo_sound ms tmpl req failed \<longleftrightarrow>
     length failed = (length tmpl + 1) * (length req + 1) \<and>
     (\<forall>ti < length tmpl. \<forall>ri \<le> length req.
        failed ! (ti * (length req + 1) + ri) \<longrightarrow> \<not> matches ms (drop ti tmpl) (drop ri req))"

lemma memo_index_inj:
  "ri \<le> L \<Longrightarrow> ri' \<le> L \<Longrightarrow> ti * (L + 1) + ri = ti' * (L + 1) + ri' \<Longrightarrow> ti = ti' \<and> ri = ri'" for L :: nat
proof -
  assume a: "ri \<le> L" "ri' \<le> L" "ti * (L + 1) + ri = ti' * (L + 1) + ri'"
  have "(ti * (L + 1) + ri) div (L + 1) = ti" "(ti' * (L + 1) + ri') div (L + 1) = ti'"
    using a(1,2) by (subst div_mult_self3; simp)+
  with a(3) have "ti = ti'" by metis
  with a(3) show ?thesis by simp
qed

lemma memo_index_bound:
  "ti < T \<Longrightarrow> ri \<le> L \<Longrightarrow> ti * (L + 1) + ri < (T + 1) * (L + 1)" for L :: nat
proof -
  assume "ti < T" "ri \<le> L"
  then have "ti * (L + 1) + ri < (ti + 1) * (L + 1)" by simp
  also have "\<dots> \<le> (T + 1) * (L + 1)" using \<open>ti < T\<close> by (intro mult_le_mono1) simp
  finally show ?thesis .
qed

lemma memo_sound_record:
  assumes "memo_sound ms tmpl req failed" "ti < length tmpl" "ri \<le> length req"
    and "\<not> matches ms (drop ti tmpl) (drop ri req)"
  shows "memo_sound ms tmpl req (failed[ti * (length req + 1) + ri := True])"
  unfolding memo_sound_def
proof (intro conjI allI impI)
  fix ti' ri'
  assume i: "ti' < length tmpl" "ri' \<le> length req"
    and f: "failed[ti * (length req + 1) + ri := True] ! (ti' * (length req + 1) + ri')"
  show "\<not> matches ms (drop ti' tmpl) (drop ri' req)"
  proof (cases "ti * (length req + 1) + ri = ti' * (length req + 1) + ri'")
    case True
    with memo_index_inj assms(3) i(2) have "ti = ti'" "ri = ri'" by blast+
    with assms(4) show ?thesis by simp
  next
    case False
    with f have "failed ! (ti' * (length req + 1) + ri')" by (simp add: nth_list_update_neq)
    with assms(1) i show ?thesis by (auto simp: memo_sound_def)
  qed
qed (use assms(1) in \<open>simp add: memo_sound_def\<close>)

lemma matches_drop:
  "ti < length tmpl \<Longrightarrow> ri < length req \<Longrightarrow>
   matches ms (drop ti tmpl) (drop ri req) =
     (if is_multi_segment ms (tmpl ! ti) then
        ti = length tmpl - 1 \<or> matches ms (drop (Suc ti) tmpl) (drop (Suc ri) req) \<or>
        matches ms (drop ti tmpl) (drop (Suc ri) req)
      else (is_param (tmpl ! ti) \<or> req ! ri = tmpl ! ti) \<and>
        matches ms (drop (Suc ti) tmpl) (drop (Suc ri) req))"
  by (auto simp: Cons_nth_drop_Suc [symmetric])

lemma matches_drop_end:
  "ti < length tmpl \<Longrightarrow>
   matches ms (drop ti tmpl) [] = (is_multi_segment ms (tmpl ! ti) \<and> ti = length tmpl - 1)"
  by (auto simp: Cons_nth_drop_Suc [symmetric])

lemma matcher_sound:
  "memo_sound ms tmpl req failed \<Longrightarrow> ti \<le> length tmpl \<Longrightarrow> ri \<le> length req \<Longrightarrow>
     fst (match_at ms tmpl req ti ri failed) = matches ms (drop ti tmpl) (drop ri req) \<and>
     memo_sound ms tmpl req (snd (match_at ms tmpl req ti ri failed))"
  "memo_sound ms tmpl req failed \<Longrightarrow> ti < length tmpl \<Longrightarrow> ri \<le> length req \<Longrightarrow>
     fst (step_at ms tmpl req ti ri failed) = matches ms (drop ti tmpl) (drop ri req) \<and>
     memo_sound ms tmpl req (snd (step_at ms tmpl req ti ri failed))"
proof (induction ms tmpl req ti ri failed and ms tmpl req ti ri failed rule: match_at_step_at.induct)
  case (1 ms tmpl req ti ri failed)
  show ?case
  proof (cases "ti = length tmpl")
    case True
    with 1 show ?thesis by (auto simp: match_at.simps)
  next
    case F: False
    then have ti: "ti < length tmpl" using 1 by simp
    show ?thesis
    proof (cases "failed ! (ti * (length req + 1) + ri)")
      case True
      with ti 1 have "\<not> matches ms (drop ti tmpl) (drop ri req)" by (auto simp: memo_sound_def)
      with True F 1 show ?thesis by (simp add: match_at.simps Let_def)
    next
      case False
      obtain ok f' where s: "step_at ms tmpl req ti ri failed = (ok, f')" by fastforce
      have "ok = matches ms (drop ti tmpl) (drop ri req)" "memo_sound ms tmpl req f'"
        using "1.IH" [OF F refl False] 1 ti s by auto
      with False F s ti 1 memo_sound_record [of ms tmpl req f' ti ri] show ?thesis
        by (cases ok) (simp_all add: match_at.simps Let_def)
    qed
  qed
next
  case (2 ms tmpl req ti ri failed)
  then have nti: "\<not> length tmpl \<le> ti" by simp
  show ?case
  proof (cases "ri = length req")
    case True
    then show ?thesis using 2 nti by (simp add: step_at.simps Let_def matches_drop_end)
  next
    case False
    then have ri: "ri < length req" using 2 by simp
    show ?thesis
    proof (cases "is_multi_segment ms (tmpl ! ti)")
      case M: True
      show ?thesis
      proof (cases "ti = length tmpl - 1")
        case True
        with M 2 nti ri show ?thesis by (simp add: step_at.simps Let_def matches_drop)
      next
        case T: False
        obtain ok f' where m: "match_at ms tmpl req (ti + 1) (ri + 1) failed = (ok, f')" by fastforce
        have A: "ok = matches ms (drop (Suc ti) tmpl) (drop (Suc ri) req)" "memo_sound ms tmpl req f'"
          using "2.IH"(1) [OF nti refl M T ri] 2 ri m by auto
        have B: "\<not> ok \<Longrightarrow>
            fst (match_at ms tmpl req ti (ri + 1) f') = matches ms (drop ti tmpl) (drop (Suc ri) req) \<and>
            memo_sound ms tmpl req (snd (match_at ms tmpl req ti (ri + 1) f'))"
          using "2.IH"(2) [OF nti refl M T ri m [symmetric] refl] A 2 ri by auto
        show ?thesis using A B M T m nti ri "2.prems"
          by (cases ok) (simp_all add: step_at.simps Let_def matches_drop)
      qed
    next
      case M: False
      show ?thesis
      proof (cases "\<not> is_param (tmpl ! ti) \<and> req ! ri \<noteq> tmpl ! ti")
        case True
        with M 2 nti ri show ?thesis by (simp add: step_at.simps Let_def matches_drop)
      next
        case P: False
        then have "\<not> (ri = length req \<or> \<not> is_param (tmpl ! ti) \<and> req ! ri \<noteq> tmpl ! ti)"
          using ri by auto
        from "2.IH"(3) [OF nti refl M this] 2 ri P M nti show ?thesis
          by (auto simp: step_at.simps Let_def matches_drop)
      qed
    qed
  qed
qed

lemma memo_sound_init:
  "memo_sound ms tmpl req (replicate ((length tmpl + 1) * (length req + 1)) False)"
  unfolding memo_sound_def using memo_index_bound by (metis length_replicate nth_replicate)

lemma segments_fit_matches:
  "\<not> list_ex (is_multi_segment ms) tmpl \<Longrightarrow>
   matches ms tmpl req \<longleftrightarrow> length tmpl = length req \<and> segments_fit tmpl req"
proof (induction tmpl req rule: segments_fit.induct)
  case (1 req)
  then show ?case by auto
next
  case (3 seg tmpl r req)
  then show ?case by auto
qed auto

lemma prefix_necessary:
  "matches ms tmpl req \<Longrightarrow> prefix_matches ms tmpl req"
  unfolding prefix_matches_def Let_def
proof (induction ms tmpl req rule: matches.induct)
  case (3 ms s t r req)
  then show ?case by (cases "is_multi_segment ms s") auto
qed auto

lemma match_template_matches: "match_template ms tmpl req = matches ms tmpl req"
proof (cases "list_ex (is_multi_segment ms) tmpl")
  case True
  have "fst (match_at ms tmpl req 0 0 (replicate ((length tmpl + 1) * (length req + 1)) False)) =
      matches ms tmpl req"
    using matcher_sound(1) [OF memo_sound_init, of 0 tmpl 0 req ms] by simp
  with True prefix_necessary [of ms tmpl req] show ?thesis by (auto simp: match_template_def)
next
  case False
  then show ?thesis by (auto simp: match_template_def match_fixed_def segments_fit_matches)
qed

lemma match_template_reads: "match_template ms tmpl req \<longleftrightarrow> reads_as ms tmpl req"
  by (simp add: match_template_matches matches_iff_reads_as)

text \<open>
  The routing matcher is exact: with its prefix filter, its memo of failed states and
  its fixed-length fast path, it accepts a request path for a template if and only if the
  path can be cut into one piece per template segment, each piece being what its segment
  takes.
\<close>

theorem match_template_exact: "match_template ms tmpl req \<longleftrightarrow> reads_as ms tmpl req"
  by (simp add: match_template_matches matches_iff_reads_as)

subsection \<open>Lookup is exact\<close>

text \<open>
  The most specific matching templates' routes, as a set: the routes of the matching
  templates no other matching template has more literal segments than.
\<close>

definition best_set :: "string list \<Rightarrow> templ set \<Rightarrow> string list \<Rightarrow> route set" where
  "best_set ms T segs = {t_route t | t. t \<in> T \<and> reads_as ms (segments t) segs \<and>
     (\<forall>u \<in> T. reads_as ms (segments u) segs \<longrightarrow> literals (segments u) \<le> literals (segments t))}"

lemma best_loop_set:
  "(\<forall>t \<in> set seen. reads_as ms (segments t) segs \<longrightarrow> int (literals (segments t)) \<le> hi) \<Longrightarrow>
   set out = {t_route t | t. t \<in> set seen \<and> reads_as ms (segments t) segs \<and>
      int (literals (segments t)) = hi} \<Longrightarrow>
   (out = [] \<longrightarrow> hi < 0 \<and> (\<forall>t \<in> set seen. \<not> reads_as ms (segments t) segs)) \<Longrightarrow>
   set (best_loop ms ts segs hi out) = best_set ms (set seen \<union> set ts) segs"
proof (induction ts arbitrary: seen hi out)
  case Nil
  show ?case
  proof (cases "out = []")
    case True
    with Nil show ?thesis by (auto simp: best_set_def)
  next
    case False
    then have "set out \<noteq> {}" by simp
    then obtain t where t: "t \<in> set seen" "reads_as ms (segments t) segs" "int (literals (segments t)) = hi"
      unfolding Nil.prems(2) by blast
    have "int (literals (segments u)) = hi \<longleftrightarrow>
        (\<forall>w \<in> set seen. reads_as ms (segments w) segs \<longrightarrow> literals (segments w) \<le> literals (segments u))"
      if "u \<in> set seen" "reads_as ms (segments u) segs" for u
      using that t Nil.prems(1) by fastforce
    with Nil.prems(2) show ?thesis by (auto simp: best_set_def)
  qed
next
  case (Cons t ts)
  have step: "set (best_loop ms ts segs hi' out') = best_set ms (set seen \<union> set (t # ts)) segs"
    if "\<forall>u \<in> set (seen @ [t]). reads_as ms (segments u) segs \<longrightarrow> int (literals (segments u)) \<le> hi'"
      "set out' = {t_route u | u. u \<in> set (seen @ [t]) \<and> reads_as ms (segments u) segs \<and>
         int (literals (segments u)) = hi'}"
      "out' = [] \<longrightarrow> hi' < 0 \<and> (\<forall>u \<in> set (seen @ [t]). \<not> reads_as ms (segments u) segs)" for hi' out'
    using Cons.IH [OF that] by (simp add: insert_commute Un_commute)
  show ?case
  proof (cases "reads_as ms (segments t) segs")
    case False
    with Cons.prems have "set (best_loop ms ts segs hi out) = best_set ms (set seen \<union> set (t # ts)) segs"
      by (intro step) auto
    with False show ?thesis by (simp add: match_template_reads)
  next
    case True
    let ?lit = "int (literals (segments t))"
    consider "?lit > hi" | "?lit = hi" | "?lit < hi" by linarith
    then show ?thesis
    proof cases
      case 1
      have "set (best_loop ms ts segs ?lit [t_route t]) = best_set ms (set seen \<union> set (t # ts)) segs"
        using 1 True Cons.prems(1) by (intro step) fastforce+
      with 1 True show ?thesis by (simp add: match_template_reads)
    next
      case 2
      have "set (best_loop ms ts segs hi (out @ [t_route t])) = best_set ms (set seen \<union> set (t # ts)) segs"
        using 2 True Cons.prems by (intro step) auto
      with 2 True show ?thesis by (simp add: match_template_reads)
    next
      case 3
      have "set (best_loop ms ts segs hi out) = best_set ms (set seen \<union> set (t # ts)) segs"
        using 3 True Cons.prems by (intro step) auto
      with 3 True show ?thesis by (simp add: match_template_reads)
    qed
  qed
qed

lemma set_best: "set (best ms ts segs) = best_set ms (set ts) segs"
  using best_loop_set [of "[]" ms segs "- 1" "[]" ts] by (simp add: best_def)

lemma best_Nil_iff:
  "best ms ts segs = [] \<longleftrightarrow> (\<forall>t \<in> set ts. \<not> reads_as ms (segments t) segs)"
proof
  assume "best ms ts segs = []"
  then have e: "best_set ms (set ts) segs = {}" by (simp flip: set_best)
  show "\<forall>t \<in> set ts. \<not> reads_as ms (segments t) segs"
  proof (rule ccontr)
    let ?M = "{t \<in> set ts. reads_as ms (segments t) segs}"
    assume "\<not> ?thesis"
    then have "?M \<noteq> {}" "finite ?M" by auto
    then obtain t where "t \<in> ?M" "\<forall>u \<in> ?M. literals (segments u) \<le> literals (segments t)"
      using Max_in [of "(literals \<circ> segments) ` ?M"] Max_ge [of "(literals \<circ> segments) ` ?M"] by fastforce
    then have "t_route t \<in> best_set ms (set ts) segs" by (auto simp: best_set_def)
    with e show False by simp
  qed
next
  assume "\<forall>t \<in> set ts. \<not> reads_as ms (segments t) segs"
  then have "set (best ms ts segs) = {}" by (auto simp: set_best best_set_def)
  then show "best ms ts segs = []" by simp
qed

lemma best_Nil_iff_set: "best ms ts segs = [] \<longleftrightarrow> best_set ms (set ts) segs = {}"
  by (simp flip: set_best)

lemma best_perm: "set ts = set ts' \<Longrightarrow> set (best ms ts segs) = set (best ms ts' segs)"
  by (simp add: set_best)

text \<open>
  The routes a request may run are exactly those of the most specific matching
  templates of its method, for the path as sent and, when that matches, also for the path
  without one trailing slash; the answer is sorted, has no duplicates and depends on the
  templates as a set only.
\<close>

theorem lookup_routes_exact:
  "sorted (lookup_routes t m p) \<and> distinct (lookup_routes t m p) \<and>
   set (lookup_routes t m p) =
     (let T = set (method_templates t (to_upper m)); ms = multi_segment t; segs = split_path p in
      if count_char p CHR ''/'' > max_path_segments \<or> best_set ms T segs = {} then {}
      else best_set ms T segs \<union>
        (case drop_one_trailing_slash segs of None \<Rightarrow> {} | Some trimmed \<Rightarrow> best_set ms T trimmed))"
proof -
  have "sorted (compact (sort xs)) \<and> distinct (compact (sort xs))" for xs :: "route list"
    by (simp add: sorted_compact_distinct)
  then show ?thesis
    by (auto simp: lookup_routes_def Let_def best_Nil_iff_set set_best split: option.splits)
qed

lemma drop_one_trailing_slash_Some:
  "drop_one_trailing_slash segs = Some t \<longleftrightarrow> segs = t @ [[]] \<and> t \<noteq> [] \<and> last t \<noteq> []"
proof (cases segs rule: rev_cases)
  case (snoc ys y)
  then show ?thesis
    by (cases ys rule: rev_cases) (auto simp: drop_one_trailing_slash_def Let_def nth_append)
qed (simp add: drop_one_trailing_slash_def)

subsection \<open>Distilling is complete\<close>

definition all_templates :: "methods \<Rightarrow> (string \<times> templ) set" where
  "all_templates bm = {(m, tm). \<exists>ts. map_of bm m = Some ts \<and> tm \<in> set ts}"

lemma all_templates_add:
  "all_templates (add_templ bm m tm) = insert (m, tm) (all_templates bm)"
  by (auto simp: all_templates_def add_templ_def update_conv' split: option.splits if_splits)

lemma map_of_sort_templates:
  "map_of (sort_templates bm) m = map_option (sort_key (\<lambda>t. join ''/'' (segments t))) (map_of bm m)"
  by (induction bm) (auto simp: sort_templates_def)

lemma all_templates_sort [simp]: "all_templates (sort_templates bm) = all_templates bm"
  by (auto simp: all_templates_def map_of_sort_templates)

lemma sort_templates_Nil [simp]: "sort_templates bm = [] \<longleftrightarrow> bm = []"
  by (simp add: sort_templates_def)

definition op_templates :: "string list \<Rightarrow> (string \<times> json) list \<Rightarrow> (string \<times> templ) set" where
  "op_templates segs ops = {(to_upper m, \<lparr>segments = segs, t_route = r\<rparr>) | m op r.
     (m, op) \<in> set ops \<and> m \<in> set http_methods \<and> decode_operation op = Some r}"

lemma distill_ops_Inr:
  "distill_ops segs ops bm = Inr bm' \<Longrightarrow>
     all_templates bm' = all_templates bm \<union> op_templates segs ops \<and>
     (\<forall>(m, op) \<in> set ops. m \<in> set http_methods \<longrightarrow>
        (\<exists>r. decode_operation op = Some r \<and> category r \<noteq> []))"
proof (induction segs ops bm rule: distill_ops.induct)
  case (2 segs m op ops bm)
  show ?case
  proof (cases "m \<in> set http_methods")
    case False
    with 2 show ?thesis by (auto simp: op_templates_def)
  next
    case True
    with "2.prems" obtain r where r: "decode_operation op = Some r" "category r \<noteq> []"
      by (auto split: option.splits if_splits)
    with True 2 show ?thesis
      by (auto simp: all_templates_add op_templates_def)
  qed
qed (simp add: op_templates_def)

lemma distill_paths_Inr:
  "distill_paths paths bm = Inr bm' \<Longrightarrow>
     all_templates bm' = all_templates bm \<union>
       (\<Union>(p, ops) \<in> set paths. op_templates (split_path p) (path_item ops)) \<and>
     (\<forall>(p, ops) \<in> set paths. \<forall>(m, op) \<in> set (path_item ops). m \<in> set http_methods \<longrightarrow>
        (\<exists>r. decode_operation op = Some r \<and> category r \<noteq> []))"
proof (induction paths bm rule: distill_paths.induct)
  case (2 p ops paths bm)
  then obtain bm1 where s: "distill_ops (split_path p) (path_item ops) bm = Inr bm1"
    and r: "distill_paths paths bm1 = Inr bm'" by (auto simp: result_elim)
  with "2.IH" [OF r] distill_ops_Inr [OF s] show ?case by auto
qed simp

lemma distilled_templates:
  assumes "distill_openapi (Some doc) = Inr t"
  shows "all_templates (by_method t) =
      (\<Union>(p, ops) \<in> set (doc_paths doc). op_templates (split_path p) (path_item ops))"
proof -
  from assms obtain bm where "distill_paths (doc_paths doc) [] = Inr bm"
    "by_method t = sort_templates bm"
    by (auto simp: distill_openapi_def result_elim split: if_splits)
  moreover have "all_templates [] = {}" by (simp add: all_templates_def)
  ultimately show ?thesis using distill_paths_Inr [of "doc_paths doc" "[]" bm] by simp
qed

text \<open>
  A table distilled from a document governs exactly its operations: every operation of
  the document has a non-empty category and its template under its method, every template
  of the table comes from an operation, and no table results from a document with an
  operation that has no category.
\<close>

theorem distill_complete:
  assumes "distill_openapi (Some doc) = Inr t"
  shows "all_templates (by_method t) =
      (\<Union>(p, ops) \<in> set (doc_paths doc). op_templates (split_path p) (path_item ops)) \<and>
    (\<forall>(p, ops) \<in> set (doc_paths doc). \<forall>(m, op) \<in> set (path_item ops). m \<in> set http_methods \<longrightarrow>
        (\<exists>r. decode_operation op = Some r \<and> category r \<noteq> [])) \<and>
    by_method t \<noteq> []"
proof -
  from assms obtain bm where "distill_paths (doc_paths doc) [] = Inr bm" "bm \<noteq> []"
    "by_method t = sort_templates bm"
    by (auto simp: distill_openapi_def result_elim split: if_splits)
  moreover have "all_templates [] = {}" by (simp add: all_templates_def)
  ultimately show ?thesis using distill_paths_Inr [of "doc_paths doc" "[]" bm]
    by simp
qed

definition example_op :: "string \<Rightarrow> json" where
  "example_op c = JObj [(''x-github'', JObj [(''category'', JStr c), (''subcategory'', JStr ''sub'')])]"

definition example_doc :: json where
  "example_doc = JObj [(''paths'', JObj
     [(''/repos/{o}/{r}/contents/{path}'',
        JObj [(''summary'', JStr ''x''), (''get'', example_op ''repos''), (''put'', example_op ''repos''),
              (''parameters'', JArr [JObj [(''name'', JStr ''path''), (''x-multi-segment'', JBool True)]])]),
      (''/repos/{o}/{r}/secret-scanning/alerts'',
        JObj [(''get'', example_op ''secret-scanning'')])])]"

theorem distill_complete_witness:
  "\<exists>t. distill_openapi (Some example_doc) = Inr t \<and>
     (''PUT'', \<lparr>segments = [''repos'', ''{o}'', ''{r}'', ''contents'', ''{path}''],
                t_route = Route ''repos'' ''sub''\<rparr>) \<in> all_templates (by_method t) \<and>
     by_method t \<noteq> []"
proof -
  have "is_ok (distill_openapi (Some example_doc))" by code_simp
  then obtain t where t: "distill_openapi (Some example_doc) = Inr t" by (auto simp: is_ok_iff)
  have "decode_operation (example_op ''repos'') = Some (Route ''repos'' ''sub'')" by code_simp
  moreover have "to_upper ''put'' = ''PUT''" by code_simp
  moreover have "split_path ''/repos/{o}/{r}/contents/{path}'' =
     [''repos'', ''{o}'', ''{r}'', ''contents'', ''{path}'']" by code_simp
  moreover have "\<exists>ops. (''/repos/{o}/{r}/contents/{path}'', ops) \<in> set (doc_paths example_doc) \<and>
     (''put'', example_op ''repos'') \<in> set (path_item ops)"
    by (auto simp: doc_paths_def example_doc_def struct_get_def struct_values_def)
  moreover have "''put'' \<in> set http_methods" by (simp add: http_methods_def)
  ultimately have "(''PUT'', \<lparr>segments = [''repos'', ''{o}'', ''{r}'', ''contents'', ''{path}''],
                t_route = Route ''repos'' ''sub''\<rparr>) \<in>
      (\<Union>(p, ops) \<in> set (doc_paths example_doc). op_templates (split_path p) (path_item ops))"
    unfolding op_templates_def by force
  with distill_complete [OF t] t show ?thesis by auto
qed

end
