(* ===== verification/Request_Path.thy ===== *)
theory Request_Path
  imports Go_Url
begin

text \<open>
  Package \<open>internal/auth/authreq\<close>: the narrowed view of an outbound request every
  authorization gate judges (\<open>authreq.go\<close>), and the readings a server may give its
  path (\<open>path.go\<close>).
\<close>

subsection \<open>The view (authreq.go)\<close>

record view =
  v_method :: string
  v_hostname :: string
  v_port :: string
  v_path :: string
  v_escaped_path :: string
  v_raw_query :: string
  v_header :: header
  v_body :: string

text \<open>
  The parts of an \<open>*http.Request\<close> the view is projected from. The URL is the one
  \<open>net/url\<close> parsed, with its accessors' results as fields.
\<close>

record http_request =
  req_method :: string
  url_scheme :: string
  url_hostname :: string
  url_port :: string
  url_path :: string
  url_escaped_path :: string
  url_raw_query :: string
  url_user :: "string option"
  req_header :: header

definition new_view :: "http_request \<Rightarrow> string \<Rightarrow> view" where
  "new_view req body =
     \<lparr>v_method = req_method req,
      v_hostname = to_lower (url_hostname req),
      v_port = url_port req,
      v_path = url_path req,
      v_escaped_path = url_escaped_path req,
      v_raw_query = url_raw_query req,
      v_header = req_header req,
      v_body = body\<rparr>"

record audit_view =
  av_method :: string
  av_escaped_path :: string

definition new_audit_view :: "http_request \<Rightarrow> audit_view" where
  "new_audit_view req = \<lparr>av_method = req_method req, av_escaped_path = url_escaped_path req\<rparr>"

subsection \<open>Path readings (path.go)\<close>

definition path_segments :: "string \<Rightarrow> string list" where
  "path_segments p = split_on CHR ''/'' (trim_prefix (if p = [] then ''/'' else p) ''/'')"

fun all_empty :: "string list \<Rightarrow> bool" where
  "all_empty [] = True"
| "all_empty (s # segs) = (if s \<noteq> [] then False else all_empty segs)"

definition drop_trailing_empty :: "string list \<Rightarrow> string list option" where
  "drop_trailing_empty segs =
     (if length segs \<le> 1 \<or> last segs \<noteq> [] then None
      else (let trimmed = butlast segs in
        if all_empty trimmed then None else Some trimmed))"

fun append_reading :: "string list list \<Rightarrow> string list \<Rightarrow> string list list" where
  "append_reading readings segs =
     (if (\<exists>r \<in> set readings. r = segs) then readings else readings @ [segs])"

fun with_drops_of :: "string list list \<Rightarrow> string list list \<Rightarrow> string list list" where
  \<comment> \<open>The loop over the original readings, growing the second list.\<close>
  "with_drops_of [] readings = readings"
| "with_drops_of (r # rs) readings =
     with_drops_of rs (case drop_trailing_empty r of
        Some trimmed \<Rightarrow> append_reading readings trimmed
      | None \<Rightarrow> readings)"

definition with_trailing_drops :: "string list list \<Rightarrow> string list list" where
  "with_trailing_drops readings = with_drops_of readings readings"

definition path_readings :: "view \<Rightarrow> string list list" where
  "path_readings v =
     (let readings = append_reading [] (path_segments (v_escaped_path v))
      in with_trailing_drops (append_reading readings (path_segments (v_path v))))"

definition wire_readings :: "view \<Rightarrow> string list list" where
  "wire_readings v = with_trailing_drops (append_reading [] (path_segments (v_escaped_path v)))"

text \<open>\<open>seg, _, _ = strings.Cut(seg, ";")\<close> and the decoding of one segment.\<close>

definition before_semi :: "string \<Rightarrow> string" where
  "before_semi s = fst (str_cut s '';'')"

fun dot_in :: "string list \<Rightarrow> bool" where
  "dot_in [] = False"
| "dot_in (seg # segs) =
     (case path_unescape (before_semi seg) of
        Some d \<Rightarrow> if d = ''.'' \<or> d = ''..'' then True else dot_in segs
      | None \<Rightarrow> dot_in segs)"

definition has_dot_segment :: "string \<Rightarrow> bool" where
  "has_dot_segment escaped = dot_in (split_on CHR ''/'' escaped)"

subsection \<open>Lemmas\<close>

lemma append_reading_eq: "append_reading rs segs = append_new rs segs"
  by (auto simp: append_new_def)

declare append_reading.simps [simp del]
lemmas append_reading_eq [simp]

lemma all_empty_iff: "all_empty segs \<longleftrightarrow> (\<forall>s \<in> set segs. s = [])"
  by (induction segs) auto

text \<open>The readings as a declarative set: the segmentations and their one-slash trims.\<close>

definition reading_closure :: "string list set \<Rightarrow> string list set" where
  "reading_closure R = R \<union> {t. \<exists>r \<in> R. drop_trailing_empty r = Some t}"

lemma set_with_drops_of:
  "set (with_drops_of rs acc) = set acc \<union> {t. \<exists>r \<in> set rs. drop_trailing_empty r = Some t}"
  by (induction rs acc rule: with_drops_of.induct) (auto split: option.splits)

lemma distinct_with_drops_of: "distinct acc \<Longrightarrow> distinct (with_drops_of rs acc)"
  by (induction rs acc rule: with_drops_of.induct) (auto split: option.splits)

lemma with_drops_of_prefix: "\<exists>zs. with_drops_of rs acc = acc @ zs \<and> length zs \<le> length rs"
proof (induction rs acc rule: with_drops_of.induct)
  case (2 r rs acc)
  show ?case
  proof (cases "drop_trailing_empty r")
    case None
    with 2 show ?thesis by auto
  next
    case (Some t)
    with 2 obtain zs where zs: "with_drops_of rs (append_new acc t) = append_new acc t @ zs"
      "length zs \<le> length rs" by auto
    show ?thesis
    proof (cases "t \<in> set acc")
      case True
      with zs Some show ?thesis by (auto simp: append_new_def)
    next
      case False
      with zs Some show ?thesis by (auto simp: append_new_def)
    qed
  qed
qed simp

lemma set_path_readings:
  "set (path_readings v) =
     reading_closure {path_segments (v_escaped_path v), path_segments (v_path v)}"
  by (auto simp: path_readings_def with_trailing_drops_def set_with_drops_of reading_closure_def Let_def)

lemma set_wire_readings:
  "set (wire_readings v) = reading_closure {path_segments (v_escaped_path v)}"
  by (auto simp: wire_readings_def with_trailing_drops_def set_with_drops_of reading_closure_def)

lemma distinct_path_readings: "distinct (path_readings v)"
  by (simp add: path_readings_def with_trailing_drops_def distinct_with_drops_of Let_def)

lemma hd_path_readings: "path_readings v \<noteq> [] \<and> hd (path_readings v) = path_segments (v_escaped_path v)"
proof -
  let ?w = "path_segments (v_escaped_path v)" and ?d = "path_segments (v_path v)"
  obtain zs where "path_readings v = append_new [?w] ?d @ zs"
    using with_drops_of_prefix [of "append_new [?w] ?d" "append_new [?w] ?d"]
    by (auto simp: path_readings_def with_trailing_drops_def Let_def append_new_def)
  then show ?thesis by (simp add: append_new_def)
qed

lemma length_path_readings: "length (path_readings v) \<le> 4"
proof -
  let ?w = "path_segments (v_escaped_path v)" and ?d = "path_segments (v_path v)"
  have l: "length (append_new [?w] ?d) \<le> 2" by (simp add: append_new_def)
  obtain zs where "path_readings v = append_new [?w] ?d @ zs" and "length zs \<le> length (append_new [?w] ?d)"
    using with_drops_of_prefix [of "append_new [?w] ?d" "append_new [?w] ?d"]
    by (auto simp: path_readings_def with_trailing_drops_def Let_def append_new_def)
  with l show ?thesis by simp
qed

lemma drop_trailing_empty_Some:
  "drop_trailing_empty segs = Some t \<Longrightarrow>
   segs = t @ [[]] \<and> t \<noteq> [] \<and> (\<exists>s \<in> set t. s \<noteq> [])"
proof -
  assume a: "drop_trailing_empty segs = Some t"
  then have "1 < length segs" "last segs = []" "t = butlast segs" "\<not> all_empty t"
    by (auto simp: drop_trailing_empty_def Let_def split: if_splits)
  moreover from this have "segs \<noteq> []" by auto
  ultimately have "segs = t @ [[]]" using append_butlast_last_id [of segs] by simp
  moreover have "\<exists>s \<in> set t. s \<noteq> []" using \<open>\<not> all_empty t\<close> by (auto simp: all_empty_iff)
  ultimately show ?thesis using \<open>1 < length segs\<close> by auto
qed

lemma join_snoc_empty: "t \<noteq> [] \<Longrightarrow> join [c] (t @ [[]]) = join [c] t @ [c]"
proof (induction t)
  case (Cons a t)
  then show ?case by (cases "t = []") (simp_all add: join_Cons)
qed simp

lemma join_path_segments:
  "join ''/'' (path_segments p) = trim_prefix (if p = [] then ''/'' else p) ''/''"
  by (simp add: path_segments_def)

text \<open>
  The readings a gate classifies are exactly the segmentations a server can
  give the path: the wire one first, the decoded one, and each of them without the empty
  segment of one trailing slash. They are distinct, at most four, and each spells the
  path it came from, up to one dropped trailing slash.
\<close>

theorem path_readings_cover:
  "hd (path_readings v) = path_segments (v_escaped_path v) \<and>
   distinct (path_readings v) \<and> length (path_readings v) \<le> 4 \<and>
   set (path_readings v) =
     reading_closure {path_segments (v_escaped_path v), path_segments (v_path v)} \<and>
   (\<forall>r \<in> set (path_readings v). \<exists>p. (p = v_escaped_path v \<or> p = v_path v) \<and>
     (let body = trim_prefix (if p = [] then ''/'' else p) ''/''
      in join ''/'' r = body \<or> join ''/'' r @ ''/'' = body))"
proof (intro conjI ballI)
  show "hd (path_readings v) = path_segments (v_escaped_path v)" using hd_path_readings by blast
next
  fix r assume "r \<in> set (path_readings v)"
  then obtain p where p: "p = v_escaped_path v \<or> p = v_path v"
    and r: "r = path_segments p \<or> drop_trailing_empty (path_segments p) = Some r"
    by (auto simp: set_path_readings reading_closure_def)
  from r have "join ''/'' r = join ''/'' (path_segments p) \<or>
      join ''/'' r @ ''/'' = join ''/'' (path_segments p)"
    by (auto dest!: drop_trailing_empty_Some simp: join_snoc_empty)
  with p show "\<exists>p. (p = v_escaped_path v \<or> p = v_path v) \<and>
     (let body = trim_prefix (if p = [] then ''/'' else p) ''/''
      in join ''/'' r = body \<or> join ''/'' r @ ''/'' = body)"
    unfolding Let_def join_path_segments by blast
qed (rule distinct_path_readings length_path_readings set_path_readings)+

definition example_view :: view where
  "example_view =
     \<lparr>v_method = ''GET'', v_hostname = ''s3.amazonaws.com'', v_port = '''',
      v_path = ''/b/a/c/'', v_escaped_path = ''/b/a%2Fc/'', v_raw_query = '''',
      v_header = [], v_body = ''''\<rparr>"

theorem path_readings_cover_witness:
  "[''b'', ''a'', ''c''] \<in> set (path_readings example_view) \<and>
   (\<exists>p. (p = ''/b/a%2Fc/'' \<or> p = ''/b/a/c/'') \<and>
     (let body = trim_prefix (if p = [] then ''/'' else p) ''/''
      in join ''/'' [''b'', ''a'', ''c''] = body \<or> join ''/'' [''b'', ''a'', ''c''] @ ''/'' = body))"
proof -
  have m: "[''b'', ''a'', ''c''] \<in> set (path_readings example_view)" by code_simp
  have "v_escaped_path example_view = ''/b/a%2Fc/''" and "v_path example_view = ''/b/a/c/''"
    by (simp_all add: example_view_def)
  with m path_readings_cover [of example_view] show ?thesis by metis
qed

subsection \<open>Dot segments\<close>

text \<open>
  The server side of a dot segment: GitHub and GitLab decode each segment, parameters
  dropped, and resolve it against the segments before it, as RFC 3986 does.
\<close>

definition served_segment :: "string \<Rightarrow> string" where
  "served_segment seg = (case path_unescape (before_semi seg) of Some d \<Rightarrow> d | None \<Rightarrow> seg)"

fun resolve_dots :: "string list \<Rightarrow> string list \<Rightarrow> string list" where
  "resolve_dots acc [] = rev acc"
| "resolve_dots acc (s # segs) =
     (if s = ''.'' then resolve_dots acc segs
      else if s = ''..'' then resolve_dots (tl acc) segs
      else resolve_dots (s # acc) segs)"

lemma unescape_bad_not_dot: "path_unescape (before_semi seg) = None \<Longrightarrow> seg \<noteq> ''.'' \<and> seg \<noteq> ''..''"
  by (rule conjI; rule notI; simp add: before_semi_def str_cut_def has_prefix_def)

lemma served_segment_dot:
  "served_segment s = ''.'' \<or> served_segment s = ''..'' \<longleftrightarrow>
     path_unescape (before_semi s) = Some ''.'' \<or> path_unescape (before_semi s) = Some ''..''"
proof (cases "path_unescape (before_semi s)")
  case None
  with unescape_bad_not_dot [OF None] show ?thesis by (simp add: served_segment_def)
qed (simp add: served_segment_def)

lemma dot_in_iff:
  "dot_in segs \<longleftrightarrow> (\<exists>s \<in> set segs. served_segment s = ''.'' \<or> served_segment s = ''..'')"
proof (induction segs)
  case (Cons s segs)
  then show ?case unfolding served_segment_dot
    by (cases "path_unescape (before_semi s)") simp_all
qed simp

lemma length_resolve_dots: "length (resolve_dots acc segs) \<le> length acc + length segs"
proof (induction acc segs rule: resolve_dots.induct)
  case (2 acc s segs)
  then show ?case by (cases acc) auto
qed simp

lemma resolve_dots_plain:
  "\<forall>s \<in> set segs. \<not> (s = ''.'' \<or> s = ''..'') \<Longrightarrow> resolve_dots acc segs = rev acc @ segs"
  by (induction acc segs rule: resolve_dots.induct) auto

lemma resolve_dots_shrinks:
  "\<exists>s \<in> set segs. s = ''.'' \<or> s = ''..'' \<Longrightarrow> length (resolve_dots acc segs) < length acc + length segs"
proof (induction acc segs rule: resolve_dots.induct)
  case (2 acc s segs)
  show ?case
  proof (cases "s = ''.'' \<or> s = ''..''")
    case True
    have "length (resolve_dots acc segs) \<le> length acc + length segs"
      "length (resolve_dots (tl acc) segs) \<le> length (tl acc) + length segs"
      by (rule length_resolve_dots)+
    moreover have "length (tl acc) \<le> length acc" by simp
    ultimately show ?thesis using True by (auto simp del: length_tl)
  next
    case False
    with 2 show ?thesis by auto
  qed
qed simp

text \<open>
  The dot-segment test is exact: it is true of an escaped path if and only if a
  server that decodes the segments, drops their parameters and resolves \<open>.\<close> and
  \<open>..\<close> would serve another resource than the one the path as sent names.
\<close>

theorem has_dot_segment_exact:
  "has_dot_segment p \<longleftrightarrow>
     resolve_dots [] (map served_segment (split_on CHR ''/'' p)) \<noteq>
       map served_segment (split_on CHR ''/'' p)"
proof -
  let ?segs = "map served_segment (split_on CHR ''/'' p)"
  have iff: "has_dot_segment p \<longleftrightarrow> (\<exists>s \<in> set ?segs. s = ''.'' \<or> s = ''..'')"
    by (simp add: has_dot_segment_def dot_in_iff)
  show ?thesis
  proof (cases "has_dot_segment p")
    case True
    with iff resolve_dots_shrinks [of ?segs "[]"]
    have "length (resolve_dots [] ?segs) < length ?segs" by simp
    then have "resolve_dots [] ?segs \<noteq> ?segs" by (metis nat_less_le)
    with True show ?thesis by simp
  next
    case False
    with iff resolve_dots_plain [of ?segs "[]"] show ?thesis by auto
  qed
qed

end
