(* ===== verification/Ip_Addr.thy ===== *)
theory Ip_Addr
  imports Go_Url "HOL-Library.Word"
begin

unbundle bit_operations_syntax

text \<open>
  IP addresses and the ranges no connector may dial: Go's \<open>net/netip\<close> as far as
  \<open>internal/auth/addr.go\<close> uses it, that file's predicates, and the special-use
  ranges of \<open>github.go\<close>. An IPv4 address is a 32-bit word, an IPv6 address a 128-bit
  word and a zone.
\<close>

datatype ip = Invalid | V4 "32 word" | V6 "128 word" string

subsection \<open>netip.Addr\<close>

fun is_4in6 :: "ip \<Rightarrow> bool" where
  "is_4in6 (V6 a z) \<longleftrightarrow> drop_bit 32 a = 0xFFFF"
| "is_4in6 _ = False"

fun unmap :: "ip \<Rightarrow> ip" where
  "unmap (V6 a z) = (if is_4in6 (V6 a z) then V4 (ucast a) else V6 a z)"
| "unmap x = x"

fun without_zone :: "ip \<Rightarrow> ip" where
  "without_zone (V6 a z) = V6 a []"
| "without_zone x = x"

fun ip_zone :: "ip \<Rightarrow> string" where
  "ip_zone (V6 a z) = z"
| "ip_zone _ = []"

fun is_6 :: "ip \<Rightarrow> bool" where
  "is_6 (V6 a z) = True"
| "is_6 _ = False"

text \<open>A prefix is a length and its leading bits, \<open>in_prefix4 8 10\<close> being 10.0.0.0/8.\<close>

definition in_prefix4 :: "nat \<Rightarrow> 32 word \<Rightarrow> 32 word \<Rightarrow> bool" where
  "in_prefix4 n p w \<longleftrightarrow> drop_bit (32 - n) w = p"

definition in_prefix6 :: "nat \<Rightarrow> 128 word \<Rightarrow> 128 word \<Rightarrow> bool" where
  "in_prefix6 n p a \<longleftrightarrow> drop_bit (128 - n) a = p"

definition quad :: "32 word \<Rightarrow> 32 word \<Rightarrow> 32 word \<Rightarrow> 32 word \<Rightarrow> 32 word" where
  "quad a b c d = ((a * 256 + b) * 256 + c) * 256 + d"

definition is_private :: "ip \<Rightarrow> bool" where
  "is_private x = (case unmap x of
     V4 w \<Rightarrow> in_prefix4 8 10 w \<or> in_prefix4 12 0xAC1 w \<or> in_prefix4 16 0xC0A8 w
   | V6 a z \<Rightarrow> in_prefix6 7 0x7E a
   | Invalid \<Rightarrow> False)"

definition is_loopback :: "ip \<Rightarrow> bool" where
  "is_loopback x = (case unmap x of
     V4 w \<Rightarrow> in_prefix4 8 127 w | V6 a z \<Rightarrow> a = 1 | Invalid \<Rightarrow> False)"

definition is_unspecified :: "ip \<Rightarrow> bool" where
  "is_unspecified x \<longleftrightarrow> x = V4 0 \<or> x = V6 0 []"

definition is_link_local_unicast :: "ip \<Rightarrow> bool" where
  "is_link_local_unicast x = (case unmap x of
     V4 w \<Rightarrow> in_prefix4 16 0xA9FE w | V6 a z \<Rightarrow> in_prefix6 10 0x3FA a | Invalid \<Rightarrow> False)"

definition is_link_local_multicast :: "ip \<Rightarrow> bool" where
  "is_link_local_multicast x = (case unmap x of
     V4 w \<Rightarrow> in_prefix4 24 0xE00000 w
   | V6 a z \<Rightarrow> drop_bit 112 a AND 0xFF0F = 0xFF02
   | Invalid \<Rightarrow> False)"

definition is_interface_local_multicast :: "ip \<Rightarrow> bool" where
  "is_interface_local_multicast x = (case unmap x of
     V6 a z \<Rightarrow> drop_bit 112 a AND 0xFF0F = 0xFF01 | _ \<Rightarrow> False)"

definition is_multicast :: "ip \<Rightarrow> bool" where
  "is_multicast x = (case unmap x of
     V4 w \<Rightarrow> in_prefix4 4 0xE w | V6 a z \<Rightarrow> in_prefix6 8 0xFF a | Invalid \<Rightarrow> False)"

definition is_global_unicast :: "ip \<Rightarrow> bool" where
  "is_global_unicast x = (if x = Invalid then False
     else (let u = unmap x in
       u \<noteq> V4 0 \<and> u \<noteq> V4 0xFFFFFFFF \<and> u \<noteq> V6 0 [] \<and>
       \<not> is_loopback u \<and> \<not> is_multicast u \<and> \<not> is_link_local_unicast u))"

lemmas ip_class_defs = is_private_def is_loopback_def is_unspecified_def is_link_local_unicast_def
  is_link_local_multicast_def is_interface_local_multicast_def is_multicast_def

text \<open>\<open>Prefix.Contains\<close>: no zoned address, no address of the other family.\<close>

fun prefix4_contains :: "nat \<Rightarrow> 32 word \<Rightarrow> ip \<Rightarrow> bool" where
  "prefix4_contains n p (V4 w) = in_prefix4 n p w"
| "prefix4_contains n p _ = False"

fun prefix6_contains :: "nat \<Rightarrow> 128 word \<Rightarrow> ip \<Rightarrow> bool" where
  "prefix6_contains n p (V6 a z) \<longleftrightarrow> z = [] \<and> in_prefix6 n p a"
| "prefix6_contains n p _ = False"

subsection \<open>addr.go\<close>

definition cloud_host_local_addrs :: "ip list" where
  "cloud_host_local_addrs = [V4 (quad 168 63 129 16), V4 (quad 100 100 100 200)]"

definition nat64_contains :: "ip \<Rightarrow> bool" where
  "nat64_contains = prefix6_contains 96 0x64FF9B0000000000000000"

definition six_to_four_contains :: "ip \<Rightarrow> bool" where
  "six_to_four_contains = prefix6_contains 16 0x2002"

definition extract_embedded_ipv4 :: "ip \<Rightarrow> ip option" where
  "extract_embedded_ipv4 x0 =
     (case without_zone (unmap x0) of
        V6 a z \<Rightarrow>
          if nat64_contains (V6 a z) then Some (V4 (ucast a))
          else if six_to_four_contains (V6 a z) then Some (V4 (ucast (drop_bit 80 a)))
          else None
      | _ \<Rightarrow> None)"

lemma extract_embedded_V4 [simp]: "extract_embedded_ipv4 (V4 w) = None"
  by (simp add: extract_embedded_ipv4_def)

lemma extract_embedded_is_V4: "extract_embedded_ipv4 x = Some e \<Longrightarrow> \<exists>w. e = V4 w"
  by (auto simp: extract_embedded_ipv4_def split: ip.splits if_splits)

lemma extract_embedded_from_V6: "extract_embedded_ipv4 x = Some e \<Longrightarrow> is_6 x"
  by (cases x) (auto simp: extract_embedded_ipv4_def split: ip.splits)

fun embed_measure :: "ip \<Rightarrow> nat" where
  "embed_measure (V6 a z) = 1"
| "embed_measure _ = 0"

lemma embed_measure_less: "extract_embedded_ipv4 x = Some e \<Longrightarrow> embed_measure e < embed_measure x"
  using extract_embedded_is_V4 extract_embedded_from_V6 by (cases x) fastforce+

function floor_forbidden :: "ip \<Rightarrow> bool" where
  "floor_forbidden x0 =
     (if x0 = Invalid then True
      else (let x = unmap x0 in
        if (case extract_embedded_ipv4 x of Some e \<Rightarrow> floor_forbidden e | None \<Rightarrow> False) then True
        else x \<in> set cloud_host_local_addrs \<or> (is_6 x \<and> is_private x) \<or> is_loopback x \<or>
          is_unspecified x \<or> is_link_local_unicast x \<or> is_link_local_multicast x \<or>
          is_interface_local_multicast x))"
  by pat_completeness auto
termination
proof (relation "measure embed_measure", simp)
  fix x0 x e assume "x0 \<noteq> Invalid" "x = unmap x0" "extract_embedded_ipv4 x = Some e"
  then have "embed_measure e < embed_measure (unmap x0)" by (simp add: embed_measure_less)
  also have "\<dots> \<le> embed_measure x0" by (cases x0) auto
  finally show "(e, x0) \<in> measure embed_measure" by simp
qed

declare floor_forbidden.simps [simp del]

function is_internal_ip :: "ip \<Rightarrow> bool" where
  "is_internal_ip x =
     (if floor_forbidden x then True
      else (let u = unmap x in
        if (case extract_embedded_ipv4 u of Some e \<Rightarrow> is_internal_ip e | None \<Rightarrow> False) then True
        else is_private u))"
  by pat_completeness auto
termination
proof (relation "measure embed_measure", simp)
  fix x u e assume "u = unmap x" "extract_embedded_ipv4 u = Some e"
  then have "embed_measure e < embed_measure (unmap x)" by (simp add: embed_measure_less)
  also have "\<dots> \<le> embed_measure x" by (cases x) auto
  finally show "(e, x) \<in> measure embed_measure" by simp
qed

declare is_internal_ip.simps [simp del]

subsection \<open>github.go: the public unicast addresses\<close>

definition github_extra_forbidden :: "(ip \<Rightarrow> bool) list" where
  "github_extra_forbidden =
     [prefix4_contains 8 0, prefix4_contains 10 0x191, prefix4_contains 24 0xC00000,
      prefix4_contains 24 0xC00002, prefix4_contains 24 0xC05863, prefix4_contains 15 0x6309,
      prefix4_contains 24 0xC63364, prefix4_contains 24 0xCB0071, prefix4_contains 4 0xF,
      prefix6_contains 32 0x20010DB8]"

definition github_dial_allowed :: "ip \<Rightarrow> bool" where
  "github_dial_allowed x =
     (if is_internal_ip x then False
      else (let u = unmap x in
        if \<not> is_global_unicast u then False
        else \<not> list_ex (\<lambda>p. p u) github_extra_forbidden))"

subsection \<open>The ranges as intervals\<close>

lemma in_prefix4_unat:
  "in_prefix4 n p w \<longleftrightarrow>
     unat p * 2 ^ (32 - n) \<le> unat w \<and> unat w < (unat p + 1) * 2 ^ (32 - n)"
proof -
  let ?k = "2 ^ (32 - n) :: nat"
  have "in_prefix4 n p w \<longleftrightarrow> unat w div ?k = unat p"
    unfolding in_prefix4_def word_unat_eq_iff unat_drop_bit_eq by (simp add: drop_bit_nat_def)
  also have "\<dots> \<longleftrightarrow> unat p * ?k \<le> unat w \<and> unat w < (unat p + 1) * ?k"
  proof
    assume e: "unat w div ?k = unat p"
    show "unat p * ?k \<le> unat w \<and> unat w < (unat p + 1) * ?k"
      using div_times_less_eq_dividend [of "unat w" ?k] dividend_less_div_times [of ?k "unat w"]
      unfolding e by (simp add: algebra_simps)
  next
    assume "unat p * ?k \<le> unat w \<and> unat w < (unat p + 1) * ?k"
    then show "unat w div ?k = unat p" by (intro div_nat_eqI) (simp_all add: algebra_simps)
  qed
  finally show ?thesis .
qed

definition between :: "32 word \<Rightarrow> 32 word \<Rightarrow> 32 word \<Rightarrow> bool" where
  "between a b w \<longleftrightarrow> a \<le> w \<and> w \<le> b"

lemmas interval_defs = between_def quad_def word_le_nat_alt in_prefix4_unat

lemma prefix_intervals:
  "in_prefix4 8 10 w \<longleftrightarrow> between (quad 10 0 0 0) (quad 10 255 255 255) w"
  "in_prefix4 12 0xAC1 w \<longleftrightarrow> between (quad 172 16 0 0) (quad 172 31 255 255) w"
  "in_prefix4 16 0xC0A8 w \<longleftrightarrow> between (quad 192 168 0 0) (quad 192 168 255 255) w"
  "in_prefix4 8 127 w \<longleftrightarrow> between (quad 127 0 0 0) (quad 127 255 255 255) w"
  "in_prefix4 16 0xA9FE w \<longleftrightarrow> between (quad 169 254 0 0) (quad 169 254 255 255) w"
  "in_prefix4 24 0xE00000 w \<longleftrightarrow> between (quad 224 0 0 0) (quad 224 0 0 255) w"
  "in_prefix4 4 0xE w \<longleftrightarrow> between (quad 224 0 0 0) (quad 239 255 255 255) w"
  by (auto simp: interval_defs)

lemma floor_V4:
  "floor_forbidden (V4 w) \<longleftrightarrow>
     w = quad 168 63 129 16 \<or> w = quad 100 100 100 200 \<or> in_prefix4 8 127 w \<or> w = 0 \<or>
     in_prefix4 16 0xA9FE w \<or> in_prefix4 24 0xE00000 w"
  by (simp add: floor_forbidden.simps [of "V4 w"] cloud_host_local_addrs_def ip_class_defs)

lemma internal_V4:
  "is_internal_ip (V4 w) \<longleftrightarrow> floor_forbidden (V4 w) \<or> is_private (V4 w)"
  by (simp add: is_internal_ip.simps [of "V4 w"])

text \<open>
  The default-deny set on IPv4 is exactly loopback, link-local with the
  cloud metadata address, RFC 1918, local multicast, the unspecified address and the two
  cloud host-local services.
\<close>

theorem internal_ipv4_exact:
  "is_internal_ip (V4 w) \<longleftrightarrow>
     between (quad 127 0 0 0) (quad 127 255 255 255) w \<or>
     between (quad 169 254 0 0) (quad 169 254 255 255) w \<or>
     between (quad 10 0 0 0) (quad 10 255 255 255) w \<or>
     between (quad 172 16 0 0) (quad 172 31 255 255) w \<or>
     between (quad 192 168 0 0) (quad 192 168 255 255) w \<or>
     between (quad 224 0 0 0) (quad 224 0 0 255) w \<or>
     w = 0 \<or> w = quad 168 63 129 16 \<or> w = quad 100 100 100 200"
  unfolding internal_V4 floor_V4 by (auto simp: is_private_def prefix_intervals)

subsection \<open>IPv6 spellings of an IPv4 address\<close>

definition v6_mapped :: "32 word \<Rightarrow> 128 word" where
  "v6_mapped w = push_bit 32 0xFFFF OR ucast w"

definition v6_nat64 :: "32 word \<Rightarrow> 128 word" where
  "v6_nat64 w = push_bit 32 0x64FF9B0000000000000000 OR ucast w"

definition v6_6to4 :: "32 word \<Rightarrow> 80 word \<Rightarrow> 128 word" where
  "v6_6to4 w rest = push_bit 112 0x2002 OR push_bit 80 (ucast w) OR ucast rest"

lemma drop_push_ucast:
  "p < 2 ^ 96 \<Longrightarrow> drop_bit 32 (push_bit 32 p OR ucast w) = p" for p :: "128 word" and w :: "32 word"
proof (rule bit_word_eqI)
  fix n assume p: "p < 2 ^ 96" and n: "n < LENGTH(128)"
  have "unat p < 2 ^ 96" using p by (simp add: word_less_nat_alt)
  then have "take_bit 96 p = p"
    unfolding word_unat_eq_iff by (simp add: unsigned_take_bit_eq take_bit_nat_eq_self)
  then have "bit p n \<longrightarrow> n < 96" by (metis bit_take_bit_iff)
  then show "bit (drop_bit 32 (push_bit 32 p OR ucast w)) n \<longleftrightarrow> bit p n"
    using n bit_imp_le_length [of w "32 + n"] by (auto simp: bit_simps)
qed

lemma low_push_ucast:
  "ucast (push_bit 32 p OR ucast w :: 128 word) = w" for w :: "32 word"
  by (rule bit_word_eqI) (auto simp: bit_simps)

lemma drop_bit_split: "m \<le> n \<Longrightarrow> drop_bit n a = drop_bit (n - m) (drop_bit m a)" for a :: "128 word"
  by simp

lemma top16_nat64: "drop_bit 112 (v6_nat64 w) = 0x64"
proof -
  have "drop_bit 32 (v6_nat64 w) = 0x64FF9B0000000000000000"
    unfolding v6_nat64_def by (rule drop_push_ucast) simp
  then show ?thesis by (subst drop_bit_split [of 32]) simp_all
qed

lemma top16_6to4: "drop_bit 112 (v6_6to4 w rest) = 0x2002"
proof -
  have "drop_bit 112 (v6_6to4 w rest) =
      drop_bit 112 (push_bit 112 0x2002 :: 128 word) OR drop_bit 112 (push_bit 80 (ucast w)) OR drop_bit 112 (ucast rest)"
    by (simp add: v6_6to4_def)
  moreover have "drop_bit 112 (push_bit 80 (ucast w) :: 128 word) = 0"
    by (rule bit_word_eqI) (auto simp: bit_simps dest: bit_imp_le_length)
  moreover have "drop_bit 112 (ucast rest :: 128 word) = 0"
    by (rule bit_word_eqI) (auto simp: bit_simps dest: bit_imp_le_length)
  ultimately show ?thesis by simp
qed

lemma ucast_drop_80:
  "ucast (drop_bit 80 (push_bit 112 p OR push_bit 80 (ucast w) OR ucast rest) :: 128 word) = w"
  for w :: "32 word" and rest :: "80 word"
  by (rule bit_word_eqI) (auto simp: bit_simps dest: bit_imp_le_length)

lemma embedded_6to4: "ucast (drop_bit 80 (v6_6to4 w rest)) = w"
  unfolding v6_6to4_def by (rule ucast_drop_80)

text \<open>An address in these two prefixes is in no range of its own.\<close>

lemma embedding_plain:
  assumes q: "drop_bit 112 a = q" "q = 0x64 \<or> q = 0x2002"
  shows "\<not> is_4in6 (V6 a z)" "unmap (V6 a z) = V6 a z" "\<not> is_private (V6 a z)"
    "\<not> is_loopback (V6 a z)" "\<not> is_unspecified (V6 a z)" "\<not> is_link_local_unicast (V6 a z)"
    "\<not> is_link_local_multicast (V6 a z)" "\<not> is_interface_local_multicast (V6 a z)"
    "V6 a z \<notin> set cloud_host_local_addrs"
proof -
  have "drop_bit 32 a = 0xFFFF \<Longrightarrow> drop_bit 112 a = 0"
    by (subst drop_bit_split [of 32]) simp_all
  then show n: "\<not> is_4in6 (V6 a z)" using q by auto
  then show u: "unmap (V6 a z) = V6 a z" by simp
  have "drop_bit 121 a = drop_bit 9 q" using q(1) by (subst drop_bit_split [of 112]) simp_all
  then show "\<not> is_private (V6 a z)" using q(2) u by (auto simp: is_private_def in_prefix6_def)
  have "drop_bit 118 a = drop_bit 6 q" using q(1) by (subst drop_bit_split [of 112]) simp_all
  then show "\<not> is_link_local_unicast (V6 a z)"
    using q(2) u by (auto simp: is_link_local_unicast_def in_prefix6_def)
  have "drop_bit 112 (1 :: 128 word) = 0" by simp
  then have "a \<noteq> 1" "a \<noteq> 0" using q by auto
  then show "\<not> is_loopback (V6 a z)" "\<not> is_unspecified (V6 a z)"
    using u by (simp_all add: is_loopback_def is_unspecified_def)
  show "\<not> is_link_local_multicast (V6 a z)" "\<not> is_interface_local_multicast (V6 a z)"
    using q u by (auto simp: is_link_local_multicast_def is_interface_local_multicast_def)
  show "V6 a z \<notin> set cloud_host_local_addrs" by (simp add: cloud_host_local_addrs_def)
qed

lemma embedding_internal:
  assumes q: "drop_bit 112 a = q" "q = 0x64 \<or> q = 0x2002"
    and e: "extract_embedded_ipv4 (V6 a z) = Some (V4 w)"
  shows "floor_forbidden (V6 a z) \<longleftrightarrow> floor_forbidden (V4 w)"
    and "is_internal_ip (V6 a z) \<longleftrightarrow> is_internal_ip (V4 w)"
proof -
  note p = embedding_plain [OF q, of z]
  show f: "floor_forbidden (V6 a z) \<longleftrightarrow> floor_forbidden (V4 w)"
    using p e by (simp add: floor_forbidden.simps [of "V6 a z"] Let_def)
  show "is_internal_ip (V6 a z) \<longleftrightarrow> is_internal_ip (V4 w)"
    using p e f by (auto simp: is_internal_ip.simps [of "V6 a z"] internal_V4 Let_def)
qed

lemma extract_nat64: "extract_embedded_ipv4 (V6 (v6_nat64 w) z) = Some (V4 w)"
proof -
  have d: "drop_bit 32 (v6_nat64 w) = 0x64FF9B0000000000000000"
    unfolding v6_nat64_def by (rule drop_push_ucast) simp
  have "ucast (v6_nat64 w) = w" unfolding v6_nat64_def by (rule low_push_ucast)
  with d embedding_plain(2) [OF top16_nat64, of w z] show ?thesis
    by (simp add: extract_embedded_ipv4_def nat64_contains_def in_prefix6_def)
qed

lemma extract_6to4: "extract_embedded_ipv4 (V6 (v6_6to4 w rest) z) = Some (V4 w)"
proof -
  have "drop_bit 32 (v6_6to4 w rest) \<noteq> 0x64FF9B0000000000000000"
  proof
    assume "drop_bit 32 (v6_6to4 w rest) = 0x64FF9B0000000000000000"
    then have "drop_bit 112 (v6_6to4 w rest) = 0x64"
      by (subst drop_bit_split [of 32]) simp_all
    then show False by (simp add: top16_6to4)
  qed
  with top16_6to4 [of w rest] embedding_plain(2) [OF top16_6to4, of w rest z] embedded_6to4 [of w rest]
  show ?thesis
    by (simp add: extract_embedded_ipv4_def nat64_contains_def six_to_four_contains_def in_prefix6_def)
qed

lemma mapped_internal: "is_internal_ip (V6 (v6_mapped w) z) \<longleftrightarrow> is_internal_ip (V4 w)"
proof -
  have "drop_bit 32 (v6_mapped w) = 0xFFFF" unfolding v6_mapped_def by (rule drop_push_ucast) simp
  moreover have "ucast (v6_mapped w) = w" unfolding v6_mapped_def by (rule low_push_ucast)
  ultimately have u: "unmap (V6 (v6_mapped w) z) = V4 w" by simp
  then have "floor_forbidden (V6 (v6_mapped w) z) = floor_forbidden (V4 w)"
    by (simp add: floor_forbidden.simps [of "V6 _ _"] floor_forbidden.simps [of "V4 _"])
  with u show ?thesis
    by (simp add: is_internal_ip.simps [of "V6 _ _"] is_internal_ip.simps [of "V4 _"])
qed


subsection \<open>What GitHub may be dialed at\<close>

lemma more_prefix_intervals:
  "in_prefix4 8 0 w \<longleftrightarrow> between (quad 0 0 0 0) (quad 0 255 255 255) w"
  "in_prefix4 10 0x191 w \<longleftrightarrow> between (quad 100 64 0 0) (quad 100 127 255 255) w"
  "in_prefix4 24 0xC00000 w \<longleftrightarrow> between (quad 192 0 0 0) (quad 192 0 0 255) w"
  "in_prefix4 24 0xC00002 w \<longleftrightarrow> between (quad 192 0 2 0) (quad 192 0 2 255) w"
  "in_prefix4 24 0xC05863 w \<longleftrightarrow> between (quad 192 88 99 0) (quad 192 88 99 255) w"
  "in_prefix4 15 0x6309 w \<longleftrightarrow> between (quad 198 18 0 0) (quad 198 19 255 255) w"
  "in_prefix4 24 0xC63364 w \<longleftrightarrow> between (quad 198 51 100 0) (quad 198 51 100 255) w"
  "in_prefix4 24 0xCB0071 w \<longleftrightarrow> between (quad 203 0 113 0) (quad 203 0 113 255) w"
  "in_prefix4 4 0xF w \<longleftrightarrow> between (quad 240 0 0 0) (quad 255 255 255 255) w"
  using unsigned_less [of w] by (auto simp: interval_defs)

lemma github_extra_V4:
  "list_ex (\<lambda>p. p (V4 w)) github_extra_forbidden \<longleftrightarrow>
     between (quad 0 0 0 0) (quad 0 255 255 255) w \<or> between (quad 100 64 0 0) (quad 100 127 255 255) w \<or>
     between (quad 192 0 0 0) (quad 192 0 0 255) w \<or> between (quad 192 0 2 0) (quad 192 0 2 255) w \<or>
     between (quad 192 88 99 0) (quad 192 88 99 255) w \<or> between (quad 198 18 0 0) (quad 198 19 255 255) w \<or>
     between (quad 198 51 100 0) (quad 198 51 100 255) w \<or> between (quad 203 0 113 0) (quad 203 0 113 255) w \<or>
     between (quad 240 0 0 0) (quad 255 255 255 255) w"
  by (simp add: github_extra_forbidden_def more_prefix_intervals)

lemma between_below: "\<not> between (quad 224 0 0 0) (quad 239 255 255 255) w \<Longrightarrow>
    \<not> between (quad 240 0 0 0) (quad 255 255 255 255) w \<Longrightarrow> w \<le> quad 223 255 255 255"
proof -
  assume a: "\<not> between (quad 224 0 0 0) (quad 239 255 255 255) w"
    "\<not> between (quad 240 0 0 0) (quad 255 255 255 255) w"
  have "unat w < 2 ^ 32" using unsigned_less [of w] by simp
  with a show ?thesis by (auto simp: interval_defs)
qed

text \<open>
  GitHub is only ever dialed at public unicast addresses: an address the connector may
  dial is not internal in any spelling, and as an IPv4 address it lies in the unicast space
  below 224.0.0.0 and outside the zero network, carrier-grade NAT, the IETF, documentation,
  6to4-relay and benchmarking blocks.
\<close>

theorem github_dial_public:
  "github_dial_allowed x \<Longrightarrow> \<not> is_internal_ip x \<and> x \<noteq> Invalid \<and>
     (\<forall>w. unmap x = V4 w \<longrightarrow>
        between (quad 1 0 0 0) (quad 223 255 255 255) w \<and> \<not> is_internal_ip (V4 w) \<and>
        \<not> between (quad 100 64 0 0) (quad 100 127 255 255) w \<and>
        \<not> between (quad 192 0 0 0) (quad 192 0 0 255) w \<and>
        \<not> between (quad 192 0 2 0) (quad 192 0 2 255) w \<and>
        \<not> between (quad 192 88 99 0) (quad 192 88 99 255) w \<and>
        \<not> between (quad 198 18 0 0) (quad 198 19 255 255) w \<and>
        \<not> between (quad 198 51 100 0) (quad 198 51 100 255) w \<and>
        \<not> between (quad 203 0 113 0) (quad 203 0 113 255) w)"
proof (intro conjI allI impI)
  assume a: "github_dial_allowed x"
  then have ni: "\<not> is_internal_ip x" by (auto simp: github_dial_allowed_def)
  then show "\<not> is_internal_ip x" .
  show "x \<noteq> Invalid"
    using ni by (auto simp: is_internal_ip.simps [of Invalid] floor_forbidden.simps [of Invalid])
  fix w assume u: "unmap x = V4 w"
  have e: "\<not> list_ex (\<lambda>p. p (V4 w)) github_extra_forbidden" and g: "is_global_unicast (V4 w)"
    using a u by (auto simp: github_dial_allowed_def Let_def split: if_splits)
  then have m: "\<not> in_prefix4 4 0xE w"
    by (auto simp: is_global_unicast_def is_multicast_def Let_def)
  note E = e [unfolded github_extra_V4]
  have up: "w \<le> quad 223 255 255 255" using m E between_below by (auto simp: prefix_intervals)
  have lo: "quad 1 0 0 0 \<le> w" using E by (auto simp: interval_defs)
  show "between (quad 1 0 0 0) (quad 223 255 255 255) w" using up lo by (simp add: between_def)
  have "floor_forbidden x = floor_forbidden (V4 w)"
    using u by (cases x) (auto simp: floor_forbidden.simps [of "V6 _ _"] floor_forbidden.simps [of "V4 _"])
  with ni u show "\<not> is_internal_ip (V4 w)"
    by (cases x) (auto simp: is_internal_ip.simps [of "V6 _ _"] is_internal_ip.simps [of "V4 _"])
  show "\<not> between (quad 100 64 0 0) (quad 100 127 255 255) w"
    "\<not> between (quad 192 0 0 0) (quad 192 0 0 255) w" "\<not> between (quad 192 0 2 0) (quad 192 0 2 255) w"
    "\<not> between (quad 192 88 99 0) (quad 192 88 99 255) w" "\<not> between (quad 198 18 0 0) (quad 198 19 255 255) w"
    "\<not> between (quad 198 51 100 0) (quad 198 51 100 255) w" "\<not> between (quad 203 0 113 0) (quad 203 0 113 255) w"
    using E by blast+
qed

text \<open>140.82.121.6 is a published address of api.github.com.\<close>

theorem github_dial_public_witness:
  "\<not> is_internal_ip (V4 (quad 140 82 121 6)) \<and> github_dial_allowed (V4 (quad 140 82 121 6))"
proof -
  have a: "github_dial_allowed (V4 (quad 140 82 121 6))" by code_simp
  with github_dial_public [OF a] show ?thesis by blast
qed

end
