(* ===== verification/Host_Admission.thy ===== *)
theory Host_Admission
  imports Request_Path Ip_Addr
begin

text \<open>
  Which hosts and ports a request may name: \<open>internal/auth/authority.go\<close>,
  \<open>internal/cloudauth/host.go\<close> and Go's \<open>netip.ParseAddr\<close> they rest on. The
  conversion \<open>idna.Lookup.ToASCII\<close> of \<open>golang.org/x/net\<close> is a parameter.
\<close>

subsection \<open>netip.ParseAddr\<close>

definition dec_val :: "char \<Rightarrow> nat option" where
  "dec_val c = (let n = byte_val c in if 48 \<le> n \<and> n \<le> 57 then Some (n - 48) else None)"

fun dec_number :: "nat \<Rightarrow> string \<Rightarrow> nat option" where
  "dec_number acc [] = Some acc"
| "dec_number acc (c # s) = (case dec_val c of Some d \<Rightarrow> dec_number (acc * 10 + d) s | None \<Rightarrow> None)"

definition parse_octet :: "string \<Rightarrow> nat option" where
  "parse_octet s =
     (if s = [] \<or> (length s > 1 \<and> hd s = CHR ''0'') then None
      else case dec_number 0 s of Some n \<Rightarrow> if n \<le> 255 then Some n else None | None \<Rightarrow> None)"

definition parse_octets :: "string \<Rightarrow> (nat \<times> nat \<times> nat \<times> nat) option" where
  "parse_octets s = (case map parse_octet (split_on CHR ''.'' s) of
     [Some a, Some b, Some c, Some d] \<Rightarrow> Some (a, b, c, d) | _ \<Rightarrow> None)"

definition is_hex :: "char \<Rightarrow> bool" where
  "is_hex c \<longleftrightarrow> hex_val c \<noteq> None"

fun hex_number :: "nat \<Rightarrow> string \<Rightarrow> nat" where
  "hex_number acc [] = acc"
| "hex_number acc (c # s) = hex_number (acc * 16 + (case hex_val c of Some d \<Rightarrow> d | None \<Rightarrow> 0)) s"

text \<open>The loop over the colon-separated groups: the groups read, where the ellipsis stands.\<close>

function v6_loop :: "nat list \<Rightarrow> nat option \<Rightarrow> string \<Rightarrow> (nat list \<times> nat option \<times> string) option" where
  "v6_loop groups ell s =
     (if length groups \<ge> 8 then Some (groups, ell, s)
      else (let h = takeWhile is_hex s; r = dropWhile is_hex s; g = groups @ [hex_number 0 h] in
        if h = [] \<or> length h > 4 then None
        else if r \<noteq> [] \<and> hd r = CHR ''.'' then
          (if (ell = None \<and> length groups \<noteq> 6) \<or> length groups > 6 then None
           else (case parse_octets s of
              None \<Rightarrow> None
            | Some (a, b, c, d) \<Rightarrow> Some (groups @ [a * 256 + b, c * 256 + d], ell, [])))
        else if r = [] then Some (g, ell, [])
        else if hd r \<noteq> CHR '':'' \<or> tl r = [] then None
        else if hd (tl r) = CHR '':'' then
          (if ell \<noteq> None then None
           else if tl (tl r) = [] then Some (g, Some (length g), [])
           else v6_loop g (Some (length g)) (tl (tl r)))
        else v6_loop g ell (tl r)))"
  by pat_completeness auto
termination
proof (relation "measure (\<lambda>(g, e, s). length s)", simp)
  have t: "length (dropWhile is_hex s) \<le> length s" for s by (rule length_dropWhile_le)
  fix groups ell s h r g
  assume r: "r = dropWhile is_hex s" "\<not> r = []"
  then have l: "length r \<le> length s" using t [of s] by simp
  show "((g, Some (length g), tl (tl r)), groups, ell, s) \<in> measure (\<lambda>(g, e, s). length s)"
    using l r(2) by (cases r) simp_all
  show "((g, ell, tl r), groups, ell, s) \<in> measure (\<lambda>(g, e, s). length s)"
    using l r(2) by (cases r) simp_all
qed

declare v6_loop.simps [simp del]

fun groups_word :: "nat list \<Rightarrow> 128 word \<Rightarrow> 128 word" where
  "groups_word [] acc = acc"
| "groups_word (g # gs) acc = groups_word gs (acc * 65536 + of_nat g)"

text \<open>Filling the ellipsis with zero groups; without one all eight groups are needed.\<close>

fun fill_groups :: "(nat list \<times> nat option \<times> string) \<Rightarrow> nat list option" where
  "fill_groups (gs, ell, rest) =
     (if rest \<noteq> [] then None
      else if length gs < 8 then
        map_option (\<lambda>e. take e gs @ replicate (8 - length gs) 0 @ drop e gs) ell
      else if ell \<noteq> None then None
      else Some gs)"

definition parse_groups :: "string \<Rightarrow> nat list option" where
  "parse_groups s =
     (if has_prefix s ''::'' then
        (if drop 2 s = [] then Some [] else Option.bind (v6_loop [] (Some 0) (drop 2 s)) fill_groups)
      else Option.bind (v6_loop [] None s) fill_groups)"

definition parse_ipv6 :: "string \<Rightarrow> ip option" where
  "parse_ipv6 s0 =
     (case str_cut s0 ''%'' of (s, zone, has_zone) \<Rightarrow>
        if has_zone \<and> zone = [] then None
        else map_option (\<lambda>gs. V6 (groups_word gs 0) zone) (parse_groups s))"

definition parse_ipv4 :: "string \<Rightarrow> ip option" where
  "parse_ipv4 s = (case parse_octets s of
     Some (a, b, c, d) \<Rightarrow> Some (V4 (quad (of_nat a) (of_nat b) (of_nat c) (of_nat d)))
   | None \<Rightarrow> None)"

fun parse_addr_scan :: "string \<Rightarrow> string \<Rightarrow> ip option" where
  "parse_addr_scan s [] = None"
| "parse_addr_scan s (c # cs) =
     (if c = CHR ''.'' then parse_ipv4 s
      else if c = CHR '':'' then parse_ipv6 s
      else if c = CHR ''%'' then None
      else parse_addr_scan s cs)"

definition parse_addr :: "string \<Rightarrow> ip option" where
  "parse_addr s = parse_addr_scan s s"

subsection \<open>authority.go\<close>

datatype host_error = HostNotAuthorized | NonASCIIHost | ZonedHost

definition https_port :: string where
  "https_port = ''443''"

definition defaulted_port :: "string \<Rightarrow> string" where
  "defaulted_port port = (if port = [] then https_port else port)"

definition authorize_request_port :: "view \<Rightarrow> string \<Rightarrow> (host_error, unit) result" where
  "authorize_request_port v want =
     (if want = [] then Inl HostNotAuthorized
      else if defaulted_port (v_port v) \<noteq> want then Inl HostNotAuthorized
      else Inr ())"

fun has_high_byte :: "string \<Rightarrow> bool" where
  "has_high_byte [] = False"
| "has_high_byte (c # s) = (if byte_val c \<ge> 128 then True else has_high_byte s)"

definition admit_host :: "string \<Rightarrow> (host_error, unit) result" where
  "admit_host host =
     (if has_high_byte host then Inl NonASCIIHost
      else (case parse_addr host of
          Some a \<Rightarrow> if ip_zone a \<noteq> [] then Inl ZonedHost else Inr ()
        | None \<Rightarrow> Inr ()))"

subsection \<open>cloudauth/host.go\<close>

definition normalize_host :: "(string \<Rightarrow> string option) \<Rightarrow> string \<Rightarrow> string option" where
  "normalize_host to_ascii host0 =
     (if has_high_byte host0 then None
      else (let host1 = to_lower (trim_space host0) in
        if host1 = [] then None
        else if str_contains host1 ''@'' then None
        else if \<not> has_prefix host1 ''['' \<and> count_char host1 CHR '':'' > 1 then None
        else (let host2 = (if has_prefix host1 ''['' then host1
                else (case str_cut host1 '':'' of (h, _, ok) \<Rightarrow> if ok then h else host1));
                  host = trim_suffix host2 ''.'' in
          if to_ascii host \<noteq> Some host then None
          else if parse_addr host \<noteq> None then None
          else Some host)))"

definition is_ip_literal :: "string \<Rightarrow> bool" where
  "is_ip_literal host \<longleftrightarrow>
     has_prefix host ''['' \<or> str_contains host '':'' \<or> parse_addr host \<noteq> None"

definition host_of :: "string \<Rightarrow> string" where
  "host_of raw_url =
     (let s = trim_prefix (trim_prefix raw_url ''https://'') ''http://'';
          (h, _, _) = str_cut s ''/''
      in trim_suffix (to_lower h) ''.'')"

subsection \<open>Lower-casing an admitted host\<close>

text \<open>
  The gates classify the lower-cased host while the client dials the one the caller wrote.
  For an admitted host the two are one: the same bytes up to ASCII case, and the same
  address when the host is an IP literal.
\<close>

lemma ascii_lower_cases: "ascii_lower c = c \<or> (65 \<le> byte_val c \<and> byte_val c \<le> 90 \<and> byte_val (ascii_lower c) = byte_val c + 32)"
  by (auto simp: ascii_lower_def)

lemma ascii_lower_eq_other:
  "\<not> (97 \<le> byte_val d \<and> byte_val d \<le> 122) \<Longrightarrow> \<not> (65 \<le> byte_val d \<and> byte_val d \<le> 90) \<Longrightarrow>
   ascii_lower c = d \<longleftrightarrow> c = d"
  using ascii_lower_cases [of c] by auto

lemma ascii_lower_punct [simp]:
  "ascii_lower c = CHR ''.'' \<longleftrightarrow> c = CHR ''.''" "ascii_lower c = CHR '':'' \<longleftrightarrow> c = CHR '':''"
  "ascii_lower c = CHR ''%'' \<longleftrightarrow> c = CHR ''%''" "ascii_lower c = CHR ''0'' \<longleftrightarrow> c = CHR ''0''"
  by (rule ascii_lower_eq_other; simp add: byte_val_def)+

lemma dec_val_lower [simp]: "dec_val (ascii_lower c) = dec_val c"
  using ascii_lower_cases [of c] by (auto simp: dec_val_def Let_def)

lemma hex_val_lower [simp]: "hex_val (ascii_lower c) = hex_val c"
  using ascii_lower_cases [of c] by (auto simp: hex_val_def Let_def)

lemma is_hex_lower [simp]: "is_hex (ascii_lower c) = is_hex c"
  by (simp add: is_hex_def)

lemma dec_number_lower [simp]: "dec_number acc (map ascii_lower s) = dec_number acc s"
  by (induction s arbitrary: acc) (auto split: option.splits)

lemma hex_number_lower [simp]: "hex_number acc (map ascii_lower s) = hex_number acc s"
  by (induction s arbitrary: acc) auto

lemma hd_map_lower: "s \<noteq> [] \<Longrightarrow> hd (map ascii_lower s) = ascii_lower (hd s)"
  by (cases s) auto

lemma parse_octet_lower [simp]: "parse_octet (map ascii_lower s) = parse_octet s"
  by (cases s) (auto simp: parse_octet_def split: option.splits)

lemma split_on_lower:
  "(\<And>c. ascii_lower c = d \<longleftrightarrow> c = d) \<Longrightarrow> split_on d (map ascii_lower s) = map (map ascii_lower) (split_on d s)"
proof (induction s)
  case (Cons c s)
  then show ?case by (cases "split_on d s") auto
qed simp

lemma parse_octets_lower [simp]: "parse_octets (map ascii_lower s) = parse_octets s"
  by (simp add: parse_octets_def split_on_lower o_def)

lemma takeWhile_hex_lower [simp]:
  "takeWhile is_hex (map ascii_lower s) = map ascii_lower (takeWhile is_hex s)"
  "dropWhile is_hex (map ascii_lower s) = map ascii_lower (dropWhile is_hex s)"
  by (simp_all add: takeWhile_map dropWhile_map o_def)

lemma v6_loop_lower:
  "v6_loop g e (map ascii_lower s) = map_option (\<lambda>(g, e, r). (g, e, map ascii_lower r)) (v6_loop g e s)"
proof (induction g e s rule: v6_loop.induct)
  case (1 g e s)
  show ?case
    using 1
    by (subst (1 2) v6_loop.simps)
       (auto simp: Let_def hd_map_lower map_tl [symmetric] simp del: map_tl split: option.splits)
qed

lemma parse_addr_scan_lower:
  "parse_addr_scan t (map ascii_lower cs) = parse_addr_scan t cs"
  by (induction cs) auto

lemma str_index_lower:
  "(\<And>c. ascii_lower c = d \<longleftrightarrow> c = d) \<Longrightarrow> str_index (map ascii_lower s) [d] = str_index s [d]"
  by (induction s) (auto simp: has_prefix_def)

lemma str_cut_lower:
  "(\<And>c. ascii_lower c = d \<longleftrightarrow> c = d) \<Longrightarrow>
   str_cut (map ascii_lower s) [d] =
     (case str_cut s [d] of (a, b, f) \<Rightarrow> (map ascii_lower a, map ascii_lower b, f))"
  by (simp add: str_cut_def str_index_lower take_map drop_map split: option.splits)

lemma has_prefix_colons_lower [simp]:
  "has_prefix (map ascii_lower s) ''::'' = has_prefix s ''::''"
  by (cases s; cases "tl s") (auto simp: has_prefix_def)

fun lower_zone :: "ip \<Rightarrow> ip" where
  "lower_zone (V6 a z) = V6 a (map ascii_lower z)"
| "lower_zone x = x"

lemma fill_groups_lower:
  "fill_groups (case x of (g, e, r) \<Rightarrow> (g, e, map ascii_lower r)) = fill_groups x"
  by (cases x) auto

lemma v6_loop_fill_lower:
  "Option.bind (v6_loop g e (map ascii_lower s)) fill_groups = Option.bind (v6_loop g e s) fill_groups"
  unfolding v6_loop_lower by (cases "v6_loop g e s") (simp_all only: option.map bind.simps fill_groups_lower)

lemma parse_groups_lower [simp]: "parse_groups (map ascii_lower s) = parse_groups s"
  unfolding parse_groups_def has_prefix_colons_lower drop_map v6_loop_fill_lower by simp

lemma parse_ipv6_lower:
  "parse_ipv6 (map ascii_lower s) = map_option lower_zone (parse_ipv6 s)"
proof -
  obtain a z f where c: "str_cut s ''%'' = (a, z, f)" by (cases "str_cut s ''%''")
  then have c': "str_cut (map ascii_lower s) ''%'' = (map ascii_lower a, map ascii_lower z, f)"
    by (simp add: str_cut_lower)
  show ?thesis by (simp add: parse_ipv6_def c c' option.map_comp o_def)
qed

lemma parse_addr_lower: "parse_addr (map ascii_lower s) = map_option lower_zone (parse_addr s)"
proof -
  have "parse_addr_scan (map ascii_lower s) cs = map_option lower_zone (parse_addr_scan s cs)" for cs
    by (induction cs) (auto simp: parse_ipv6_lower parse_ipv4_def split: option.splits)
  then show ?thesis by (simp add: parse_addr_def parse_addr_scan_lower)
qed

lemma has_high_byte_iff: "has_high_byte s \<longleftrightarrow> \<not> is_ascii s"
  by (induction s) auto

text \<open>
  Host admission is exact, and enough for the authority the gates judge to be the one
  dialed: a host is admitted if and only if it is ASCII and no zoned IP literal; for an
  admitted host the lower-cased host the gates see differs from the written one in ASCII
  case only and parses to the same address.
\<close>

theorem admit_host_exact:
  "(admit_host h = Inr () \<longleftrightarrow> is_ascii h \<and> (\<forall>a. parse_addr h = Some a \<longrightarrow> ip_zone a = [])) \<and>
   (admit_host h = Inr () \<longrightarrow> to_lower h = map ascii_lower h \<and> parse_addr (to_lower h) = parse_addr h)"
proof (intro conjI impI)
  show iff: "admit_host h = Inr () \<longleftrightarrow> is_ascii h \<and> (\<forall>a. parse_addr h = Some a \<longrightarrow> ip_zone a = [])"
    by (auto simp: admit_host_def has_high_byte_iff split: option.splits)
  assume "admit_host h = Inr ()"
  with iff have a: "is_ascii h" "\<And>a. parse_addr h = Some a \<Longrightarrow> ip_zone a = []" by auto
  then show l: "to_lower h = map ascii_lower h" by (simp add: to_lower_ascii)
  have "lower_zone x = x" if "ip_zone x = []" for x using that by (cases x) auto
  with a(2) show "parse_addr (to_lower h) = parse_addr h"
    by (cases "parse_addr h") (simp_all add: l parse_addr_lower)
qed

theorem admit_host_exact_witness:
  "to_lower ''API.GitHub.com'' = ''api.github.com'' \<and>
   parse_addr (to_lower ''10.0.0.1'') = parse_addr ''10.0.0.1''"
proof -
  have "admit_host ''API.GitHub.com'' = Inr ()" "admit_host ''10.0.0.1'' = Inr ()" by code_simp+
  moreover have "map ascii_lower ''API.GitHub.com'' = ''api.github.com''" by code_simp
  ultimately show ?thesis using admit_host_exact [of "''API.GitHub.com''"] admit_host_exact [of "''10.0.0.1''"]
    by simp
qed

lemma authorize_request_port_ok:
  "authorize_request_port v want = Inr () \<longleftrightarrow> want \<noteq> [] \<and> defaulted_port (v_port v) = want"
  by (simp add: authorize_request_port_def)

end
