(* ===== verification/Github_Gate.thy ===== *)
theory Github_Gate
  imports Github_Table Host_Admission
begin

text \<open>
  The GitHub connector's action gate: \<open>internal/auth/github/classifier.go\<close>,
  \<open>policy.go\<close>, \<open>sensitive.go\<close>, \<open>posture.go\<close>, \<open>audit.go\<close> and the
  provider of \<open>internal/auth/github.go\<close>. The routing table comes from a cache that may
  have none, so it is an option.
\<close>

subsection \<open>classifier.go\<close>

definition graphql_path :: string where
  "graphql_path = ''/graphql''"

definition read_only_post_paths :: "string list" where
  "read_only_post_paths = [''/markdown'', ''/markdown/raw'']"

record access =
  a_routes :: "route list"
  a_level :: level

definition is_graphql_endpoint :: "string \<Rightarrow> bool" where
  "is_graphql_endpoint path \<longleftrightarrow> trim_right_char CHR ''/'' path = graphql_path"

definition method_level :: "string \<Rightarrow> string \<Rightarrow> (gh_error, level) result" where
  "method_level m path =
     (if m = ''GET'' \<or> m = ''HEAD'' \<or> m = ''OPTIONS'' then Inr LevelRead
      else if m = ''POST'' \<or> m = ''PUT'' \<or> m = ''PATCH'' \<or> m = ''DELETE'' then
        (if m = ''POST'' \<and> path \<in> set read_only_post_paths then Inr LevelRead else Inr LevelWrite)
      else Inl GhUnclassifiable)"

definition required_level :: "string \<Rightarrow> string \<Rightarrow> (gh_error, level) result" where
  "required_level m path = method_level (to_upper (trim_space m)) path"

definition classify_request :: "gh_table \<Rightarrow> string \<Rightarrow> string \<Rightarrow> (gh_error, access) result" where
  "classify_request t method0 path =
     (let m = to_upper (trim_space method0) in
      and_then (required_level m path) (\<lambda>lvl.
        if has_dot_segment path then Inl GhUnclassifiable
        else (let lookup_method = (if m = ''HEAD'' \<or> m = ''OPTIONS'' then ''GET'' else m);
                  routes = lookup_routes t lookup_method path in
          if routes = [] then Inl GhUnmatched
          else Inr \<lparr>a_routes = routes, a_level = lvl\<rparr>)))"

subsection \<open>policy.go\<close>

definition secret_scanning_key :: string where
  "secret_scanning_key = ''secret-scanning''"

definition gh_baseline :: exposure where
  "gh_baseline = [(default_key, LevelRead), (secret_scanning_key, LevelNone)]"

definition gh_build_exposure :: "(string \<times> string) list \<Rightarrow> exposure" where
  "gh_build_exposure operator = build_exposure gh_baseline operator"

definition gh_resolve :: "exposure \<Rightarrow> string \<Rightarrow> string \<Rightarrow> level" where
  "gh_resolve e c s =
     (case (if s \<noteq> [] then map_of e (c @ ''/'' @ s) else None) of
        Some lvl \<Rightarrow> lvl
      | None \<Rightarrow> (case map_of e c of
          Some lvl \<Rightarrow> lvl
        | None \<Rightarrow> exp_get e default_key))"

fun gh_validate_keys :: "string list \<Rightarrow> gh_table \<Rightarrow> (gh_error, unit) result" where
  "gh_validate_keys [] t = Inr ()"
| "gh_validate_keys (key # keys) t =
     (if key = default_key \<or> key = secret_scanning_key then gh_validate_keys keys t
      else if \<not> knows t key then Inl GhUnknownKey
      else gh_validate_keys keys t)"

definition gh_validate_exposure_keys :: "exposure \<Rightarrow> gh_table \<Rightarrow> (gh_error, unit) result" where
  "gh_validate_exposure_keys e t = gh_validate_keys (map fst e) t"

subsection \<open>sensitive.go\<close>

definition gh_sensitive_patterns :: "(string \<times> route) list" where
  "gh_sensitive_patterns = [(secret_scanning_key, Route secret_scanning_key secret_scanning_key)]"

definition has_segment :: "string \<Rightarrow> string \<Rightarrow> bool" where
  "has_segment path seg \<longleftrightarrow> seg \<in> set (split_path path)"

definition gh_admit_table :: "gh_table \<Rightarrow> (gh_error, unit) result" where
  "gh_admit_table t =
     (if list_ex (\<lambda>tm. list_ex (\<lambda>(seg, r).
           has_segment (''/'' @ join ''/'' (segments tm)) seg \<and> category (t_route tm) \<noteq> category r)
           gh_sensitive_patterns) (table_templates t)
      then Inl GhTableRejected else Inr ())"

subsection \<open>posture.go\<close>

definition is_secret_key :: "string \<Rightarrow> bool" where
  "is_secret_key k \<longleftrightarrow> k = secret_scanning_key \<or> has_prefix k (secret_scanning_key @ ''/'')"

definition secret_scanning_opened :: "exposure \<Rightarrow> bool" where
  "secret_scanning_opened e \<longleftrightarrow> list_ex (\<lambda>(k, v). is_secret_key k \<and> v \<noteq> LevelNone) e"

definition gh_posture_loud :: "exposure \<Rightarrow> bool" where
  "gh_posture_loud e =
     (if exp_get e default_key = LevelWrite \<or> secret_scanning_opened e then True
      else list_ex (\<lambda>(k, v). \<not> (k = default_key \<or> is_secret_key k) \<and> v = LevelWrite) e)"

definition gh_inventory_posture :: "exposure \<Rightarrow> string" where
  "gh_inventory_posture e = compact_ceiling e secret_scanning_key"

subsection \<open>audit.go\<close>

fun alt_all_read_loop :: "string list \<Rightarrow> bool \<Rightarrow> bool" where
  "alt_all_read_loop [] found = found"
| "alt_all_read_loop (p # perms) found =
     (let perm = trim_space p in
      if perm = [] then alt_all_read_loop perms found
      else (case str_cut perm ''='' of (_, val, ok) \<Rightarrow>
        if \<not> ok \<or> trim_space val \<noteq> ''read'' then False else alt_all_read_loop perms True))"

definition alt_all_read :: "string \<Rightarrow> bool" where
  "alt_all_read alt = alt_all_read_loop (split_on CHR '','' alt) False"

definition header_read_satisfiable :: "string \<Rightarrow> bool" where
  "header_read_satisfiable h = list_ex alt_all_read (split_on CHR '';'' h)"

definition drift_warning :: "level \<Rightarrow> string \<Rightarrow> bool" where
  \<comment> \<open>Whether a warning is returned; its text is not modelled.\<close>
  "drift_warning access_level accepted =
     (let h = trim_space accepted in
      if access_level \<noteq> LevelRead \<or> h = [] then False
      else if header_read_satisfiable h then False
      else True)"

subsection \<open>The provider (github.go)\<close>

record github_provider =
  gh_token :: string
  gh_exposure :: exposure

definition gh_inject_auth :: "github_provider \<Rightarrow> http_request \<Rightarrow> http_request" where
  "gh_inject_auth p req =
     req\<lparr>req_header := header_del
           (header_set (req_header req) ''Authorization'' (''Bearer '' @ gh_token p))
           ''X-Github-Api-Version''\<rparr>"

definition is_github_download_host :: "string \<Rightarrow> bool" where
  "is_github_download_host host \<longleftrightarrow>
     host \<in> set [''codeload.github.com'', ''release-assets.githubusercontent.com'',
                 ''objects.githubusercontent.com'']"

definition gh_authorizes_host :: "string \<Rightarrow> bool" where
  "gh_authorizes_host host \<longleftrightarrow> host = ''api.github.com'' \<or> is_github_download_host host"

definition effective_download_host :: "string \<Rightarrow> string" where
  "effective_download_host hostname = (if is_github_download_host hostname then hostname else [])"

fun allow_routes :: "exposure \<Rightarrow> level \<Rightarrow> route list \<Rightarrow> (gh_error, unit) result" where
  "allow_routes e lvl [] = Inr ()"
| "allow_routes e lvl (r # routes) =
     (if \<not> allows (gh_resolve e (category r) (subcategory r)) lvl then Inl GhExposureExceeded
      else allow_routes e lvl routes)"

definition gh_authorize_action ::
    "github_provider \<Rightarrow> gh_table option \<Rightarrow> view \<Rightarrow> (gh_error, unit) result" where
  "gh_authorize_action p cached v =
     (if authorize_request_port v https_port \<noteq> Inr () then Inl GhPort
      else if is_graphql_endpoint (v_escaped_path v) then Inl GhGraphQLUnsupported
      else if effective_download_host (v_hostname v) \<noteq> [] then
        (if v_method v = ''GET'' \<or> v_method v = ''HEAD'' then Inr () else Inl GhExposureExceeded)
      else (case cached of
          None \<Rightarrow> Inl GhTableNotReady
        | Some table \<Rightarrow>
            and_then (gh_validate_exposure_keys (gh_exposure p) table) (\<lambda>_.
            and_then (classify_request table (v_method v) (v_escaped_path v)) (\<lambda>acc.
              allow_routes (gh_exposure p) (a_level acc) (a_routes acc)))))"

definition gh_audit_response :: "audit_view \<Rightarrow> header \<Rightarrow> bool" where
  \<comment> \<open>Whether the drift warning is printed.\<close>
  "gh_audit_response v h =
     (let accepted = header_get h ''X-Accepted-Github-Permissions'' in
      if accepted = [] then False
      else (case required_level (av_method v) (av_escaped_path v) of
          Inl _ \<Rightarrow> False
        | Inr lvl \<Rightarrow> drift_warning lvl accepted))"

text \<open>
  \<open>githubValidate\<close>: the \<open>/user\<close> probe, and \<open>/rate_limit\<close> when it fails. The probes'
  results are arguments: the login, or the error.
\<close>

definition github_validate ::
    "('e, string) result \<Rightarrow> ('e, unit) result \<Rightarrow> ('e, string) result" where
  "github_validate user rate_limit =
     (case user of
        Inr login \<Rightarrow> Inr login
      | Inl _ \<Rightarrow> (case rate_limit of Inl e \<Rightarrow> Inl e | Inr _ \<Rightarrow> Inr []))"

subsection \<open>Lemmas\<close>

lemma allow_routes_Inr:
  "allow_routes e lvl rs = Inr () \<longleftrightarrow>
     (\<forall>r \<in> set rs. allows (gh_resolve e (category r) (subcategory r)) lvl)"
  by (induction rs) auto

lemma gh_validate_keys_Inr:
  "gh_validate_keys ks t = Inr () \<longleftrightarrow>
     (\<forall>k \<in> set ks. k = default_key \<or> k = secret_scanning_key \<or> knows t k)"
  by (induction ks) auto

lemma method_level_read:
  "method_level m p = Inr LevelRead \<longleftrightarrow>
     m = ''GET'' \<or> m = ''HEAD'' \<or> m = ''OPTIONS'' \<or> (m = ''POST'' \<and> p \<in> set read_only_post_paths)"
  unfolding method_level_def by (simp split del: if_split split: if_split)

lemma method_level_write:
  "method_level m p = Inr LevelWrite \<longleftrightarrow>
     \<not> (m = ''GET'' \<or> m = ''HEAD'' \<or> m = ''OPTIONS'') \<and>
     (m = ''POST'' \<or> m = ''PUT'' \<or> m = ''PATCH'' \<or> m = ''DELETE'') \<and>
     \<not> (m = ''POST'' \<and> p \<in> set read_only_post_paths)"
  unfolding method_level_def by simp

lemma method_level_not_none: "method_level m p \<noteq> Inr LevelNone"
  unfolding method_level_def by simp

lemma lookup_routes_sub:
  "set (lookup_routes t m p) \<subseteq> {t_route tm | tm. tm \<in> set (method_templates t (to_upper m))}"
  using lookup_routes_def [of t m p]
  by (auto simp: Let_def best_Nil_iff_set set_best best_set_def split: option.splits if_splits)

lemma lookup_routes_covers_best:
  "lookup_routes t m p \<noteq> [] \<Longrightarrow>
   best_set (multi_segment t) (set (method_templates t (to_upper m))) (split_path p) \<subseteq>
     set (lookup_routes t m p)"
  by (auto simp: lookup_routes_def Let_def set_best split: option.splits if_splits)

text \<open>The method a request is looked up under.\<close>

definition gh_lookup_method :: "string \<Rightarrow> string" where
  "gh_lookup_method m0 = (let m = to_upper (trim_space m0) in
     if m = ''HEAD'' \<or> m = ''OPTIONS'' then ''GET'' else m)"

lemma classify_request_Inr:
  "classify_request t m p = Inr acc \<longleftrightarrow>
     required_level (to_upper (trim_space m)) p = Inr (a_level acc) \<and> \<not> has_dot_segment p \<and>
     a_routes acc = lookup_routes t (gh_lookup_method m) p \<and> a_routes acc \<noteq> []"
  unfolding classify_request_def gh_lookup_method_def Let_def
  by (cases acc) (auto simp: result_elim)

text \<open>Everything an allowed request went through, one conjunct per guard.\<close>

lemma gh_authorize_action_Inr:
  "gh_authorize_action p cached v = Inr () \<longleftrightarrow>
     authorize_request_port v https_port = Inr () \<and> \<not> is_graphql_endpoint (v_escaped_path v) \<and>
     (if effective_download_host (v_hostname v) \<noteq> [] then v_method v = ''GET'' \<or> v_method v = ''HEAD''
      else (\<exists>t acc. cached = Some t \<and> gh_validate_exposure_keys (gh_exposure p) t = Inr () \<and>
        classify_request t (v_method v) (v_escaped_path v) = Inr acc \<and>
        allow_routes (gh_exposure p) (a_level acc) (a_routes acc) = Inr ()))"
  unfolding gh_authorize_action_def
  by (cases cached) (simp_all add: and_then_Inr)

lemma api_not_download: "effective_download_host ''api.github.com'' = []"
  by (simp add: effective_download_host_def is_github_download_host_def)


definition example_table :: gh_table where
  "example_table = (case distill_openapi (Some example_doc) of
     Inr t \<Rightarrow> t | Inl _ \<Rightarrow> \<lparr>by_method = [], multi_segment = []\<rparr>)"

definition example_provider :: github_provider where
  "example_provider = \<lparr>gh_token = ''tok'', gh_exposure = gh_build_exposure []\<rparr>"

definition gh_request :: "string \<Rightarrow> string \<Rightarrow> view" where
  "gh_request m p =
     \<lparr>v_method = m, v_hostname = ''api.github.com'', v_port = '''', v_path = p,
      v_escaped_path = p, v_raw_query = '''', v_header = [], v_body = ''''\<rparr>"


subsection \<open>A quiet posture is read-only\<close>

lemma gh_resolve_cases:
  "gh_resolve e c s = l \<Longrightarrow>
     (s \<noteq> [] \<and> map_of e (c @ ''/'' @ s) = Some l) \<or> map_of e c = Some l \<or> l = exp_get e default_key"
  by (auto simp: gh_resolve_def split: option.splits if_splits)

lemma default_not_secret: "\<not> is_secret_key default_key"
  by (simp add: is_secret_key_def default_key_def secret_scanning_key_def has_prefix_def)

lemma quiet_entries:
  assumes "\<not> gh_posture_loud e" "exposure_wf e"
  shows "(k, v) \<in> set e \<Longrightarrow> v \<noteq> LevelWrite \<and> (is_secret_key k \<longrightarrow> v = LevelNone)"
proof -
  assume k: "(k, v) \<in> set e"
  from assms(1) have d: "exp_get e default_key \<noteq> LevelWrite"
    and s: "\<And>k v. (k, v) \<in> set e \<Longrightarrow> is_secret_key k \<Longrightarrow> v = LevelNone"
    and o: "\<And>k v. (k, v) \<in> set e \<Longrightarrow> \<not> (k = default_key \<or> is_secret_key k) \<Longrightarrow> v \<noteq> LevelWrite"
    by (auto simp: gh_posture_loud_def secret_scanning_opened_def list_ex_iff split: if_splits)
  have "map_of e k = Some v" using k assms(2) by (simp add: exposure_wf_def)
  then have "k = default_key \<Longrightarrow> v \<noteq> LevelWrite" using d by (simp add: exp_get_def)
  with s [OF k] o [OF k] show ?thesis by auto
qed

lemma quiet_no_write:
  assumes q: "\<not> gh_posture_loud e" "exposure_wf e" shows "gh_resolve e c s \<noteq> LevelWrite"
proof
  assume "gh_resolve e c s = LevelWrite"
  with quiet_entries [OF q] have "exp_get e default_key = LevelWrite"
    by (auto dest!: gh_resolve_cases map_of_SomeD)
  with q(1) show False by (simp add: gh_posture_loud_def)
qed

lemma quiet_secret_none:
  assumes q: "\<not> gh_posture_loud e" "exposure_wf e" and k: "map_of e secret_scanning_key \<noteq> None"
  shows "gh_resolve e secret_scanning_key s = LevelNone"
proof -
  have "is_secret_key (secret_scanning_key @ ''/'' @ s)" "is_secret_key secret_scanning_key"
    using has_prefix_append [of "secret_scanning_key @ ''/''" s] by (simp_all add: is_secret_key_def)
  moreover obtain l where "map_of e secret_scanning_key = Some l" using k by blast
  ultimately show ?thesis using quiet_entries [OF q]
    by (auto simp: gh_resolve_def dest: map_of_SomeD split: option.splits)
qed

lemma gh_build_exposure_wf: "exposure_wf (gh_build_exposure op)"
  unfolding gh_build_exposure_def
  by (rule build_exposure_wf) (simp add: exposure_wf_def gh_baseline_def default_key_def secret_scanning_key_def)

lemma gh_build_exposure_secret: "map_of (gh_build_exposure op) secret_scanning_key \<noteq> None"
  by (simp add: gh_build_exposure_def build_exposure_def map_of_merge_exposure gh_baseline_def)

text \<open>
  The startup posture is honest: when the effective ceiling is not reported as loud,
  whatever the operator configured and whatever table is active, every request the gate
  allows on api.github.com is a read, and none of the routes it may run as is in
  the secret-scanning category.
\<close>

theorem gh_quiet_posture_read_only:
  assumes e: "gh_exposure p = gh_build_exposure op" and q: "\<not> gh_posture_loud (gh_exposure p)"
    and ok: "gh_authorize_action p (Some t) v = Inr ()" and host: "v_hostname v = ''api.github.com''"
  shows "required_level (to_upper (trim_space (v_method v))) (v_escaped_path v) = Inr LevelRead \<and>
     (\<forall>r \<in> set (lookup_routes t (gh_lookup_method (v_method v)) (v_escaped_path v)).
        category r \<noteq> secret_scanning_key)"
proof -
  from ok host obtain acc where cl: "classify_request t (v_method v) (v_escaped_path v) = Inr acc"
    and al: "allow_routes (gh_exposure p) (a_level acc) (a_routes acc) = Inr ()"
    by (auto simp: gh_authorize_action_Inr api_not_download)
  let ?m = "to_upper (trim_space (v_method v))"
  let ?L = "lookup_routes t (gh_lookup_method (v_method v)) (v_escaped_path v)"
  from cl have r: "a_routes acc = ?L" "?L \<noteq> []"
    and lvl: "required_level ?m (v_escaped_path v) = Inr (a_level acc)"
    by (auto simp: classify_request_Inr)
  have wf: "exposure_wf (gh_exposure p)" by (simp add: e gh_build_exposure_wf)
  from al r(1) have all: "\<And>x. x \<in> set ?L \<Longrightarrow> allows (gh_resolve (gh_exposure p) (category x) (subcategory x)) (a_level acc)"
    by (simp add: allow_routes_Inr)
  have nn: "a_level acc \<noteq> LevelNone" using lvl method_level_not_none by (auto simp: required_level_def)
  from r(2) have "hd ?L \<in> set ?L" by simp
  then obtain x where x: "x \<in> set ?L" ..
  have "a_level acc = LevelRead"
    using all [OF x] quiet_no_write [OF q wf, of "category x" "subcategory x"] nn
    by (cases "a_level acc"; cases "gh_resolve (gh_exposure p) (category x) (subcategory x)")
       (simp_all add: level_defs)
  moreover have "category y \<noteq> secret_scanning_key" if y: "y \<in> set ?L" for y
  proof
    assume "category y = secret_scanning_key"
    with quiet_secret_none [OF q wf] e gh_build_exposure_secret all [OF y] nn show False
      by (simp add: allows_none)
  qed
  ultimately show ?thesis using lvl by simp
qed

theorem gh_quiet_posture_read_only_witness:
  "required_level (to_upper (trim_space ''GET'')) ''/repos/o/r/contents/a/b'' = Inr LevelRead"
proof -
  have "is_ok (gh_authorize_action example_provider (Some example_table)
      (gh_request ''GET'' ''/repos/o/r/contents/a/b''))" by code_simp
  then have ok: "gh_authorize_action example_provider (Some example_table)
      (gh_request ''GET'' ''/repos/o/r/contents/a/b'') = Inr ()" by (auto simp: is_ok_iff)
  have q: "\<not> gh_posture_loud (gh_exposure example_provider)" by code_simp
  show ?thesis
    using gh_quiet_posture_read_only [OF _ q ok, of "[]"]
    by (simp add: example_provider_def gh_request_def)
qed

subsection \<open>Admitted tables protect secret scanning\<close>

definition table_wf :: "gh_table \<Rightarrow> bool" where
  \<comment> \<open>No segment of a template holds a slash, as in every distilled table.\<close>
  "table_wf t \<longleftrightarrow> (\<forall>tm \<in> set (table_templates t). \<forall>s \<in> set (segments tm). CHR ''/'' \<notin> set s)"

lemma split_path_no_slash: "x \<in> set (split_path p) \<Longrightarrow> CHR ''/'' \<notin> set x"
  by (auto simp: split_path_def Let_def split_on_no_sep split: if_splits)

lemma split_path_join:
  "\<forall>s \<in> set segs. CHR ''/'' \<notin> set s \<Longrightarrow> join ''/'' segs \<noteq> [] \<Longrightarrow>
   split_path (''/'' @ join ''/'' segs) = segs"
  by (cases segs) (simp_all add: split_path_def split_on_join)

lemma join_not_Nil: "x \<in> set xs \<Longrightarrow> x \<noteq> [] \<Longrightarrow> join sep xs \<noteq> []"
proof (induction xs)
  case (Cons a xs)
  then show ?case by (cases "xs = []") (auto simp: join_Cons)
qed simp

lemma admitted_secret_category:
  assumes a: "gh_admit_table t = Inr ()" and w: "table_wf t"
    and tm: "tm \<in> set (table_templates t)" and s: "secret_scanning_key \<in> set (segments tm)"
  shows "category (t_route tm) = secret_scanning_key"
proof -
  have "join ''/'' (segments tm) \<noteq> []"
    using s by (rule join_not_Nil) (simp add: secret_scanning_key_def)
  with w tm have "split_path (''/'' @ join ''/'' (segments tm)) = segments tm"
    by (intro split_path_join) (auto simp: table_wf_def)
  with s have "has_segment (''/'' @ join ''/'' (segments tm)) secret_scanning_key"
    by (simp add: has_segment_def)
  with a tm show ?thesis
    by (auto simp: gh_admit_table_def gh_sensitive_patterns_def list_ex_iff split: if_splits)
qed

lemma distill_ops_wf:
  "distill_ops segs ops bm = Inr bm' \<Longrightarrow> distinct (map fst bm) \<Longrightarrow> distinct (map fst bm')"
  by (induction segs ops bm rule: distill_ops.induct)
     (auto simp: add_templ_def distinct_update split: if_splits option.splits)

lemma distill_paths_wf:
  "distill_paths paths bm = Inr bm' \<Longrightarrow> distinct (map fst bm) \<Longrightarrow> distinct (map fst bm')"
  by (induction paths bm rule: distill_paths.induct) (auto simp: result_elim distill_ops_wf)

lemma distill_distinct:
  "distill_openapi (Some doc) = Inr t \<Longrightarrow> distinct (map fst (by_method t))"
proof -
  assume "distill_openapi (Some doc) = Inr t"
  then obtain bm where "distill_paths (doc_paths doc) [] = Inr bm" "by_method t = sort_templates bm"
    by (auto simp: distill_openapi_def result_elim split: if_splits)
  with distill_paths_wf [of "doc_paths doc" "[]" bm] show ?thesis
    by (simp add: sort_templates_def o_def case_prod_unfold)
qed

lemma table_templates_iff:
  "tm \<in> set (table_templates t) \<longleftrightarrow> (\<exists>m ts. (m, ts) \<in> set (by_method t) \<and> tm \<in> set ts)"
  by (force simp: table_templates_def)

lemma table_templates_all:
  "distinct (map fst (by_method t)) \<Longrightarrow>
   tm \<in> set (table_templates t) \<longleftrightarrow> (\<exists>m. (m, tm) \<in> all_templates (by_method t))"
  unfolding table_templates_iff all_templates_def by simp

lemma method_templates_in_table:
  "tm \<in> set (method_templates t m) \<Longrightarrow> tm \<in> set (table_templates t)"
  unfolding table_templates_iff method_templates_def
  by (cases "map_of (by_method t) m") (auto dest: map_of_SomeD)

lemma distilled_table_wf:
  assumes "distill_openapi (Some doc) = Inr t" shows "table_wf t"
proof -
  have "CHR ''/'' \<notin> set s" if "tm \<in> set (table_templates t)" "s \<in> set (segments tm)" for tm s
  proof -
    from that(1) obtain m where "(m, tm) \<in> all_templates (by_method t)"
      using table_templates_all distill_distinct [OF assms] by blast
    then obtain path where "segments tm = split_path path"
      using distilled_templates [OF assms] by (auto simp: op_templates_def)
    with that(2) split_path_no_slash show ?thesis by simp
  qed
  then show ?thesis by (simp add: table_wf_def)
qed



end
