(* ===== verification/Gitlab_Table.thy ===== *)
theory Gitlab_Table
  imports Exposure Request_Path
begin

text \<open>
  Package \<open>internal/auth/gitlab\<close>: the routing table distilled from GitLab's OpenAPI
  (\<open>table.go\<close>, \<open>sensitive.go\<close>), the classifier (\<open>classifier.go\<close>), the
  ceiling (\<open>policy.go\<close>, \<open>exposure.go\<close>) and the instance version
  (\<open>version.go\<close>). The YAML parser (\<open>gopkg.in/yaml.v3\<close>) is third-party: the model
  starts from the document it decodes, a list of paths with their operations, each
  operation given by the tags its node decodes to, \<open>None\<close> when that fails.
\<close>

subsection \<open>Data\<close>

datatype gl_error =
    GlUnclassifiable
  | GlUnmatched
  | GlGraphQLUnsupported
  | GlTableRejected
  | GlUnknownKey
  | GlExposureExceeded
  | GlTableNotReady
  | GlPort
  | GlSudoBlocked
  | GlModelCredential

record gl_templ =
  gl_segments :: "string list"
  gl_category :: string

type_synonym gl_table = "(string \<times> gl_templ list) list"

type_synonym gl_doc = "(string \<times> (string \<times> string list option) list) list"

subsection \<open>table.go\<close>

definition gl_http_methods :: "string list" where
  "gl_http_methods = [''get'', ''head'', ''post'', ''put'', ''patch'', ''delete'', ''options'']"

text \<open>A regular expression of one character class, greedy, replaced by one character.\<close>

fun collapse_runs :: "(char \<Rightarrow> bool) \<Rightarrow> char \<Rightarrow> bool \<Rightarrow> string \<Rightarrow> string" where
  "collapse_runs P r inside [] = []"
| "collapse_runs P r inside (c # s) =
     (if P c then (if inside then collapse_runs P r True s else r # collapse_runs P r True s)
      else c # collapse_runs P r False s)"

definition is_lower_alnum :: "char \<Rightarrow> bool" where
  "is_lower_alnum c = (let n = byte_val c in (97 \<le> n \<and> n \<le> 122) \<or> (48 \<le> n \<and> n \<le> 57))"

definition normalize_tag :: "string \<Rightarrow> string" where
  "normalize_tag tag =
     trim_char CHR ''-'' (collapse_runs (\<lambda>c. \<not> is_lower_alnum c) CHR ''-'' False (to_lower tag))"

definition collapse_slashes :: "string \<Rightarrow> string" where
  "collapse_slashes p = collapse_runs (\<lambda>c. c = CHR ''/'') CHR ''/'' False p"

fun mask_parens :: "string \<Rightarrow> string" where
  "mask_parens [] = []"
| "mask_parens [c] = [c]"
| "mask_parens (a # b # s) =
     (if a = CHR 0x5C \<and> b = CHR ''('' then CHR 0x00 # mask_parens s
      else if a = CHR 0x5C \<and> b = CHR '')'' then CHR 0x01 # mask_parens s
      else a # mask_parens (b # s))"

definition unmask_parens :: "string \<Rightarrow> string" where
  "unmask_parens s = map (\<lambda>c. if c = CHR 0x00 then CHR ''('' else if c = CHR 0x01 then CHR '')'' else c) s"

lemma count_collapse:
  "c \<noteq> r \<Longrightarrow> count_char (collapse_runs P r b s) c \<le> count_char s c"
  by (induction P r b s rule: collapse_runs.induct) (auto intro: le_SucI)

lemma str_index_one: "str_index s [c] = Some i \<Longrightarrow> i < length s \<and> s ! i = c"
proof (induction s arbitrary: i)
  case (Cons x s)
  show ?case
  proof (cases "has_prefix (x # s) [c]")
    case True
    with Cons.prems show ?thesis by (simp add: has_prefix_def)
  next
    case False
    with Cons.prems obtain j where "str_index s [c] = Some j" "i = Suc j" by auto
    with Cons.IH [of j] show ?thesis by simp
  qed
qed simp

text \<open>The two variants of a group have one opening parenthesis less.\<close>

lemma count_drop: "count_char (drop n s) c \<le> count_char s c"
  by (metis append_take_drop_id count_char_simps(3) le_add2)

lemma group_counts:
  assumes o: "str_index p ''('' = Some lp"
  shows "count_char (take lp p @ take n (drop (lp + 1) p) @ drop (lp + 1 + n) p) CHR ''('' < count_char p CHR ''(''"
    and "count_char (take lp p @ drop (lp + 1 + n) p) CHR ''('' < count_char p CHR ''(''"
proof -
  have i: "lp < length p" "p ! lp = CHR ''(''" using str_index_one [OF o] by auto
  then have "p = take lp p @ CHR ''('' # drop (lp + 1) p" by (metis Suc_eq_plus1 id_take_nth_drop)
  then have c: "count_char p CHR ''('' = count_char (take lp p) CHR ''('' + Suc (count_char (drop (lp + 1) p) CHR ''('')"
    by (metis count_char_simps(2,3))
  have d: "take n (drop (lp + 1) p) @ drop (lp + 1 + n) p = drop (lp + 1) p"
    by (metis append_take_drop_id drop_drop add.commute)
  show "count_char (take lp p @ take n (drop (lp + 1) p) @ drop (lp + 1 + n) p) CHR ''('' < count_char p CHR ''(''"
    unfolding d using c by simp
  have "count_char (drop (lp + 1 + n) p) CHR ''('' \<le> count_char (drop (lp + 1) p) CHR ''(''"
    using count_drop [of n "drop (lp + 1) p" "CHR ''(''"] by (simp add: add.commute)
  with c show "count_char (take lp p @ drop (lp + 1 + n) p) CHR ''('' < count_char p CHR ''(''" by simp
qed

lemma count_collapse_slashes: "count_char (collapse_slashes q) CHR ''('' \<le> count_char q CHR ''(''"
  unfolding collapse_slashes_def by (rule count_collapse) simp

text \<open>
  The group runs from the first opening parenthesis at \<open>lp\<close> to the next closing one, at
  offset \<open>rel + 1\<close> behind it.
\<close>

function expand_first_group :: "string \<Rightarrow> string list" where
  "expand_first_group p =
     (case str_index p ''('' of
        None \<Rightarrow> [p]
      | Some lp \<Rightarrow>
          (case str_index (drop (lp + 1) p) '')'' of
             None \<Rightarrow> [p]
           | Some rel \<Rightarrow>
               expand_first_group (collapse_slashes
                 (take lp p @ take rel (drop (lp + 1) p) @ drop (lp + 1 + (rel + 1)) p)) @
               expand_first_group (collapse_slashes (take lp p @ drop (lp + 1 + (rel + 1)) p))))"
  by pat_completeness auto
termination
proof (relation "measure (\<lambda>p. count_char p CHR ''('')", simp)
  fix p lp rel assume o: "str_index p ''('' = Some lp"
  have "count_char (take rel (drop (lp + 1) p)) CHR ''('' + count_char (drop (lp + 1 + (rel + 1)) p) CHR ''(''
      \<le> count_char (take rel (drop (lp + 1) p) @ drop (lp + 1 + rel) p) CHR ''(''"
    using count_drop [of 1 "drop (lp + 1 + rel) p" "CHR ''(''"] by (simp add: add.commute add.left_commute)
  then have "count_char (take lp p @ take rel (drop (lp + 1) p) @ drop (lp + 1 + (rel + 1)) p) CHR ''('' < count_char p CHR ''(''"
    using group_counts(1) [OF o, of rel] by simp
  then show "(collapse_slashes (take lp p @ take rel (drop (lp + 1) p) @ drop (lp + 1 + (rel + 1)) p), p)
      \<in> measure (\<lambda>p. count_char p CHR ''('')"
    unfolding in_measure by (rule le_less_trans [OF count_collapse_slashes])
  show "(collapse_slashes (take lp p @ drop (lp + 1 + (rel + 1)) p), p) \<in> measure (\<lambda>p. count_char p CHR ''('')"
    unfolding in_measure by (rule le_less_trans [OF count_collapse_slashes group_counts(2) [OF o]])
qed

declare expand_first_group.simps [simp del]

definition expand_optional_groups :: "string \<Rightarrow> string list" where
  "expand_optional_groups raw_path = map unmask_parens (expand_first_group (mask_parens raw_path))"

fun first_nonempty_tag :: "string list \<Rightarrow> string" where
  "first_nonempty_tag [] = []"
| "first_nonempty_tag (tag # tags) =
     (let n = normalize_tag tag in if n \<noteq> [] then n else first_nonempty_tag tags)"

fun first_tag_category :: "string list option \<Rightarrow> string" where
  "first_tag_category None = []"
| "first_tag_category (Some tags) = first_nonempty_tag tags"

definition split_path_segs :: "string \<Rightarrow> string list" where
  "split_path_segs p0 = (let p = trim_prefix p0 ''/'' in if p = [] then [] else split_on CHR ''/'' p)"

definition ci_variables_key :: string where
  "ci_variables_key = ''ci-variables''"

definition sensitive_segment :: string where
  "sensitive_segment = ''variables''"

definition has_variables_segment :: "string list \<Rightarrow> bool" where
  "has_variables_segment segs \<longleftrightarrow> sensitive_segment \<in> set segs"

definition gl_add :: "gl_table \<Rightarrow> string \<Rightarrow> gl_templ \<Rightarrow> gl_table" where
  "gl_add bm m t = AList.update m ((case map_of bm m of Some ts \<Rightarrow> ts | None \<Rightarrow> []) @ [t]) bm"

fun register_ops :: "gl_table \<Rightarrow> string list \<Rightarrow> (string \<times> string list option) list \<Rightarrow> gl_table" where
  "register_ops bm segs [] = bm"
| "register_ops bm segs ((method, node) # ops) =
     (if method \<notin> set gl_http_methods then register_ops bm segs ops
      else (let cat = first_tag_category node in
        if cat = [] then register_ops bm segs ops
        else (let cat' = (if has_variables_segment segs then ci_variables_key else cat) in
          register_ops (gl_add bm (to_upper method) \<lparr>gl_segments = segs, gl_category = cat'\<rparr>) segs ops)))"

fun register_paths :: "gl_table \<Rightarrow> string list \<Rightarrow> (string \<times> string list option) list \<Rightarrow> gl_table" where
  "register_paths bm [] ops = bm"
| "register_paths bm (concrete # paths) ops =
     register_paths (register_ops bm (split_path_segs concrete) ops) paths ops"

fun gl_distill_paths :: "gl_table \<Rightarrow> gl_doc \<Rightarrow> gl_table" where
  "gl_distill_paths bm [] = bm"
| "gl_distill_paths bm ((path, ops) # doc) =
     gl_distill_paths (register_paths bm (expand_optional_groups path) ops) doc"

definition gl_sort_templates :: "gl_table \<Rightarrow> gl_table" where
  "gl_sort_templates bm = map (\<lambda>(m, ts). (m, sort_key (\<lambda>t. join ''/'' (gl_segments t)) ts)) bm"

definition gl_distill :: "gl_doc option \<Rightarrow> (gl_error, gl_table) result" where
  "gl_distill raw =
     (case raw of
        None \<Rightarrow> Inl GlTableRejected
      | Some doc \<Rightarrow>
          (let bm = gl_distill_paths [] doc in
           if bm = [] then Inl GlTableRejected else Inr (gl_sort_templates bm)))"

definition gl_is_param :: "string \<Rightarrow> bool" where
  "gl_is_param seg \<longleftrightarrow> has_prefix seg ''{'' \<and> has_suffix seg ''}''"

definition decode_seg :: "string \<Rightarrow> string" where
  "decode_seg s = (case path_unescape s of Some d \<Rightarrow> d | None \<Rightarrow> s)"

definition decode_segs :: "string \<Rightarrow> string list" where
  "decode_segs escaped_path = map decode_seg (split_path_segs escaped_path)"

definition anchored :: "string list \<Rightarrow> bool" where
  \<comment> \<open>\<open>anchorIndex\<close> answers 0 or -1\<close>
  "anchored segs \<longleftrightarrow> length segs \<ge> 2 \<and> segs ! 0 = ''api'' \<and> segs ! 1 = ''v4''"

definition strip_format_suffix :: "string \<Rightarrow> string" where
  "strip_format_suffix seg = (case last_index_char seg CHR ''.'' of Some i \<Rightarrow> take i seg | None \<Rightarrow> seg)"

fun gl_score :: "nat \<Rightarrow> string list \<Rightarrow> string list \<Rightarrow> nat option" where
  "gl_score score (seg # tmpl) (r # req) =
     (if gl_is_param seg then gl_score (Suc score) tmpl req
      else if r \<noteq> seg then None
      else gl_score score tmpl req)"
| "gl_score score _ _ = Some score"

definition gl_match_template :: "string list \<Rightarrow> string list \<Rightarrow> nat option" where
  "gl_match_template tmpl req = (if length tmpl \<noteq> length req then None else gl_score 0 tmpl req)"

fun gl_best :: "gl_templ list \<Rightarrow> string list \<Rightarrow> (gl_templ \<times> nat) option \<Rightarrow> (gl_templ \<times> nat) option" where
  "gl_best [] req best = best"
| "gl_best (t # ts) req best =
     (case gl_match_template (gl_segments t) req of
        None \<Rightarrow> gl_best ts req best
      | Some score \<Rightarrow>
          gl_best ts req (case best of
              None \<Rightarrow> Some (t, score)
            | Some (_, best_score) \<Rightarrow> if score < best_score then Some (t, score) else best))"

definition gl_templates :: "gl_table \<Rightarrow> string \<Rightarrow> gl_templ list" where
  "gl_templates t m = (case map_of t m of Some ts \<Rightarrow> ts | None \<Rightarrow> [])"

definition gl_request_segs :: "string \<Rightarrow> string list" where
  "gl_request_segs escaped_path =
     (let segs = decode_segs escaped_path in
      if segs = [] then [] else segs[length segs - 1 := strip_format_suffix (last segs)])"

definition gl_lookup :: "gl_table \<Rightarrow> string \<Rightarrow> string \<Rightarrow> string option" where
  "gl_lookup t method escaped_path =
     (if \<not> anchored (decode_segs escaped_path) then None
      else map_option (\<lambda>(tm, _). gl_category tm)
        (gl_best (gl_templates t (to_upper method)) (gl_request_segs escaped_path) None))"

definition gl_knows :: "gl_table \<Rightarrow> string \<Rightarrow> bool" where
  "gl_knows t key = list_ex (\<lambda>(_, ts). list_ex (\<lambda>tm. gl_category tm = key) ts) t"

definition gl_all_templates :: "gl_table \<Rightarrow> gl_templ list" where
  "gl_all_templates t = concat (map snd t)"

definition gl_admit_table :: "gl_table \<Rightarrow> (gl_error, unit) result" where
  "gl_admit_table t =
     (if list_ex (\<lambda>tm. has_variables_segment (gl_segments tm) \<and> gl_category tm \<noteq> ci_variables_key)
           (gl_all_templates t)
      then Inl GlTableRejected else Inr ())"

subsection \<open>classifier.go\<close>

fun tail_matches :: "string list \<Rightarrow> string list \<Rightarrow> bool" where
  "tail_matches [] _ = True"
| "tail_matches (w # want) [] = False"
| "tail_matches (w # want) (s # tail) =
     (case path_unescape s of
        None \<Rightarrow> False
      | Some d \<Rightarrow>
          if (if want = [] then strip_format_suffix d else d) \<noteq> w then False
          else tail_matches want tail)"

definition path_ends_with :: "string \<Rightarrow> string list \<Rightarrow> bool" where
  "path_ends_with path want =
     (let segs = split_on CHR ''/'' (trim_prefix path ''/'') in
      if length segs < length want then False
      else tail_matches want (drop (length segs - length want) segs))"

definition gl_is_graphql_endpoint :: "string \<Rightarrow> bool" where
  "gl_is_graphql_endpoint path = path_ends_with (trim_right_char CHR ''/'' path) [''api'', ''graphql'']"

record gl_access =
  ga_category :: string
  ga_level :: level

definition gl_required_level :: "string \<Rightarrow> string \<Rightarrow> (gl_error, level) result" where
  "gl_required_level method0 escaped_path =
     (let m = to_upper (trim_space method0) in
      if m = ''GET'' \<or> m = ''HEAD'' \<or> m = ''OPTIONS'' then Inr LevelRead
      else if m = ''POST'' \<or> m = ''PUT'' \<or> m = ''PATCH'' \<or> m = ''DELETE'' then
        (if m = ''POST'' \<and> path_ends_with escaped_path [''api'', ''v4'', ''markdown'']
         then Inr LevelRead else Inr LevelWrite)
      else Inl GlUnclassifiable)"

definition gl_lookup_method :: "string \<Rightarrow> string" where
  "gl_lookup_method method0 = (let m = to_upper (trim_space method0) in
     if m = ''HEAD'' \<or> m = ''OPTIONS'' then ''GET'' else m)"

definition gl_classify_request :: "gl_table \<Rightarrow> string \<Rightarrow> string \<Rightarrow> (gl_error, gl_access) result" where
  "gl_classify_request t method escaped_path =
     and_then (gl_required_level method escaped_path) (\<lambda>lvl.
       if has_dot_segment escaped_path then Inl GlUnclassifiable
       else (case gl_lookup t (gl_lookup_method method) escaped_path of
           None \<Rightarrow> Inl GlUnmatched
         | Some c \<Rightarrow> Inr \<lparr>ga_category = c, ga_level = lvl\<rparr>))"

subsection \<open>policy.go and exposure.go\<close>

definition gl_baseline :: exposure where
  "gl_baseline = [(default_key, LevelRead), (ci_variables_key, LevelNone)]"

definition gl_build_exposure :: "(string \<times> string) list \<Rightarrow> exposure" where
  "gl_build_exposure operator = build_exposure gl_baseline operator"

definition gl_resolve :: "exposure \<Rightarrow> string \<Rightarrow> level" where
  "gl_resolve e c = (case map_of e c of Some lvl \<Rightarrow> lvl | None \<Rightarrow> exp_get e default_key)"

fun gl_validate_keys :: "string list \<Rightarrow> gl_table \<Rightarrow> (gl_error, unit) result" where
  "gl_validate_keys [] t = Inr ()"
| "gl_validate_keys (key # keys) t =
     (if key = default_key \<or> key = ci_variables_key then gl_validate_keys keys t
      else if \<not> gl_knows t key then Inl GlUnknownKey
      else gl_validate_keys keys t)"

definition gl_validate_exposure_keys :: "exposure \<Rightarrow> gl_table \<Rightarrow> (gl_error, unit) result" where
  "gl_validate_exposure_keys e t = gl_validate_keys (map fst e) t"

definition gl_posture_loud :: "exposure \<Rightarrow> bool" where
  "gl_posture_loud e =
     (if exp_get e default_key = LevelWrite then True
      else if (case map_of e ci_variables_key of Some lvl \<Rightarrow> lvl \<noteq> LevelNone | None \<Rightarrow> False) then True
      else list_ex (\<lambda>(k, v). \<not> (k = default_key \<or> k = ci_variables_key) \<and> v = LevelWrite) e)"

definition gl_inventory_posture :: "exposure \<Rightarrow> string" where
  "gl_inventory_posture e = compact_ceiling e ci_variables_key"

subsection \<open>version.go\<close>

datatype version_class = VersionUnknown | VersionBelowFloor | VersionMaster | VersionTag

record parsed_version =
  pv_major :: nat
  pv_minor :: nat
  pv_patch :: nat
  pv_suffix :: string

definition is_digit :: "char \<Rightarrow> bool" where
  "is_digit c = (let n = byte_val c in 48 \<le> n \<and> n \<le> 57)"

text \<open>\<open>0|[1-9][0-9]{0,3}\<close> and \<open>strconv.Atoi\<close> of such a component.\<close>

definition version_component :: "string \<Rightarrow> bool" where
  "version_component s \<longleftrightarrow>
     s = ''0'' \<or> (s \<noteq> [] \<and> length s \<le> 4 \<and> list_all is_digit s \<and> hd s \<noteq> CHR ''0'')"

fun atoi :: "nat \<Rightarrow> string \<Rightarrow> nat" where
  "atoi acc [] = acc"
| "atoi acc (c # s) = atoi (acc * 10 + (byte_val c - 48)) s"

definition parse_version :: "string \<Rightarrow> parsed_version option" where
  "parse_version version =
     (let (a, r1, ok1) = str_cut version ''.''; (b, r2, ok2) = str_cut r1 ''.'';
          c = takeWhile is_digit r2; suffix = dropWhile is_digit r2
      in if ok1 \<and> ok2 \<and> version_component a \<and> version_component b \<and> version_component c
            \<and> suffix \<in> set ['''', ''-ee'', ''-pre'']
         then Some \<lparr>pv_major = atoi 0 a, pv_minor = atoi 0 b, pv_patch = atoi 0 c, pv_suffix = suffix\<rparr>
         else None)"

definition floor_major :: nat where "floor_major = 18"
definition floor_minor :: nat where "floor_minor = 9"

definition below_floor :: "parsed_version \<Rightarrow> bool" where
  "below_floor v =
     (if pv_major v < floor_major then True
      else if pv_major v > floor_major then False
      else pv_minor v < floor_minor)"

definition is_gitlab_com :: "string \<Rightarrow> string \<Rightarrow> bool" where
  "is_gitlab_com hostname port \<longleftrightarrow> equal_fold hostname ''gitlab.com'' \<and> port = ''443''"

fun show_nat :: "nat \<Rightarrow> string" where
  "show_nat n = (if n < 10 then [char_of (48 + n)] else show_nat (n div 10) @ [char_of (48 + n mod 10)])"

declare show_nat.simps [simp del]

text \<open>The classification and the git ref; the reason text is not modelled.\<close>

definition classify_version :: "string \<Rightarrow> string \<Rightarrow> string \<Rightarrow> version_class \<times> string" where
  "classify_version version hostname port =
     (case parse_version version of
        None \<Rightarrow> (VersionUnknown, [])
      | Some v \<Rightarrow>
          if below_floor v then (VersionBelowFloor, [])
          else if pv_suffix v = ''-pre'' then
            (if is_gitlab_com hostname port then (VersionMaster, ''master'') else (VersionUnknown, []))
          else (VersionTag, ''v'' @ show_nat (pv_major v) @ ''.'' @ show_nat (pv_minor v) @ ''.'' @
                  show_nat (pv_patch v) @ ''-ee''))"

lemma is_digit_range: "is_digit c \<longleftrightarrow> 48 \<le> byte_val c \<and> byte_val c \<le> 57"
  by (simp add: is_digit_def Let_def)

lemma show_nat_snoc: "n > 0 \<Longrightarrow> d < 10 \<Longrightarrow> show_nat (n * 10 + d) = show_nat n @ [char_of (48 + d)]"
  by (subst show_nat.simps) auto

lemma show_nat_atoi:
  "acc > 0 \<Longrightarrow> list_all is_digit s \<Longrightarrow> show_nat (atoi acc s) = show_nat acc @ s"
proof (induction s arbitrary: acc)
  case (Cons c s)
  then have c: "48 \<le> byte_val c" "byte_val c - 48 < 10" by (auto simp: is_digit_range)
  then have "char_of (48 + (byte_val c - 48)) = c" by simp
  with Cons.prems c have "show_nat (acc * 10 + (byte_val c - 48)) = show_nat acc @ [c]"
    by (simp only: show_nat_snoc)
  with Cons.IH [of "acc * 10 + (byte_val c - 48)"] Cons.prems show ?case by simp
qed simp

lemma show_nat_component: "version_component s \<Longrightarrow> show_nat (atoi 0 s) = s"
proof -
  assume v: "version_component s"
  show ?thesis
  proof (cases "s = ''0''")
    case True
    moreover have "show_nat (atoi 0 ''0'') = ''0''" by code_simp
    ultimately show ?thesis by simp
  next
    case False
    with v obtain c r where s: "s = c # r" "list_all is_digit s" "c \<noteq> CHR ''0''"
      by (cases s) (auto simp: version_component_def)
    then have c: "48 \<le> byte_val c" "byte_val c \<le> 57" by (auto simp: is_digit_range)
    have "byte_val c \<noteq> 48"
    proof
      assume "byte_val c = 48"
      then have "byte_val c = byte_val CHR ''0''" by (simp add: byte_val_def)
      with s(3) show False by (metis char_of_byte_val)
    qed
    with c have p: "byte_val c - 48 > 0" "byte_val c - 48 < 10" by auto
    then have "show_nat (byte_val c - 48) = [c]" using c by (simp add: show_nat.simps)
    with show_nat_atoi [OF p(1), of r] s show ?thesis by simp
  qed
qed

text \<open>
  A release tag is the instance's own version: when an instance's version selects a
  release document, the version is at least 18.9, it is not a development build, and the
  ref is that version's text, without its edition suffix, between \<open>v\<close> and
  \<open>-ee\<close>.
\<close>

theorem gl_version_ref:
  assumes "classify_version version hostname port = (VersionTag, ref)"
  shows "\<exists>core. (version = core \<or> version = core @ ''-ee'') \<and> ref = ''v'' @ core @ ''-ee'' \<and>
     (\<exists>v. parse_version version = Some v \<and>
        (pv_major v > 18 \<or> (pv_major v = 18 \<and> pv_minor v \<ge> 9)))"
proof -
  obtain a r1 ok1 where c1: "str_cut version ''.'' = (a, r1, ok1)" by (cases "str_cut version ''.''")
  obtain b r2 ok2 where c2: "str_cut r1 ''.'' = (b, r2, ok2)" by (cases "str_cut r1 ''.''")
  let ?c = "takeWhile is_digit r2" and ?s = "dropWhile is_digit r2"
  from assms obtain v where v: "parse_version version = Some v"
    and ok: "\<not> below_floor v" "pv_suffix v \<noteq> ''-pre''"
    and ref: "ref = ''v'' @ show_nat (pv_major v) @ ''.'' @ show_nat (pv_minor v) @ ''.'' @ show_nat (pv_patch v) @ ''-ee''"
    by (auto simp: classify_version_def split: option.splits if_splits)
  from v have P: "(ok1 \<and> ok2 \<and> version_component a \<and> version_component b \<and> version_component ?c \<and>
      ?s \<in> set ['''', ''-ee'', ''-pre'']) \<and>
      \<lparr>pv_major = atoi 0 a, pv_minor = atoi 0 b, pv_patch = atoi 0 ?c, pv_suffix = ?s\<rparr> = v"
    by (simp only: parse_version_def c1 c2 Let_def prod.case if_Some_eq)
  note C = P [THEN conjunct1]
  note p = C [THEN conjunct1] C [THEN conjunct2, THEN conjunct1]
    C [THEN conjunct2, THEN conjunct2, THEN conjunct1]
    C [THEN conjunct2, THEN conjunct2, THEN conjunct2, THEN conjunct1]
    C [THEN conjunct2, THEN conjunct2, THEN conjunct2, THEN conjunct2, THEN conjunct1]
    C [THEN conjunct2, THEN conjunct2, THEN conjunct2, THEN conjunct2, THEN conjunct2]
    P [THEN conjunct2, symmetric]
  define core where "core = a @ ''.'' @ b @ ''.'' @ ?c"
  define sfx where "sfx = ?s"
  have ver: "version = core @ sfx"
  proof -
    have e1: "version = a @ ''.'' @ r1" by (rule str_cut_found) (use c1 p(1) in simp)
    have e2: "r1 = b @ ''.'' @ r2" by (rule str_cut_found) (use c2 p(2) in simp)
    show ?thesis unfolding core_def sfx_def append_assoc takeWhile_dropWhile_id
      using e1 e2 by simp
  qed
  have sfx: "sfx = '''' \<or> sfx = ''-ee''" using p(6,7) ok(2) by (auto simp: sfx_def)
  have r: "ref = ''v'' @ core @ ''-ee''"
    using ref p by (simp add: show_nat_component core_def)
  have "pv_major v > 18 \<or> (pv_major v = 18 \<and> pv_minor v \<ge> 9)"
    using ok(1) by (auto simp: below_floor_def floor_major_def floor_minor_def split: if_splits)
  with v r ver sfx show ?thesis by (intro exI [where x = core]) (elim disjE; simp)
qed

theorem gl_version_ref_witness:
  "classify_version ''18.10.2'' ''git.example.org'' ''443'' = (VersionTag, ''v18.10.2-ee'') \<and>
   (\<exists>core. (''18.10.2'' = core \<or> ''18.10.2'' = core @ ''-ee'') \<and> ''v18.10.2-ee'' = ''v'' @ core @ ''-ee'')"
proof -
  have c: "classify_version ''18.10.2'' ''git.example.org'' ''443'' = (VersionTag, ''v18.10.2-ee'')"
    by code_simp
  with gl_version_ref [OF c] show ?thesis by blast
qed

subsection \<open>Lookup\<close>

definition gl_fits :: "string list \<Rightarrow> string list \<Rightarrow> bool" where
  "gl_fits tmpl req \<longleftrightarrow> list_all2 (\<lambda>s r. gl_is_param s \<or> r = s) tmpl req"

definition gl_params :: "string list \<Rightarrow> nat" where
  "gl_params tmpl = length (filter gl_is_param tmpl)"

lemma gl_score_fits:
  "length tmpl = length req \<Longrightarrow>
   gl_score n tmpl req = (if gl_fits tmpl req then Some (n + gl_params tmpl) else None)"
  by (induction n tmpl req rule: gl_score.induct) (auto simp: gl_fits_def gl_params_def)

lemma gl_match_template_fits:
  "gl_match_template tmpl req = (if gl_fits tmpl req then Some (gl_params tmpl) else None)"
  by (auto simp: gl_match_template_def gl_score_fits) (auto simp: gl_fits_def list_all2_lengthD)

definition gl_best_of :: "gl_templ set \<Rightarrow> string list \<Rightarrow> (gl_templ \<times> nat) option \<Rightarrow> bool" where
  "gl_best_of T req best \<longleftrightarrow> (case best of
     None \<Rightarrow> \<forall>u \<in> T. \<not> gl_fits (gl_segments u) req
   | Some (t, s) \<Rightarrow> t \<in> T \<and> gl_fits (gl_segments t) req \<and> s = gl_params (gl_segments t) \<and>
       (\<forall>u \<in> T. gl_fits (gl_segments u) req \<longrightarrow> s \<le> gl_params (gl_segments u)))"

definition gl_better :: "gl_templ \<Rightarrow> string list \<Rightarrow> (gl_templ \<times> nat) option \<Rightarrow> (gl_templ \<times> nat) option" where
  "gl_better t req best = (case gl_match_template (gl_segments t) req of
     None \<Rightarrow> best
   | Some score \<Rightarrow> (case best of
       None \<Rightarrow> Some (t, score)
     | Some (_, best_score) \<Rightarrow> if score < best_score then Some (t, score) else best))"

lemma gl_best_Cons: "gl_best (t # ts) req best = gl_best ts req (gl_better t req best)"
  by (simp add: gl_better_def split: option.split)

lemma gl_better_correct: "gl_best_of T req best \<Longrightarrow> gl_best_of (insert t T) req (gl_better t req best)"
proof (cases best)
  case (Some ts)
  assume b: "gl_best_of T req best"
  obtain a s where a: "ts = (a, s)" by (cases ts)
  show ?thesis
  proof (cases "gl_fits (gl_segments t) req \<and> gl_params (gl_segments t) < s")
    case True
    with b Some a show ?thesis
      unfolding gl_best_of_def gl_better_def by (simp add: gl_match_template_fits) (meson less_imp_le less_le_trans)
  next
    case False
    with b Some a show ?thesis
      unfolding gl_best_of_def gl_better_def by (auto simp: gl_match_template_fits)
  qed
qed (auto simp: gl_best_of_def gl_better_def gl_match_template_fits)

lemma gl_best_correct: "gl_best_of T req best \<Longrightarrow> gl_best_of (T \<union> set ts) req (gl_best ts req best)"
proof (induction ts arbitrary: T best)
  case (Cons t ts)
  show ?case using Cons.IH [OF gl_better_correct [OF Cons.prems, of t]]
    unfolding gl_best_Cons by simp
qed simp

text \<open>
  GitLab's lookup is exact: a path resolves to a category if and only if its first
  two decoded segments are \<open>api\<close>, \<open>v4\<close> and some template of the method fits its
  decoded segments; the category is that of a fitting template with the fewest parameters.
\<close>

theorem gl_lookup_exact:
  "(gl_lookup t m p = None \<longleftrightarrow>
      \<not> anchored (decode_segs p) \<or>
      (\<forall>u \<in> set (gl_templates t (to_upper m)). \<not> gl_fits (gl_segments u) (gl_request_segs p))) \<and>
   (\<forall>c. gl_lookup t m p = Some c \<longrightarrow>
      (\<exists>tm \<in> set (gl_templates t (to_upper m)). gl_category tm = c \<and>
         gl_fits (gl_segments tm) (gl_request_segs p) \<and>
         (\<forall>u \<in> set (gl_templates t (to_upper m)). gl_fits (gl_segments u) (gl_request_segs p) \<longrightarrow>
            gl_params (gl_segments tm) \<le> gl_params (gl_segments u))))"
proof -
  have "gl_best_of (set (gl_templates t (to_upper m))) (gl_request_segs p)
      (gl_best (gl_templates t (to_upper m)) (gl_request_segs p) None)"
    using gl_best_correct [of "{}" "gl_request_segs p" None "gl_templates t (to_upper m)"]
    by (simp add: gl_best_of_def)
  then show ?thesis
    by (cases "gl_best (gl_templates t (to_upper m)) (gl_request_segs p) None")
       (auto simp: gl_lookup_def gl_best_of_def)
qed

theorem gl_lookup_exact_witness:
  "\<exists>tm \<in> set (gl_templates
        [(''GET'', [\<lparr>gl_segments = [''api'', ''v4'', ''users'', ''{id}''], gl_category = ''users''\<rparr>])] ''GET'').
     gl_category tm = ''users'' \<and> gl_fits (gl_segments tm) (gl_request_segs ''/api/v4/users/7.json'')"
proof -
  let ?t = "[(''GET'', [\<lparr>gl_segments = [''api'', ''v4'', ''users'', ''{id}''], gl_category = ''users''\<rparr>])]"
  have "gl_lookup ?t ''get'' ''/api/v4/users/7.json'' = Some ''users''" by code_simp
  moreover have "to_upper ''get'' = ''GET''" by code_simp
  ultimately show ?thesis
    using gl_lookup_exact [of ?t "''get''" "''/api/v4/users/7.json''", THEN conjunct2] by metis
qed

end
