(* ===== verification/Json_Parse.thy ===== *)
theory Json_Parse
  imports Json Go_Url
begin

text \<open>
  \<open>encoding/json\<close> on bytes: the values \<open>json.Valid\<close> accepts and
  \<open>json.Unmarshal\<close> decodes into an \<open>any\<close>. The parser recurses on fuel; the fuel
  \<open>json_fuel\<close> a text gets is enough, since more never changes the answer
  (\<open>parse_value_fuel\<close>). As in Go, containers nest at most 10000 deep, an invalid
  UTF-8 byte or lone surrogate in a string decodes to U+FFFD, and decoding a number that
  overflows a \<open>float64\<close> is an error although the text is valid.
\<close>

subsection \<open>Strings\<close>

definition is_json_space :: "char \<Rightarrow> bool" where
  "is_json_space c \<longleftrightarrow> c = CHR '' '' \<or> c = CHR 0x09 \<or> c = CHR 0x0D \<or> c = CHR 0x0A"

definition skip_ws :: "string \<Rightarrow> string" where
  "skip_ws s = dropWhile is_json_space s"

definition replacement_char :: string where
  "replacement_char = [CHR 0xEF, CHR 0xBF, CHR 0xBD]"

definition is_cont :: "char \<Rightarrow> bool" where
  "is_cont c \<longleftrightarrow> 128 \<le> byte_val c \<and> byte_val c \<le> 191"

text \<open>The length of the valid UTF-8 sequence a text starts with, 0 when there is none.\<close>

fun utf8_len :: "string \<Rightarrow> nat" where
  "utf8_len [] = 0"
| "utf8_len (a # s) = (let n = byte_val a in
     if n < 128 then 1
     else if 194 \<le> n \<and> n \<le> 223 then
       (case s of b # _ \<Rightarrow> if is_cont b then 2 else 0 | _ \<Rightarrow> 0)
     else if 224 \<le> n \<and> n \<le> 239 then
       (case s of b # c # _ \<Rightarrow>
          if is_cont b \<and> is_cont c \<and> (n = 224 \<longrightarrow> 160 \<le> byte_val b) \<and> (n = 237 \<longrightarrow> byte_val b \<le> 159)
          then 3 else 0
        | _ \<Rightarrow> 0)
     else if 240 \<le> n \<and> n \<le> 244 then
       (case s of b # c # d # _ \<Rightarrow>
          if is_cont b \<and> is_cont c \<and> is_cont d \<and> (n = 240 \<longrightarrow> 144 \<le> byte_val b) \<and>
             (n = 244 \<longrightarrow> byte_val b \<le> 143)
          then 4 else 0
        | _ \<Rightarrow> 0)
     else 0)"

definition utf8_encode :: "nat \<Rightarrow> string" where
  "utf8_encode r =
     (if r < 128 then [char_of r]
      else if r < 2048 then [char_of (192 + r div 64), char_of (128 + r mod 64)]
      else if 55296 \<le> r \<and> r \<le> 57343 then replacement_char
      else if r < 65536 then
        [char_of (224 + r div 4096), char_of (128 + r div 64 mod 64), char_of (128 + r mod 64)]
      else [char_of (240 + r div 262144), char_of (128 + r div 4096 mod 64),
            char_of (128 + r div 64 mod 64), char_of (128 + r mod 64)])"

fun hex4 :: "string \<Rightarrow> nat option" where
  "hex4 (a # b # c # d # _) =
     (case (hex_val a, hex_val b, hex_val c, hex_val d) of
        (Some w, Some x, Some y, Some z) \<Rightarrow> Some (((w * 16 + x) * 16 + y) * 16 + z)
      | _ \<Rightarrow> None)"
| "hex4 _ = None"

definition simple_escape :: "char \<Rightarrow> char option" where
  "simple_escape c = map_of
     [(CHR ''b'', CHR 0x08), (CHR ''f'', CHR 0x0C), (CHR ''n'', CHR 0x0A), (CHR ''r'', CHR 0x0D),
      (CHR ''t'', CHR 0x09), (CHR 0x5C, CHR 0x5C), (CHR ''/'', CHR ''/''), (CHR 0x22, CHR 0x22)] c"

text \<open>
  The body of a string up to its closing quote: the decoded text and the rest behind the
  quote. A high surrogate followed by an escaped low one is one code point.
\<close>

function parse_string :: "string \<Rightarrow> (string \<times> string) option" where
  "parse_string [] = None"
| "parse_string (c # s) =
     (if c = CHR 0x22 then Some ([], s)
      else if byte_val c < 32 then None
      else if c = CHR 0x5C then
        (case s of
           [] \<Rightarrow> None
         | e # r \<Rightarrow>
             if e = CHR ''u'' then
               (case hex4 r of
                  None \<Rightarrow> None
                | Some u \<Rightarrow>
                    (case (if 55296 \<le> u \<and> u \<le> 56319 \<and> take 2 (drop 4 r) = [CHR 0x5C, CHR ''u'']
                           then hex4 (drop 6 r) else None) of
                       Some l \<Rightarrow>
                         if 56320 \<le> l \<and> l \<le> 57343 then
                           map_option (\<lambda>(t, rest).
                               (utf8_encode (65536 + (u - 55296) * 1024 + (l - 56320)) @ t, rest))
                             (parse_string (drop 10 r))
                         else map_option (\<lambda>(t, rest). (utf8_encode u @ t, rest)) (parse_string (drop 4 r))
                     | None \<Rightarrow> map_option (\<lambda>(t, rest). (utf8_encode u @ t, rest)) (parse_string (drop 4 r))))
             else (case simple_escape e of
                 Some d \<Rightarrow> map_option (\<lambda>(t, rest). (d # t, rest)) (parse_string r)
               | None \<Rightarrow> None))
      else (let n = utf8_len (c # s) in
        if n = 0 then map_option (\<lambda>(t, rest). (replacement_char @ t, rest)) (parse_string s)
        else map_option (\<lambda>(t, rest). (take n (c # s) @ t, rest)) (parse_string (drop n (c # s)))))"
  by pat_completeness auto
termination by (relation "measure length") auto

declare parse_string.simps(2) [simp del]

subsection \<open>Numbers\<close>

definition dig :: "char \<Rightarrow> bool" where
  "dig c = (let n = byte_val c in 48 \<le> n \<and> n \<le> 57)"

definition int_part :: "string \<Rightarrow> (string \<times> string) option" where
  "int_part s = (case s of
     [] \<Rightarrow> None
   | c # r \<Rightarrow> if c = CHR ''0'' then Some ([c], r)
             else if dig c then Some (takeWhile dig s, dropWhile dig s) else None)"

definition frac_part :: "string \<Rightarrow> string \<times> string" where
  "frac_part s = (case s of
     c # r \<Rightarrow> if c = CHR ''.'' \<and> takeWhile dig r \<noteq> [] then (takeWhile dig r, dropWhile dig r) else ([], s)
   | [] \<Rightarrow> ([], []))"

definition exp_part :: "string \<Rightarrow> (bool \<times> string) \<times> string" where
  "exp_part s = (case s of
     c # r \<Rightarrow>
       if c = CHR ''e'' \<or> c = CHR ''E'' then
         (let neg = (r \<noteq> [] \<and> hd r = CHR ''-'');
              d = (if r \<noteq> [] \<and> (hd r = CHR ''-'' \<or> hd r = CHR ''+'') then tl r else r)
          in if takeWhile dig d \<noteq> [] then ((neg, takeWhile dig d), dropWhile dig d)
             else ((False, []), s))
       else ((False, []), s)
   | [] \<Rightarrow> ((False, []), []))"

fun dec :: "int \<Rightarrow> string \<Rightarrow> int" where
  "dec acc [] = acc"
| "dec acc (c # s) = dec (acc * 10 + int (byte_val c - 48)) s"

text \<open>
  \<open>strconv.ParseFloat\<close> reports a range error when the value rounds past the largest
  \<open>float64\<close>, that is from $2^{1024} - 2^{970}$ on.
\<close>

definition float_overflow :: "string \<Rightarrow> string \<Rightarrow> bool \<Rightarrow> string \<Rightarrow> bool" where
  "float_overflow ip fp neg ep =
     (let m = dec 0 (ip @ fp); e = (if neg then - dec 0 ep else dec 0 ep) - int (length fp);
          limit = 2 ^ 1024 - 2 ^ 970 in
      if m = 0 then False
      else if e \<ge> 400 then True
      else if e \<ge> 0 then m * 10 ^ nat e \<ge> limit
      else m \<ge> limit * 10 ^ nat (- e))"

text \<open>A number: whether it overflows, its text, and the rest.\<close>

definition parse_number :: "string \<Rightarrow> ((bool \<times> string) \<times> string) option" where
  "parse_number s =
     (let t = (if s \<noteq> [] \<and> hd s = CHR ''-'' then tl s else s) in
      case int_part t of
        None \<Rightarrow> None
      | Some (ip, r1) \<Rightarrow>
          (case frac_part r1 of (fp, r2) \<Rightarrow>
            (case exp_part r2 of ((neg, ep), r3) \<Rightarrow>
              Some ((float_overflow ip fp neg ep, take (length s - length r3) s), r3))))"

subsection \<open>Values\<close>

definition max_nesting :: int where
  "max_nesting = 10000"

text \<open>
  A parsed value, with a flag that some number of it overflows. \<open>d\<close> counts the open
  containers.
\<close>

type_synonym parsed = "(json \<times> bool) \<times> string"

definition keyword :: "string \<Rightarrow> json \<Rightarrow> string \<Rightarrow> parsed option" where
  "keyword w j s = (case cut_prefix s w of Some r \<Rightarrow> Some ((j, False), r) | None \<Rightarrow> None)"

fun parse_value :: "nat \<Rightarrow> int \<Rightarrow> string \<Rightarrow> parsed option"
  and parse_elements :: "nat \<Rightarrow> int \<Rightarrow> string \<Rightarrow> ((json list \<times> bool) \<times> string) option"
  and parse_members :: "nat \<Rightarrow> int \<Rightarrow> string \<Rightarrow> (((string \<times> json) list \<times> bool) \<times> string) option"
  where
  "parse_value 0 d s = None"
| "parse_value (Suc n) d s =
     (case skip_ws s of
        [] \<Rightarrow> None
      | c # r \<Rightarrow>
          if c = CHR 0x22 then map_option (\<lambda>(t, rest). ((JStr t, False), rest)) (parse_string r)
          else if c = CHR ''{'' then
            (if d \<ge> max_nesting then None
             else if skip_ws r \<noteq> [] \<and> hd (skip_ws r) = CHR ''}'' then Some ((JObj [], False), tl (skip_ws r))
             else map_option (\<lambda>((kvs, o1), rest). ((JObj kvs, o1), rest)) (parse_members n (d + 1) r))
          else if c = CHR ''['' then
            (if d \<ge> max_nesting then None
             else if skip_ws r \<noteq> [] \<and> hd (skip_ws r) = CHR '']'' then Some ((JArr [], False), tl (skip_ws r))
             else map_option (\<lambda>((js, o1), rest). ((JArr js, o1), rest)) (parse_elements n (d + 1) r))
          else if c = CHR ''n'' then keyword ''null'' JNull (c # r)
          else if c = CHR ''t'' then keyword ''true'' (JBool True) (c # r)
          else if c = CHR ''f'' then keyword ''false'' (JBool False) (c # r)
          else map_option (\<lambda>((o1, t), rest). ((JNum t, o1), rest)) (parse_number (c # r)))"
| "parse_elements 0 d s = None"
| "parse_elements (Suc n) d s =
     (case parse_value n d s of
        None \<Rightarrow> None
      | Some ((j, o1), r) \<Rightarrow>
          (case skip_ws r of
             [] \<Rightarrow> None
           | c # r' \<Rightarrow>
               if c = CHR '']'' then Some (([j], o1), r')
               else if c = CHR '','' then
                 map_option (\<lambda>((js, o2), rest). ((j # js, o1 \<or> o2), rest)) (parse_elements n d r')
               else None))"
| "parse_members 0 d s = None"
| "parse_members (Suc n) d s =
     (case skip_ws s of
        [] \<Rightarrow> None
      | q # s1 \<Rightarrow>
          if q \<noteq> CHR 0x22 then None
          else (case parse_string s1 of
              None \<Rightarrow> None
            | Some (k, s2) \<Rightarrow>
                (case skip_ws s2 of
                   [] \<Rightarrow> None
                 | c # s3 \<Rightarrow>
                     if c \<noteq> CHR '':'' then None
                     else (case parse_value n d s3 of
                         None \<Rightarrow> None
                       | Some ((j, o1), r) \<Rightarrow>
                           (case skip_ws r of
                              [] \<Rightarrow> None
                            | c' # r' \<Rightarrow>
                                if c' = CHR ''}'' then Some (([(k, j)], o1), r')
                                else if c' = CHR '','' then
                                  map_option (\<lambda>((kvs, o2), rest). (((k, j) # kvs, o1 \<or> o2), rest))
                                    (parse_members n d r')
                                else None)))))"

definition json_fuel :: "string \<Rightarrow> nat" where
  "json_fuel s = 2 * length s + 2"

definition parse_doc :: "string \<Rightarrow> (json \<times> bool) option" where
  "parse_doc s = (case parse_value (json_fuel s) 0 s of
     Some (j, rest) \<Rightarrow> if skip_ws rest = [] then Some j else None
   | None \<Rightarrow> None)"

definition json_valid :: "string \<Rightarrow> bool" where
  "json_valid s \<longleftrightarrow> parse_doc s \<noteq> None"

text \<open>\<open>json.Unmarshal\<close> into an \<open>any\<close>.\<close>

definition unmarshal_any :: "string \<Rightarrow> json option" where
  "unmarshal_any s = (case parse_doc s of Some (j, False) \<Rightarrow> Some j | _ \<Rightarrow> None)"

subsection \<open>The fuel is enough\<close>

lemma length_skip_ws: "length (skip_ws s) \<le> length s"
  unfolding skip_ws_def by (rule length_dropWhile_le)

lemma skip_ws_Cons: "skip_ws s = c # r \<Longrightarrow> length r < length s"
  using length_skip_ws [of s] by simp

lemma map_fst_Some:
  "map_option (\<lambda>(t, rest). (f t, rest)) x = Some (t, rest) \<longleftrightarrow> (\<exists>t'. x = Some (t', rest) \<and> t = f t')"
  by (cases x) auto

lemma parse_string_step:
  assumes "parse_string (c # s) = Some (t, rest)"
  shows "(c = CHR 0x22 \<and> rest = s) \<or> (\<exists>k t'. parse_string (drop k s) = Some (t', rest))"
proof -
  have e: "\<exists>k t'. parse_string (drop k (e # r)) = Some (t', rest)" if "parse_string (drop m r) = Some (u, rest)"
    for e r m u
    using that by (intro exI [where x = "Suc m"] exI [where x = u]) simp
  have d: "\<exists>k t'. parse_string (drop k s) = Some (t', rest)" if "parse_string (drop n (c # s)) = Some (u, rest)" "n \<noteq> 0"
    for n u
    using that by (cases n) auto
  have z: "\<exists>k t'. parse_string (drop k s) = Some (t', rest)" if "parse_string s = Some (u, rest)" for u
    using that by (intro exI [where x = 0] exI [where x = u]) simp
  note e0 = e [where m = 0, simplified]
  show ?thesis
    using assms unfolding parse_string.simps(2)
    by (simp only: Let_def split: if_split_asm list.split_asm option.split_asm)
       ((simp; fail) |
        (rule disjI2, clarsimp simp: map_fst_Some simp del: utf8_len.simps, (erule e | erule e0 | erule z)) |
        (rule disjI2, drule map_fst_Some [THEN iffD1], elim exE conjE, erule d, assumption))+
qed

lemma parse_string_shorter: "parse_string s = Some (t, rest) \<Longrightarrow> length rest < length s"
proof (induction s arbitrary: t rest rule: length_induct)
  case (1 s)
  from "1.prems" obtain c s' where s: "s = c # s'" by (cases s) auto
  with parse_string_step "1.prems" consider "rest = s'" | k t' where "parse_string (drop k s') = Some (t', rest)"
    by blast
  then show ?case
  proof cases
    case (2 k t')
    have "length (drop k s') < length s" using s by simp
    with "1.IH" 2 have "length rest < length (drop k s')" by blast
    with s show ?thesis by simp
  qed (simp add: s)
qed

lemma int_part_shorter: "int_part s = Some (ip, r) \<Longrightarrow> length r < length s"
  using length_dropWhile_le [of dig] by (cases s) (fastforce simp: int_part_def le_imp_less_Suc split: if_splits)+

lemma frac_part_shorter: "frac_part s = (fp, r) \<Longrightarrow> length r \<le> length s"
  using length_dropWhile_le [of dig] by (cases s) (auto simp: frac_part_def le_SucI split: if_splits)

lemma exp_part_shorter: "exp_part s = (x, r) \<Longrightarrow> length r \<le> length s"
proof -
  have t: "length (dropWhile dig (tl l)) \<le> Suc (length l)" for l
    using length_dropWhile_le [of dig "tl l"] by simp
  assume "exp_part s = (x, r)"
  with length_dropWhile_le [of dig] t show ?thesis
    by (cases s) (auto simp: exp_part_def Let_def le_SucI split: if_splits)
qed

lemma parse_number_shorter: "parse_number s = Some (x, rest) \<Longrightarrow> length rest < length s"
proof -
  assume a: "parse_number s = Some (x, rest)"
  define t where "t = (if s \<noteq> [] \<and> hd s = CHR ''-'' then tl s else s)"
  from a obtain ip r1 fp r2 e where "int_part t = Some (ip, r1)" "frac_part r1 = (fp, r2)" "exp_part r2 = (e, rest)"
    by (auto simp: parse_number_def Let_def t_def [symmetric] split: option.splits prod.splits)
  then have "length rest < length t"
    using int_part_shorter frac_part_shorter exp_part_shorter by (meson le_less_trans)
  moreover have "length t \<le> length s" by (simp add: t_def)
  ultimately show ?thesis by simp
qed

lemma keyword_shorter: "keyword w j s = Some (x, rest) \<Longrightarrow> w \<noteq> [] \<Longrightarrow> length rest < length s"
  by (auto simp: keyword_def cut_prefix_Some split: option.splits)

lemma parse_shorter:
  "parse_value n d s = Some (v, rest) \<Longrightarrow> length rest < length s"
  "parse_elements n d s = Some (es, rest) \<Longrightarrow> length rest < length s"
  "parse_members n d s = Some (ms, rest) \<Longrightarrow> length rest < length s"
proof (induction n d s and n d s and n d s arbitrary: v rest and es rest and ms rest
    rule: parse_value_parse_elements_parse_members.induct)
  case (2 n d s)
  show ?case
  proof (cases "skip_ws s")
    case (Cons c r)
    have l: "length (skip_ws r) \<le> length r" "length r < length s"
      using length_skip_ws skip_ws_Cons [OF Cons] by auto
    then have t: "length (tl (skip_ws r)) < length s" by simp
    from Cons have cr: "length (c # r) \<le> length s" using skip_ws_Cons by fastforce
    from 2 Cons l t cr show ?thesis
      by (auto split: if_splits dest!: parse_string_shorter keyword_shorter parse_number_shorter)
         (meson less_trans)+
  qed (use 2 in simp)
next
  case (4 n d s)
  then show ?case
    by (auto split: option.splits list.splits if_splits dest!: skip_ws_Cons) (meson less_trans)+
next
  case (6 n d s)
  then show ?case
    by (auto split: option.splits list.splits if_splits dest!: skip_ws_Cons parse_string_shorter) (meson less_trans)+
qed simp_all

lemma parse_fuel_step:
  "(\<forall>d s. 2 * length s + 1 \<le> n \<longrightarrow> parse_value (Suc n) d s = parse_value n d s) \<and>
   (\<forall>d s. 2 * length s + 2 \<le> n \<longrightarrow> parse_elements (Suc n) d s = parse_elements n d s) \<and>
   (\<forall>d s. 2 * length s + 2 \<le> n \<longrightarrow> parse_members (Suc n) d s = parse_members n d s)"
proof (induction n)
  case (Suc m)
  note V = Suc [THEN conjunct1, rule_format]
    and E = Suc [THEN conjunct2, THEN conjunct1, rule_format]
    and M = Suc [THEN conjunct2, THEN conjunct2, rule_format]
  show ?case
  proof (intro conjI allI impI)
    fix d s assume l: "2 * length (s :: string) + 1 \<le> Suc m"
    show "parse_value (Suc (Suc m)) d s = parse_value (Suc m) d s"
    proof (cases "skip_ws s")
      case (Cons c r)
      have "2 * length r + 2 \<le> m" using skip_ws_Cons [OF Cons] l by simp
      from E [OF this] M [OF this] Cons show ?thesis
        by (simp only: parse_value.simps list.case)
    qed (simp only: parse_value.simps list.case)
  next
    fix d s assume l: "2 * length (s :: string) + 2 \<le> Suc m"
    then have v: "parse_value (Suc m) d s = parse_value m d s" by (intro V) simp
    show "parse_elements (Suc (Suc m)) d s = parse_elements (Suc m) d s"
    proof (cases "parse_value m d s")
      case (Some x)
      obtain j o1 r where x: "x = ((j, o1), r)" by (metis prod.exhaust)
      with Some have r: "length r < length s" by (auto dest: parse_shorter(1))
      have "parse_elements (Suc m) d r' = parse_elements m d r'" if "skip_ws r = c # r'" for c r'
        using skip_ws_Cons [OF that] r l by (intro E) simp
      with Some x v show ?thesis
        by (cases "skip_ws r") (simp_all only: parse_elements.simps(2) list.case option.case prod.case)
    qed (simp only: parse_elements.simps(2) v option.case)
  next
    fix d s assume l: "2 * length (s :: string) + 2 \<le> Suc m"
    show "parse_members (Suc (Suc m)) d s = parse_members (Suc m) d s"
    proof -
      have mem: "parse_members (Suc m) d r' = parse_members m d r'" if "length r' < length s" for r'
        using that l by (intro M) simp
      have val: "parse_value (Suc m) d r' = parse_value m d r'" if "length r' < length s" for r'
        using that l by (intro V) simp
      show ?thesis
      proof (cases "skip_ws s")
        case (Cons q s1)
        note l1 = skip_ws_Cons [OF Cons]
        show ?thesis
        proof (cases "parse_string s1")
          case P: (Some ks)
          obtain k s2 where ks: "ks = (k, s2)" by (cases ks)
          with P l1 have l2: "length s2 < length s" by (auto dest!: parse_string_shorter)
          show ?thesis
          proof (cases "skip_ws s2")
            case S: (Cons c s3)
            with skip_ws_Cons l2 have l3: "length s3 < length s" by (meson less_trans)
            show ?thesis
            proof (cases "parse_value m d s3")
              case R: (Some x)
              obtain j o1 r where x: "x = ((j, o1), r)" by (metis prod.exhaust)
              with R l3 have lr: "length r < length s" by (auto dest!: parse_shorter(1))
              show ?thesis
              proof (cases "skip_ws r")
                case W: (Cons c' r')
                with skip_ws_Cons lr have "length r' < length s" by (meson less_trans)
                from mem [OF this] val [OF l3] Cons P ks S R x W show ?thesis
                  by (simp only: parse_members.simps(2) list.case option.case prod.case)
              qed (use Cons P ks S R x val [OF l3] in \<open>simp only: parse_members.simps(2) list.case option.case prod.case\<close>)
            qed (use Cons P ks S val [OF l3] in \<open>simp only: parse_members.simps(2) list.case option.case prod.case\<close>)
          qed (use Cons P ks in \<open>simp only: parse_members.simps(2) list.case option.case prod.case\<close>)
        qed (use Cons in \<open>simp only: parse_members.simps(2) list.case option.case prod.case\<close>)
      qed (simp only: parse_members.simps(2) list.case)
    qed
  qed
qed simp

lemma parse_value_fuel:
  "json_fuel s \<le> n \<Longrightarrow> parse_value n d s = parse_value (json_fuel s) d s"
proof (induction n)
  case (Suc n)
  show ?case
  proof (cases "json_fuel s \<le> n")
    case True
    with Suc parse_fuel_step [of n] show ?thesis by (simp add: json_fuel_def)
  next
    case False
    with Suc.prems show ?thesis by (simp add: le_Suc_eq)
  qed
qed (simp add: json_fuel_def)

end
