(* ===== verification/Project_Block.thy ===== *)
theory Project_Block
  imports Json_Parse
begin

text \<open>
  \<open>internal/auth/authreq/project.go\<close> and \<open>providerargs.go\<close>: the in-place scan that
  slices a connector's own argument block out of the tool call. Indices into the byte
  slice are kept as the source has them; \<open>project_block_spec\<close> proves the walk equal
  to decoding the call into a map of raw messages, the last occurrence of a key winning.
\<close>

subsection \<open>The scanner\<close>

function skip_space :: "string \<Rightarrow> nat \<Rightarrow> nat" where
  "skip_space d i =
     (if i < length d then (if is_json_space (d ! i) then skip_space d (i + 1) else i) else i)"
  by pat_completeness auto
termination by (relation "measure (\<lambda>(d, i). length d - i)") auto

function eos_loop :: "string \<Rightarrow> nat \<Rightarrow> nat" where
  "eos_loop d i =
     (if i < length d then
        (if d ! i = CHR 0x5C then eos_loop d (i + 2)
         else if d ! i = CHR 0x22 then i + 1
         else eos_loop d (i + 1))
      else min i (length d))"
  by pat_completeness auto
termination by (relation "measure (\<lambda>(d, i). length d - i)") auto

definition end_of_string :: "string \<Rightarrow> nat \<Rightarrow> nat" where
  "end_of_string d i = eos_loop d (i + 1)"

declare skip_space.simps [simp del] eos_loop.simps [simp del]

lemma eos_loop_bounds: "i \<le> length d \<Longrightarrow> i \<le> eos_loop d i \<and> eos_loop d i \<le> length d"
proof (induction d i rule: eos_loop.induct)
  case (1 d i)
  show ?case
  proof (cases "i < length d")
    case i: True
    show ?thesis
    proof (cases "d ! i = CHR 0x5C")
      case True
      show ?thesis
      proof (cases "i + 2 \<le> length d")
        case T: True
        then show ?thesis using 1 i True by (subst (1 2) eos_loop.simps) simp
      next
        case False
        with i True show ?thesis
          by (subst (1 2) eos_loop.simps) (simp add: eos_loop.simps [of d "Suc (Suc i)"])
      qed
    next
      case False
      then show ?thesis using 1 i by (subst (1 2) eos_loop.simps) (cases "d ! i = CHR 0x22"; simp)
    qed
  next
    case False
    with 1 show ?thesis by (simp add: eos_loop.simps)
  qed
qed

lemma end_of_string_bounds: "i < length d \<Longrightarrow> i < end_of_string d i \<and> end_of_string d i \<le> length d"
  using eos_loop_bounds [of "i + 1" d] by (simp add: end_of_string_def)

function container_loop :: "string \<Rightarrow> nat \<Rightarrow> int \<Rightarrow> nat" where
  "container_loop d i depth =
     (if i < length d then
        (if d ! i = CHR 0x22 then container_loop d (end_of_string d i) depth
         else if d ! i = CHR ''{'' \<or> d ! i = CHR ''['' then container_loop d (i + 1) (depth + 1)
         else if d ! i = CHR ''}'' \<or> d ! i = CHR '']'' then
           (if depth - 1 = 0 then i + 1 else container_loop d (i + 1) (depth - 1))
         else container_loop d (i + 1) depth)
      else i)"
  by pat_completeness auto
termination
proof (relation "measure (\<lambda>(d, i, k). length d - i)", simp)
  fix d :: string and i and depth :: int
  assume i: "i < length d"
  then show "((d, end_of_string d i, depth), d, i, depth) \<in> measure (\<lambda>(d, i, k). length d - i)"
    using end_of_string_bounds [OF i] by simp linarith
qed auto

declare container_loop.simps [simp del]

definition end_of_container :: "string \<Rightarrow> nat \<Rightarrow> nat" where
  "end_of_container d i = container_loop d i 0"

definition is_json_delim :: "char \<Rightarrow> bool" where
  "is_json_delim c \<longleftrightarrow> c = CHR '','' \<or> c = CHR ''}'' \<or> c = CHR '']'' \<or> is_json_space c"

function end_of_scalar :: "string \<Rightarrow> nat \<Rightarrow> nat" where
  "end_of_scalar d i =
     (if i < length d then (if is_json_delim (d ! i) then i else end_of_scalar d (i + 1)) else i)"
  by pat_completeness auto
termination by (relation "measure (\<lambda>(d, i). length d - i)") auto

declare end_of_scalar.simps [simp del]

definition end_of_value :: "string \<Rightarrow> nat \<Rightarrow> nat" where
  "end_of_value d i =
     (if i \<ge> length d then i
      else if d ! i = CHR 0x22 then end_of_string d i
      else if d ! i = CHR ''{'' \<or> d ! i = CHR ''['' then end_of_container d i
      else end_of_scalar d i)"

fun utf8_valid_fuel :: "nat \<Rightarrow> string \<Rightarrow> bool" where
  "utf8_valid_fuel n [] = True"
| "utf8_valid_fuel 0 s = False"
| "utf8_valid_fuel (Suc n) s = (let k = utf8_len s in if k = 0 then False else utf8_valid_fuel n (drop k s))"

definition utf8_valid :: "string \<Rightarrow> bool" where
  "utf8_valid s = utf8_valid_fuel (length s) s"

definition key_equals :: "string \<Rightarrow> string \<Rightarrow> bool" where
  "key_equals raw key =
     (if CHR 0x5C \<notin> set raw \<and> utf8_valid raw then
        length raw = length key + 2 \<and> take (length raw - 2) (drop 1 raw) = key
      else (case parse_doc raw of Some (JStr name, _) \<Rightarrow> name = key | _ \<Rightarrow> False))"

definition slice :: "string \<Rightarrow> nat \<Rightarrow> nat \<Rightarrow> string" where
  "slice d a b = take (b - a) (drop a d)"

text \<open>One fuel unit per member; a call has at most one member per byte.\<close>

fun find_key_loop :: "nat \<Rightarrow> string \<Rightarrow> nat \<Rightarrow> string \<Rightarrow> string option \<Rightarrow> string option" where
  "find_key_loop 0 d i0 key found = found"
| "find_key_loop (Suc n) d i0 key found =
     (let name_start = skip_space d i0 in
      if name_start \<ge> length d \<or> d ! name_start \<noteq> CHR 0x22 then found
      else (let name_end = end_of_string d name_start;
                colon = skip_space d name_end in
        if colon \<ge> length d then found
        else (let value_start = skip_space d (colon + 1);
                  value_end = end_of_value d value_start;
                  found' = (if key_equals (slice d name_start name_end) key
                            then Some (slice d value_start value_end) else found);
                  j = skip_space d value_end in
          if j \<ge> length d \<or> d ! j \<noteq> CHR '','' then found'
          else find_key_loop n d (j + 1) key found')))"

definition find_key :: "string \<Rightarrow> nat \<Rightarrow> string \<Rightarrow> string option" where
  "find_key d i key = find_key_loop (length d) d i key None"

text \<open>\<open>Inl ()\<close> is the error of \<open>encoding/json\<close>, \<open>Inr None\<close> the absent key.\<close>

definition project_block :: "string \<Rightarrow> string \<Rightarrow> (unit, string option) result" where
  "project_block tool_call key =
     (let i = skip_space tool_call 0 in
      if json_valid tool_call \<and> i < length tool_call \<and> tool_call ! i = CHR ''{'' then
        Inr (find_key tool_call (i + 1) key)
      else if json_valid tool_call \<and> i < length tool_call \<and> tool_call ! i = CHR ''n'' then Inr None
      else Inl ())"

subsection \<open>providerargs.go\<close>

definition args_key_suffix :: string where
  "args_key_suffix = ''_auth''"

datatype provider_args = AbsentArgs | ProviderArgs (args_key: string) (tool_call: string)

definition new_provider_args :: "string \<Rightarrow> string \<Rightarrow> provider_args" where
  "new_provider_args tc provider = ProviderArgs (to_lower provider @ args_key_suffix) tc"

text \<open>\<open>Parse\<close>, the decoding of the block into the argument struct being \<open>decode\<close>.\<close>

definition parse_args :: "(string \<Rightarrow> 'a option) \<Rightarrow> provider_args \<Rightarrow> (unit, 'a option) result" where
  "parse_args decode a =
     (case a of
        AbsentArgs \<Rightarrow> Inr None
      | ProviderArgs key tc \<Rightarrow>
          and_then (project_block tc key) (\<lambda>block.
            case block of
              None \<Rightarrow> Inr None
            | Some b \<Rightarrow>
                if b = ''null'' then Inr None
                else (case decode b of None \<Rightarrow> Inl () | Some x \<Rightarrow> Inr (Some x))))"

subsection \<open>The scanner on suffixes\<close>

text \<open>The same walks, each giving the rest of the text instead of an index into it.\<close>

fun eos_s :: "string \<Rightarrow> string" where
  "eos_s [] = []"
| "eos_s [c] = []"
| "eos_s (c # e # s) = (if c = CHR 0x5C then eos_s s else if c = CHR 0x22 then e # s else eos_s (e # s))"

lemma eos_s_Cons:
  "eos_s (c # x) = (if c = CHR 0x5C then eos_s (tl x) else if c = CHR 0x22 then x else eos_s x)"
  by (cases x) auto

lemma eos_s_append: "\<exists>p. s = p @ eos_s s"
proof (induction s rule: eos_s.induct)
  case (3 c e s)
  show ?case
  proof (cases "c = CHR 0x5C")
    case True
    with 3 obtain p where "s = p @ eos_s s" by blast
    with True have "c # e # s = (c # e # p) @ eos_s (c # e # s)" by simp
    then show ?thesis by blast
  next
    case F: False
    show ?thesis
    proof (cases "c = CHR 0x22")
      case True
      then have "c # e # s = [c] @ eos_s (c # e # s)" by simp
      then show ?thesis by blast
    next
      case False
      with F 3 obtain p where "e # s = p @ eos_s (e # s)" by blast
      with F False have "c # e # s = (c # p) @ eos_s (c # e # s)" by simp
      then show ?thesis by blast
    qed
  qed
qed auto

declare eos_s.simps(2,3) [simp del]

lemma eos_s_suffix: "drop (length s - length (eos_s s)) s = eos_s s"
  using eos_s_append [of s] by (metis add_diff_cancel_right' append_eq_conv_conj length_append)

lemma length_eos_s: "length (eos_s s) \<le> length s"
  using eos_s_append [of s] by (metis le_add2 length_append)

lemma eos_loop_suffix: "i \<le> length d \<Longrightarrow> eos_loop d i = length d - length (eos_s (drop i d))"
proof (induction d i rule: eos_loop.induct)
  case (1 d i)
  show ?case
  proof (cases "i < length d")
    case i: True
    have r: "drop i d = d ! i # drop (Suc i) d" using Cons_nth_drop_Suc [OF i] by simp
    show ?thesis
    proof (cases "d ! i = CHR 0x5C")
      case T: True
      have e: "eos_s (drop i d) = eos_s (drop (i + 2) d)" by (simp add: r eos_s_Cons T tl_drop drop_Suc)
      show ?thesis
      proof (cases "i + 2 \<le> length d")
        case True
        with 1 i T e show ?thesis by (subst eos_loop.simps) simp
      next
        case False
        with i T e show ?thesis by (subst eos_loop.simps) (simp add: eos_loop.simps [of d "Suc (Suc i)"])
      qed
    next
      case False
      with 1 i show ?thesis by (subst eos_loop.simps) (auto simp: r eos_s_Cons)
    qed
  next
    case False
    with 1 show ?thesis by (simp add: eos_loop.simps)
  qed
qed

function cont_s :: "string \<Rightarrow> int \<Rightarrow> string" where
  "cont_s [] k = []"
| "cont_s (c # s) k =
     (if c = CHR 0x22 then cont_s (eos_s s) k
      else if c = CHR ''{'' \<or> c = CHR ''['' then cont_s s (k + 1)
      else if c = CHR ''}'' \<or> c = CHR '']'' then (if k - 1 = 0 then s else cont_s s (k - 1))
      else cont_s s k)"
  by pat_completeness auto
termination by (relation "measure (\<lambda>(s, k). length s)") (auto simp: le_imp_less_Suc length_eos_s)

lemma length_cont_s: "length (cont_s s k) \<le> length s"
proof (induction s k rule: cont_s.induct)
  case (2 c s k)
  have "length (cont_s (eos_s s) k) \<le> length s" if "c = CHR 0x22"
    using 2(1) [OF that] length_eos_s [of s] by simp
  moreover note IH = 2(2-4)
  ultimately show ?case unfolding cont_s.simps(2)
    by (simp add: le_SucI del: cont_s.simps split del: if_split split: if_split)
qed simp

lemma drop_end_of_string:
  "i < length d \<Longrightarrow> drop (end_of_string d i) d = eos_s (drop (i + 1) d)"
proof -
  assume i: "i < length d"
  let ?r = "drop (i + 1) d"
  have l: "length (eos_s ?r) \<le> length ?r" by (rule length_eos_s)
  have "end_of_string d i = (i + 1) + (length ?r - length (eos_s ?r))"
    using eos_loop_suffix [of "i + 1" d] i l by (simp add: end_of_string_def)
  then show ?thesis using eos_s_suffix [of ?r] by (metis add.commute drop_drop)
qed

lemma container_loop_suffix:
  "i \<le> length d \<Longrightarrow> container_loop d i k = length d - length (cont_s (drop i d) k)"
proof (induction d i k rule: container_loop.induct)
  case (1 d i k)
  show ?case
  proof (cases "i < length d")
    case i: True
    have r: "drop i d = d ! i # drop (Suc i) d" using Cons_nth_drop_Suc [OF i] by simp
    have b: "end_of_string d i \<le> length d" using end_of_string_bounds [OF i] by simp
    show ?thesis
      using 1 i b drop_end_of_string [OF i] by (subst container_loop.simps) (auto simp: r)
  next
    case False
    with 1 show ?thesis by (simp add: container_loop.simps)
  qed
qed

lemma end_of_scalar_suffix:
  "i \<le> length d \<Longrightarrow> end_of_scalar d i = length d - length (dropWhile (\<lambda>c. \<not> is_json_delim c) (drop i d))"
proof (induction d i rule: end_of_scalar.induct)
  case (1 d i)
  show ?case
  proof (cases "i < length d")
    case i: True
    have r: "drop i d = d ! i # drop (Suc i) d" using Cons_nth_drop_Suc [OF i] by simp
    show ?thesis using 1 i by (subst end_of_scalar.simps) (auto simp: r)
  next
    case False
    with 1 show ?thesis by (simp add: end_of_scalar.simps)
  qed
qed

lemma skip_space_suffix: "i \<le> length d \<Longrightarrow> skip_space d i = length d - length (skip_ws (drop i d))"
proof (induction d i rule: skip_space.induct)
  case (1 d i)
  show ?case
  proof (cases "i < length d")
    case i: True
    have r: "drop i d = d ! i # drop (Suc i) d" using Cons_nth_drop_Suc [OF i] by simp
    show ?thesis using 1 i by (subst skip_space.simps) (auto simp: r skip_ws_def)
  next
    case False
    with 1 show ?thesis by (simp add: skip_space.simps skip_ws_def)
  qed
qed

definition eov_s :: "string \<Rightarrow> string" where
  "eov_s s = (case s of [] \<Rightarrow> []
   | c # r \<Rightarrow> if c = CHR 0x22 then eos_s r
             else if c = CHR ''{'' \<or> c = CHR ''['' then cont_s s 0
             else dropWhile (\<lambda>c. \<not> is_json_delim c) s)"

lemma end_of_value_suffix: "i \<le> length d \<Longrightarrow> end_of_value d i = length d - length (eov_s (drop i d))"
proof (cases "i < length d")
  case i: True
  have r: "drop i d = d ! i # drop (Suc i) d" using Cons_nth_drop_Suc [OF i] by simp
  assume "i \<le> length d"
  then show ?thesis
    using i eos_loop_suffix [of "i + 1" d] container_loop_suffix [of i d 0] end_of_scalar_suffix [of i d]
    by (auto simp: end_of_value_def end_of_string_def end_of_container_def eov_s_def r)
next
  case False
  assume "i \<le> length d"
  with False show ?thesis by (simp add: end_of_value_def eov_s_def)
qed

subsection \<open>The scanner follows the parser\<close>

lemma eos_s_plain: "\<forall>c \<in> set p. c \<noteq> CHR 0x5C \<and> c \<noteq> CHR 0x22 \<Longrightarrow> eos_s (p @ s) = eos_s s"
  by (induction p) (auto simp: eos_s_Cons)

lemma hex_val_plain: "hex_val CHR 0x5C = None" "hex_val CHR 0x22 = None"
  by (simp_all add: hex_val_def byte_val_def)

lemma hex4_Some: "hex4 r = Some u \<Longrightarrow> \<exists>a b c d q. r = a # b # c # d # q \<and>
    hex_val a \<noteq> None \<and> hex_val b \<noteq> None \<and> hex_val c \<noteq> None \<and> hex_val d \<noteq> None"
  by (cases r rule: hex4.cases) (auto split: option.splits)

lemma hex4_eos: "hex4 r = Some u \<Longrightarrow> eos_s r = eos_s (drop 4 r)"
proof -
  assume "hex4 r = Some u"
  then obtain a b c d q where r: "r = a # b # c # d # q" "hex_val a \<noteq> None" "hex_val b \<noteq> None"
    "hex_val c \<noteq> None" "hex_val d \<noteq> None" using hex4_Some by blast
  then have "\<forall>x \<in> set [a, b, c, d]. x \<noteq> CHR 0x5C \<and> x \<noteq> CHR 0x22" using hex_val_plain by auto
  from eos_s_plain [OF this, of q] r show ?thesis by simp
qed

lemma is_cont_plain: "is_cont c \<Longrightarrow> c \<noteq> CHR 0x5C \<and> c \<noteq> CHR 0x22"
  by (auto simp: is_cont_def byte_val_def)

lemma utf8_len_cont:
  "utf8_len (c # s) = n \<Longrightarrow> n \<noteq> 0 \<Longrightarrow> \<exists>p q. s = p @ q \<and> length p = n - 1 \<and> (\<forall>x \<in> set p. is_cont x)"
proof -
  assume n: "utf8_len (c # s) = n" "n \<noteq> 0"
  then consider "n = 1" | b q where "n = 2" "s = b # q" "is_cont b"
    | b d q where "n = 3" "s = b # d # q" "is_cont b" "is_cont d"
    | b d e q where "n = 4" "s = b # d # e # q" "is_cont b" "is_cont d" "is_cont e"
    by (auto simp: Let_def split: if_splits list.splits)
  then show ?thesis
  proof cases
    case 1
    then show ?thesis by (intro exI [where x = "[]"] exI [where x = s]) simp
  next
    case 2
    then show ?thesis by (intro exI [where x = "[b]"] exI [where x = q]) simp
  next
    case 3
    then show ?thesis by (intro exI [where x = "[b, d]"] exI [where x = q]) simp
  next
    case 4
    then show ?thesis by (intro exI [where x = "[b, d, e]"] exI [where x = q]) simp
  qed
qed

lemma utf8_len_eos:
  "utf8_len (c # s) \<noteq> 0 \<Longrightarrow> c \<noteq> CHR 0x5C \<Longrightarrow> c \<noteq> CHR 0x22 \<Longrightarrow>
   eos_s (c # s) = eos_s (drop (utf8_len (c # s)) (c # s))"
proof -
  assume n: "utf8_len (c # s) \<noteq> 0" and c: "c \<noteq> CHR 0x5C" "c \<noteq> CHR 0x22"
  obtain p q where pq: "s = p @ q" "length p = utf8_len (c # s) - 1" "\<forall>x \<in> set p. is_cont x"
    using utf8_len_cont [OF refl n] by blast
  have "drop (utf8_len (c # s)) (c # s) = drop (utf8_len (c # s) - 1) s"
    using n by (cases "utf8_len (c # s)") (simp_all del: utf8_len.simps)
  also have "\<dots> = q" using pq(1,2) by (metis append_eq_conv_conj)
  finally have d: "drop (utf8_len (c # s)) (c # s) = q" .
  have "\<forall>x \<in> set (c # p). x \<noteq> CHR 0x5C \<and> x \<noteq> CHR 0x22" using pq(3) c is_cont_plain by auto
  from eos_s_plain [OF this, of q] show ?thesis unfolding d by (simp add: pq(1))
qed

lemma parse_string_eos_step:
  assumes "parse_string (c # s) = Some (t, rest)"
  shows "(c = CHR 0x22 \<and> rest = s) \<or>
     (\<exists>q t'. eos_s (c # s) = eos_s q \<and> length q \<le> length s \<and> parse_string q = Some (t', rest))"
proof -
  have U: "\<exists>q t'. eos_s (CHR 0x5C # CHR ''u'' # r) = eos_s q \<and> length q \<le> length (CHR ''u'' # r) \<and>
      parse_string q = Some (t', rest)" if "parse_string (drop 4 r) = Some (x, rest)" "hex4 r = Some u" for r x u
    using that hex4_eos by (intro exI [where x = "drop 4 r"] exI [where x = x]) (simp add: eos_s_Cons)
  have P: "\<exists>q t'. eos_s (CHR 0x5C # CHR ''u'' # r) = eos_s q \<and> length q \<le> length (CHR ''u'' # r) \<and>
      parse_string q = Some (t', rest)"
    if "parse_string (drop 10 r) = Some (x, rest)" "hex4 r = Some u"
      "take 2 (drop 4 r) = [CHR 0x5C, CHR ''u'']" "hex4 (drop 6 r) = Some l" for r x u l
  proof -
    have "drop 4 r = CHR 0x5C # CHR ''u'' # drop 6 r"
    proof -
      have "drop 6 r = drop 2 (drop 4 r)" by simp
      then show ?thesis using that(3) append_take_drop_id [of 2 "drop 4 r"] by simp
    qed
    then have "eos_s r = eos_s (drop 10 r)"
      using hex4_eos [OF that(2)] hex4_eos [OF that(4)] by (simp add: eos_s_Cons)
    then show ?thesis using that(1) by (intro exI [where x = "drop 10 r"] exI [where x = x]) (simp add: eos_s_Cons)
  qed
  have E: "\<exists>q t'. eos_s (CHR 0x5C # e # r) = eos_s q \<and> length q \<le> length (e # r) \<and>
      parse_string q = Some (t', rest)" if "parse_string r = Some (x, rest)" for e r x
    using that by (intro exI [where x = r] exI [where x = x]) (simp add: eos_s_Cons)
  have N: "\<exists>q t'. eos_s (c # s) = eos_s q \<and> length q \<le> length s \<and> parse_string q = Some (t', rest)"
    if "parse_string s = Some (x, rest)" "c \<noteq> CHR 0x5C" "c \<noteq> CHR 0x22" for x
    using that by (intro exI [where x = s] exI [where x = x]) (simp add: eos_s_Cons)
  have D: "\<exists>q t'. eos_s (c # s) = eos_s q \<and> length q \<le> length s \<and> parse_string q = Some (t', rest)"
    if "parse_string (drop (utf8_len (c # s)) (c # s)) = Some (x, rest)" "utf8_len (c # s) \<noteq> 0"
      "c \<noteq> CHR 0x5C" "c \<noteq> CHR 0x22" for x
    using that utf8_len_eos [OF that(2-4)]
    by (intro exI [where x = "drop (utf8_len (c # s)) (c # s)"] exI [where x = x]) (simp del: utf8_len.simps)
  show ?thesis
    using assms unfolding parse_string.simps(2)
    by (simp only: Let_def split: if_split_asm list.split_asm option.split_asm)
       ((simp; fail) |
        (rule disjI2, drule map_fst_Some [THEN iffD1], elim exE conjE,
          ((erule U, assumption) | (erule P, assumption, assumption, assumption) | erule E |
           (erule N, assumption, assumption) | (erule D, assumption, assumption, assumption))))+
qed

lemma parse_string_eos: "parse_string s = Some (t, rest) \<Longrightarrow> eos_s s = rest"
proof (induction s arbitrary: t rule: length_induct)
  case (1 s)
  then obtain c s' where s: "s = c # s'" by (cases s) auto
  from parse_string_eos_step [OF "1.prems" [unfolded s]] show ?case
  proof (elim disjE exE conjE)
    assume "c = CHR 0x22" "rest = s'"
    then show ?thesis by (simp add: s eos_s_Cons)
  next
    fix q t' assume q: "eos_s (c # s') = eos_s q" "length q \<le> length s'" "parse_string q = Some (t', rest)"
    then have "eos_s q = rest" using "1.IH" s by auto
    with q s show ?thesis by simp
  qed
qed

text \<open>Outside strings the container scan only reacts to brackets.\<close>

definition neutral :: "char \<Rightarrow> bool" where
  "neutral c \<longleftrightarrow> c \<noteq> CHR 0x22 \<and> c \<noteq> CHR ''{'' \<and> c \<noteq> CHR ''['' \<and> c \<noteq> CHR ''}'' \<and> c \<noteq> CHR '']''"

lemma cont_s_neutral: "\<forall>c \<in> set p. neutral c \<Longrightarrow> cont_s (p @ s) k = cont_s s k"
  by (induction p) (auto simp: neutral_def)

lemma skip_ws_split: "\<exists>w. s = w @ skip_ws s \<and> (\<forall>c \<in> set w. is_json_space c)"
  unfolding skip_ws_def by (metis set_takeWhileD takeWhile_dropWhile_id)

lemma space_neutral: "is_json_space c \<Longrightarrow> neutral c"
  by (auto simp: is_json_space_def neutral_def)

lemma cont_s_skip_ws: "cont_s (skip_ws s) k = cont_s s k"
proof -
  obtain w where w: "s = w @ skip_ws s" "\<forall>c \<in> set w. is_json_space c" using skip_ws_split by blast
  then have "\<forall>c \<in> set w. neutral c" using space_neutral by blast
  from cont_s_neutral [OF this, of "skip_ws s" k] w(1) show ?thesis by simp
qed

definition number_char :: "char \<Rightarrow> bool" where
  "number_char c \<longleftrightarrow> dig c \<or> c \<in> set ''+-.eE''"

lemma number_char_plain: "number_char c \<Longrightarrow> neutral c \<and> \<not> is_json_delim c"
  by (auto simp: number_char_def dig_def byte_val_def neutral_def is_json_delim_def is_json_space_def Let_def)

lemma int_part_text: "int_part s = Some (ip, r) \<Longrightarrow> s = ip @ r \<and> (\<forall>c \<in> set ip. number_char c)"
  by (cases s) (auto simp: int_part_def number_char_def dig_def [of "CHR ''0''"] byte_val_def [of "CHR ''0''"] Let_def
      split: if_splits dest: set_takeWhileD)

lemma frac_part_text: "frac_part s = (fp, r) \<Longrightarrow> \<exists>p. s = p @ r \<and> (\<forall>c \<in> set p. number_char c)"
proof (cases s)
  case (Cons c t)
  assume f: "frac_part s = (fp, r)"
  show ?thesis
  proof (cases "c = CHR ''.'' \<and> takeWhile dig t \<noteq> []")
    case True
    with f Cons have "r = dropWhile dig t" by (simp add: frac_part_def)
    then have "s = (c # takeWhile dig t) @ r" using Cons by simp
    moreover have "\<forall>x \<in> set (c # takeWhile dig t). number_char x"
      using True by (auto simp: number_char_def dest: set_takeWhileD)
    ultimately show ?thesis by blast
  next
    case False
    with f Cons have "r = s" by (auto simp: frac_part_def split: if_splits)
    then show ?thesis by simp
  qed
qed (simp add: frac_part_def)

lemma exp_part_text: "exp_part s = (e, r) \<Longrightarrow> \<exists>p. s = p @ r \<and> (\<forall>c \<in> set p. number_char c)"
proof (cases s)
  case (Cons c t)
  assume f: "exp_part s = (e, r)"
  define d where "d = (if t \<noteq> [] \<and> (hd t = CHR ''-'' \<or> hd t = CHR ''+'') then tl t else t)"
  show ?thesis
  proof (cases "(c = CHR ''e'' \<or> c = CHR ''E'') \<and> takeWhile dig d \<noteq> []")
    case True
    with f Cons have r: "r = dropWhile dig d" by (auto simp: exp_part_def Let_def d_def split: if_splits)
    obtain g where g: "t = g @ d" "\<forall>x \<in> set g. x = CHR ''-'' \<or> x = CHR ''+''"
    proof (cases "t \<noteq> [] \<and> (hd t = CHR ''-'' \<or> hd t = CHR ''+'')")
      case True
      then show thesis by (intro that [of "[hd t]"]) (auto simp: d_def)
    next
      case False
      then have "d = t" unfolding d_def by (simp only: if_False)
      then show thesis by (intro that [of "[]"]) auto
    qed
    have "s = (c # g @ takeWhile dig d) @ r" using Cons g(1) r by simp
    moreover have "\<forall>x \<in> set (c # g @ takeWhile dig d). number_char x"
      using True g(2) by (auto simp: number_char_def dest: set_takeWhileD)
    ultimately show ?thesis by blast
  next
    case False
    with f Cons have "r = s" by (auto simp: exp_part_def Let_def d_def split: if_splits)
    then show ?thesis by simp
  qed
qed (simp add: exp_part_def)

lemma parse_number_text:
  "parse_number s = Some (x, rest) \<Longrightarrow> \<exists>p. s = p @ rest \<and> (\<forall>c \<in> set p. number_char c)"
proof -
  assume a: "parse_number s = Some (x, rest)"
  define t where "t = (if s \<noteq> [] \<and> hd s = CHR ''-'' then tl s else s)"
  from a obtain ip r1 fp r2 e where p: "int_part t = Some (ip, r1)" "frac_part r1 = (fp, r2)" "exp_part r2 = (e, rest)"
    by (auto simp: parse_number_def Let_def t_def [symmetric] split: option.splits prod.splits)
  obtain p1 p2 where q: "r1 = p1 @ r2" "\<forall>c \<in> set p1. number_char c" "r2 = p2 @ rest" "\<forall>c \<in> set p2. number_char c"
    using frac_part_text [OF p(2)] exp_part_text [OF p(3)] by blast
  have t: "t = (ip @ p1 @ p2) @ rest" "\<forall>c \<in> set (ip @ p1 @ p2). number_char c"
    using int_part_text [OF p(1)] q by auto
  show ?thesis
  proof (cases "s \<noteq> [] \<and> hd s = CHR ''-''")
    case True
    then have "s = CHR ''-'' # t" by (cases s) (auto simp: t_def)
    with t have "s = (CHR ''-'' # ip @ p1 @ p2) @ rest" "\<forall>c \<in> set (CHR ''-'' # ip @ p1 @ p2). number_char c"
      by (auto simp: number_char_def)
    then show ?thesis by blast
  next
    case False
    then have "t = s" unfolding t_def by (simp only: if_False)
    with t show ?thesis by blast
  qed
qed

lemma keyword_text: "keyword w j s = Some (x, rest) \<Longrightarrow> s = w @ rest"
  by (auto simp: keyword_def cut_prefix_Some split: option.splits)

lemma keywords_plain:
  "\<forall>c \<in> set ''null''. neutral c \<and> \<not> is_json_delim c" "\<forall>c \<in> set ''true''. neutral c \<and> \<not> is_json_delim c"
  "\<forall>c \<in> set ''false''. neutral c \<and> \<not> is_json_delim c"
  by (simp_all add: neutral_def is_json_delim_def is_json_space_def)

lemma cont_s_open: "c = CHR ''{'' \<or> c = CHR ''['' \<Longrightarrow> cont_s (c # r) k = cont_s r (k + 1)"
  and cont_s_close: "c = CHR ''}'' \<or> c = CHR '']'' \<Longrightarrow> cont_s (c # r) k = (if k = 1 then r else cont_s r (k - 1))"
  and cont_s_quote: "cont_s (CHR 0x22 # r) k = cont_s (eos_s r) k"
  and cont_s_one: "neutral c \<Longrightarrow> cont_s (c # r) k = cont_s r k"
  by (auto simp: neutral_def)

lemma cont_s_keyword: "keyword w j s = Some (x, rest) \<Longrightarrow> \<forall>c \<in> set w. neutral c \<and> \<not> is_json_delim c \<Longrightarrow>
    cont_s s k = cont_s rest k"
  using cont_s_neutral by (auto dest!: keyword_text)

lemma cont_s_number: "parse_number s = Some (x, rest) \<Longrightarrow> cont_s s k = cont_s rest k"
  using cont_s_neutral number_char_plain by (metis parse_number_text)

declare cont_s.simps(2) [simp del]

lemma cont_s_skip: "skip_ws s = c # r \<Longrightarrow> cont_s s k = cont_s (c # r) k"
  by (metis cont_s_skip_ws)

lemma skip_ws_hd: "skip_ws s \<noteq> [] \<Longrightarrow> hd (skip_ws s) = c \<Longrightarrow> skip_ws s = c # tl (skip_ws s)"
  by (cases "skip_ws s") auto

lemma parse_cont:
  "parse_value n d s = Some (v, rest) \<Longrightarrow> 1 \<le> k \<Longrightarrow> cont_s s k = cont_s rest k"
  "parse_elements n d s = Some (es, rest) \<Longrightarrow> 1 \<le> k \<Longrightarrow> cont_s s k = (if k = 1 then rest else cont_s rest (k - 1))"
  "parse_members n d s = Some (ms, rest) \<Longrightarrow> 1 \<le> k \<Longrightarrow> cont_s s k = (if k = 1 then rest else cont_s rest (k - 1))"
proof (induction n d s and n d s and n d s arbitrary: v rest k and es rest k and ms rest k
    rule: parse_value_parse_elements_parse_members.induct)
  case (2 n d s)
  from "2.prems"(1) obtain c r where cr: "skip_ws s = c # r" by (cases "skip_ws s") auto
  note sk = cont_s_skip [OF cr, of k]
  consider "c = CHR 0x22" | "c = CHR ''{''" | "c = CHR ''[''"
    | "c \<notin> {CHR 0x22, CHR ''{'', CHR ''[''}" by blast
  then show ?case
  proof cases
    case 1
    with "2.prems" cr have "eos_s r = rest" by (auto dest: parse_string_eos)
    with 1 show ?thesis by (simp add: sk cont_s_quote)
  next
    case c: 2
    show ?thesis
    proof (cases "skip_ws r \<noteq> [] \<and> hd (skip_ws r) = CHR ''}''")
      case True
      with "2.prems" cr c have rest: "rest = tl (skip_ws r)" by (auto split: if_splits)
      have "cont_s r (k + 1) = cont_s (CHR ''}'' # rest) (k + 1)"
        unfolding rest using True skip_ws_hd cont_s_skip by blast
      with c "2.prems"(2) show ?thesis by (simp add: sk cont_s_open cont_s_close)
    next
      case False
      with "2.prems" cr c obtain ms where m: "parse_members n (d + 1) r = Some (ms, rest)" and d: "\<not> max_nesting \<le> d"
        by (auto split: if_splits)
      have "cont_s r (k + 1) = (if k + 1 = 1 then rest else cont_s rest (k + 1 - 1))"
        using "2.IH"(1) [OF cr _ c d False m, of "k + 1"] c "2.prems"(2) by simp
      with c "2.prems"(2) show ?thesis by (simp add: sk cont_s_open)
    qed
  next
    case c: 3
    show ?thesis
    proof (cases "skip_ws r \<noteq> [] \<and> hd (skip_ws r) = CHR '']''")
      case True
      with "2.prems" cr c have rest: "rest = tl (skip_ws r)" by (auto split: if_splits)
      have "cont_s r (k + 1) = cont_s (CHR '']'' # rest) (k + 1)"
        unfolding rest using True skip_ws_hd cont_s_skip by blast
      with c "2.prems"(2) show ?thesis by (simp add: sk cont_s_open cont_s_close)
    next
      case False
      with "2.prems" cr c obtain ms where m: "parse_elements n (d + 1) r = Some (ms, rest)" and d: "\<not> max_nesting \<le> d"
        by (auto split: if_splits)
      have "cont_s r (k + 1) = (if k + 1 = 1 then rest else cont_s rest (k + 1 - 1))"
        using "2.IH"(2) [OF cr _ _ c d False m, of "k + 1"] c "2.prems"(2) by simp
      with c "2.prems"(2) show ?thesis by (simp add: sk cont_s_open)
    qed
  next
    case c: 4
    with "2.prems"(1) cr show ?thesis
      by (auto simp: sk split: if_splits dest: cont_s_keyword [OF _ keywords_plain(1)]
          cont_s_keyword [OF _ keywords_plain(2)] cont_s_keyword [OF _ keywords_plain(3)] cont_s_number)
  qed
next
  case (4 n d s)
  from "4.prems"(1) obtain j o1 r where p: "parse_value n d s = Some ((j, o1), r)"
    by (auto split: option.splits)
  with "4.prems"(1) obtain c r' where cr: "skip_ws r = c # r'" by (cases "skip_ws r") auto
  have v: "cont_s s k = cont_s (c # r') k"
    using "4.IH"(1) [OF p "4.prems"(2)] cont_s_skip [OF cr] by simp
  show ?case
  proof (cases "c = CHR '']''")
    case True
    with "4.prems" p cr v show ?thesis by (simp add: cont_s_close)
  next
    case False
    with "4.prems"(1) p cr have c: "c = CHR '',''" by (auto split: if_splits)
    with False "4.prems"(1) p cr obtain js where e: "parse_elements n d r' = Some (js, rest)" by auto
    have "neutral c" using c by (simp add: neutral_def)
    with v "4.IH"(2) [OF p refl refl cr False c e "4.prems"(2)] show ?thesis by (simp add: cont_s_one)
  qed
next
  case (6 n d s)
  from "6.prems"(1) obtain s1 where q: "skip_ws s = CHR 0x22 # s1"
    by (cases "skip_ws s") (auto split: if_splits)
  with "6.prems"(1) obtain key s2 where k: "parse_string s1 = Some (key, s2)" by (auto split: option.splits)
  with q "6.prems"(1) obtain s3 where co: "skip_ws s2 = CHR '':'' # s3"
    by (cases "skip_ws s2") (auto split: if_splits)
  with q k "6.prems"(1) obtain j o1 r where p: "parse_value n d s3 = Some ((j, o1), r)"
    by (auto split: option.splits)
  with q k co "6.prems"(1) obtain c r' where cr: "skip_ws r = c # r'" by (cases "skip_ws r") auto
  have "neutral CHR '':''" by (simp add: neutral_def)
  then have "cont_s s k = cont_s s3 k" for k
    using cont_s_skip [OF q] cont_s_skip [OF co] parse_string_eos [OF k] by (simp add: cont_s_quote cont_s_one)
  moreover have "cont_s s3 k = cont_s r k"
    using "6.IH"(1) [OF q _ k refl co _ p "6.prems"(2)] by simp
  ultimately have v: "cont_s s k = cont_s (c # r') k" using cont_s_skip [OF cr] by simp
  show ?case
  proof (cases "c = CHR ''}''")
    case True
    with "6.prems" q k co p cr v show ?thesis by (simp add: cont_s_close)
  next
    case False
    with "6.prems"(1) q k co p cr have c: "c = CHR '',''" by (auto split: if_splits)
    with False "6.prems"(1) q k co p cr obtain js where e: "parse_members n d r' = Some (js, rest)" by auto
    have "neutral c" using c by (simp add: neutral_def)
    with v "6.IH"(2) [OF q _ k refl co _ p refl refl cr False c e "6.prems"(2)] show ?thesis
      by (simp add: cont_s_one)
  qed
qed simp_all

subsection \<open>Member names\<close>

lemma parse_string_shape: "parse_string s = Some (t, rest) \<Longrightarrow> \<exists>b. s = b @ CHR 0x22 # rest"
proof (induction s arbitrary: t rule: length_induct)
  case (1 s)
  then obtain c s' where s: "s = c # s'" by (cases s) auto
  from parse_string_step [OF "1.prems" [unfolded s]] show ?case
  proof (elim disjE exE conjE)
    assume "c = CHR 0x22" "rest = s'"
    then have "s = [] @ CHR 0x22 # rest" by (simp add: s)
    then show ?thesis by blast
  next
    fix k t' assume k: "parse_string (drop k s') = Some (t', rest)"
    then obtain b where "drop k s' = b @ CHR 0x22 # rest" using "1.IH" s by fastforce
    then have "s = (c # take k s' @ b) @ CHR 0x22 # rest" using s by (metis append.assoc append_Cons append_take_drop_id)
    then show ?thesis by blast
  qed
qed

lemma quote_not_cont: "\<not> is_cont CHR 0x22"
  using is_cont_plain by blast

lemma utf8_len_quote: "utf8_len (b @ CHR 0x22 # r) = utf8_len (b @ CHR 0x22 # q)"
proof -
  have v: "byte_val CHR 0x22 = 34" by (simp add: byte_val_def)
  consider "b = []" | b1 where "b = [b1]" | b1 b2 where "b = [b1, b2]"
    | b1 b2 b3 where "b = [b1, b2, b3]" | b1 b2 b3 b4 b' where "b = b1 # b2 # b3 # b4 # b'"
    by (metis neq_Nil_conv)
  then show ?thesis
    using quote_not_cont v by cases (auto simp: Let_def split: list.split)
qed

lemma hex4_body:
  assumes "hex4 (b @ CHR 0x22 # r) = Some u"
  shows "\<exists>b1 b2 b3 b4 b'. b = b1 # b2 # b3 # b4 # b' \<and> (\<forall>y. hex4 (b1 # b2 # b3 # b4 # y) = Some u)"
  using assms hex_val_plain
  by (cases b; cases "tl b"; cases "tl (tl b)"; cases "tl (tl (tl b))"; cases r; cases "tl r"; cases "tl (tl r)")
     (auto split: option.splits)

lemma hex4_quote: "hex4 (b @ CHR 0x22 # r) = hex4 (b @ CHR 0x22 # q)"
proof (cases "hex4 (b @ CHR 0x22 # r)")
  case None
  show ?thesis
  proof (cases "hex4 (b @ CHR 0x22 # q)")
    case (Some u)
    with hex4_body [OF Some] None show ?thesis by auto
  qed (simp add: None)
next
  case (Some u)
  with hex4_body [OF Some] show ?thesis by auto
qed

definition low_escape :: "string \<Rightarrow> nat option" where
  "low_escape y = (if take 2 y = [CHR 0x5C, CHR ''u''] then hex4 (drop 2 y) else None)"

lemma low_escape_quote: "low_escape (b @ CHR 0x22 # r) = low_escape (b @ CHR 0x22 # q)"
proof (cases b)
  case (Cons x b1)
  then show ?thesis
    by (cases b1) (simp_all add: low_escape_def hex4_quote [of _ r q])
qed (simp add: low_escape_def)

lemma drop_escape:
  "drop 4 (b1 # b2 # b3 # b4 # y) = y" "drop 6 (b1 # b2 # b3 # b4 # y) = drop 2 y"
  "drop 10 (b1 # b2 # b3 # b4 # y) = drop 6 y" "drop 5 (u # b1 # b2 # b3 # b4 # y) = y"
  "drop 11 (u # b1 # b2 # b3 # b4 # y) = drop 6 y"
  by (simp_all add: eval_nat_numeral)

lemma esc_ne: "CHR 0x5C \<noteq> CHR 0x22"
  by simp

lemma drop_before_quote:
  "parse_string (drop k (b @ CHR 0x22 # r)) = Some (t, r) \<Longrightarrow> k \<le> length b"
proof (rule ccontr)
  assume a: "parse_string (drop k (b @ CHR 0x22 # r)) = Some (t, r)" and "\<not> k \<le> length b"
  then have "length (drop k (b @ CHR 0x22 # r)) \<le> length r" by simp
  with parse_string_shorter [OF a] show False by simp
qed

lemma parse_string_indep:
  "parse_string (b @ CHR 0x22 # r) = Some (t, r) \<Longrightarrow> parse_string (b @ CHR 0x22 # q) = Some (t, q)"
proof (induction b arbitrary: t rule: length_induct)
  case (1 b)
  show ?case
  proof (cases b)
    case Nil
    with 1 show ?thesis by (simp add: parse_string.simps)
  next
    case (Cons c b')
    let ?x = "\<lambda>r. b' @ CHR 0x22 # r"
    have p: "parse_string (c # ?x r) = Some (t, r)" using 1 Cons by simp
    have ih: "parse_string (drop k (?x q)) = Some (u, q)" if "parse_string (drop k (?x r)) = Some (u, r)" for k u
    proof -
      have k: "k \<le> length b'" using drop_before_quote [OF that] .
      moreover have "length (drop k b') < length b" using Cons by simp
      ultimately show ?thesis using "1.IH" that by (simp del: length_drop)
    qed
    have c: "c \<noteq> CHR 0x22"
    proof
      assume "c = CHR 0x22"
      with p have "length (?x r) = length r" by (simp add: parse_string.simps)
      then show False by simp
    qed
    have c32: "\<not> byte_val c < 32" using p c by (auto simp: parse_string.simps split: if_splits)
    show ?thesis
    proof (cases "c = CHR 0x5C")
      case esc: True
      show ?thesis
      proof (cases b')
        case Nil
        with p esc have "\<exists>u. parse_string r = Some (u, r)"
          by (auto simp: parse_string.simps(2) [of "CHR 0x5C"] map_fst_Some byte_val_def split: option.splits)
        with parse_string_shorter show ?thesis by blast
      next
        case e: (Cons e b2)
        show ?thesis
        proof (cases "e = CHR ''u''")
          case u: True
          from p c c32 esc e u obtain h where h: "hex4 (b2 @ CHR 0x22 # r) = Some h"
            by (auto simp: parse_string.simps(2) split: option.splits)
          obtain b1 b22 b3 b4 b5 where b2: "b2 = b1 # b22 # b3 # b4 # b5" and hq: "\<And>y. hex4 (b1 # b22 # b3 # b4 # y) = Some h"
            using hex4_body [OF h] by blast
          let ?low = "\<lambda>r. if 55296 \<le> h \<and> h \<le> 56319 then low_escape (b5 @ CHR 0x22 # r) else None"
          have eq: "parse_string (c # ?x r) =
              (case ?low r of
                 Some l \<Rightarrow>
                   if 56320 \<le> l \<and> l \<le> 57343 then
                     map_option (\<lambda>(t, rest). (utf8_encode (65536 + (h - 55296) * 1024 + (l - 56320)) @ t, rest))
                       (parse_string (drop 11 (?x r)))
                   else map_option (\<lambda>(t, rest). (utf8_encode h @ t, rest)) (parse_string (drop 5 (?x r)))
               | None \<Rightarrow> map_option (\<lambda>(t, rest). (utf8_encode h @ t, rest)) (parse_string (drop 5 (?x r))))" for r
          proof -
            define y where "y = b5 @ CHR 0x22 # r"
            have x: "?x r = CHR ''u'' # b1 # b22 # b3 # b4 # y" by (simp add: e u b2 y_def)
            show ?thesis unfolding x y_def [symmetric] parse_string.simps(2)
              using c c32 esc hq [of y]
              by (cases "55296 \<le> h \<and> h \<le> 56319"; cases "take 2 y = [CHR 0x5C, CHR ''u'']")
                 (simp_all only: drop_escape low_escape_def if_False if_True refl simp_thms
                    list.case option.case esc_ne)
          qed
          have low: "?low q = ?low r" using low_escape_quote [of b5 q r] by simp
          from p ih show ?thesis unfolding Cons append_Cons eq low
            by (auto simp: map_fst_Some split: option.splits if_splits)
        next
          case False
          from p ih [of 1] show ?thesis unfolding Cons append_Cons
            using c c32 esc e False
            by (auto simp: parse_string.simps(2) [of "CHR 0x5C"] map_fst_Some split: option.splits)
        qed
      qed
    next
      case False
      let ?n = "utf8_len (c # ?x r)"
      have n: "utf8_len (c # ?x q) = ?n" using utf8_len_quote [of "c # b'" q r] by simp
      show ?thesis
      proof (cases "?n = 0")
        case True
        from p ih [of 0] show ?thesis unfolding Cons append_Cons
          using c c32 False True n
          by (auto simp: parse_string.simps(2) [of c] map_fst_Some Let_def simp del: utf8_len.simps)
      next
        case N: False
        then obtain m where m: "?n = Suc m" by (cases ?n) auto
        from p obtain u where u: "parse_string (drop m (?x r)) = Some (u, r)" and t: "t = take ?n (c # ?x r) @ u"
          using c c32 False m
          by (auto simp: parse_string.simps(2) [of c] map_fst_Some Let_def simp del: utf8_len.simps)
        have "take (Suc m) (c # ?x q) = take (Suc m) (c # ?x r)" using drop_before_quote [OF u] by simp
        with ih [OF u] t n m c c32 False show ?thesis unfolding Cons append_Cons
          by (simp add: parse_string.simps(2) [of c] map_fst_Some Let_def del: utf8_len.simps)
      qed
    qed
  qed
qed

lemma parse_string_fast:
  "utf8_valid_fuel m (b @ [CHR 0x22]) \<Longrightarrow> CHR 0x5C \<notin> set b \<Longrightarrow>
   parse_string (b @ CHR 0x22 # r) = Some (k, r) \<Longrightarrow> k = b"
proof (induction m arbitrary: b k)
  case 0
  then show ?case by (cases b) simp_all
next
  case (Suc m)
  show ?case
  proof (cases b)
    case Nil
    with Suc.prems(3) show ?thesis by (simp add: parse_string.simps)
  next
    case (Cons c b')
    let ?n = "utf8_len (c # b' @ CHR 0x22 # r)"
    have n: "utf8_len (c # b' @ [CHR 0x22]) = ?n" using utf8_len_quote [of "c # b'" "[]" r] by simp
    have c: "c \<noteq> CHR 0x22"
    proof
      assume "c = CHR 0x22"
      with Suc.prems(3) Cons have "length (b' @ CHR 0x22 # r) = length r" by (simp add: parse_string.simps)
      then show False by simp
    qed
    have c2: "c \<noteq> CHR 0x5C" using Suc.prems(2) Cons by auto
    have v: "?n \<noteq> 0" "utf8_valid_fuel m (drop ?n (c # b' @ [CHR 0x22]))"
      using Suc.prems(1) Cons n by (auto simp: Let_def simp del: utf8_len.simps split: if_splits)
    then obtain j where j: "?n = Suc j" by (cases ?n) auto
    from Suc.prems(3) obtain u where u: "parse_string (drop j (b' @ CHR 0x22 # r)) = Some (u, r)"
      and k: "k = take ?n (c # b' @ CHR 0x22 # r) @ u"
      using c c2 Cons j
      by (auto simp: parse_string.simps(2) [of c] map_fst_Some Let_def simp del: utf8_len.simps split: if_splits)
    have l: "j \<le> length b'" using drop_before_quote [OF u] .
    have "u = drop j b'"
      using Suc.IH [of "drop j b'" u] v(2) u l j Suc.prems(2) Cons by (auto dest: in_set_dropD)
    with k j l Cons show ?thesis by simp
  qed
qed

lemma key_equals_decode:
  assumes p: "parse_string (b @ CHR 0x22 # r) = Some (k, r)"
  shows "key_equals (CHR 0x22 # b @ [CHR 0x22]) key \<longleftrightarrow> k = key"
proof (cases "CHR 0x5C \<notin> set (CHR 0x22 # b @ [CHR 0x22]) \<and> utf8_valid (CHR 0x22 # b @ [CHR 0x22])")
  case True
  then have "utf8_valid_fuel (length b + 1) (b @ [CHR 0x22])" "CHR 0x5C \<notin> set b"
    by (auto simp: utf8_valid_def Let_def byte_val_def)
  with parse_string_fast p have "k = b" by blast
  with True show ?thesis by (auto simp: key_equals_def)
next
  case False
  have q: "parse_string (b @ [CHR 0x22]) = Some (k, [])" using parse_string_indep [OF p, of "[]"] .
  obtain m where m: "json_fuel (CHR 0x22 # b @ [CHR 0x22]) = Suc m" by (simp add: json_fuel_def)
  have "skip_ws (CHR 0x22 # b @ [CHR 0x22]) = CHR 0x22 # b @ [CHR 0x22]"
    by (simp add: skip_ws_def is_json_space_def)
  with q m have "parse_doc (CHR 0x22 # b @ [CHR 0x22]) = Some (JStr k, False)"
    by (simp add: parse_doc_def skip_ws_def)
  with False show ?thesis by (auto simp: key_equals_def)
qed

subsection \<open>The block is the last member of its name\<close>

text \<open>The object decoded into a map of raw messages: every member's name with its value's bytes.\<close>

fun raw_members :: "nat \<Rightarrow> int \<Rightarrow> string \<Rightarrow> ((string \<times> string) list \<times> string) option" where
  "raw_members 0 d s = None"
| "raw_members (Suc n) d s =
     (case skip_ws s of
        [] \<Rightarrow> None
      | q # s1 \<Rightarrow>
          if q \<noteq> CHR 0x22 then None
          else (case parse_string s1 of
              None \<Rightarrow> None
            | Some (k, s2) \<Rightarrow>
                (case skip_ws s2 of
                   [] \<Rightarrow> None
                 | c # s3 \<Rightarrow>
                     if c \<noteq> CHR '':'' then None
                     else (case parse_value n d s3 of
                         None \<Rightarrow> None
                       | Some (_, r) \<Rightarrow>
                           (let raw = take (length (skip_ws s3) - length r) (skip_ws s3) in
                            case skip_ws r of
                              [] \<Rightarrow> None
                            | c' # r' \<Rightarrow>
                                if c' = CHR ''}'' then Some ([(k, raw)], r')
                                else if c' = CHR '','' then
                                  map_option (\<lambda>(rs, rest). ((k, raw) # rs, rest)) (raw_members n d r')
                                else None)))))"

definition raw_object :: "string \<Rightarrow> (string \<times> string) list" where
  "raw_object s =
     (let r = tl (skip_ws s) in
      if skip_ws r \<noteq> [] \<and> hd (skip_ws r) = CHR ''}'' then []
      else (case raw_members (json_fuel s - 1) 1 r of Some (rs, _) \<Rightarrow> rs | None \<Rightarrow> []))"

lemma raw_members_parse:
  "parse_members n d s = Some ((kvs, ov), rest) \<Longrightarrow>
   \<exists>rs. raw_members n d s = Some (rs, rest) \<and> map fst rs = map fst kvs"
proof (induction n d s arbitrary: kvs ov rule: raw_members.induct)
  case (2 n d s)
  from "2.prems" obtain s1 where q: "skip_ws s = CHR 0x22 # s1"
    by (cases "skip_ws s") (auto split: if_splits)
  with "2.prems" obtain key s2 where k: "parse_string s1 = Some (key, s2)" by (auto split: option.splits)
  with q "2.prems" obtain s3 where co: "skip_ws s2 = CHR '':'' # s3"
    by (cases "skip_ws s2") (auto split: if_splits)
  with q k "2.prems" obtain j o1 r where p: "parse_value n d s3 = Some ((j, o1), r)"
    by (auto split: option.splits)
  with q k co "2.prems" obtain c r' where cr: "skip_ws r = c # r'" by (cases "skip_ws r") auto
  show ?case
  proof (cases "c = CHR ''}''")
    case True
    with "2.prems" q k co p cr show ?thesis by (auto simp: Let_def)
  next
    case False
    with "2.prems" q k co p cr have c: "c = CHR '',''" by (auto split: if_splits)
    with False "2.prems" q k co p cr obtain js o2 where e: "parse_members n d r' = Some ((js, o2), rest)"
      and kvs: "kvs = (key, j) # js" by auto
    from "2.IH" [OF q _ k refl co _ p refl refl cr False c e] q k co p cr c kvs show ?thesis
      by (auto simp: Let_def)
  qed
qed simp

lemma cont_s_append: "\<exists>p. s = p @ cont_s s k"
proof (induction s k rule: cont_s.induct)
  case (2 c s k)
  have e: "\<exists>p. c # s = p @ t" if "\<exists>p. s = p @ t" for t using that by (metis append_Cons)
  have s: "\<exists>p. s = p @ s" by (metis append_Nil)
  consider "c = CHR 0x22" | "c = CHR ''{'' \<or> c = CHR ''[''" | "c = CHR ''}'' \<or> c = CHR '']''" | "neutral c"
    unfolding neutral_def by blast
  then show ?case
  proof cases
    case q: 1
    have "\<exists>p. s = p @ cont_s (eos_s s) k" using 2(1) [OF q] eos_s_append [of s] by (metis append.assoc)
    with e q show ?thesis by (simp only: cont_s_quote)
  next
    case o: 2
    then have "\<exists>p. s = p @ cont_s s (k + 1)" using 2(2) by blast
    with e o show ?thesis by (simp only: cont_s_open)
  next
    case c: 3
    then have "\<exists>p. s = p @ cont_s s (k - 1)" if "k \<noteq> 1" using 2(3) that by (auto simp: neutral_def)
    with e s have "\<exists>p. c # s = p @ (if k = 1 then s else cont_s s (k - 1))" by (cases "k = 1") simp_all
    with c show ?thesis by (simp only: cont_s_close)
  next
    case n: 4
    then have "\<exists>p. s = p @ cont_s s k" using 2(4) by (auto simp: neutral_def)
    with e n show ?thesis by (simp only: cont_s_one)
  qed
qed simp

lemma eov_s_append: "\<exists>p. s = p @ eov_s s"
proof (cases s)
  case (Cons c r)
  have "\<exists>p. s = p @ eos_s r" using eos_s_append [of r] Cons by (metis append_Cons)
  then show ?thesis
    using cont_s_append [of s 0] takeWhile_dropWhile_id [of "\<lambda>c. \<not> is_json_delim c" s] Cons
    by (simp add: eov_s_def) metis
qed (simp add: eov_s_def)

text \<open>An index counted from the end of the text addresses that suffix.\<close>

lemma suffix_index:
  "d = p @ t \<Longrightarrow> drop (length d - length t) d = t \<and> length d - length t \<le> length d" for d :: string
  by simp

lemma at_suffix: "i \<le> length d \<Longrightarrow> drop i d = p @ t \<Longrightarrow> drop (length d - length t) d = t" for d :: string
  by (metis append.assoc append_take_drop_id suffix_index)

lemma drop_skip_space:
  "i \<le> length d \<Longrightarrow> drop (skip_space d i) d = skip_ws (drop i d) \<and> skip_space d i \<le> length d"
  using skip_space_suffix [of i d] skip_ws_split [of "drop i d"] at_suffix [of i d] by (metis diff_le_self)

lemma drop_end_of_value:
  "i \<le> length d \<Longrightarrow> drop (end_of_value d i) d = eov_s (drop i d) \<and> end_of_value d i \<le> length d"
  using end_of_value_suffix [of i d] eov_s_append [of "drop i d"] at_suffix [of i d] by (metis diff_le_self)

lemma parse_eov:
  assumes p: "parse_value n d s = Some (v, rest)" and r: "skip_ws rest = c # r'" "c = CHR '','' \<or> c = CHR ''}''"
  shows "eov_s (skip_ws s) = rest"
proof -
  have h: "rest \<noteq> []" using r(1) by (auto simp: skip_ws_def)
  have "is_json_delim (hd rest)"
    using r h by (cases rest) (auto simp: skip_ws_def is_json_delim_def split: if_splits)
  then have stop: "dropWhile (\<lambda>c. \<not> is_json_delim c) (w @ rest) = rest"
    if "\<forall>c \<in> set w. \<not> is_json_delim c" for w
    using that h by (cases rest) auto
  from p obtain m where n: "n = Suc m" by (cases n) auto
  from p n obtain c1 r1 where cr: "skip_ws s = c1 # r1" by (cases "skip_ws s") auto
  consider "c1 = CHR 0x22" | "c1 = CHR ''{''" | "c1 = CHR ''[''"
    | "c1 \<notin> {CHR 0x22, CHR ''{'', CHR ''[''}" by blast
  then show ?thesis
  proof cases
    case 1
    with p n cr show ?thesis by (auto simp: eov_s_def dest: parse_string_eos)
  next
    case 2
    show ?thesis
    proof (cases "skip_ws r1 \<noteq> [] \<and> hd (skip_ws r1) = CHR ''}''")
      case True
      with p n cr 2 have rest: "rest = tl (skip_ws r1)" by (auto split: if_splits)
      have "cont_s r1 1 = cont_s (CHR ''}'' # rest) 1"
        unfolding rest using True skip_ws_hd cont_s_skip by blast
      with 2 cr show ?thesis by (simp add: eov_s_def cont_s_open cont_s_close)
    next
      case False
      with p n cr 2 obtain ms where "parse_members m (d + 1) r1 = Some (ms, rest)" by (auto split: if_splits)
      from parse_cont(3) [OF this, of 1] 2 cr show ?thesis by (simp add: eov_s_def cont_s_open)
    qed
  next
    case 3
    show ?thesis
    proof (cases "skip_ws r1 \<noteq> [] \<and> hd (skip_ws r1) = CHR '']''")
      case True
      with p n cr 3 have rest: "rest = tl (skip_ws r1)" by (auto split: if_splits)
      have "cont_s r1 1 = cont_s (CHR '']'' # rest) 1"
        unfolding rest using True skip_ws_hd cont_s_skip by blast
      with 3 cr show ?thesis by (simp add: eov_s_def cont_s_open cont_s_close)
    next
      case False
      with p n cr 3 obtain ms where "parse_elements m (d + 1) r1 = Some (ms, rest)" by (auto split: if_splits)
      from parse_cont(2) [OF this, of 1] 3 cr show ?thesis by (simp add: eov_s_def cont_s_open)
    qed
  next
    case 4
    have "\<exists>w. c1 # r1 = w @ rest \<and> (\<forall>c \<in> set w. \<not> is_json_delim c)"
    proof -
      have k: "\<exists>w. c1 # r1 = w @ rest \<and> (\<forall>c \<in> set w. \<not> is_json_delim c)"
        if "keyword w j (c1 # r1) = Some (x, rest)" "\<forall>c \<in> set w. neutral c \<and> \<not> is_json_delim c" for w j x
        using that by (auto dest!: keyword_text)
      have m: "\<exists>w. c1 # r1 = w @ rest \<and> (\<forall>c \<in> set w. \<not> is_json_delim c)"
        if "parse_number (c1 # r1) = Some (x, rest)" for x
        using that parse_number_text number_char_plain by blast
      have "keyword ''null'' JNull (c1 # r1) = Some (v, rest) \<or>
          keyword ''true'' (JBool True) (c1 # r1) = Some (v, rest) \<or>
          keyword ''false'' (JBool False) (c1 # r1) = Some (v, rest) \<or>
          (\<exists>x. parse_number (c1 # r1) = Some (x, rest))"
        using p n cr 4 by (auto split: if_splits)
      then show ?thesis
        using k [OF _ keywords_plain(1)] k [OF _ keywords_plain(2)] k [OF _ keywords_plain(3)] m by blast
    qed
    then obtain w where w: "c1 # r1 = w @ rest" "\<forall>c \<in> set w. \<not> is_json_delim c" by blast
    from 4 have "eov_s (c1 # r1) = dropWhile (\<lambda>c. \<not> is_json_delim c) (c1 # r1)"
      unfolding eov_s_def by simp
    with stop [OF w(2)] w(1) cr show ?thesis by simp
  qed
qed

lemma slice_drop: "a \<le> length d \<Longrightarrow> b \<le> length d \<Longrightarrow> drop a d = p @ drop b d \<Longrightarrow> slice d a b = p"
proof -
  assume l: "a \<le> length d" "b \<le> length d" and e: "drop a d = p @ drop b d"
  from arg_cong [OF e, of length] l have "length p = b - a" by simp
  with e show ?thesis by (simp add: slice_def)
qed

lemma slice_take:
  "a \<le> length d \<Longrightarrow> b \<le> length d \<Longrightarrow> length (drop b d) \<le> length (drop a d) \<Longrightarrow>
   slice d a b = take (length (drop a d) - length (drop b d)) (drop a d)"
  by (simp add: slice_def)

lemma nth_drop_hd: "drop i d = c # r \<Longrightarrow> i < length d \<and> d ! i = c \<and> drop (i + 1) d = r"
  by (metis Cons_nth_drop_Suc Suc_eq_plus1 drop_eq_Nil2 list.distinct(1) list.inject not_le)

lemma find_key_loop_spec:
  "raw_members n 1 (drop i d) = Some (rs, rest) \<Longrightarrow> i \<le> length d \<Longrightarrow> length (drop i d) \<le> m \<Longrightarrow>
   find_key_loop m d i key found =
     (case map_of (rev rs) key of Some x \<Rightarrow> Some x | None \<Rightarrow> found)"
proof (induction n arbitrary: i m rs found)
  case (Suc n)
  from Suc.prems(1) obtain s1 where q: "skip_ws (drop i d) = CHR 0x22 # s1"
    by (cases "skip_ws (drop i d)") (auto split: if_splits)
  with Suc.prems(1) obtain k s2 where k: "parse_string s1 = Some (k, s2)" by (auto split: option.splits)
  with q Suc.prems(1) obtain s3 where co: "skip_ws s2 = CHR '':'' # s3"
    by (cases "skip_ws s2") (auto split: if_splits)
  with q k Suc.prems(1) obtain v r where p: "parse_value n 1 s3 = Some (v, r)"
    by (auto split: option.splits)
  with q k co Suc.prems(1) obtain c r' where cr: "skip_ws r = c # r'" by (cases "skip_ws r") (auto simp: Let_def)
  have cc: "c = CHR '','' \<or> c = CHR ''}''"
    using Suc.prems(1) q k co p cr by (auto simp: Let_def split: if_splits)
  define raw where "raw = take (length (skip_ws s3) - length r) (skip_ws s3)"
  define ns where "ns = skip_space d i"
  define ne where "ne = end_of_string d ns"
  define cl where "cl = skip_space d ne"
  define vs where "vs = skip_space d (cl + 1)"
  define ve where "ve = end_of_value d vs"
  define j where "j = skip_space d ve"
  have ns: "drop ns d = CHR 0x22 # s1" "ns \<le> length d"
    using drop_skip_space [OF Suc.prems(2)] q by (simp_all add: ns_def)
  note ns' = nth_drop_hd [OF ns(1)]
  have ne: "drop ne d = s2" "ne \<le> length d" "ns < ne"
    using drop_end_of_string [of ns d] ns' parse_string_eos [OF k] end_of_string_bounds [of ns d]
    by (simp_all add: ne_def)
  have cl: "drop cl d = CHR '':'' # s3" using drop_skip_space [OF ne(2)] ne(1) co by (simp add: cl_def)
  note cl' = nth_drop_hd [OF cl]
  have vs: "drop vs d = skip_ws s3" "vs \<le> length d"
    using drop_skip_space [of "cl + 1" d] cl' by (simp_all add: vs_def)
  have ve: "drop ve d = r" "ve \<le> length d"
    using drop_end_of_value [OF vs(2)] vs(1) parse_eov [OF p cr cc] by (simp_all add: ve_def)
  have jr: "drop j d = c # r'" using drop_skip_space [OF ve(2)] ve(1) cr by (simp add: j_def)
  note j' = nth_drop_hd [OF jr]
  obtain b where b: "s1 = b @ CHR 0x22 # s2" using parse_string_shape [OF k] by blast
  have name: "slice d ns ne = CHR 0x22 # b @ [CHR 0x22]"
    by (rule slice_drop) (use ns ne b in simp_all)
  have ke: "key_equals (slice d ns ne) key \<longleftrightarrow> k = key"
    unfolding name using key_equals_decode [of b s2 k key] k b by simp
  have lr: "length r \<le> length (skip_ws s3)"
    using eov_s_append [of "skip_ws s3"] parse_eov [OF p cr cc] by (metis le_add2 length_append)
  have val: "slice d vs ve = raw"
    using slice_take [OF vs(2) ve(2)] vs(1) ve(1) lr by (simp add: raw_def)
  obtain m' where m: "m = Suc m'" using Suc.prems(3) ns' Suc.prems(2) q
    by (cases m) (auto simp: skip_ws_def)
  let ?found = "if k = key then Some raw else found"
  have step: "find_key_loop m d i key found =
      (if c \<noteq> CHR '','' then ?found else find_key_loop m' d (j + 1) key ?found)"
    unfolding m find_key_loop.simps(2) Let_def
      ns_def [symmetric] ne_def [symmetric] cl_def [symmetric] vs_def [symmetric] ve_def [symmetric] j_def [symmetric]
    using ns' cl' j' ke val by simp
  show ?case
  proof (cases "c = CHR ''}''")
    case True
    with Suc.prems(1) q k co p cr have "rs = [(k, raw)]" by (simp add: Let_def raw_def)
    with True step show ?thesis by simp
  next
    case False
    with cc have c: "c = CHR '',''" by simp
    with False Suc.prems(1) q k co p cr obtain rs' where rs': "raw_members n 1 r' = Some (rs', rest)"
      and rs: "rs = (k, raw) # rs'" by (auto simp: Let_def raw_def)
    have lt: "length r' < length (drop i d)"
      using skip_ws_Cons [OF q] parse_string_shorter [OF k] skip_ws_Cons [OF co] parse_shorter(1) [OF p]
        skip_ws_Cons [OF cr] by linarith
    have "find_key_loop m' d (j + 1) key ?found =
        (case map_of (rev rs') key of Some x \<Rightarrow> Some x | None \<Rightarrow> ?found)"
    proof -
      have r': "r' = drop (j + 1) d" using j' by simp
      have le: "j + 1 \<le> length d" using j' by simp
      have "length (drop (j + 1) d) \<le> m'" using lt r' Suc.prems(3) m by simp
      from Suc.IH [OF rs' [unfolded r'] le this] show ?thesis .
    qed
    with step c rs show ?thesis by (auto simp: map_add_def split: option.splits)
  qed
qed simp

lemma top_object:
  assumes "parse_doc tc = Some (JObj kvs, ov)"
  shows "skip_ws tc \<noteq> [] \<and> hd (skip_ws tc) = CHR ''{'' \<and>
     (let r = tl (skip_ws tc) in
        (kvs = [] \<and> skip_ws r \<noteq> [] \<and> hd (skip_ws r) = CHR ''}'') \<or>
        (\<not> (skip_ws r \<noteq> [] \<and> hd (skip_ws r) = CHR ''}'') \<and>
         (\<exists>rest. parse_members (json_fuel tc - 1) 1 r = Some ((kvs, ov), rest))))"
proof -
  obtain m where m: "json_fuel tc = Suc m" by (simp add: json_fuel_def)
  from assms obtain rest where p: "parse_value (Suc m) 0 tc = Some ((JObj kvs, ov), rest)"
    by (auto simp: parse_doc_def m split: option.splits if_splits)
  then obtain c r where cr: "skip_ws tc = c # r" by (cases "skip_ws tc") auto
  with p have c: "c = CHR ''{''" by (auto simp: keyword_def split: if_splits option.splits)
  from p cr c show ?thesis
    by (cases "skip_ws r \<noteq> [] \<and> hd (skip_ws r) = CHR ''}''") (auto simp: Let_def m split: if_splits)
qed

text \<open>What each kind of document begins with.\<close>

lemma doc_first_char:
  assumes "parse_doc tc = Some (j, ov)"
  shows "skip_ws tc \<noteq> [] \<and> (hd (skip_ws tc) = CHR ''{'' \<longleftrightarrow> (\<exists>kvs. j = JObj kvs)) \<and>
         (hd (skip_ws tc) = CHR ''n'' \<longleftrightarrow> j = JNull)"
proof -
  obtain m where m: "json_fuel tc = Suc m" by (simp add: json_fuel_def)
  from assms obtain rest where p: "parse_value (Suc m) 0 tc = Some ((j, ov), rest)"
    by (auto simp: parse_doc_def m split: option.splits if_splits)
  then obtain c r where cr: "skip_ws tc = c # r" by (cases "skip_ws tc") auto
  with p show ?thesis by (auto simp: keyword_def Let_def max_nesting_def split: if_splits option.splits)
qed

lemma skip_space_first:
  "skip_space tc 0 < length tc \<longleftrightarrow> skip_ws tc \<noteq> []"
  "skip_ws tc = c # r \<Longrightarrow> tc ! skip_space tc 0 = c \<and> drop (skip_space tc 0 + 1) tc = r"
proof -
  have d: "drop (skip_space tc 0) tc = skip_ws tc" "skip_space tc 0 \<le> length tc"
    using drop_skip_space [of 0 tc] by simp_all
  from d(1) show "skip_space tc 0 < length tc \<longleftrightarrow> skip_ws tc \<noteq> []" by (metis drop_eq_Nil not_le)
  show "skip_ws tc = c # r \<Longrightarrow> tc ! skip_space tc 0 = c \<and> drop (skip_space tc 0 + 1) tc = r"
    using nth_drop_hd d(1) by metis
qed

lemma raw_object_names: "parse_doc tc = Some (JObj kvs, ov) \<Longrightarrow> map fst (raw_object tc) = map fst kvs"
  using top_object [of tc kvs ov] by (auto simp: raw_object_def Let_def dest!: raw_members_parse)

lemma find_key_object:
  assumes "parse_doc tc = Some (JObj kvs, ov)"
  shows "find_key tc (skip_space tc 0 + 1) key = map_of (rev (raw_object tc)) key"
proof -
  define i where "i = skip_space tc 0 + 1"
  from doc_first_char [OF assms] obtain c r where cr: "skip_ws tc = c # r" by (cases "skip_ws tc") auto
  note i0 = skip_space_first(1) [of tc] skip_space_first(2) [OF cr]
  have di: "drop i tc = r" "i \<le> length tc" using i0 cr by (auto simp: i_def)
  from top_object [OF assms] cr consider
    (empty) "skip_ws r \<noteq> []" "hd (skip_ws r) = CHR ''}''"
  | (members) rest where "\<not> (skip_ws r \<noteq> [] \<and> hd (skip_ws r) = CHR ''}'')"
      "parse_members (json_fuel tc - 1) 1 r = Some ((kvs, ov), rest)"
    by (auto simp: Let_def)
  then show ?thesis
  proof cases
    case empty
    then obtain r' where r': "skip_ws r = CHR ''}'' # r'" by (cases "skip_ws r") auto
    have "drop (skip_space tc i) tc = CHR ''}'' # r'" using drop_skip_space [OF di(2)] di(1) r' by simp
    from nth_drop_hd [OF this] have "find_key_loop (length tc) tc i key None = None"
      by (cases "length tc") (auto simp: Let_def)
    with empty cr show ?thesis by (simp add: find_key_def raw_object_def Let_def i_def)
  next
    case members
    from raw_members_parse [OF members(2)] obtain rs where
      rs: "raw_members (json_fuel tc - 1) 1 r = Some (rs, rest)" by blast
    from find_key_loop_spec [of _ i tc rs rest "length tc" key None] rs di
    have "find_key_loop (length tc) tc i key None = map_of (rev rs) key"
      by (simp add: i_def split: option.splits)
    with rs members(1) cr show ?thesis by (auto simp: find_key_def raw_object_def Let_def i_def)
  qed
qed

text \<open>
  C17. The hand-written scanner that extracts a provider's argument block from a tool call
  agrees with \<open>encoding/json\<close> on every input, valid or not: an invalid document and a
  document that is neither an object nor \<open>null\<close> are errors; on an object it returns the raw
  text of the last member whose decoded name is the key (the duplicate-name rule of the
  decoder), the names being those the decoder reports.
\<close>

theorem project_block_spec:
  "project_block tc key =
     (case parse_doc tc of
        Some (JObj kvs, ov) \<Rightarrow> Inr (map_of (rev (raw_object tc)) key)
      | Some (JNull, ov) \<Rightarrow> Inr None
      | _ \<Rightarrow> Inl ())"
proof (cases "parse_doc tc")
  case None
  then show ?thesis by (simp add: project_block_def json_valid_def Let_def)
next
  case (Some jo)
  obtain j ov where jo: "jo = (j, ov)" by (cases jo)
  with Some have p: "parse_doc tc = Some (j, ov)" by simp
  from doc_first_char [OF p] obtain c r where cr: "skip_ws tc = c # r" by (cases "skip_ws tc") auto
  note first = doc_first_char [OF p] skip_space_first(1) [of tc] skip_space_first(2) [OF cr]
  from first cr p show ?thesis
    by (cases j) (auto simp: project_block_def json_valid_def Let_def find_key_object [simplified])
qed

end
