(* ===== verification/Provider_Gate.thy ===== *)
theory Provider_Gate
  imports Host_Admission Project_Block
begin

text \<open>
  \<open>internal/auth/provider.go\<close>, with \<open>AuthorizeAddr\<close> of \<open>addr.go\<close> and
  \<open>ExplainUnmatched\<close> of \<open>unmatched.go\<close>: the registry of connectors and the
  dispatchers every request goes through. A connector is a record of its methods; an
  optional capability (a Go interface the connector may implement) is an optional field. The
  state a method reads (its caches, its token source) is fixed while one request is judged,
  so a method is a function of its arguments. \<open>'e\<close> is the error type of the connectors.
\<close>

subsection \<open>Connectors\<close>

record unmatched_hint =
  hint_operation :: string
  hint_candidates :: "string list"
  hint_note :: string
  hint_no_reference :: bool

record 'e provider =
  p_name :: string
  p_inject_auth :: "http_request \<Rightarrow> provider_args \<Rightarrow> ('e, http_request) result"
  p_authorizes_host :: "string \<Rightarrow> provider_args \<Rightarrow> ('e, bool) result"
  p_authorize_action :: "(view \<Rightarrow> provider_args \<Rightarrow> ('e, unit) result) option"
  p_authorizes_addr :: "(ip \<Rightarrow> provider_args \<Rightarrow> ('e, bool) result) option"
  p_ca_cert :: "(provider_args \<Rightarrow> ('e, string) result) option"
  p_client_cert :: "(provider_args \<Rightarrow> ('e, string \<times> string) result) option"
  p_server_name :: "(provider_args \<Rightarrow> ('e, string) result) option"
  p_audit_response :: "(audit_view \<Rightarrow> header \<Rightarrow> bool) option"
  p_hint :: "(view \<Rightarrow> string \<Rightarrow> unmatched_hint) option"

text \<open>The refusals that wrap \<open>ErrModelSuppliedCredential\<close>.\<close>

datatype credential_error = CredentialHeader | UnparseableQuery | CredentialParam | URLUserinfo

datatype 'e auth_error =
    UnknownProvider
  | ModelSuppliedCredential credential_error
  | InjectFailed 'e
  | HostNotAuthorizedFor
  | HostCheckFailed 'e
  | ActionDenied 'e
  | AddrNotAuthorized
  | AddrCheckFailed 'e
  | DataFailed 'e
  | UnmatchedExplanation string unmatched_hint "'e auth_error"

fun find_provider :: "'e provider list \<Rightarrow> string \<Rightarrow> ('e auth_error, 'e provider) result" where
  "find_provider [] name = Inl UnknownProvider"
| "find_provider (p # ps) name = (if equal_fold (p_name p) name then Inr p else find_provider ps name)"

subsection \<open>Model-supplied credentials\<close>

definition credential_headers :: "string list" where
  "credential_headers =
     [''Authorization'', ''Proxy-Authorization'', ''X-Http-Authorization'',
      ''X-Ms-Authorization-Auxiliary'', ''Private-Token'', ''Job-Token'', ''Deploy-Token'',
      ''X-Gitlab-Static-Object-Token'', ''Cookie'']"

definition credential_params :: "string list" where
  "credential_params = [''private_token'', ''access_token'', ''job_token'', ''feed_token'', ''rss_token'']"

definition fold_underscore :: "string \<Rightarrow> string" where
  "fold_underscore k = map (\<lambda>c. if c = CHR ''_'' then CHR ''-'' else c) k"

definition credential_header_is :: "string \<Rightarrow> string \<Rightarrow> bool" where
  "credential_header_is key h \<longleftrightarrow> equal_fold (fold_underscore key) h"

definition base_param_name :: "string \<Rightarrow> string" where
  "base_param_name key = fst (str_cut key ''['')"

fun any_fold :: "string \<Rightarrow> string list \<Rightarrow> bool" where
  "any_fold base [] = False"
| "any_fold base (p # ps) = (if equal_fold base p then True else any_fold base ps)"

definition is_credential_param :: "string \<Rightarrow> bool" where
  "is_credential_param key = any_fold (base_param_name key) credential_params"

definition carries_credential_header :: "header \<Rightarrow> bool" where
  "carries_credential_header hdr \<longleftrightarrow>
     list_ex (\<lambda>h. list_ex (\<lambda>(key, vals). credential_header_is key h \<and> length vals > 0) hdr) credential_headers"

definition reject_model_supplied_credential :: "http_request \<Rightarrow> (credential_error, unit) result" where
  "reject_model_supplied_credential req =
     (if carries_credential_header (req_header req) then Inl CredentialHeader
      else (case parse_query (url_raw_query req) of (params, bad) \<Rightarrow>
        if bad then Inl UnparseableQuery
        else if list_ex (\<lambda>(key, _). is_credential_param key) params then Inl CredentialParam
        else if url_user req \<noteq> None then Inl URLUserinfo
        else Inr ()))"

subsection \<open>Dispatchers\<close>

definition inject ::
    "http_request \<Rightarrow> string \<Rightarrow> 'e provider list \<Rightarrow> string \<Rightarrow> ('e auth_error, http_request) result" where
  "inject req name providers raw_args =
     and_then (find_provider providers name) (\<lambda>p.
       case reject_model_supplied_credential req of
         Inl e \<Rightarrow> Inl (ModelSuppliedCredential e)
       | Inr _ \<Rightarrow>
           (case p_inject_auth p req (new_provider_args raw_args (p_name p)) of
              Inl e \<Rightarrow> Inl (InjectFailed e)
            | Inr req' \<Rightarrow> Inr req'))"

definition authorize_host ::
    "string \<Rightarrow> string \<Rightarrow> 'e provider list \<Rightarrow> string \<Rightarrow> ('e auth_error, unit) result" where
  "authorize_host name host providers raw_args =
     and_then (find_provider providers name) (\<lambda>p.
       case p_authorizes_host p host (new_provider_args raw_args (p_name p)) of
         Inl e \<Rightarrow> Inl (HostCheckFailed e)
       | Inr ok \<Rightarrow> if \<not> ok then Inl HostNotAuthorizedFor else Inr ())"

definition authorize_action ::
    "string \<Rightarrow> view \<Rightarrow> 'e provider list \<Rightarrow> string \<Rightarrow> ('e auth_error, unit) result" where
  "authorize_action name v providers raw_args =
     and_then (find_provider providers name) (\<lambda>p.
       case p_authorize_action p of
         None \<Rightarrow> Inr ()
       | Some act \<Rightarrow> (case act v (new_provider_args raw_args (p_name p)) of
           Inl e \<Rightarrow> Inl (ActionDenied e)
         | Inr _ \<Rightarrow> Inr ()))"

definition authorize_addr ::
    "string \<Rightarrow> ip \<Rightarrow> 'e provider list \<Rightarrow> string \<Rightarrow> ('e auth_error, unit) result" where
  "authorize_addr name a providers raw_args =
     and_then (find_provider providers name) (\<lambda>p.
       case p_authorizes_addr p of
         Some aa \<Rightarrow> (case aa a (new_provider_args raw_args (p_name p)) of
             Inl e \<Rightarrow> Inl (AddrCheckFailed e)
           | Inr allowed \<Rightarrow> if \<not> allowed then Inl AddrNotAuthorized else Inr ())
       | None \<Rightarrow> if is_internal_ip a then Inl AddrNotAuthorized else Inr ())"

definition get_provider_data ::
    "string \<Rightarrow> 'e provider list \<Rightarrow> string \<Rightarrow> ('e provider \<Rightarrow> (provider_args \<Rightarrow> ('e, 'a) result) option) \<Rightarrow>
     'a \<Rightarrow> ('e auth_error, 'a) result" where
  "get_provider_data name providers raw_args capability zero =
     (if name = [] then Inr zero
      else and_then (find_provider providers name) (\<lambda>p.
        case capability p of
          None \<Rightarrow> Inr zero
        | Some f \<Rightarrow> (case f (new_provider_args raw_args (p_name p)) of
            Inl e \<Rightarrow> Inl (DataFailed e)
          | Inr x \<Rightarrow> Inr x)))"

definition get_ca_cert_data :: "string \<Rightarrow> 'e provider list \<Rightarrow> string \<Rightarrow> ('e auth_error, string) result" where
  "get_ca_cert_data name providers raw_args = get_provider_data name providers raw_args p_ca_cert []"

definition get_client_cert_data ::
    "string \<Rightarrow> 'e provider list \<Rightarrow> string \<Rightarrow> ('e auth_error, string \<times> string) result" where
  "get_client_cert_data name providers raw_args = get_provider_data name providers raw_args p_client_cert ([], [])"

definition get_server_name_data :: "string \<Rightarrow> 'e provider list \<Rightarrow> string \<Rightarrow> ('e auth_error, string) result" where
  "get_server_name_data name providers raw_args = get_provider_data name providers raw_args p_server_name []"

definition audit_response :: "string \<Rightarrow> audit_view \<Rightarrow> header \<Rightarrow> 'e provider list \<Rightarrow> bool" where
  \<comment> \<open>Whether the connector's advisory audit reports something.\<close>
  "audit_response name v h providers =
     (case find_provider providers name of
        Inl _ \<Rightarrow> False
      | Inr p \<Rightarrow> (case p_audit_response p of None \<Rightarrow> False | Some f \<Rightarrow> f v h))"

text \<open>
  \<open>um\<close> is \<open>errors.As\<close> into an \<open>UnmatchedRequestError\<close>: the service it names, if the
  error is one. The rendered text is not modelled, only what it is made of.
\<close>

definition explain_unmatched ::
    "('e auth_error \<Rightarrow> string option) \<Rightarrow> string \<Rightarrow> view \<Rightarrow> 'e provider list \<Rightarrow> 'e auth_error \<Rightarrow> 'e auth_error" where
  "explain_unmatched um name v providers err =
     (case um err of
        None \<Rightarrow> err
      | Some service \<Rightarrow>
          (case find_provider providers name of
             Inl _ \<Rightarrow> err
           | Inr p \<Rightarrow> (case p_hint p of
               None \<Rightarrow> err
             | Some hint \<Rightarrow> UnmatchedExplanation service (hint v service) err)))"

subsection \<open>Lemmas\<close>

lemma any_fold_iff: "any_fold base ps \<longleftrightarrow> (\<exists>p \<in> set ps. equal_fold base p)"
  by (induction ps) auto

lemma find_provider_Inr:
  "find_provider ps name = Inr p \<Longrightarrow> p \<in> set ps \<and> equal_fold (p_name p) name"
  by (induction ps) (auto split: if_splits)

lemma find_provider_Inl: "find_provider ps name = Inl e \<Longrightarrow> e = UnknownProvider \<and> (\<forall>p \<in> set ps. \<not> equal_fold (p_name p) name)"
  by (induction ps) (auto split: if_splits)

lemma reject_ok:
  "reject_model_supplied_credential req = Inr () \<longleftrightarrow>
     (\<forall>(k, vs) \<in> set (req_header req). vs \<noteq> [] \<longrightarrow> (\<forall>h \<in> set credential_headers. \<not> equal_fold (fold_underscore k) h)) \<and>
     \<not> snd (parse_query (url_raw_query req)) \<and>
     (\<forall>(k, v) \<in> set (fst (parse_query (url_raw_query req))). \<not> is_credential_param k) \<and>
     url_user req = None"
proof -
  have "carries_credential_header hdr \<longleftrightarrow>
      \<not> (\<forall>(k, vs) \<in> set hdr. vs \<noteq> [] \<longrightarrow> (\<forall>h \<in> set credential_headers. \<not> equal_fold (fold_underscore k) h))" for hdr
    unfolding carries_credential_header_def list_ex_iff credential_header_is_def by fastforce
  then show ?thesis
    unfolding reject_model_supplied_credential_def
    by (auto simp: case_prod_unfold list_ex_iff)
qed

lemma inject_Inr:
  "inject req name ps raw = Inr req' \<longleftrightarrow>
     (\<exists>p. find_provider ps name = Inr p \<and>
        reject_model_supplied_credential req = Inr () \<and>
        p_inject_auth p req (new_provider_args raw (p_name p)) = Inr req')"
  unfolding inject_def by (cases "find_provider ps name") (auto simp: result_elim)

lemma authorize_host_Inr:
  "authorize_host name h ps raw = Inr () \<longleftrightarrow>
     (\<exists>p. find_provider ps name = Inr p \<and> p_authorizes_host p h (new_provider_args raw (p_name p)) = Inr True)"
  unfolding authorize_host_def by (cases "find_provider ps name") (auto simp: result_elim)

lemma authorize_action_Inr:
  "authorize_action name v ps raw = Inr () \<longleftrightarrow>
     (\<exists>p. find_provider ps name = Inr p \<and>
        (\<forall>act. p_authorize_action p = Some act \<longrightarrow> act v (new_provider_args raw (p_name p)) = Inr ()))"
  unfolding authorize_action_def
  by (cases "find_provider ps name") (auto simp: result_elim split: option.splits)

lemma authorize_addr_Inr:
  "authorize_addr name a ps raw = Inr () \<longleftrightarrow>
     (\<exists>p. find_provider ps name = Inr p \<and>
        (case p_authorizes_addr p of
           None \<Rightarrow> \<not> is_internal_ip a
         | Some aa \<Rightarrow> aa a (new_provider_args raw (p_name p)) = Inr True))"
  unfolding authorize_addr_def
  by (cases "find_provider ps name") (auto simp: result_elim split: option.splits)

end
