(* ===== verification/Go_Net.thy ===== *)
theory Go_Net
  imports Go_Url
begin

text \<open>
  The parts of Go's \<open>net\<close> and \<open>mime\<close> the connectors use: splitting and joining an
  authority (\<open>net.SplitHostPort\<close>, \<open>net.JoinHostPort\<close>) and parsing a media type with
  its parameters (\<open>mime.ParseMediaType\<close>, RFC 2231 continuations included).
\<close>

subsection \<open>Authorities\<close>

text \<open>\<open>None\<close> is the error: a missing port, too many colons, or a stray bracket.\<close>

definition split_host_port :: "string \<Rightarrow> (string \<times> string) option" where
  "split_host_port hp =
     (case last_index_char hp CHR '':'' of
        None \<Rightarrow> None
      | Some i \<Rightarrow>
          if hd hp = CHR ''['' then
            (case str_index hp '']'' of
               None \<Rightarrow> None
             | Some e \<Rightarrow>
                 if e + 1 \<noteq> i then None
                 else if CHR ''['' \<in> set (drop 1 hp) \<or> CHR '']'' \<in> set (drop (e + 1) hp) then None
                 else Some (take (e - 1) (drop 1 hp), drop (i + 1) hp))
          else if CHR '':'' \<in> set (take i hp) then None
          else if CHR ''['' \<in> set hp \<or> CHR '']'' \<in> set hp then None
          else Some (take i hp, drop (i + 1) hp))"

definition join_host_port :: "string \<Rightarrow> string \<Rightarrow> string" where
  "join_host_port host port =
     (if CHR '':'' \<in> set host then ''['' @ host @ '']:'' @ port else host @ '':'' @ port)"

lemma last_index_char_append:
  "c \<notin> set t \<Longrightarrow> last_index_char (s @ c # t) c = Some (length s)"
  by (induction s) (auto split: option.splits)

lemma str_index_char_append: "c \<notin> set s \<Longrightarrow> str_index (s @ c # t) [c] = Some (length s)"
  by (induction s) (auto simp: has_prefix_def)

text \<open>Joining and splitting are inverse when the parts hold no bracket and the port no colon.\<close>

lemma split_join_host_port:
  assumes "CHR ''['' \<notin> set h" "CHR '']'' \<notin> set h" "CHR ''['' \<notin> set p" "CHR '']'' \<notin> set p" "CHR '':'' \<notin> set p"
  shows "split_host_port (join_host_port h p) = Some (h, p)"
proof (cases "CHR '':'' \<in> set h")
  case True
  let ?s = "CHR ''['' # h @ CHR '']'' # CHR '':'' # p"
  have l: "last_index_char ?s CHR '':'' = Some (length h + 2)"
    using last_index_char_append [of "CHR '':''" p "CHR ''['' # h @ [CHR '']'']"] assms(5) by simp
  have e: "str_index ?s '']'' = Some (length h + 1)"
    using str_index_char_append [of "CHR '']''" "CHR ''['' # h" "CHR '':'' # p"] assms(2) by simp
  show ?thesis using True assms l e by (simp add: join_host_port_def split_host_port_def)
next
  case False
  have l: "last_index_char (h @ CHR '':'' # p) CHR '':'' = Some (length h)"
    using assms(5) by (rule last_index_char_append)
  have "hd (h @ CHR '':'' # p) \<noteq> CHR ''[''" using assms(1) by (cases h) auto
  with False assms l show ?thesis by (simp add: join_host_port_def split_host_port_def)
qed

subsection \<open>Media types\<close>

definition is_tspecial :: "char \<Rightarrow> bool" where
  "is_tspecial c \<longleftrightarrow> c \<in> set ''()<>@,;:/[]?='' \<or> c = CHR 0x22 \<or> c = CHR 0x5C"

definition is_mime_token_char :: "char \<Rightarrow> bool" where
  "is_mime_token_char c \<longleftrightarrow> byte_val c > 32 \<and> byte_val c < 127 \<and> \<not> is_tspecial c"

definition consume_token :: "string \<Rightarrow> string \<times> string" where
  "consume_token v = (takeWhile is_mime_token_char v, dropWhile is_mime_token_char v)"

text \<open>The body of a quoted value: the value and the rest; \<open>None\<close> for an unterminated one.\<close>

fun consume_quoted :: "string \<Rightarrow> (string \<times> string) option" where
  "consume_quoted [] = None"
| "consume_quoted (r # v) =
     (if r = CHR 0x22 then Some ([], v)
      else if r = CHR 0x5C \<and> v \<noteq> [] \<and> is_tspecial (hd v) then
        map_option (\<lambda>(b, rest). (hd v # b, rest)) (consume_quoted (tl v))
      else if r = CHR 0x0D \<or> r = CHR 0x0A then None
      else map_option (\<lambda>(b, rest). (r # b, rest)) (consume_quoted v))"

definition consume_value :: "string \<Rightarrow> string \<times> string" where
  "consume_value v =
     (if v = [] then ([], v)
      else if hd v \<noteq> CHR 0x22 then consume_token v
      else (case consume_quoted (tl v) of Some x \<Rightarrow> x | None \<Rightarrow> ([], v)))"

definition consume_media_param :: "string \<Rightarrow> string \<times> string \<times> string" where
  "consume_media_param v =
     (case cut_prefix (trim_left_space v) '';'' of
        None \<Rightarrow> ([], [], v)
      | Some r1 \<Rightarrow>
          (case consume_token (trim_left_space r1) of (p, r2) \<Rightarrow>
             let param = to_lower p in
             if param = [] then ([], [], v)
             else (case cut_prefix (trim_left_space r2) ''='' of
                 None \<Rightarrow> ([], [], v)
               | Some r3 \<Rightarrow>
                   (let r4 = trim_left_space r3 in
                    case consume_value r4 of (value, r5) \<Rightarrow>
                      if value = [] \<and> r5 = r4 then ([], [], v) else (param, value, r5)))))"

definition check_media_type :: "string \<Rightarrow> bool" where
  "check_media_type s =
     (case consume_token s of (typ, rest) \<Rightarrow>
        if typ = [] then False
        else if rest = [] then True
        else (case cut_prefix rest ''/'' of
            None \<Rightarrow> False
          | Some r \<Rightarrow> (case consume_token r of (sub, rest') \<Rightarrow> sub \<noteq> [] \<and> rest' = [])))"

fun percent_hex_unescape :: "string \<Rightarrow> string option" where
  "percent_hex_unescape [] = Some []"
| "percent_hex_unescape (c # s) =
     (if c = CHR ''%'' then
        (case s of
           a # b # r \<Rightarrow> (case hex_pair a b of
              Some d \<Rightarrow> map_option ((#) d) (percent_hex_unescape r)
            | None \<Rightarrow> None)
         | _ \<Rightarrow> None)
      else map_option ((#) c) (percent_hex_unescape s))"

definition decode_2231 :: "string \<Rightarrow> string option" where
  "decode_2231 v =
     (case str_cut v [CHR 0x27] of (cs, r1, ok1) \<Rightarrow>
      case str_cut r1 [CHR 0x27] of (_, enc, ok2) \<Rightarrow>
        if \<not> ok1 \<or> \<not> ok2 then None
        else if to_lower cs \<noteq> ''us-ascii'' \<and> to_lower cs \<noteq> ''utf-8'' then None
        else percent_hex_unescape enc)"

type_synonym params = "(string \<times> string) list"

definition before_star :: "string \<Rightarrow> string option" where
  "before_star key = (case str_cut key ''*'' of (base, _, ok) \<Rightarrow> if ok then Some base else None)"

text \<open>
  The parameters in the order read. A repeated name with another value is an error (a name
  with a star is repeated under its own base name, so under the same whole name). The fuel is
  one unit per parameter.
\<close>

fun media_params :: "nat \<Rightarrow> params \<Rightarrow> string \<Rightarrow> params option" where
  "media_params 0 acc v = Some acc"
| "media_params (Suc n) acc v0 =
     (let v = trim_left_space v0 in
      if v = [] then Some acc
      else (case consume_media_param v of (key, value, rest) \<Rightarrow>
        if key = [] then (if trim_space rest = '';'' then Some acc else None)
        else (case map_of acc key of
            Some old \<Rightarrow> if old \<noteq> value then None else media_params n acc rest
          | None \<Rightarrow> media_params n (acc @ [(key, value)]) rest)))"

fun show_dec :: "nat \<Rightarrow> string" where
  "show_dec n = (if n < 10 then [char_of (48 + n)] else show_dec (n div 10) @ [char_of (48 + n mod 10)])"

declare show_dec.simps [simp del]

text \<open>The pieces of one continued parameter, from number \<open>n\<close> on.\<close>

fun stitch :: "nat \<Rightarrow> params \<Rightarrow> string \<Rightarrow> nat \<Rightarrow> string \<times> bool" where
  "stitch 0 pieces key n = ([], False)"
| "stitch (Suc k) pieces key n =
     (let part = key @ ''*'' @ show_dec n in
      case map_of pieces part of
        Some v \<Rightarrow> (v @ fst (stitch k pieces key (Suc n)), True)
      | None \<Rightarrow>
          (case map_of pieces (part @ ''*'') of
             None \<Rightarrow> ([], False)
           | Some v \<Rightarrow>
               ((if n = 0 then (case decode_2231 v of Some d \<Rightarrow> d | None \<Rightarrow> [])
                 else (case percent_hex_unescape v of Some d \<Rightarrow> d | None \<Rightarrow> []))
                 @ fst (stitch k pieces key (Suc n)), True)))"

definition continued :: "params \<Rightarrow> string \<Rightarrow> string option" where
  \<comment> \<open>The value the starred pieces give the parameter, if they give one.\<close>
  "continued pieces key =
     (case map_of pieces (key @ ''*'') of
        Some v \<Rightarrow> decode_2231 v
      | None \<Rightarrow> (case stitch (Suc (length pieces)) pieces key 0 of (v, valid) \<Rightarrow> if valid then Some v else None))"

text \<open>
  \<open>mime.ParseMediaType\<close>, giving one parameter: the outer \<open>None\<close> is the error, the inner
  one an absent parameter.
\<close>

definition media_type_param :: "string \<Rightarrow> string \<Rightarrow> string option option" where
  "media_type_param v name =
     (let base = fst (str_cut v '';'') in
      if \<not> check_media_type (trim_space (to_lower base)) then None
      else (case media_params (length v) [] (drop (length base) v) of
          None \<Rightarrow> None
        | Some ps \<Rightarrow>
            (let plain = filter (\<lambda>(k, _). before_star k = None) ps;
                 starred = filter (\<lambda>(k, _). before_star k = Some name) ps in
             Some (case continued starred name of
                 Some x \<Rightarrow> Some x
               | None \<Rightarrow> map_of plain name))))"

end
