(* ===== verification/Dial_Guard.thy ===== *)
theory Dial_Guard
  imports Provider_Gate Go_Net
begin

text \<open>
  The dial-time checks: \<open>internal/auth/dialcontrol.go\<close> and \<open>dialGuard\<close> of
  \<open>internal/transport/transport.go\<close>. Both read the address the dialer is about to
  connect to, after name resolution, and refuse it or let it through. The locale
  \<open>dial_policy\<close> is what they rely on a connector for.
\<close>

subsection \<open>Definitions\<close>

datatype 'e dial_error =
    BadDialAddress  \<comment> \<open>no host and port, or no IP literal\<close>
  | DialCheckFailed 'e
  | DialNotAuthorized

definition contains_ip :: "ip list \<Rightarrow> ip \<Rightarrow> bool" where
  "contains_ip addrs a = list_ex (\<lambda>x. unmap x = unmap a) addrs"

definition dial_address :: "string \<Rightarrow> ip option" where
  "dial_address address = (case split_host_port address of Some (host, _) \<Rightarrow> parse_addr host | None \<Rightarrow> None)"

definition dial_control :: "(ip \<Rightarrow> ('e, bool) result) \<Rightarrow> string \<Rightarrow> ('e dial_error, unit) result" where
  "dial_control authorize address =
     (case split_host_port address of
        None \<Rightarrow> Inl BadDialAddress
      | Some (host, _) \<Rightarrow>
          (case parse_addr host of
             None \<Rightarrow> Inl BadDialAddress
           | Some a \<Rightarrow>
               (case authorize a of
                  Inl e \<Rightarrow> Inl (DialCheckFailed e)
                | Inr allowed \<Rightarrow> if \<not> allowed then Inl DialNotAuthorized else Inr ())))"

definition dial_guard ::
    "string \<Rightarrow> 'e provider list \<Rightarrow> string \<Rightarrow> string \<Rightarrow> ('e auth_error dial_error, unit) result" where
  "dial_guard name providers raw_args address =
     (case split_host_port address of
        None \<Rightarrow> Inl BadDialAddress
      | Some (host, _) \<Rightarrow>
          (case parse_addr host of
             None \<Rightarrow> Inl BadDialAddress
           | Some a \<Rightarrow>
               (case authorize_addr name a providers raw_args of
                  Inl e \<Rightarrow> Inl (DialCheckFailed e)
                | Inr _ \<Rightarrow> Inr ())))"

lemma dial_control_Inr:
  "dial_control authorize address = Inr () \<longleftrightarrow>
     (\<exists>a. dial_address address = Some a \<and> authorize a = Inr True)"
  unfolding dial_control_def dial_address_def by (auto simp: result_elim split: option.splits)

lemma dial_guard_Inr:
  "dial_guard name ps raw address = Inr () \<longleftrightarrow>
     (\<exists>a. dial_address address = Some a \<and> authorize_addr name a ps raw = Inr ())"
  unfolding dial_guard_def dial_address_def by (auto simp: result_elim split: option.splits)

subsection \<open>What a connector's address check promises\<close>

locale dial_policy =
  fixes authorize :: "ip \<Rightarrow> ('e, bool) result"
  assumes keeps_floor: "authorize a = Inr True \<Longrightarrow> \<not> floor_forbidden a"
begin

lemma dialed_above_floor:
  "dial_control authorize address = Inr () \<Longrightarrow>
     \<exists>a. dial_address address = Some a \<and> \<not> floor_forbidden a"
  using keeps_floor by (auto simp: dial_control_Inr)

end

text \<open>A policy that refuses more than the floor.\<close>

locale public_dial_policy = dial_policy +
  assumes keeps_public: "authorize a = Inr True \<Longrightarrow> \<not> is_internal_ip a"
begin

lemma dialed_public:
  "dial_control authorize address = Inr () \<Longrightarrow>
     \<exists>a. dial_address address = Some a \<and> \<not> is_internal_ip a"
  using keeps_public by (auto simp: dial_control_Inr)

end

text \<open>The default check of \<open>AuthorizeAddr\<close> is one.\<close>

lemma internal_of_floor: "floor_forbidden a \<Longrightarrow> is_internal_ip a"
  by (simp add: is_internal_ip.simps [of a])

definition default_addr_check :: "ip \<Rightarrow> (unit, bool) result" where
  "default_addr_check a = Inr (\<not> is_internal_ip a)"

interpretation default_dial: public_dial_policy default_addr_check
  by unfold_locales (auto simp: default_addr_check_def dest: internal_of_floor)

text \<open>Dispatching to a connector without a check of its own is the default check.\<close>

lemma authorize_addr_default:
  "find_provider ps name = Inr p \<Longrightarrow> p_authorizes_addr p = None \<Longrightarrow>
     authorize_addr name a ps raw = Inr () \<longleftrightarrow> default_addr_check a = Inr True"
  by (simp add: authorize_addr_Inr default_addr_check_def)

text \<open>
  Pinning: with the check of a connector that has one, the guard lets through only addresses
  the check accepts; the registry's order and the other connectors do not matter.
\<close>

definition addr_floor_kept :: "'e provider \<Rightarrow> bool" where
  "addr_floor_kept p \<longleftrightarrow>
     (\<forall>aa args. p_authorizes_addr p = Some aa \<longrightarrow> dial_policy (\<lambda>a. aa a args))"

lemma guard_above_floor:
  assumes ps: "\<forall>p \<in> set ps. addr_floor_kept p" and ok: "dial_guard name ps raw address = Inr ()"
  shows "\<exists>a. dial_address address = Some a \<and> \<not> floor_forbidden a"
proof -
  from ok obtain a p where a: "dial_address address = Some a" and p: "find_provider ps name = Inr p"
    and c: "case p_authorizes_addr p of None \<Rightarrow> \<not> is_internal_ip a
            | Some aa \<Rightarrow> aa a (new_provider_args raw (p_name p)) = Inr True"
    by (auto simp: dial_guard_Inr authorize_addr_Inr)
  have "addr_floor_kept p" using ps find_provider_Inr [OF p] by blast
  with c have "\<not> floor_forbidden a"
    by (auto simp: addr_floor_kept_def dial_policy_def dest: internal_of_floor split: option.splits)
  with a show ?thesis by blast
qed

end
