(* ===== verification/Gitlab_Gate.thy ===== *)
theory Gitlab_Gate
  imports Gitlab_Table Dial_Guard
begin

text \<open>
  The GitLab connector, \<open>internal/auth/gitlab.go\<close>: the served authority, the checks of
  smuggled controls and credentials (query, headers, and a body in any of the encodings GitLab
  reads), the action gate, and the dial check. The token source and the resolver are
  fields of the provider, the table comes from a cache that may have none.
\<close>

subsection \<open>The served authority\<close>

definition default_gitlab_host :: string where
  "default_gitlab_host = ''gitlab.com''"

definition resolve_gitlab_host :: "string \<Rightarrow> string" where
  "resolve_gitlab_host config_host = (if config_host = [] then default_gitlab_host else config_host)"

text \<open>The environment: \<open>None\<close> for a variable that is not set.\<close>

fun first_env :: "(string \<Rightarrow> string option) \<Rightarrow> string list \<Rightarrow> string" where
  "first_env lookup [] = []"
| "first_env lookup (name # names) =
     (case lookup name of
        Some v \<Rightarrow> if v \<noteq> [] then v else first_env lookup names
      | None \<Rightarrow> first_env lookup names)"

definition gitlab_env_token :: "(string \<Rightarrow> string option) \<Rightarrow> string" where
  "gitlab_env_token lookup = first_env lookup [''GITLAB_TOKEN'', ''GITLAB_ACCESS_TOKEN'', ''OAUTH_TOKEN'']"

definition served_host_of :: "string \<Rightarrow> string \<Rightarrow> string" where
  "served_host_of host api_host = (if api_host \<noteq> [] then api_host else host)"

definition strip_host_port :: "string \<Rightarrow> string" where
  "strip_host_port host =
     (case split_host_port host of
        Some (hostname, _) \<Rightarrow> hostname
      | None \<Rightarrow>
          if has_prefix host ''['' \<and> has_suffix host '']''
          then trim_suffix (trim_prefix host ''['') '']''
          else host)"

definition port_of_authority :: "string \<Rightarrow> string" where
  "port_of_authority authority =
     (case split_host_port authority of Some (_, port) \<Rightarrow> port | None \<Rightarrow> https_port)"

definition validate_gitlab_hosts :: "string \<Rightarrow> string \<Rightarrow> (host_error, unit) result" where
  "validate_gitlab_hosts host api_host =
     (let served = (if api_host \<noteq> [] then api_host else host) in
      and_then (admit_host (strip_host_port served)) (\<lambda>_. Inr ()))"

definition gitlab_identity :: "string \<Rightarrow> string \<Rightarrow> string" where
  \<comment> \<open>The separator is a middle dot between spaces, in UTF-8.\<close>
  "gitlab_identity username served_host =
     (if username = [] then served_host
      else (let ident = ''@'' @ username in
        if strip_host_port served_host \<noteq> default_gitlab_host
        then ident @ [CHR '' '', CHR 0xC2, CHR 0xB7, CHR '' ''] @ served_host
        else ident))"

subsection \<open>The provider\<close>

record 'e gitlab_provider =
  gl_token_source :: "('e, string) result"
  gl_host :: string
  gl_api_host :: string
  gl_allow_private :: bool
  gl_ca_data :: string
  gl_exposure :: exposure
  gl_resolver :: "string \<Rightarrow> ('e, ip list) result"

definition gl_served_host :: "'e gitlab_provider \<Rightarrow> string" where
  "gl_served_host p = served_host_of (gl_host p) (gl_api_host p)"

definition gl_served_hostname :: "'e gitlab_provider \<Rightarrow> string" where
  "gl_served_hostname p = strip_host_port (gl_served_host p)"

definition gl_expected_port :: "'e gitlab_provider \<Rightarrow> string" where
  "gl_expected_port p = port_of_authority (gl_served_host p)"

definition gl_inject_auth :: "'e gitlab_provider \<Rightarrow> http_request \<Rightarrow> ('e, http_request) result" where
  "gl_inject_auth p req =
     and_then (gl_token_source p) (\<lambda>access_token.
       Inr (req\<lparr>req_header := header_set (req_header req) ''Authorization'' (''Bearer '' @ access_token)\<rparr>))"

definition gl_authorizes_host :: "'e gitlab_provider \<Rightarrow> string \<Rightarrow> bool" where
  "gl_authorizes_host p host \<longleftrightarrow> host = to_lower (gl_served_hostname p)"

subsection \<open>Smuggled controls\<close>

text \<open>
  The query keys form a Go map; the loop stops at the first bad key, and which error it
  returns when there are several depends on the iteration order. The model takes the
  query's.
\<close>

fun reject_query_keys :: "string list \<Rightarrow> (gl_error, unit) result" where
  "reject_query_keys [] = Inr ()"
| "reject_query_keys (key # keys) =
     (let base = base_param_name key in
      if equal_fold base ''sudo'' then Inl GlSudoBlocked
      else if equal_fold base ''token'' then Inl GlModelCredential
      else reject_query_keys keys)"

fun reject_sudo_header :: "header \<Rightarrow> (gl_error, unit) result" where
  "reject_sudo_header [] = Inr ()"
| "reject_sudo_header ((key, _) # h) =
     (if equal_fold key ''Sudo'' then Inl GlSudoBlocked else reject_sudo_header h)"

definition reject_smuggled_controls :: "view \<Rightarrow> (gl_error, unit) result" where
  "reject_smuggled_controls v =
     (case parse_query (v_raw_query v) of (params, bad) \<Rightarrow>
        if bad then Inl GlModelCredential
        else and_then (reject_query_keys (map fst params)) (\<lambda>_. reject_sudo_header (v_header v)))"

definition gitlab_body_credential_params :: "string list" where
  "gitlab_body_credential_params = [''token'', ''private_token'', ''access_token'', ''job_token'']"

definition is_gitlab_credential_param :: "string \<Rightarrow> bool" where
  "is_gitlab_credential_param name = any_fold (base_param_name name) gitlab_body_credential_params"

definition object_has_credential_key :: "(string \<times> json) list \<Rightarrow> bool" where
  "object_has_credential_key obj \<longleftrightarrow> list_ex (\<lambda>(key, _). is_gitlab_credential_param key) obj"

definition is_form_sep :: "char \<Rightarrow> bool" where
  "is_form_sep c \<longleftrightarrow> c = CHR ''&'' \<or> c = CHR '';''"

text \<open>\<open>strings.FieldsFunc\<close>: the maximal runs without a separator.\<close>

fun fields_func :: "(char \<Rightarrow> bool) \<Rightarrow> string \<Rightarrow> string \<Rightarrow> string list" where
  "fields_func P cur [] = (if cur = [] then [] else [cur])"
| "fields_func P cur (c # s) =
     (if P c then (if cur = [] then fields_func P [] s else cur # fields_func P [] s)
      else fields_func P (cur @ [c]) s)"

fun form_has_credential :: "string list \<Rightarrow> bool" where
  "form_has_credential [] = False"
| "form_has_credential (pair # pairs) =
     (case query_unescape (trim_space (fst (str_cut pair ''=''))) of
        Some k \<Rightarrow> if is_gitlab_credential_param k then True else form_has_credential pairs
      | None \<Rightarrow> form_has_credential pairs)"

definition body_form_has_credential :: "string \<Rightarrow> bool" where
  "body_form_has_credential body = form_has_credential (fields_func is_form_sep [] body)"

text \<open>The header continuation: a line break followed by spaces or tabs becomes one space.\<close>

definition is_fold_space :: "char \<Rightarrow> bool" where
  "is_fold_space c \<longleftrightarrow> c = CHR '' '' \<or> c = CHR 0x09"

function unfold_headers :: "string \<Rightarrow> string" where
  "unfold_headers [] = []"
| "unfold_headers (c # s) =
     (if c = CHR 0x0D \<and> s \<noteq> [] \<and> hd s = CHR 0x0A \<and> tl s \<noteq> [] \<and> is_fold_space (hd (tl s)) then
        CHR '' '' # unfold_headers (dropWhile is_fold_space (tl s))
      else if c = CHR 0x0A \<and> s \<noteq> [] \<and> is_fold_space (hd s) then
        CHR '' '' # unfold_headers (dropWhile is_fold_space s)
      else c # unfold_headers s)"
  by pat_completeness auto
termination
proof (relation "measure length")
  have d: "length (dropWhile is_fold_space t) \<le> length t" for t by (rule length_dropWhile_le)
  fix c :: char and s :: string
  have "length (tl s) \<le> length s" by simp
  with d [of "tl s"] show "(dropWhile is_fold_space (tl s), c # s) \<in> measure length" by simp
  show "(dropWhile is_fold_space s, c # s) \<in> measure length" using d [of s] by simp
qed auto

definition disposition_prefix :: string where
  "disposition_prefix = ''content-disposition:''"

fun lines_have_credential :: "string list \<Rightarrow> bool" where
  "lines_have_credential [] = False"
| "lines_have_credential (l # ls) =
     (let line = trim_space l in
      if \<not> has_prefix (to_lower line) disposition_prefix then lines_have_credential ls
      else (case media_type_param (drop (length disposition_prefix) line) ''name'' of
          None \<Rightarrow> lines_have_credential ls
        | Some nm \<Rightarrow>
            if is_gitlab_credential_param (case nm of Some x \<Rightarrow> x | None \<Rightarrow> []) then True
            else lines_have_credential ls))"

definition body_multipart_has_credential :: "string \<Rightarrow> bool" where
  "body_multipart_has_credential body = lines_have_credential (split_on CHR 0x0A (unfold_headers body))"

definition body_carries_credential :: "string \<Rightarrow> bool" where
  "body_carries_credential body =
     (case unmarshal_any body of
        Some json_val \<Rightarrow> (case json_val of JObj obj \<Rightarrow> object_has_credential_key obj | _ \<Rightarrow> False)
      | None \<Rightarrow> body_form_has_credential body \<or> body_multipart_has_credential body)"

definition reject_body_credential :: "string \<Rightarrow> (gl_error, unit) result" where
  "reject_body_credential body =
     (if body \<noteq> [] \<and> body_carries_credential body then Inl GlModelCredential else Inr ())"

subsection \<open>The gates\<close>

definition gl_authorize_action ::
    "'e gitlab_provider \<Rightarrow> gl_table option \<Rightarrow> view \<Rightarrow> (gl_error, unit) result" where
  "gl_authorize_action p cached v =
     and_then (reject_smuggled_controls v) (\<lambda>_.
     if authorize_request_port v (gl_expected_port p) \<noteq> Inr () then Inl GlPort
     else if gl_is_graphql_endpoint (v_escaped_path v) then Inl GlGraphQLUnsupported
     else and_then (reject_body_credential (v_body v)) (\<lambda>_.
       case cached of
         None \<Rightarrow> Inl GlTableNotReady
       | Some table \<Rightarrow>
           and_then (gl_validate_exposure_keys (gl_exposure p) table) (\<lambda>_.
           and_then (gl_classify_request table (v_method v) (v_escaped_path v)) (\<lambda>acc.
             if \<not> allows (gl_resolve (gl_exposure p) (ga_category acc)) (ga_level acc)
             then Inl GlExposureExceeded else Inr ()))))"

definition gl_authorizes_dial_ip :: "'e gitlab_provider \<Rightarrow> ip \<Rightarrow> ('e, bool) result" where
  "gl_authorizes_dial_ip p a =
     (if gl_allow_private p \<and> floor_forbidden a then Inr False
      else if \<not> gl_allow_private p \<and> is_internal_ip a then Inr False
      else (case gl_resolver p (gl_served_hostname p) of
          Inl e \<Rightarrow> Inl e
        | Inr addrs \<Rightarrow> Inr (contains_ip addrs a)))"

subsection \<open>What an allowed request went through\<close>

lemma reject_query_keys_Inr:
  "reject_query_keys ks = Inr () \<longleftrightarrow>
     (\<forall>k \<in> set ks. \<not> equal_fold (base_param_name k) ''sudo'' \<and> \<not> equal_fold (base_param_name k) ''token'')"
  by (induction ks) (auto simp: Let_def)

lemma reject_sudo_header_Inr:
  "reject_sudo_header h = Inr () \<longleftrightarrow> (\<forall>(k, vs) \<in> set h. \<not> equal_fold k ''Sudo'')"
  by (induction h rule: reject_sudo_header.induct) auto

lemma reject_smuggled_controls_Inr:
  "reject_smuggled_controls v = Inr () \<longleftrightarrow>
     \<not> snd (parse_query (v_raw_query v)) \<and>
     (\<forall>(k, x) \<in> set (fst (parse_query (v_raw_query v))).
        \<not> equal_fold (base_param_name k) ''sudo'' \<and> \<not> equal_fold (base_param_name k) ''token'') \<and>
     (\<forall>(k, vs) \<in> set (v_header v). \<not> equal_fold k ''Sudo'')"
  unfolding reject_smuggled_controls_def
  by (cases "parse_query (v_raw_query v)")
     (auto simp: result_elim reject_query_keys_Inr reject_sudo_header_Inr split: if_splits)

lemma gl_required_level_not_none: "gl_required_level m p \<noteq> Inr LevelNone"
  unfolding gl_required_level_def Let_def by simp

lemma gl_classify_request_Inr:
  "gl_classify_request t m p = Inr acc \<longleftrightarrow>
     gl_required_level m p = Inr (ga_level acc) \<and> \<not> has_dot_segment p \<and>
     gl_lookup t (gl_lookup_method m) p = Some (ga_category acc)"
  unfolding gl_classify_request_def
  by (cases acc) (auto simp: result_elim split: option.splits if_splits)

lemma gl_authorize_action_Inr:
  "gl_authorize_action p cached v = Inr () \<longleftrightarrow>
     reject_smuggled_controls v = Inr () \<and> authorize_request_port v (gl_expected_port p) = Inr () \<and>
     \<not> gl_is_graphql_endpoint (v_escaped_path v) \<and> reject_body_credential (v_body v) = Inr () \<and>
     (\<exists>t lvl c. cached = Some t \<and> gl_validate_exposure_keys (gl_exposure p) t = Inr () \<and>
        gl_required_level (v_method v) (v_escaped_path v) = Inr lvl \<and> \<not> has_dot_segment (v_escaped_path v) \<and>
        gl_lookup t (gl_lookup_method (v_method v)) (v_escaped_path v) = Some c \<and>
        allows (gl_resolve (gl_exposure p) c) lvl)"
proof -
  have x: "(if c then Inl e else r) = Inr () \<longleftrightarrow> \<not> c \<and> r = Inr ()" for c and e :: gl_error and r
    by simp
  have acc: "(\<exists>acc. gl_classify_request t m q = Inr acc \<and> allows (gl_resolve e (ga_category acc)) (ga_level acc)) \<longleftrightarrow>
      (\<exists>lvl c. gl_required_level m q = Inr lvl \<and> \<not> has_dot_segment q \<and>
         gl_lookup t (gl_lookup_method m) q = Some c \<and> allows (gl_resolve e c) lvl)" for t m q e
    unfolding gl_classify_request_Inr by (metis gl_access.select_convs)
  show ?thesis
    unfolding gl_authorize_action_def
    by (cases cached) (auto simp: and_then_Inr x acc simp del: not_None_eq)
qed

text \<open>The chosen template of a lookup that finds one.\<close>

lemma gl_lookup_chosen:
  assumes "gl_lookup t m p = Some c"
  shows "anchored (decode_segs p) \<and>
     (\<exists>tm \<in> set (gl_templates t (to_upper m)). gl_category tm = c \<and> gl_fits (gl_segments tm) (gl_request_segs p) \<and>
        (\<forall>u \<in> set (gl_templates t (to_upper m)). gl_fits (gl_segments u) (gl_request_segs p) \<longrightarrow>
           gl_params (gl_segments tm) \<le> gl_params (gl_segments u)))"
proof -
  have "gl_best_of (set (gl_templates t (to_upper m))) (gl_request_segs p)
      (gl_best (gl_templates t (to_upper m)) (gl_request_segs p) None)"
    using gl_best_correct [of "{}" "gl_request_segs p" None "gl_templates t (to_upper m)"]
    by (simp add: gl_best_of_def)
  with assms show ?thesis
    by (cases "gl_best (gl_templates t (to_upper m)) (gl_request_segs p) None")
       (auto simp: gl_lookup_def gl_best_of_def split: if_splits)
qed

subsection \<open>Examples\<close>

definition gl_example_doc :: gl_doc where
  "gl_example_doc =
     [(''/api/v4/projects/{id}/variables'', [(''get'', Some [''CI Variables'']), (''post'', Some [''CI Variables''])]),
      (''/api/v4/projects/{id}/issues(/{issue_iid})'', [(''get'', Some [''Issues'']), (''post'', Some [''Issues''])])]"

definition gl_example_table :: gl_table where
  "gl_example_table = (case gl_distill (Some gl_example_doc) of Inr t \<Rightarrow> t | Inl _ \<Rightarrow> [])"

definition gl_example_provider :: "unit gitlab_provider" where
  "gl_example_provider =
     \<lparr>gl_token_source = Inr ''tok'', gl_host = ''gitlab.example:8443'', gl_api_host = [], gl_allow_private = False,
      gl_ca_data = [], gl_exposure = gl_build_exposure [],
      gl_resolver = (\<lambda>h. if h = ''gitlab.example'' then Inr [V4 (quad 93 184 216 34)] else Inl ())\<rparr>"

definition gl_example_request :: "string \<Rightarrow> string \<Rightarrow> view" where
  "gl_example_request m p =
     \<lparr>v_method = m, v_hostname = ''gitlab.example'', v_port = ''8443'', v_path = p,
      v_escaped_path = p, v_raw_query = ''page=2'', v_header = [(''Accept'', [''*/*''])], v_body = ''''\<rparr>"

lemma gl_example_allowed:
  "gl_authorize_action gl_example_provider (Some gl_example_table)
     (gl_example_request ''GET'' ''/api/v4/projects/7/issues/3'') = Inr ()"
proof -
  have "is_ok (gl_authorize_action gl_example_provider (Some gl_example_table)
     (gl_example_request ''GET'' ''/api/v4/projects/7/issues/3''))" by code_simp
  then show ?thesis by (auto simp: is_ok_iff)
qed

text \<open>
  No under-classification at GitLab. An allowed request goes to the configured port, its
  decoded path is rooted at api/v4 and free of dot segments, and the ceiling of the category
  of a fitting template with the fewest parameters permits the level the method requires.
\<close>

theorem gl_gate_no_under_classification:
  assumes "gl_authorize_action p cached v = Inr ()"
  shows "defaulted_port (v_port v) = gl_expected_port p \<and> \<not> has_dot_segment (v_escaped_path v) \<and>
     anchored (decode_segs (v_escaped_path v)) \<and>
     (\<exists>t lvl tm. cached = Some t \<and> gl_required_level (v_method v) (v_escaped_path v) = Inr lvl \<and>
        (let T = set (gl_templates t (to_upper (gl_lookup_method (v_method v))));
             req = gl_request_segs (v_escaped_path v)
         in tm \<in> T \<and> gl_fits (gl_segments tm) req \<and>
            (\<forall>u \<in> T. gl_fits (gl_segments u) req \<longrightarrow> gl_params (gl_segments tm) \<le> gl_params (gl_segments u)) \<and>
            allows (gl_resolve (gl_exposure p) (gl_category tm)) lvl))"
proof -
  from assms obtain t lvl c where a: "cached = Some t" "gl_required_level (v_method v) (v_escaped_path v) = Inr lvl"
    "gl_lookup t (gl_lookup_method (v_method v)) (v_escaped_path v) = Some c" "allows (gl_resolve (gl_exposure p) c) lvl"
    "defaulted_port (v_port v) = gl_expected_port p" "\<not> has_dot_segment (v_escaped_path v)"
    by (auto simp: gl_authorize_action_Inr authorize_request_port_ok)
  with gl_lookup_chosen [OF a(3)] show ?thesis by (auto simp: Let_def)
qed

theorem gl_gate_no_under_classification_witness:
  "anchored (decode_segs ''/api/v4/projects/7/issues/3'') \<and>
   gl_expected_port gl_example_provider = ''8443''"
  using gl_gate_no_under_classification [OF gl_example_allowed]
  by (simp add: gl_example_request_def defaulted_port_def)

subsection \<open>A quiet posture is read-only\<close>

lemma gl_build_exposure_wf: "exposure_wf (gl_build_exposure op)"
  unfolding gl_build_exposure_def
  by (rule build_exposure_wf) (simp add: exposure_wf_def gl_baseline_def default_key_def ci_variables_key_def)

lemma gl_build_exposure_ci: "map_of (gl_build_exposure op) ci_variables_key \<noteq> None"
  by (simp add: gl_build_exposure_def build_exposure_def map_of_merge_exposure gl_baseline_def)

lemma gl_quiet:
  assumes q: "\<not> gl_posture_loud e" and e: "e = gl_build_exposure op"
  shows "gl_resolve e c \<noteq> LevelWrite" "gl_resolve e ci_variables_key = LevelNone"
proof -
  obtain l where l: "map_of e ci_variables_key = Some l" using gl_build_exposure_ci e by blast
  with q show n: "gl_resolve e ci_variables_key = LevelNone"
    by (auto simp: gl_posture_loud_def gl_resolve_def split: if_splits)
  from q have d: "exp_get e default_key \<noteq> LevelWrite"
    and o: "\<And>k v. (k, v) \<in> set e \<Longrightarrow> k \<noteq> default_key \<Longrightarrow> k \<noteq> ci_variables_key \<Longrightarrow> v \<noteq> LevelWrite"
    by (auto simp: gl_posture_loud_def list_ex_iff split: if_splits)
  show "gl_resolve e c \<noteq> LevelWrite"
  proof (cases "map_of e c")
    case (Some v)
    with o [OF map_of_SomeD [OF Some]] d n show ?thesis
      by (cases "c = default_key"; cases "c = ci_variables_key") (auto simp: gl_resolve_def exp_get_def)
  qed (use d in \<open>simp add: gl_resolve_def\<close>)
qed

lemma gl_quiet_view:
  assumes q: "\<not> gl_posture_loud (gl_exposure p)" and e: "gl_exposure p = gl_build_exposure op"
    and ok: "gl_authorize_action p (Some t) v = Inr ()"
  shows "gl_required_level (v_method v) (v_escaped_path v) = Inr LevelRead \<and>
     gl_lookup t (gl_lookup_method (v_method v)) (v_escaped_path v) \<noteq> Some ci_variables_key"
proof -
  from ok obtain lvl c where a: "gl_required_level (v_method v) (v_escaped_path v) = Inr lvl"
    "gl_lookup t (gl_lookup_method (v_method v)) (v_escaped_path v) = Some c"
    "allows (gl_resolve (gl_exposure p) c) lvl"
    by (auto simp: gl_authorize_action_Inr)
  have nn: "lvl \<noteq> LevelNone" using a(1) gl_required_level_not_none by auto
  have "lvl = LevelRead"
    using a(3) gl_quiet(1) [OF q e, of c] nn
    by (cases lvl; cases "gl_resolve (gl_exposure p) c") (simp_all add: level_defs)
  moreover have "c \<noteq> ci_variables_key"
    using a(3) gl_quiet(2) [OF q e] nn by (auto simp: allows_none)
  ultimately show ?thesis using a by simp
qed

text \<open>
  GitLab's startup posture is honest: when the effective ceiling is not reported as
  loud, every request the gate allows is a read, and its category is not ci-variables.
\<close>

theorem gl_quiet_posture_read_only:
  assumes e: "gl_exposure p = gl_build_exposure op" and q: "\<not> gl_posture_loud (gl_exposure p)"
    and ok: "gl_authorize_action p (Some t) v = Inr ()"
  shows "gl_required_level (v_method v) (v_escaped_path v) = Inr LevelRead \<and>
     gl_lookup t (gl_lookup_method (v_method v)) (v_escaped_path v) \<noteq> Some ci_variables_key"
  by (rule gl_quiet_view [OF q e ok])

theorem gl_quiet_posture_read_only_witness:
  "gl_required_level ''GET'' ''/api/v4/projects/7/issues/3'' = Inr LevelRead"
proof -
  have q: "\<not> gl_posture_loud (gl_exposure gl_example_provider)" by code_simp
  show ?thesis
    using gl_quiet_posture_read_only [OF _ q gl_example_allowed, of "[]"]
    by (simp add: gl_example_provider_def gl_example_request_def)
qed

subsection \<open>CI variables\<close>

definition gl_ci_marked :: "gl_table \<Rightarrow> bool" where
  "gl_ci_marked bm \<longleftrightarrow>
     (\<forall>p \<in> set bm. \<forall>t \<in> set (snd p). has_variables_segment (gl_segments t) \<longrightarrow> gl_category t = ci_variables_key)"

lemma gl_ci_markedD:
  "gl_ci_marked bm \<Longrightarrow> map_of bm m = Some ts \<Longrightarrow> t \<in> set ts \<Longrightarrow> has_variables_segment (gl_segments t) \<Longrightarrow>
     gl_category t = ci_variables_key"
  by (drule map_of_SomeD) (fastforce simp: gl_ci_marked_def)

lemma set_update_sub: "set (AList.update k v xs) \<subseteq> insert (k, v) (set xs)"
  by (induction xs) auto

lemma gl_add_marked:
  assumes "gl_ci_marked bm" "has_variables_segment (gl_segments t) \<Longrightarrow> gl_category t = ci_variables_key"
  shows "gl_ci_marked (gl_add bm m t)"
proof -
  let ?old = "case map_of bm m of Some ts \<Rightarrow> ts | None \<Rightarrow> []"
  have "\<forall>u \<in> set ?old. has_variables_segment (gl_segments u) \<longrightarrow> gl_category u = ci_variables_key"
    using gl_ci_markedD [OF assms(1)] by (cases "map_of bm m") simp_all
  with assms set_update_sub [of m "?old @ [t]" bm] show ?thesis
    unfolding gl_ci_marked_def gl_add_def by fastforce
qed

lemma register_ops_marked: "gl_ci_marked bm \<Longrightarrow> gl_ci_marked (register_ops bm segs ops)"
proof (induction ops arbitrary: bm)
  case (Cons op ops)
  obtain m node where op: "op = (m, node)" by (cases op)
  have "gl_ci_marked (gl_add bm k \<lparr>gl_segments = segs,
      gl_category = if has_variables_segment segs then ci_variables_key else first_tag_category node\<rparr>)" for k
    using Cons.prems by (rule gl_add_marked) simp
  with Cons op show ?case by (simp add: Let_def)
qed simp

lemma register_paths_marked: "gl_ci_marked bm \<Longrightarrow> gl_ci_marked (register_paths bm ps ops)"
  by (induction bm ps ops rule: register_paths.induct) (simp_all add: register_ops_marked)

lemma gl_distill_paths_marked: "gl_ci_marked bm \<Longrightarrow> gl_ci_marked (gl_distill_paths bm doc)"
  by (induction bm doc rule: gl_distill_paths.induct) (simp_all add: register_paths_marked)

lemma gl_distilled_marked: "gl_distill (Some doc) = Inr t \<Longrightarrow> gl_ci_marked t"
  using gl_distill_paths_marked [of "[]" doc]
  by (auto simp: gl_distill_def gl_sort_templates_def gl_ci_marked_def Let_def split: if_splits)

lemma marked_template:
  "gl_ci_marked t \<Longrightarrow> tm \<in> set (gl_templates t m) \<Longrightarrow> has_variables_segment (gl_segments tm) \<Longrightarrow>
     gl_category tm = ci_variables_key"
  using gl_ci_markedD [of t m _ tm] by (cases "map_of t m") (simp_all add: gl_templates_def)

text \<open>
  C16. CI variables stay closed end to end: a table distilled from any document passes
  admission, and with a ceiling that gives ci-variables nothing the gate refuses every request
  whose fitting templates with the fewest parameters all hold a variables segment.
\<close>

theorem gl_ci_variables_closed:
  assumes t: "gl_distill (Some doc) = Inr t" and none: "gl_resolve (gl_exposure p) ci_variables_key = LevelNone"
    and vars: "\<forall>tm \<in> set (gl_templates t (to_upper (gl_lookup_method (v_method v)))).
       gl_fits (gl_segments tm) (gl_request_segs (v_escaped_path v)) \<and>
       (\<forall>u \<in> set (gl_templates t (to_upper (gl_lookup_method (v_method v)))).
          gl_fits (gl_segments u) (gl_request_segs (v_escaped_path v)) \<longrightarrow>
          gl_params (gl_segments tm) \<le> gl_params (gl_segments u))
       \<longrightarrow> has_variables_segment (gl_segments tm)"
  shows "gl_admit_table t = Inr () \<and> gl_authorize_action p (Some t) v \<noteq> Inr ()"
proof
  show "gl_admit_table t = Inr ()"
    using gl_distilled_marked [OF t]
    by (auto simp: gl_admit_table_def gl_all_templates_def gl_ci_marked_def list_ex_iff)
  show "gl_authorize_action p (Some t) v \<noteq> Inr ()"
  proof
    assume "gl_authorize_action p (Some t) v = Inr ()"
    then obtain lvl c where a: "gl_required_level (v_method v) (v_escaped_path v) = Inr lvl"
      "gl_lookup t (gl_lookup_method (v_method v)) (v_escaped_path v) = Some c" "allows (gl_resolve (gl_exposure p) c) lvl"
      by (auto simp: gl_authorize_action_Inr)
    from gl_lookup_chosen [OF a(2)] vars obtain tm where
      "tm \<in> set (gl_templates t (to_upper (gl_lookup_method (v_method v))))" "gl_category tm = c"
      "has_variables_segment (gl_segments tm)"
      by blast
    with marked_template [OF gl_distilled_marked [OF t]] have "c = ci_variables_key" by blast
    with a none gl_required_level_not_none show False by (auto simp: allows_none)
  qed
qed

theorem gl_ci_variables_closed_witness:
  "gl_authorize_action gl_example_provider (Some gl_example_table)
     (gl_example_request ''GET'' ''/api/v4/projects/7/variables'') \<noteq> Inr ()"
proof -
  let ?v = "gl_example_request ''GET'' ''/api/v4/projects/7/variables''"
  have "is_ok (gl_distill (Some gl_example_doc))" by code_simp
  then have t: "gl_distill (Some gl_example_doc) = Inr gl_example_table"
    by (auto simp: gl_example_table_def is_ok_iff)
  have n: "gl_resolve (gl_exposure gl_example_provider) ci_variables_key = LevelNone" by code_simp
  have "list_all (\<lambda>tm. gl_fits (gl_segments tm) (gl_request_segs (v_escaped_path ?v)) \<longrightarrow> has_variables_segment (gl_segments tm))
      (gl_templates gl_example_table (to_upper (gl_lookup_method (v_method ?v))))" by code_simp
  then show ?thesis
    by (intro gl_ci_variables_closed [OF t n, THEN conjunct2]) (auto simp: list_all_iff)
qed

subsection \<open>GraphQL\<close>

lemma split_on_append_sep: "split_on c (a @ c # b) = split_on c a @ split_on c b"
proof (induction a)
  case (Cons x a)
  obtain y ys where "split_on c a = y # ys" by (cases "split_on c a") auto
  with Cons show ?case by simp
qed simp

lemma trim_right_char_replicate:
  "s \<noteq> [] \<Longrightarrow> last s \<noteq> c \<Longrightarrow> trim_right_char c (s @ replicate n c) = s"
proof -
  assume "s \<noteq> []" "last s \<noteq> c"
  then have h: "dropWhile (\<lambda>x. x = c) (rev s) = rev s" by (cases s rule: rev_cases) auto
  have "dropWhile (\<lambda>x. x = c) (replicate n c @ rev s) = dropWhile (\<lambda>x. x = c) (rev s)"
    by (induction n) auto
  with h show ?thesis by (simp add: trim_right_char_def)
qed

lemma path_ends_with_two:
  assumes "CHR ''/'' \<notin> set s1" "CHR ''/'' \<notin> set s2" "path_unescape s1 = Some w1"
    "path_unescape s2 = Some d" "strip_format_suffix d = w2"
  shows "path_ends_with (pre @ ''/'' @ s1 @ ''/'' @ s2) [w1, w2]"
proof -
  obtain q where q: "split_on CHR ''/'' (trim_prefix (pre @ ''/'' @ s1 @ ''/'' @ s2) ''/'') = q @ [s1, s2]"
  proof (cases pre)
    case Nil
    with assms(1,2) that [of "[]"] show ?thesis by (simp add: split_on_append split_on_id)
  next
    case (Cons c r)
    have s: "split_on CHR ''/'' (u @ CHR ''/'' # s1 @ CHR ''/'' # s2) = split_on CHR ''/'' u @ [s1, s2]" for u
      using assms(1,2) by (simp add: split_on_append_sep split_on_append split_on_id)
    show ?thesis
    proof (cases "c = CHR ''/''")
      case True
      with Cons s [of r] that show ?thesis by simp
    next
      case False
      then have "trim_prefix (pre @ ''/'' @ s1 @ ''/'' @ s2) ''/'' = pre @ ''/'' @ s1 @ ''/'' @ s2"
        using Cons by (simp add: trim_prefix_other has_prefix_def)
      with s [of pre] that show ?thesis by simp
    qed
  qed
  with assms(3-5) show ?thesis by (simp add: path_ends_with_def)
qed

text \<open>
  No spelling of the GraphQL endpoint passes: under any prefix, with the two segments
  percent-encoded in any way, with a format suffix and any number of trailing slashes, the
  gate refuses the request whatever the ceiling and the table.
\<close>

theorem gl_graphql_refused:
  assumes "v_escaped_path v = pre @ ''/'' @ s1 @ ''/'' @ s2 @ replicate n CHR ''/''"
    and "CHR ''/'' \<notin> set s1" "CHR ''/'' \<notin> set s2" "path_unescape s1 = Some ''api''"
    and "path_unescape s2 = Some (''graphql'' @ ext)" "ext = [] \<or> (\<exists>e. ext = CHR ''.'' # e \<and> CHR ''.'' \<notin> set e)"
  shows "gl_authorize_action p cached v \<noteq> Inr ()"
proof -
  have ne: "s2 \<noteq> []" using assms(5) by auto
  then have "last s2 \<noteq> CHR ''/''" using assms(3) last_in_set by metis
  with ne have tr: "trim_right_char CHR ''/'' (v_escaped_path v) = pre @ ''/'' @ s1 @ ''/'' @ s2"
    using trim_right_char_replicate [of "pre @ ''/'' @ s1 @ ''/'' @ s2" "CHR ''/''" n] assms(1) by simp
  have "last_index_char (''graphql'' @ CHR ''.'' # e) CHR ''.'' = Some (length ''graphql'')" if "CHR ''.'' \<notin> set e" for e
    using that by (rule last_index_char_append)
  moreover have "last_index_char ''graphql'' CHR ''.'' = None" by (simp only: last_index_char_None) simp
  ultimately have "strip_format_suffix (''graphql'' @ ext) = ''graphql''"
    using assms(6) unfolding strip_format_suffix_def
    by (elim disjE exE conjE) (simp_all del: last_index_char.simps append.simps append_Cons, simp)
  from path_ends_with_two [OF assms(2-5) this] have "gl_is_graphql_endpoint (v_escaped_path v)"
    by (simp add: gl_is_graphql_endpoint_def tr)
  then show ?thesis by (simp add: gl_authorize_action_Inr)
qed

theorem gl_graphql_refused_witness:
  "gl_authorize_action gl_example_provider (Some gl_example_table)
     (gl_example_request ''POST'' ''/gitlab/%61pi/graph%71l.json//'') \<noteq> Inr ()"
proof (rule gl_graphql_refused)
  show "v_escaped_path (gl_example_request ''POST'' ''/gitlab/%61pi/graph%71l.json//'') =
      ''/gitlab'' @ ''/'' @ ''%61pi'' @ ''/'' @ ''graph%71l.json'' @ replicate 2 CHR ''/''"
    by (simp add: gl_example_request_def numeral_2_eq_2)
  show "path_unescape ''%61pi'' = Some ''api''" by code_simp
  show "path_unescape ''graph%71l.json'' = Some (''graphql'' @ ''.json'')" by code_simp
qed simp_all

subsection \<open>Smuggled credentials in a form body\<close>

lemma fields_func_cur:
  "cur \<noteq> [] \<Longrightarrow> fields_func P cur s =
     (cur @ takeWhile (\<lambda>c. \<not> P c) s) # fields_func P [] (dropWhile (\<lambda>c. \<not> P c) s)"
proof (induction s arbitrary: cur)
  case (Cons c s)
  show ?case
  proof (cases "P c")
    case True
    with Cons.prems show ?thesis by simp
  next
    case False
    with Cons.IH [of "cur @ [c]"] show ?thesis by simp
  qed
qed simp

lemma fields_func_sep: "P c \<Longrightarrow> fields_func P cur (a @ c # b) = fields_func P cur a @ fields_func P [] b"
  by (induction P cur a rule: fields_func.induct) auto

lemma form_has_credential_iff:
  "form_has_credential ps \<longleftrightarrow>
     (\<exists>pair \<in> set ps. \<exists>k. query_unescape (trim_space (fst (str_cut pair ''=''))) = Some k \<and> is_gitlab_credential_param k)"
  by (induction ps) (auto split: option.splits)

lemma str_cut_key: "CHR ''='' \<notin> set k \<Longrightarrow> r = [] \<or> hd r = CHR ''='' \<Longrightarrow> fst (str_cut (k @ r) ''='') = k"
proof -
  assume k: "CHR ''='' \<notin> set k" and r: "r = [] \<or> hd r = CHR ''=''"
  show ?thesis
  proof (cases r)
    case Nil
    have "\<not> str_contains k ''=''" using k by (auto simp: str_contains_iff)
    with Nil show ?thesis by (simp add: str_cut_def str_contains_def)
  next
    case (Cons c r')
    with r have "str_index (k @ r) ''='' = Some (length k)" using str_index_char_append [OF k, of r'] by simp
    then show ?thesis by (simp add: str_cut_def)
  qed
qed

text \<open>
  A credential field cannot hide in a form body: wherever it stands, after either of
  the separators GitLab honours, percent-encoded in any way, padded with spaces, in any case
  or with a bracket suffix, a body that is no JSON value and carries it is refused before
  classification.
\<close>

theorem gl_form_credential_refused:
  assumes "unmarshal_any (v_body v) = None" "v_body v = pre @ k @ rest"
    and "pre = [] \<or> is_form_sep (last pre)" "\<forall>c \<in> set k. \<not> is_form_sep c \<and> c \<noteq> CHR ''=''"
    and "rest = [] \<or> hd rest = CHR ''='' \<or> is_form_sep (hd rest)"
    and "query_unescape (trim_space k) = Some name" "c \<in> set gitlab_body_credential_params"
    and "equal_fold (base_param_name name) c"
  shows "gl_authorize_action p cached v \<noteq> Inr ()"
proof -
  have cred: "is_gitlab_credential_param name"
    using assms(7,8) by (auto simp: is_gitlab_credential_param_def any_fold_iff)
  have "k \<noteq> []"
  proof
    assume "k = []"
    moreover have "trim_space [] = []" by code_simp
    ultimately have "name = []" using assms(6) by (simp add: query_unescape_def)
    moreover have "\<not> is_gitlab_credential_param []" by code_simp
    ultimately show False using cred by simp
  qed
  have tk: "takeWhile (\<lambda>c. \<not> is_form_sep c) (k @ rest) = k @ takeWhile (\<lambda>c. \<not> is_form_sep c) rest"
    using assms(4) by (simp add: takeWhile_append2)
  let ?pair = "k @ takeWhile (\<lambda>c. \<not> is_form_sep c) rest"
  have field: "?pair \<in> set (fields_func is_form_sep [] (k @ rest))"
  proof -
    obtain a k' where "k = a # k'" using \<open>k \<noteq> []\<close> by (cases k) auto
    with assms(4) tk fields_func_cur [of "[a]" is_form_sep "k' @ rest"] show ?thesis by simp
  qed
  have "?pair \<in> set (fields_func is_form_sep [] (v_body v))"
  proof (cases "pre = []")
    case False
    then obtain a s where "pre = a @ [s]" "is_form_sep s" using assms(3) by (cases pre rule: rev_cases) auto
    with field fields_func_sep [of is_form_sep s "[]" a "k @ rest"] assms(2) show ?thesis by simp
  qed (use field assms(2) in simp)
  moreover have "fst (str_cut ?pair ''='') = k"
    using assms(4,5) by (intro str_cut_key) (cases rest; auto simp: is_form_sep_def)+
  ultimately have "body_form_has_credential (v_body v)"
    unfolding body_form_has_credential_def form_has_credential_iff using assms(6) cred by metis
  with assms(1,2) \<open>k \<noteq> []\<close> have "reject_body_credential (v_body v) \<noteq> Inr ()"
    by (simp add: reject_body_credential_def body_carries_credential_def)
  then show ?thesis by (simp add: gl_authorize_action_Inr)
qed

theorem gl_form_credential_refused_witness:
  "gl_authorize_action gl_example_provider (Some gl_example_table)
     (gl_example_request ''POST'' ''/api/v4/projects/7/issues'' \<lparr>v_body := ''ref=main; Private%5Ftoken[] =x''\<rparr>)
   \<noteq> Inr ()"
proof (rule gl_form_credential_refused)
  show "unmarshal_any (v_body (gl_example_request ''POST'' ''/api/v4/projects/7/issues''
      \<lparr>v_body := ''ref=main; Private%5Ftoken[] =x''\<rparr>)) = None" by code_simp
  show "v_body (gl_example_request ''POST'' ''/api/v4/projects/7/issues''
      \<lparr>v_body := ''ref=main; Private%5Ftoken[] =x''\<rparr>) = ''ref=main;'' @ '' Private%5Ftoken[] '' @ ''=x''" by simp
  show "query_unescape (trim_space '' Private%5Ftoken[] '') = Some ''Private_token[]''" by code_simp
  show "equal_fold (base_param_name ''Private_token[]'') ''private_token''" by code_simp
  show "''private_token'' \<in> set gitlab_body_credential_params" by (simp add: gitlab_body_credential_params_def)
qed (simp_all add: is_form_sep_def)

subsection \<open>The credential check of a JSON body\<close>

text \<open>A JSON object with a top-level token, and a number past the largest float64.\<close>

definition overflow_body :: string where
  "overflow_body = [CHR ''{'', CHR 0x22] @ ''token'' @ [CHR 0x22] @ '':'' @ [CHR 0x22] @ ''x'' @ [CHR 0x22] @
     '','' @ [CHR 0x22] @ ''n'' @ [CHR 0x22] @ '':1e400}''"


text \<open>
  On every other JSON body the check is exact: a document whose numbers are in range is
  refused if and only if it is an object with a top-level key that is, up to case and a
  bracket suffix, one of the four credential parameters.
\<close>

theorem gl_json_credential_exact:
  assumes "parse_doc body = Some (j, False)"
  shows "reject_body_credential body = Inl GlModelCredential \<longleftrightarrow>
     (\<exists>kvs. j = JObj kvs \<and> (\<exists>k \<in> fst ` set kvs. \<exists>c \<in> set [''token'', ''private_token'', ''access_token'', ''job_token''].
        equal_fold (base_param_name k) c))"
proof -
  have "body \<noteq> []"
  proof
    assume "body = []"
    moreover have "parse_doc [] = None" by code_simp
    ultimately show False using assms by simp
  qed
  moreover have "unmarshal_any body = Some j" using assms by (simp add: unmarshal_any_def)
  moreover have "object_has_credential_key kvs \<longleftrightarrow> (\<exists>k \<in> fst ` set kvs. is_gitlab_credential_param k)" for kvs
    by (force simp: object_has_credential_key_def list_ex_iff)
  ultimately show ?thesis
    unfolding reject_body_credential_def body_carries_credential_def is_gitlab_credential_param_def
      any_fold_iff gitlab_body_credential_params_def
    by (cases j) (simp_all del: bex_simps)
qed

definition json_token_body :: string where
  "json_token_body = [CHR ''{'', CHR 0x22] @ ''Token[0]'' @ [CHR 0x22] @ '':1}''"

theorem gl_json_credential_exact_witness:
  "reject_body_credential json_token_body = Inl GlModelCredential"
proof -
  have p: "parse_doc json_token_body = Some (JObj [(''Token[0]'', JNum ''1'')], False)" by code_simp
  have "equal_fold (base_param_name ''Token[0]'') ''token''" by code_simp
  then show ?thesis by (intro gl_json_credential_exact [OF p, THEN iffD2] exI [of _ "[(''Token[0]'', JNum ''1'')]"]) simp
qed

subsection \<open>The pinned authority\<close>

definition written_authority :: "string \<Rightarrow> string \<Rightarrow> string \<Rightarrow> bool" where
  \<comment> \<open>\<open>s\<close> names host \<open>h\<close> and port \<open>q\<close>, or no port when \<open>q\<close> is empty.\<close>
  "written_authority h q s \<longleftrightarrow>
     (if q \<noteq> [] then s = join_host_port h q
      else s = (if CHR '':'' \<in> set h then ''['' @ h @ '']'' else h))"

lemma authority_parts:
  assumes s: "written_authority h q s"
    and b: "CHR ''['' \<notin> set h" "CHR '']'' \<notin> set h" "CHR ''['' \<notin> set q" "CHR '']'' \<notin> set q" "CHR '':'' \<notin> set q"
  shows "strip_host_port s = h \<and> port_of_authority s = (if q = [] then https_port else q)"
proof (cases "q = []")
  case False
  with s have "s = join_host_port h q" by (simp add: written_authority_def)
  with split_join_host_port [OF b] False show ?thesis by (simp add: strip_host_port_def port_of_authority_def)
next
  case q: True
  show ?thesis
  proof (cases "CHR '':'' \<in> set h")
    case True
    with s q have s': "s = CHR ''['' # h @ '']''" by (simp add: written_authority_def)
    from True have "CHR '':'' \<in> set s" using s' by simp
    then obtain i where i: "last_index_char s CHR '':'' = Some i" by (cases "last_index_char s CHR '':''") auto
    have "s ! i = CHR '':''" "i < length s" using last_index_char_Some [OF i] by auto
    then have "i < length h + 2" using s' by simp
    moreover have "str_index s '']'' = Some (length h + 1)"
      using str_index_char_append [of "CHR '']''" "CHR ''['' # h" "[]"] b(2) s' by simp
    ultimately have "split_host_port s = None" using i s' by (simp add: split_host_port_def)
    with q s' show ?thesis
      using has_prefix_append [of "''[''" "h @ '']''"] has_suffix_append [of "CHR ''['' # h" "'']''"]
      by (simp add: strip_host_port_def port_of_authority_def)
  next
    case False
    with s q have s': "s = h" by (simp add: written_authority_def)
    have "last_index_char h CHR '':'' = None" using False by simp
    then have "split_host_port h = None" by (simp only: split_host_port_def option.case)
    moreover have "\<not> has_prefix h ''[''" using b(1) by (cases h) (auto simp: has_prefix_def)
    ultimately show ?thesis using q s' by (simp add: strip_host_port_def port_of_authority_def)
  qed
qed

text \<open>
  The connector serves exactly the configured authority: for a host and port written in
  the configuration in any of the accepted forms (a name or an IP literal, bracketed or not,
  with or without a port), a request passes the host gate and the action gate only if its
  host is that host in lower case and its port, 443 by default, that port.
\<close>

theorem gl_pinned_authority:
  assumes "written_authority h q (gl_served_host p)" "CHR ''['' \<notin> set h" "CHR '']'' \<notin> set h"
    "CHR ''['' \<notin> set q" "CHR '']'' \<notin> set q" "CHR '':'' \<notin> set q"
    and "gl_authorizes_host p (v_hostname v)" "gl_authorize_action p cached v = Inr ()"
  shows "v_hostname v = to_lower h \<and> defaulted_port (v_port v) = (if q = [] then ''443'' else q)"
  using authority_parts [OF assms(1-6)] assms(7,8)
  by (simp add: gl_authorizes_host_def gl_served_hostname_def gl_authorize_action_Inr gl_expected_port_def
      authorize_request_port_ok https_port_def)

theorem gl_pinned_authority_witness:
  "v_hostname (gl_example_request ''GET'' ''/api/v4/projects/7/issues/3'') = to_lower ''gitlab.example''"
proof -
  have "written_authority ''gitlab.example'' ''8443'' (gl_served_host gl_example_provider)" by code_simp
  moreover have "gl_authorizes_host gl_example_provider
      (v_hostname (gl_example_request ''GET'' ''/api/v4/projects/7/issues/3''))" by code_simp
  ultimately show ?thesis using gl_pinned_authority [OF _ _ _ _ _ _ _ gl_example_allowed] by fastforce
qed

subsection \<open>Dialing\<close>

lemma gl_dial_True:
  "gl_authorizes_dial_ip p a = Inr True \<longleftrightarrow>
     (if gl_allow_private p then \<not> floor_forbidden a else \<not> is_internal_ip a) \<and>
     (\<exists>addrs. gl_resolver p (gl_served_hostname p) = Inr addrs \<and> contains_ip addrs a)"
  unfolding gl_authorizes_dial_ip_def by (auto split: sum.splits)

interpretation gl_dial: dial_policy "gl_authorizes_dial_ip p" for p
  by unfold_locales (auto simp: gl_dial_True dest: internal_of_floor split: if_splits)

text \<open>
  Whatever the resolver answers, GitLab's dial check lets through only an address of
  the served host that is above the floor of loopback, link-local, metadata and unique-local
  addresses, and outside every internal range unless the operator opted in.
\<close>

theorem gl_dial_pinned:
  assumes "dial_control (gl_authorizes_dial_ip p) address = Inr ()"
  shows "\<exists>a addrs. dial_address address = Some a \<and> \<not> floor_forbidden a \<and>
     (gl_allow_private p \<or> \<not> is_internal_ip a) \<and>
     gl_resolver p (gl_served_hostname p) = Inr addrs \<and> unmap a \<in> unmap ` set addrs"
proof -
  from gl_dial.dialed_above_floor [OF assms] obtain a where a: "dial_address address = Some a" "\<not> floor_forbidden a" by blast
  with assms have "gl_authorizes_dial_ip p a = Inr True" by (simp add: dial_control_Inr)
  with a show ?thesis by (auto simp: gl_dial_True contains_ip_def list_ex_iff image_iff split: if_splits) metis+
qed

theorem gl_dial_pinned_witness:
  "\<exists>a. dial_address ''93.184.216.34:8443'' = Some a \<and> \<not> is_internal_ip a"
proof -
  have "is_ok (dial_control (gl_authorizes_dial_ip gl_example_provider) ''93.184.216.34:8443'')" by code_simp
  then have "dial_control (gl_authorizes_dial_ip gl_example_provider) ''93.184.216.34:8443'' = Inr ()"
    by (auto simp: is_ok_iff)
  from gl_dial_pinned [OF this] show ?thesis by (auto simp: gl_example_provider_def)
qed

end
