(* ===== verification/Connectors.thy ===== *)
theory Connectors
  imports Github_Gate Gitlab_Gate
begin

text \<open>
  The GitHub and GitLab connectors as entries of the registry, and the contract of their
  credential injection: \<open>InjectAuth\<close> of \<open>github.go\<close> and \<open>gitlab.go\<close> as the
  dispatcher \<open>Inject\<close> of \<open>provider.go\<close> relies on it.
\<close>

datatype 'e conn_error = GithubError gh_error | GitlabError gl_error | SourceError 'e

fun map_err :: "('e \<Rightarrow> 'f) \<Rightarrow> ('e, 'a) result \<Rightarrow> ('f, 'a) result" where
  "map_err f (Inl e) = Inl (f e)"
| "map_err f (Inr a) = Inr a"

lemma map_err_Inr [result_elim]: "map_err f r = Inr a \<longleftrightarrow> r = Inr a"
  by (cases r) auto

text \<open>The hint a connector's documentation gives for an unmatched request is a parameter.\<close>

definition github_connector ::
    "github_provider \<Rightarrow> gh_table option \<Rightarrow> (view \<Rightarrow> string \<Rightarrow> unmatched_hint) \<Rightarrow> 'e conn_error provider" where
  "github_connector p cached hint =
     \<lparr>p_name = ''github'',
      p_inject_auth = (\<lambda>req _. Inr (gh_inject_auth p req)),
      p_authorizes_host = (\<lambda>host _. Inr (gh_authorizes_host host)),
      p_authorize_action = Some (\<lambda>v _. map_err GithubError (gh_authorize_action p cached v)),
      p_authorizes_addr = None, p_ca_cert = None, p_client_cert = None, p_server_name = None,
      p_audit_response = Some gh_audit_response, p_hint = Some hint\<rparr>"

definition gitlab_connector ::
    "'e gitlab_provider \<Rightarrow> gl_table option \<Rightarrow> (view \<Rightarrow> string \<Rightarrow> unmatched_hint) \<Rightarrow> 'e conn_error provider" where
  "gitlab_connector p cached hint =
     \<lparr>p_name = ''gitlab'',
      p_inject_auth = (\<lambda>req _. map_err SourceError (gl_inject_auth p req)),
      p_authorizes_host = (\<lambda>host _. Inr (gl_authorizes_host p host)),
      p_authorize_action = Some (\<lambda>v _. map_err GitlabError (gl_authorize_action p cached v)),
      p_authorizes_addr = Some (\<lambda>a _. map_err SourceError (gl_authorizes_dial_ip p a)),
      p_ca_cert = Some (\<lambda>_. Inr (gl_ca_data p)), p_client_cert = None, p_server_name = None,
      p_audit_response = None, p_hint = Some hint\<rparr>"

text \<open>\<open>errors.As\<close> into an \<open>UnmatchedRequestError\<close>; both connectors leave its service empty.\<close>

fun unmatched_service :: "'e conn_error auth_error \<Rightarrow> string option" where
  "unmatched_service (ActionDenied (GithubError GhUnmatched)) = Some []"
| "unmatched_service (ActionDenied (GitlabError GlUnmatched)) = Some []"
| "unmatched_service (UnmatchedExplanation s h e) = unmatched_service e"
| "unmatched_service _ = None"

subsection \<open>Header lists\<close>

lemma header_upd_mem:
  "(k, vs) \<in> set (header_upd h key f) \<Longrightarrow> (k, vs) \<in> set h \<or> (k = key \<and> (\<exists>old. vs = f old))"
  by (induction h key f rule: header_upd.induct) (auto split: if_splits)

lemma header_set_mem:
  "(k, vs) \<in> set (header_set h key v) \<Longrightarrow> (k, vs) \<in> set h \<or> (k = canonical_header key \<and> vs = [v])"
  by (auto simp: header_set_def dest: header_upd_mem)

lemma distinct_header_upd: "distinct (map fst h) \<Longrightarrow> distinct (map fst (header_upd h key f))"
proof (induction h key f rule: header_upd.induct)
  case (2 k' vs h k f)
  then show ?case using header_upd_keys [of h k f] by auto
qed simp

lemma distinct_header_set: "distinct (map fst h) \<Longrightarrow> distinct (map fst (header_set h key v))"
  by (simp add: header_set_def distinct_header_upd)

lemma distinct_header_add: "distinct (map fst h) \<Longrightarrow> distinct (map fst (header_add h key v))"
  by (simp add: header_add_def distinct_header_upd)

lemma distinct_header_del: "distinct (map fst h) \<Longrightarrow> distinct (map fst (header_del h key))"
  by (simp add: header_del_def distinct_map_filter)

lemma canonical_authorization: "canonical_header ''Authorization'' = ''Authorization''"
  by code_simp

lemma canonical_api_version: "canonical_header ''X-Github-Api-Version'' = ''X-Github-Api-Version''"
  by code_simp

subsection \<open>The contract of injection\<close>

text \<open>
  What the dispatcher needs of a connector that authenticates with a bearer token: it sets
  that token, adds nothing else, and leaves the rest of the request alone.
\<close>

locale bearer_injector =
  fixes inj :: "http_request \<Rightarrow> ('e, http_request) result" and tok :: string
  assumes sets: "inj req = Inr req' \<Longrightarrow> header_values (req_header req') ''Authorization'' = [''Bearer '' @ tok]"
    and adds_only: "inj req = Inr req' \<Longrightarrow> (k, vs) \<in> set (req_header req') \<Longrightarrow>
      (k, vs) \<in> set (req_header req) \<or> (k = ''Authorization'' \<and> vs = [''Bearer '' @ tok])"
    and keeps_distinct: "inj req = Inr req' \<Longrightarrow> distinct (map fst (req_header req)) \<Longrightarrow>
      distinct (map fst (req_header req'))"
    and keeps_rest: "inj req = Inr req' \<Longrightarrow> req' = req\<lparr>req_header := req_header req'\<rparr>"
begin

text \<open>After the model's credentials are rejected, the token is the only credential left.\<close>

lemma sole_credential:
  assumes "inj req = Inr req'" "reject_model_supplied_credential req = Inr ()"
    and "(k, vs) \<in> set (req_header req')" "vs \<noteq> []" "h \<in> set credential_headers" "credential_header_is k h"
  shows "k = ''Authorization'' \<and> vs = [''Bearer '' @ tok]"
  using assms adds_only [OF assms(1,3)] by (auto simp: reject_ok credential_header_is_def)

lemma token_present:
  assumes "inj req = Inr req'"
  shows "map_of (req_header req') ''Authorization'' = Some [''Bearer '' @ tok]"
  using sets [OF assms] by (auto simp: header_values_def canonical_authorization split: option.splits)

lemma view_kept:
  assumes "inj req = Inr req'" shows "new_view req' body = (new_view req body)\<lparr>v_header := req_header req'\<rparr>"
  by (subst keeps_rest [OF assms]) (simp add: new_view_def)

end

lemma gh_inject_header:
  "req_header (gh_inject_auth p req) =
     header_del (header_set (req_header req) ''Authorization'' (''Bearer '' @ gh_token p)) ''X-Github-Api-Version''"
  by (simp add: gh_inject_auth_def)

interpretation gh_inj: bearer_injector "\<lambda>req. Inr (gh_inject_auth p req)" "gh_token p" for p
proof unfold_locales
  fix req req' k vs
  assume e: "Inr (gh_inject_auth p req) = Inr req'"
  then have h: "req_header req' = header_del (header_set (req_header req) ''Authorization'' (''Bearer '' @ gh_token p))
      ''X-Github-Api-Version''" using gh_inject_header by auto
  have f: "map_of (header_del g ''X-Github-Api-Version'') ''Authorization'' = map_of g ''Authorization''" for g
    unfolding header_del_def canonical_api_version by (induction g) auto
  show "header_values (req_header req') ''Authorization'' = [''Bearer '' @ gh_token p]"
    unfolding h header_values_def canonical_authorization f
    using header_values_set [of "req_header req" "''Authorization''" "''Bearer '' @ gh_token p"]
    unfolding header_values_def canonical_authorization .
  show "distinct (map fst (req_header req'))" if "distinct (map fst (req_header req))"
    unfolding h by (rule distinct_header_del [OF distinct_header_set [OF that]])
  show "req' = req\<lparr>req_header := req_header req'\<rparr>" using e by (auto simp: gh_inject_auth_def)
  assume "(k, vs) \<in> set (req_header req')"
  then have "(k, vs) \<in> set (header_set (req_header req) ''Authorization'' (''Bearer '' @ gh_token p))"
    unfolding h header_del_def by simp
  from header_set_mem [OF this] canonical_authorization
  show "(k, vs) \<in> set (req_header req) \<or> k = ''Authorization'' \<and> vs = [''Bearer '' @ gh_token p]" by simp
qed

lemma gl_inject_Inr:
  "gl_inject_auth p req = Inr req' \<longleftrightarrow> (\<exists>tok. gl_token_source p = Inr tok \<and>
     req' = req\<lparr>req_header := header_set (req_header req) ''Authorization'' (''Bearer '' @ tok)\<rparr>)"
  by (auto simp: gl_inject_auth_def result_elim)

definition gl_token :: "'e gitlab_provider \<Rightarrow> string" where
  "gl_token p = (case gl_token_source p of Inr tok \<Rightarrow> tok | Inl _ \<Rightarrow> [])"

lemma set_bearer_injector:
  assumes "\<And>req req'. f req = Inr req' \<Longrightarrow>
    req' = req\<lparr>req_header := header_set (req_header req) ''Authorization'' (''Bearer '' @ tok)\<rparr>"
  shows "bearer_injector f tok"
proof
  fix req req' k vs
  assume "f req = Inr req'"
  note e = assms [OF this]
  show "header_values (req_header req') ''Authorization'' = [''Bearer '' @ tok]" by (simp add: e)
  show "distinct (map fst (req_header req'))" if "distinct (map fst (req_header req))"
    using that by (simp add: e distinct_header_set)
  show "req' = req\<lparr>req_header := req_header req'\<rparr>" by (simp add: e)
  assume "(k, vs) \<in> set (req_header req')"
  then have "(k, vs) \<in> set (header_set (req_header req) ''Authorization'' (''Bearer '' @ tok))" by (simp add: e)
  from header_set_mem [OF this] canonical_authorization
  show "(k, vs) \<in> set (req_header req) \<or> k = ''Authorization'' \<and> vs = [''Bearer '' @ tok]" by simp
qed

interpretation gl_inj: bearer_injector "gl_inject_auth p" "gl_token p" for p
  by (rule set_bearer_injector) (auto simp: gl_inject_Inr gl_token_def)

subsection \<open>The dial checks in the registry\<close>

lemma github_addr_floor: "addr_floor_kept (github_connector p cached hint)"
  by (simp add: addr_floor_kept_def github_connector_def)

lemma gitlab_addr_floor: "addr_floor_kept (gitlab_connector p cached hint)"
  using gl_dial.keeps_floor
  by (auto simp: addr_floor_kept_def gitlab_connector_def dial_policy_def map_err_Inr)

end
