(* ===== verification/Transport.thy ===== *)
theory Transport
  imports Connectors
begin

text \<open>
  \<open>internal/transport/transport.go\<close>: the one path every request of the model takes to the
  network, \<open>do\<close>, with \<open>configureTransport\<close> and \<open>ExecuteStructured\<close> (\<open>BuildTLSConfig\<close>
  of \<open>internal/auth/tlsconfig.go\<close> below it).
  A run gives the list of its externally visible events and its result. What lies outside
  is a parameter: decoding the tool call (\<open>encoding/json\<close> by reflection), parsing the URL
  (\<open>net/url\<close>), certificates, the route selection, the network, and the redactor.
\<close>

subsection \<open>Requests and responses\<close>

record request_args =
  ra_method :: string
  ra_url :: string
  ra_headers :: "(string \<times> string) list"
  ra_body :: string
  ra_timeout :: int
  ra_max_body :: int
  ra_auth_provider :: string

record parsed_url =
  pu_scheme :: string
  pu_hostname :: string
  pu_port :: string
  pu_path :: string
  pu_escaped_path :: string
  pu_raw_query :: string
  pu_user :: "string option"

record response =
  resp_status :: int
  resp_status_text :: string
  resp_header :: header
  resp_trailer :: header
  resp_body :: string

record structured_response =
  sr_status :: int
  sr_status_text :: string
  sr_headers :: header
  sr_body :: string
  sr_truncated :: bool

text \<open>TLS settings: the appended CA, the server name, and whether a client certificate is set.\<close>

record tls_config =
  tls_ca :: "string option"
  tls_server_name :: string
  tls_client_cert :: "(string \<times> string) option"

record client =
  c_decode :: "string \<Rightarrow> request_args option"
  c_parse_url :: "string \<Rightarrow> parsed_url option"
  c_base64 :: "string \<Rightarrow> string option"
  c_append_certs :: "string \<Rightarrow> bool"
  c_key_pair :: "string \<Rightarrow> string \<Rightarrow> bool"
  c_route_proxied :: "http_request \<Rightarrow> bool"
  c_send :: "http_request \<Rightarrow> string \<Rightarrow> int \<Rightarrow> tls_config \<Rightarrow> response option"
  c_read_ok :: "response \<Rightarrow> bool"  \<comment> \<open>reading the response's body succeeds\<close>
  c_redact :: "string \<Rightarrow> string"
  c_redact_header :: "header \<Rightarrow> header"
  c_redact_trailer :: "header \<Rightarrow> header"
  c_dump :: "response \<Rightarrow> string"  \<comment> \<open>\<open>httputil.DumpResponse\<close>\<close>

datatype build_error = BadRequest | ReservedHeader

datatype 'e do_error =
    BadArguments
  | AuthProviderRequired
  | NotBuilt build_error
  | NotHTTPS
  | HostRefused host_error
  | Denied "'e auth_error"
  | TLSFailed
  | SendFailed
  | ReadFailed

datatype event =
    RouteMarked bool
  | Sent http_request string int tls_config  \<comment> \<open>the request, its body, timeout and TLS settings\<close>
  | Audited audit_view bool

subsection \<open>tlsconfig.go\<close>

definition build_tls_config :: "client \<Rightarrow> string \<Rightarrow> string \<Rightarrow> string \<Rightarrow> string \<Rightarrow> tls_config option" where
  "build_tls_config c ca_data client_cert client_key server_name =
     (case (if ca_data = [] then Some None
            else (case c_base64 c ca_data of
                None \<Rightarrow> None
              | Some raw \<Rightarrow> if \<not> c_append_certs c raw then None else Some (Some raw))) of
        None \<Rightarrow> None
      | Some ca \<Rightarrow>
          if client_cert \<noteq> [] \<and> client_key \<noteq> [] then
            (case c_base64 c client_cert of
               None \<Rightarrow> None
             | Some raw_cert \<Rightarrow>
                 (case c_base64 c client_key of
                    None \<Rightarrow> None
                  | Some raw_key \<Rightarrow>
                      if \<not> c_key_pair c raw_cert raw_key then None
                      else Some \<lparr>tls_ca = ca, tls_server_name = server_name,
                             tls_client_cert = Some (raw_cert, raw_key)\<rparr>))
          else Some \<lparr>tls_ca = ca, tls_server_name = server_name, tls_client_cert = None\<rparr>)"

subsection \<open>do\<close>

definition default_max_response_bytes :: int where
  "default_max_response_bytes = 32 * 1024"

definition absolute_max_response_bytes :: int where
  "absolute_max_response_bytes = 10 * 1024 * 1024"

definition clamp_timeout :: "int \<Rightarrow> int" where
  "clamp_timeout n = (if n < 1 \<or> n > 60 then 20 else n)"

definition clamp_max_body :: "int \<Rightarrow> int" where
  "clamp_max_body n =
     (if n < 1 then default_max_response_bytes
      else if n > absolute_max_response_bytes then absolute_max_response_bytes
      else n)"

definition body_for_request :: "string \<Rightarrow> string option \<times> string" where
  "body_for_request body = (if body = [] then (None, []) else (Some body, body))"

text \<open>\<open>http.NewRequestWithContext\<close>: an empty method is GET, another must be a token.\<close>

definition new_request :: "client \<Rightarrow> string \<Rightarrow> string \<Rightarrow> http_request option" where
  "new_request c method0 raw_url =
     (let m = (if method0 = [] then ''GET'' else method0) in
      if \<not> list_all is_token_byte m then None
      else map_option (\<lambda>u. \<lparr>req_method = m, url_scheme = pu_scheme u, url_hostname = pu_hostname u,
             url_port = pu_port u, url_path = pu_path u, url_escaped_path = pu_escaped_path u,
             url_raw_query = pu_raw_query u, url_user = pu_user u, req_header = []\<rparr>)
           (c_parse_url c raw_url))"

fun add_headers :: "(string \<times> string) list \<Rightarrow> header \<Rightarrow> (build_error, header) result" where
  "add_headers [] h = Inr h"
| "add_headers ((k, v) # kvs) h =
     (if equal_fold k ''Host'' then Inl ReservedHeader
      else add_headers kvs (if \<not> equal_fold k ''Accept-Encoding'' then header_add h k v else h))"

definition build_request :: "client \<Rightarrow> request_args \<Rightarrow> (build_error, http_request) result" where
  "build_request c args =
     (case new_request c (ra_method args) (ra_url args) of
        None \<Rightarrow> Inl BadRequest
      | Some req \<Rightarrow>
          and_then (add_headers (ra_headers args) (header_set (req_header req) ''User-Agent'' ''Cynative-Research/1.0''))
            (\<lambda>h. let h' = (if fst (body_for_request (ra_body args)) \<noteq> None \<and> header_get h ''Content-Type'' = []
                           then header_set h ''Content-Type'' ''application/json'' else h)
                 in Inr (req\<lparr>req_header := h'\<rparr>)))"

text \<open>The gates, in the order of the code, up to and including the injection.\<close>

definition gate_chain ::
    "client \<Rightarrow> ('e auth_error \<Rightarrow> string option) \<Rightarrow> 'e provider list \<Rightarrow> string \<Rightarrow> request_args \<Rightarrow>
     ('e do_error, http_request) result" where
  "gate_chain c um providers arguments args =
     (if ra_auth_provider args = [] then Inl AuthProviderRequired
      else (case build_request c args of Inl e \<Rightarrow> Inl (NotBuilt e) | Inr req \<Rightarrow>
        if url_scheme req \<noteq> ''https'' then Inl NotHTTPS
        else (case admit_host (url_hostname req) of
            Inl e \<Rightarrow> Inl (HostRefused e)
          | Inr _ \<Rightarrow>
              (let v = new_view req (snd (body_for_request (ra_body args))) in
               case authorize_host (ra_auth_provider args) (v_hostname v) providers arguments of
                 Inl e \<Rightarrow> Inl (Denied e)
               | Inr _ \<Rightarrow>
                   (case authorize_action (ra_auth_provider args) v providers arguments of
                      Inl e \<Rightarrow> Inl (Denied (explain_unmatched um (ra_auth_provider args) v providers e))
                    | Inr _ \<Rightarrow>
                        (case inject req (ra_auth_provider args) providers arguments of
                           Inl e \<Rightarrow> Inl (Denied e)
                         | Inr req' \<Rightarrow> Inr req'))))))"

definition configure_transport ::
    "client \<Rightarrow> http_request \<Rightarrow> string \<Rightarrow> 'e provider list \<Rightarrow> string \<Rightarrow> event list \<times> ('e do_error, tls_config) result" where
  "configure_transport c req name providers arguments =
     (case get_ca_cert_data name providers arguments of
        Inl e \<Rightarrow> ([], Inl (Denied e))
      | Inr ca_data \<Rightarrow>
          (case get_client_cert_data name providers arguments of
             Inl e \<Rightarrow> ([], Inl (Denied e))
           | Inr (cert, key) \<Rightarrow>
               (case get_server_name_data name providers arguments of
                  Inl e \<Rightarrow> ([], Inl (Denied e))
                | Inr server_name \<Rightarrow>
                    ([RouteMarked (c_route_proxied c req)],
                     case build_tls_config c ca_data cert key server_name of
                       None \<Rightarrow> Inl TLSFailed
                     | Some tls \<Rightarrow> Inr tls))))"

definition do_request ::
    "client \<Rightarrow> ('e auth_error \<Rightarrow> string option) \<Rightarrow> 'e provider list \<Rightarrow> string \<Rightarrow>
     event list \<times> ('e do_error, response \<times> int) result" where
  "do_request c um providers arguments =
     (case c_decode c arguments of
        None \<Rightarrow> ([], Inl BadArguments)
      | Some args \<Rightarrow>
          (let timeout = clamp_timeout (ra_timeout args); max_body = clamp_max_body (ra_max_body args) in
           case gate_chain c um providers arguments args of
             Inl e \<Rightarrow> ([], Inl e)
           | Inr req \<Rightarrow>
               (case configure_transport c req (ra_auth_provider args) providers arguments of
                  (evs, Inl e) \<Rightarrow> (evs, Inl e)
                | (evs, Inr tls) \<Rightarrow>
                    (let sent = Sent req (snd (body_for_request (ra_body args))) timeout tls in
                     case c_send c req (snd (body_for_request (ra_body args))) timeout tls of
                       None \<Rightarrow> (evs @ [sent], Inl SendFailed)
                     | Some resp \<Rightarrow>
                         (evs @ [sent, Audited (new_audit_view req)
                                   (audit_response (ra_auth_provider args) (new_audit_view req) (resp_header resp) providers)],
                          Inr (resp, max_body))))))"

subsection \<open>ExecuteStructured, Execute\<close>

text \<open>The body is read up to one byte past the limit.\<close>

definition structure_response :: "client \<Rightarrow> response \<Rightarrow> nat \<Rightarrow> structured_response" where
  "structure_response c resp max_bytes =
     (let body0 = take (max_bytes + 1) (resp_body resp);
          cut1 = length body0 > max_bytes;
          body1 = (if cut1 then take max_bytes body0 else body0);
          redacted = c_redact c body1;
          cut2 = length redacted > max_bytes;
          body2 = (if cut2 then take max_bytes redacted else redacted)
      in \<lparr>sr_status = resp_status resp, sr_status_text = resp_status_text resp,
          sr_headers = c_redact_header c (resp_header resp), sr_body = body2, sr_truncated = (cut1 \<or> cut2)\<rparr>)"

definition execute_structured ::
    "client \<Rightarrow> ('e auth_error \<Rightarrow> string option) \<Rightarrow> 'e provider list \<Rightarrow> string \<Rightarrow>
     event list \<times> ('e do_error, structured_response) result" where
  "execute_structured c um providers arguments =
     (case do_request c um providers arguments of
        (evs, Inl e) \<Rightarrow> (evs, Inl e)
      | (evs, Inr (resp, max_bytes)) \<Rightarrow>
          (evs, if \<not> c_read_ok c resp then Inl ReadFailed
                else Inr (structure_response c resp (nat max_bytes))))"

text \<open>\<open>strings.ToValidUTF8\<close>: every run of invalid bytes becomes one replacement.\<close>

function to_valid_utf8 :: "bool \<Rightarrow> string \<Rightarrow> string" where
  "to_valid_utf8 inside [] = []"
| "to_valid_utf8 inside (x # s) =
     (let n = utf8_len (x # s) in
      if n = 0 then (if inside then to_valid_utf8 True s else replacement_char @ to_valid_utf8 True s)
      else take n (x # s) @ to_valid_utf8 False (drop (n - 1) s))"
  by pat_completeness auto
termination by (relation "measure (\<lambda>(b, s). length s)") auto

definition truncation_notice :: "nat \<Rightarrow> string" where
  "truncation_notice max_bytes =
     [CHR 0x0A, CHR 0x0A] @ ''... [Response truncated at '' @ show_dec max_bytes @ '' bytes]''"

definition format_response :: "client \<Rightarrow> response \<Rightarrow> nat \<Rightarrow> string option" where
  "format_response c resp max_bytes =
     (if \<not> c_read_ok c resp then None
      else (let body = take (max_bytes + 1) (resp_body resp);
                body_clipped = length body > max_bytes;
                resp' = resp\<lparr>resp_header := c_redact_header c (resp_header resp),
                             resp_trailer := c_redact_trailer c (resp_trailer resp),
                             resp_body := c_redact c body\<rparr>;
                dump0 = c_dump c resp';
                truncated = (body_clipped \<or> length dump0 > max_bytes);
                dump = (if length dump0 > max_bytes then take max_bytes dump0 else dump0)
            in Some (to_valid_utf8 False dump @ (if truncated then truncation_notice max_bytes else []))))"

definition execute ::
    "client \<Rightarrow> ('e auth_error \<Rightarrow> string option) \<Rightarrow> 'e provider list \<Rightarrow> string \<Rightarrow>
     event list \<times> ('e do_error, string \<times> int) result" where
  "execute c um providers arguments =
     (case do_request c um providers arguments of
        (evs, Inl e) \<Rightarrow> (evs, Inl e)
      | (evs, Inr (resp, max_bytes)) \<Rightarrow>
          (evs, case format_response c resp (nat max_bytes) of
                  None \<Rightarrow> Inl ReadFailed
                | Some text \<Rightarrow> Inr (text, resp_status resp)))"

subsection \<open>The gate chain\<close>

lemma gate_chain_Inr:
  "gate_chain c um ps arguments args = Inr req' \<longleftrightarrow>
     ra_auth_provider args \<noteq> [] \<and>
     (\<exists>req. build_request c args = Inr req \<and> url_scheme req = ''https'' \<and> admit_host (url_hostname req) = Inr () \<and>
        authorize_host (ra_auth_provider args) (v_hostname (new_view req (ra_body args))) ps arguments = Inr () \<and>
        authorize_action (ra_auth_provider args) (new_view req (ra_body args)) ps arguments = Inr () \<and>
        inject req (ra_auth_provider args) ps arguments = Inr req')"
proof -
  have b: "snd (body_for_request (ra_body args)) = ra_body args" by (simp add: body_for_request_def)
  show ?thesis
    unfolding gate_chain_def b Let_def result_elim by auto
qed

text \<open>One gate for the whole chain, as the connector's own methods.\<close>

lemma gate_chain_provider:
  fixes ps :: "'e provider list"
  assumes "gate_chain c um ps arguments args = Inr req'"
  shows "\<exists>req p. find_provider ps (ra_auth_provider args) = Inr p \<and> build_request c args = Inr req \<and>
     url_scheme req = ''https'' \<and> admit_host (url_hostname req) = Inr () \<and>
     (let a = new_provider_args arguments (p_name p); v = new_view req (ra_body args) in
        p_authorizes_host p (v_hostname v) a = Inr True \<and>
        (\<forall>act. p_authorize_action p = Some act \<longrightarrow> act v a = Inr ()) \<and>
        p_inject_auth p req a = Inr req') \<and>
     reject_model_supplied_credential req = Inr ()"
proof -
  from assms obtain req where
    g: "build_request c args = Inr req" "url_scheme req = ''https''" "admit_host (url_hostname req) = Inr ()"
      "authorize_host (ra_auth_provider args) (v_hostname (new_view req (ra_body args))) ps arguments = Inr ()"
      "authorize_action (ra_auth_provider args) (new_view req (ra_body args)) ps arguments = Inr ()"
      "inject req (ra_auth_provider args) ps arguments = Inr req'"
    by (auto simp: gate_chain_Inr)
  then obtain p where "find_provider ps (ra_auth_provider args) = Inr p" by (auto simp: inject_Inr)
  with g show ?thesis
    by (auto simp: authorize_host_Inr authorize_action_Inr inject_Inr Let_def)
qed

text \<open>Every run's events, by how far it got.\<close>

lemma sent_gated:
  assumes "Sent req body n tls \<in> set (fst (do_request c um ps arguments))"
  shows "\<exists>args. c_decode c arguments = Some args \<and> gate_chain c um ps arguments args = Inr req \<and> body = ra_body args"
proof -
  have s: "snd (body_for_request b) = b" for b by (simp add: body_for_request_def)
  have c: "Sent r b k t \<notin> set (fst (configure_transport c r' name ps arguments))" for r b k t r' name
    unfolding configure_transport_def by (simp split: sum.splits option.splits prod.splits)
  from assms c show ?thesis
    unfolding do_request_def s by (auto simp: Let_def split: option.splits sum.splits prod.splits) (metis fst_conv)+
qed

subsection \<open>Complete mediation\<close>

lemma sent_through_gates:
  assumes "Sent req body n tls \<in> set (fst (do_request c um ps arguments))"
  shows "\<exists>args req0 p. c_decode c arguments = Some args \<and> build_request c args = Inr req0 \<and> body = ra_body args \<and>
     find_provider ps (ra_auth_provider args) = Inr p \<and>
     url_scheme req0 = ''https'' \<and> admit_host (url_hostname req0) = Inr () \<and>
     reject_model_supplied_credential req0 = Inr () \<and>
     (let a = new_provider_args arguments (p_name p); v = new_view req0 body in
        p_authorizes_host p (v_hostname v) a = Inr True \<and>
        (\<forall>act. p_authorize_action p = Some act \<longrightarrow> act v a = Inr ()) \<and>
        p_inject_auth p req0 a = Inr req)"
proof -
  from sent_gated [OF assms] obtain args where a: "c_decode c arguments = Some args"
    "gate_chain c um ps arguments args = Inr req" "body = ra_body args" by blast
  with gate_chain_provider [OF a(2)] show ?thesis by auto
qed

text \<open>
  C1. Nothing reaches the network ungated. Whatever the model wrote, a request that is sent
  was built from its tool call, is https to an admitted host, carried no credential of the
  model's, and passed the named connector's host gate and action gate on the view of exactly
  this request and the body that is sent; it is what that connector's injection made of it.
\<close>

theorem every_sent_request_gated:
  assumes "Sent req body n tls \<in> set (fst (do_request c um ps arguments))"
  shows "\<exists>args req0 p. c_decode c arguments = Some args \<and> build_request c args = Inr req0 \<and> body = ra_body args \<and>
     find_provider ps (ra_auth_provider args) = Inr p \<and>
     url_scheme req0 = ''https'' \<and> admit_host (url_hostname req0) = Inr () \<and>
     reject_model_supplied_credential req0 = Inr () \<and>
     (let a = new_provider_args arguments (p_name p); v = new_view req0 body in
        p_authorizes_host p (v_hostname v) a = Inr True \<and>
        (\<forall>act. p_authorize_action p = Some act \<longrightarrow> act v a = Inr ()) \<and>
        p_inject_auth p req0 a = Inr req)"
  by (rule sent_through_gates [OF assms])

text \<open>
  The order of a run: it has no event while a gate refuses, marks the route before it
  sends, sends at most once, and audits only a response to the request it sent.
\<close>

theorem do_request_events:
  "(fst (do_request c um ps arguments) = [] \<and> is_ok (snd (do_request c um ps arguments)) = False) \<or>
   (\<exists>b. fst (do_request c um ps arguments) = [RouteMarked b] \<and> is_ok (snd (do_request c um ps arguments)) = False) \<or>
   (\<exists>b req body n tls. fst (do_request c um ps arguments) = [RouteMarked b, Sent req body n tls] \<and>
      snd (do_request c um ps arguments) = Inl SendFailed) \<or>
   (\<exists>b req body n tls warn resp m. fst (do_request c um ps arguments) =
        [RouteMarked b, Sent req body n tls, Audited (new_audit_view req) warn] \<and>
      snd (do_request c um ps arguments) = Inr (resp, m) \<and> c_send c req body n tls = Some resp)"
proof (cases "c_decode c arguments")
  case None
  then show ?thesis by (simp add: do_request_def)
next
  case (Some args)
  note d = Some
  show ?thesis
  proof (cases "gate_chain c um ps arguments args")
    case (Inl e)
    with d show ?thesis by (simp add: do_request_def Let_def)
  next
    case (Inr req)
    obtain evs r where t: "configure_transport c req (ra_auth_provider args) ps arguments = (evs, r)"
      by (cases "configure_transport c req (ra_auth_provider args) ps arguments")
    have ev: "evs = [] \<and> (\<exists>e. r = Inl e) \<or> (\<exists>b. evs = [RouteMarked b])"
      using t unfolding configure_transport_def by (auto split: sum.splits prod.splits)
    show ?thesis
    proof (cases r)
      case (Inl e)
      with d Inr t ev show ?thesis by (auto simp: do_request_def Let_def)
    next
      case r: (Inr tls)
      let ?send = "c_send c req (snd (body_for_request (ra_body args))) (clamp_timeout (ra_timeout args)) tls"
      from r ev obtain b where "evs = [RouteMarked b]" by auto
      with d Inr t r show ?thesis by (cases ?send) (auto simp: do_request_def Let_def)
    qed
  qed
qed

subsection \<open>Bounds\<close>

lemma clamp_max_body_bounds: "1 \<le> clamp_max_body n \<and> clamp_max_body n \<le> 10485760"
  by (simp add: clamp_max_body_def default_max_response_bytes_def absolute_max_response_bytes_def)

lemma do_request_max:
  "snd (do_request c um ps arguments) = Inr (resp, m) \<Longrightarrow> 1 \<le> m \<and> m \<le> 10485760"
  unfolding do_request_def Let_def
  by (auto simp: clamp_max_body_bounds split: option.splits sum.splits prod.splits)

text \<open>
  A structured response is bounded and honest: its body is at most the limit, which is
  between 1 byte and 10 MiB whatever the model asked for, and when it is not marked as
  truncated it is the redaction of the whole body received.
\<close>

theorem structured_response_bounded:
  assumes "snd (execute_structured c um ps arguments) = Inr r"
  shows "\<exists>resp m. snd (do_request c um ps arguments) = Inr (resp, m) \<and> 1 \<le> m \<and> m \<le> 10485760 \<and>
     int (length (sr_body r)) \<le> m \<and> (sr_truncated r \<or> sr_body r = c_redact c (resp_body resp)) \<and>
     sr_headers r = c_redact_header c (resp_header resp)"
proof -
  obtain evs res where d: "do_request c um ps arguments = (evs, res)" by (cases "do_request c um ps arguments")
  with assms obtain resp m where rm: "res = Inr (resp, m)" and r: "r = structure_response c resp (nat m)"
    by (cases res) (auto simp: execute_structured_def split: prod.splits if_splits)
  from do_request_max [of c um ps arguments resp m] d rm
  have m: "1 \<le> m" "m \<le> 10485760" by auto
  have "length (sr_body r) \<le> nat m" "sr_truncated r \<or> sr_body r = c_redact c (resp_body resp)"
    by (auto simp: r structure_response_def Let_def)
  with m d rm show ?thesis by (auto simp: r structure_response_def Let_def)
qed

subsection \<open>Headers the transport owns\<close>

lemma ascii_lower_upper [simp]: "ascii_lower (ascii_upper c) = ascii_lower c"
proof (cases "97 \<le> byte_val c \<and> byte_val c \<le> 122")
  case True
  then have "byte_val c - 32 < 256" by linarith
  with True have u: "byte_val (ascii_upper c) = byte_val c - 32" by (simp add: ascii_upper_def)
  with True have "65 \<le> byte_val (ascii_upper c) \<and> byte_val (ascii_upper c) \<le> 90" by linarith
  then have "ascii_lower (ascii_upper c) = char_of (byte_val c - 32 + 32)" unfolding ascii_lower_def u by simp
  also have "\<dots> = c" using True by simp
  also have "c = ascii_lower c" using True by (simp add: ascii_lower_def)
  finally show ?thesis .
qed (auto simp: ascii_upper_def)

lemma map_lower_canonical: "map ascii_lower (canonical_bytes up k) = map ascii_lower k"
  by (induction up k rule: canonical_bytes.induct) auto

lemma fold_case_ascii: "is_ascii s \<Longrightarrow> fold_case s = map ascii_lower s"
proof (induction s rule: fold_case.induct)
  case (2 c s)
  then have "byte_val c < 128" by simp
  then have "c \<noteq> CHR 0xE2" "c \<noteq> CHR 0xC5" by (auto simp: byte_val_def)
  with 2 show ?case by simp
qed simp

lemma token_byte_ascii: "is_token_byte c \<Longrightarrow> byte_val c < 128"
proof -
  have s: "\<forall>c \<in> set ''!#$%&*+-.^_|~''. byte_val c < 128" by code_simp
  assume "is_token_byte c"
  then show ?thesis
    unfolding is_token_byte_def Let_def
    by (elim disjE conjE) (linarith | (drule bspec [OF s], assumption))+
qed

lemma token_ascii: "list_all is_token_byte k \<Longrightarrow> is_ascii k"
  by (induction k) (simp_all add: token_byte_ascii)

lemma is_ascii_canonical: "is_ascii k \<Longrightarrow> is_ascii (canonical_bytes up k)"
  by (induction up k rule: canonical_bytes.induct)
     (auto simp: byte_val_lower_ascii ascii_upper_def)

lemma fold_canonical [simp]: "fold_case (canonical_header k) = fold_case k"
  by (auto simp: canonical_header_def fold_case_ascii token_ascii is_ascii_canonical map_lower_canonical)

lemma add_headers_keys:
  "add_headers kvs h = Inr h' \<Longrightarrow> k \<in> fst ` set h' \<Longrightarrow>
     k \<in> fst ` set h \<or> (\<not> equal_fold k ''Host'' \<and> \<not> equal_fold k ''Accept-Encoding'')"
proof (induction kvs h rule: add_headers.induct)
  case (2 key v kvs h)
  then show ?case
    by (auto simp: equal_fold_def header_add_def header_upd_keys split: if_splits)
qed simp

lemma add_headers_distinct: "add_headers kvs h = Inr h' \<Longrightarrow> distinct (map fst h) \<Longrightarrow> distinct (map fst h')"
  by (induction kvs h rule: add_headers.induct) (auto simp: distinct_header_add split: if_splits)

lemma new_request_header: "new_request c m u = Some req \<Longrightarrow> req_header req = []"
  by (auto simp: new_request_def Let_def split: if_splits)

lemma build_request_header:
  assumes "build_request c args = Inr req"
  shows "distinct (map fst (req_header req)) \<and>
    (\<forall>k \<in> fst ` set (req_header req). \<not> equal_fold k ''Host'' \<and> \<not> equal_fold k ''Accept-Encoding'')"
proof -
  from assms obtain req0 h where r: "new_request c (ra_method args) (ra_url args) = Some req0"
    and h: "add_headers (ra_headers args) (header_set [] ''User-Agent'' ''Cynative-Research/1.0'') = Inr h"
    and e: "req_header req = h \<or> req_header req = header_set h ''Content-Type'' ''application/json''"
    by (auto simp: build_request_def result_elim Let_def new_request_header split: option.splits)
  have u: "header_set [] ''User-Agent'' v = [(''User-Agent'', [v])]" for v
    by (simp add: header_set_def) code_simp
  have ct: "canonical_header ''Content-Type'' = ''Content-Type''" by code_simp
  have no: "\<not> equal_fold ''User-Agent'' ''Host''" "\<not> equal_fold ''User-Agent'' ''Accept-Encoding''"
    "\<not> equal_fold ''Content-Type'' ''Host''" "\<not> equal_fold ''Content-Type'' ''Accept-Encoding''"
    by code_simp+
  have d: "distinct (map fst h)" using add_headers_distinct [OF h] by (simp add: u)
  have k: "\<not> equal_fold k ''Host'' \<and> \<not> equal_fold k ''Accept-Encoding''" if "k \<in> fst ` set h" for k
    using add_headers_keys [OF h that] no by (auto simp: u)
  have "fst ` set (header_set h ''Content-Type'' v) = insert ''Content-Type'' (fst ` set h)" for v
    by (simp add: header_set_def header_upd_keys ct)
  with e have sub: "fst ` set (req_header req) \<subseteq> insert ''Content-Type'' (fst ` set h)"
    by (elim disjE) (simp_all add: subset_insertI)
  have "\<forall>k \<in> fst ` set (req_header req). \<not> equal_fold k ''Host'' \<and> \<not> equal_fold k ''Accept-Encoding''"
  proof
    fix q assume "q \<in> fst ` set (req_header req)"
    with sub have "q \<in> insert ''Content-Type'' (fst ` set h)" by (rule subsetD)
    then show "\<not> equal_fold q ''Host'' \<and> \<not> equal_fold q ''Accept-Encoding''"
      by (rule insertE) (simp_all only: no k not_False_eq_True simp_thms)
  qed
  moreover have "distinct (map fst (req_header req))"
    using e by (elim disjE) (simp_all only: d distinct_header_set)
  ultimately show ?thesis by (intro conjI)
qed

subsection \<open>End to end\<close>

text \<open>What a sent request and the request its gates judged have in common.\<close>

lemma sent_github:
  assumes s: "Sent req body n tls \<in> set (fst (do_request c um ps arguments))"
    and d: "c_decode c arguments = Some args"
    and p: "find_provider ps (ra_auth_provider args) = Inr (github_connector p cached hint)"
  shows "\<exists>req0. build_request c args = Inr req0 \<and> reject_model_supplied_credential req0 = Inr () \<and>
     gh_authorizes_host (to_lower (url_hostname req0)) \<and>
     gh_authorize_action p cached (new_view req0 body) = Inr () \<and> req = gh_inject_auth p req0"
  using sent_through_gates [OF s] d p
  by (auto simp: github_connector_def Let_def map_err_Inr new_view_def)

lemma sent_gitlab:
  assumes s: "Sent req body n tls \<in> set (fst (do_request c um ps arguments))"
    and d: "c_decode c arguments = Some args"
    and p: "find_provider ps (ra_auth_provider args) = Inr (gitlab_connector p cached hint)"
  shows "\<exists>req0. build_request c args = Inr req0 \<and> reject_model_supplied_credential req0 = Inr () \<and>
     gl_authorizes_host p (to_lower (url_hostname req0)) \<and>
     gl_authorize_action p cached (new_view req0 body) = Inr () \<and> gl_inject_auth p req0 = Inr req"
  using sent_through_gates [OF s] d p
  by (auto simp: gitlab_connector_def Let_def map_err_Inr new_view_def)

lemma gh_inject_keeps:
  "req_method (gh_inject_auth p req) = req_method req" "url_escaped_path (gh_inject_auth p req) = url_escaped_path req"
  "url_hostname (gh_inject_auth p req) = url_hostname req"
  by (simp_all add: gh_inject_auth_def)

lemma gl_inject_keeps:
  "gl_inject_auth p req = Inr req' \<Longrightarrow> req_method req' = req_method req \<and>
     url_escaped_path req' = url_escaped_path req \<and> url_hostname req' = url_hostname req"
  by (auto simp: gl_inject_Inr)

lemma gh_quiet_view:
  assumes e: "gh_exposure p = gh_build_exposure op" and q: "\<not> gh_posture_loud (gh_exposure p)"
    and ok: "gh_authorize_action p (Some t) v = Inr ()"
  shows "required_level (to_upper (trim_space (v_method v))) (v_escaped_path v) = Inr LevelRead \<or>
     (is_github_download_host (v_hostname v) \<and> (v_method v = ''GET'' \<or> v_method v = ''HEAD''))"
proof (cases "effective_download_host (v_hostname v) = []")
  case False
  with ok show ?thesis
    by (auto simp: gh_authorize_action_Inr effective_download_host_def split: if_splits)
next
  case True
  with ok obtain acc where cl: "classify_request t (v_method v) (v_escaped_path v) = Inr acc"
    and al: "allow_routes (gh_exposure p) (a_level acc) (a_routes acc) = Inr ()"
    by (auto simp: gh_authorize_action_Inr)
  from cl have lvl: "required_level (to_upper (trim_space (v_method v))) (v_escaped_path v) = Inr (a_level acc)"
    and ne: "a_routes acc \<noteq> []" by (auto simp: classify_request_Inr)
  obtain x where x: "x \<in> set (a_routes acc)" using ne by (cases "a_routes acc") auto
  have wf: "exposure_wf (gh_exposure p)" by (simp add: e gh_build_exposure_wf)
  have "a_level acc \<noteq> LevelNone" using lvl method_level_not_none by (auto simp: required_level_def)
  moreover have "allows (gh_resolve (gh_exposure p) (category x) (subcategory x)) (a_level acc)"
    using al x by (simp add: allow_routes_Inr)
  ultimately have "a_level acc = LevelRead"
    using quiet_no_write [OF q wf, of "category x" "subcategory x"]
    by (cases "a_level acc"; cases "gh_resolve (gh_exposure p) (category x) (subcategory x)")
       (simp_all add: level_defs)
  with lvl show ?thesis by simp
qed

text \<open>
  C2. The GitHub token in a quiet session only ever reads. Whatever tool call the model
  writes and whatever table is active, a request sent under the github connector goes to
  one of GitHub's hosts, its method and path are a read (or a download's GET or HEAD), and the
  only credential header it carries is the operator's token.
\<close>

theorem github_sends_only_reads:
  assumes "Sent req body n tls \<in> set (fst (do_request c um ps arguments))"
    and "c_decode c arguments = Some args"
    and "find_provider ps (ra_auth_provider args) = Inr (github_connector p (Some t) hint)"
    and "gh_exposure p = gh_build_exposure op" "\<not> gh_posture_loud (gh_exposure p)"
  shows "gh_authorizes_host (to_lower (url_hostname req)) \<and>
     (required_level (to_upper (trim_space (req_method req))) (url_escaped_path req) = Inr LevelRead \<or>
      (is_github_download_host (to_lower (url_hostname req)) \<and> (req_method req = ''GET'' \<or> req_method req = ''HEAD''))) \<and>
     map_of (req_header req) ''Authorization'' = Some [''Bearer '' @ gh_token p] \<and>
     (\<forall>(k, vs) \<in> set (req_header req). \<forall>h \<in> set credential_headers.
        vs \<noteq> [] \<and> credential_header_is k h \<longrightarrow> k = ''Authorization'' \<and> vs = [''Bearer '' @ gh_token p])"
proof -
  from sent_github [OF assms(1-3)] obtain req0 where r: "reject_model_supplied_credential req0 = Inr ()"
    "gh_authorizes_host (to_lower (url_hostname req0))" "gh_authorize_action p (Some t) (new_view req0 body) = Inr ()"
    "req = gh_inject_auth p req0" by blast
  then have i: "Inr (gh_inject_auth p req0) = Inr req" by simp
  have "\<forall>(k, vs) \<in> set (req_header req). \<forall>h \<in> set credential_headers.
      vs \<noteq> [] \<and> credential_header_is k h \<longrightarrow> k = ''Authorization'' \<and> vs = [''Bearer '' @ gh_token p]"
    using gh_inj.sole_credential [OF i r(1)] by blast
  moreover note gh_inj.token_present [OF i]
  moreover have "required_level (to_upper (trim_space (req_method req))) (url_escaped_path req) = Inr LevelRead \<or>
      (is_github_download_host (to_lower (url_hostname req)) \<and> (req_method req = ''GET'' \<or> req_method req = ''HEAD''))"
    using gh_quiet_view [OF assms(4,5) r(3)] by (simp add: r(4) gh_inject_keeps new_view_def)
  ultimately show ?thesis using r(2) by (simp add: r(4) gh_inject_keeps)
qed

text \<open>
  C3. The same for GitLab: in a quiet session a request sent under the gitlab connector
  goes to the configured host and is a read, of another category than ci-variables, and the
  only credential header it carries is the operator's token.
\<close>

theorem gitlab_sends_only_reads:
  assumes "Sent req body n tls \<in> set (fst (do_request c um ps arguments))"
    and "c_decode c arguments = Some args"
    and "find_provider ps (ra_auth_provider args) = Inr (gitlab_connector p (Some t) hint)"
    and "gl_exposure p = gl_build_exposure op" "\<not> gl_posture_loud (gl_exposure p)"
  shows "to_lower (url_hostname req) = to_lower (gl_served_hostname p) \<and>
     gl_required_level (req_method req) (url_escaped_path req) = Inr LevelRead \<and>
     gl_lookup t (gl_lookup_method (req_method req)) (url_escaped_path req) \<noteq> Some ci_variables_key \<and>
     map_of (req_header req) ''Authorization'' = Some [''Bearer '' @ gl_token p] \<and>
     (\<forall>(k, vs) \<in> set (req_header req). \<forall>h \<in> set credential_headers.
        vs \<noteq> [] \<and> credential_header_is k h \<longrightarrow> k = ''Authorization'' \<and> vs = [''Bearer '' @ gl_token p])"
proof -
  from sent_gitlab [OF assms(1-3)] obtain req0 where r: "reject_model_supplied_credential req0 = Inr ()"
    "gl_authorizes_host p (to_lower (url_hostname req0))" "gl_authorize_action p (Some t) (new_view req0 body) = Inr ()"
    "gl_inject_auth p req0 = Inr req" by blast
  have "\<forall>(k, vs) \<in> set (req_header req). \<forall>h \<in> set credential_headers.
      vs \<noteq> [] \<and> credential_header_is k h \<longrightarrow> k = ''Authorization'' \<and> vs = [''Bearer '' @ gl_token p]"
    using gl_inj.sole_credential [OF r(4,1)] by blast
  moreover note gl_inj.token_present [OF r(4)]
  moreover have "gl_required_level (req_method req) (url_escaped_path req) = Inr LevelRead \<and>
      gl_lookup t (gl_lookup_method (req_method req)) (url_escaped_path req) \<noteq> Some ci_variables_key"
    using gl_quiet_view [OF assms(5,4) r(3)] gl_inject_keeps [OF r(4)] by (simp add: new_view_def)
  ultimately show ?thesis using r(2) gl_inject_keeps [OF r(4)] by (simp add: gl_authorizes_host_def)
qed

subsection \<open>Examples\<close>

definition no_hint :: "view \<Rightarrow> string \<Rightarrow> unmatched_hint" where
  "no_hint v s = \<lparr>hint_operation = [], hint_candidates = [], hint_note = [], hint_no_reference = False\<rparr>"

definition example_registry :: "unit conn_error provider list" where
  "example_registry =
     [github_connector example_provider (Some example_table) no_hint,
      gitlab_connector gl_example_provider (Some gl_example_table) no_hint]"

definition example_args :: "string \<Rightarrow> request_args" where
  "example_args name =
     \<lparr>ra_method = ''GET'', ra_url = ''u'', ra_headers = [], ra_body = [],
      ra_timeout = 500, ra_max_body = 4, ra_auth_provider = name\<rparr>"

definition example_url :: "string \<Rightarrow> parsed_url" where
  "example_url name =
     (if name = ''github''
      then \<lparr>pu_scheme = ''https'', pu_hostname = ''API.github.com'', pu_port = [], pu_path = ''/repos/o/r/contents/a/b'',
            pu_escaped_path = ''/repos/o/r/contents/a/b'', pu_raw_query = [], pu_user = None\<rparr>
      else \<lparr>pu_scheme = ''https'', pu_hostname = ''gitlab.example'', pu_port = ''8443'',
            pu_path = ''/api/v4/projects/7/issues/3'', pu_escaped_path = ''/api/v4/projects/7/issues/3'',
            pu_raw_query = ''page=2'', pu_user = None\<rparr>)"

text \<open>A client whose model asks for one request through the named connector.\<close>

definition example_client :: "string \<Rightarrow> client" where
  "example_client name =
     \<lparr>c_decode = (\<lambda>_. Some (example_args name)), c_parse_url = (\<lambda>_. Some (example_url name)),
      c_base64 = Some, c_append_certs = (\<lambda>_. True), c_key_pair = (\<lambda>_ _. True),
      c_route_proxied = (\<lambda>_. False),
      c_send = (\<lambda>req body n tls. Some \<lparr>resp_status = 200, resp_status_text = ''200 OK'', resp_header = [],
                  resp_trailer = [], resp_body = ''secret''\<rparr>),
      c_read_ok = (\<lambda>_. True), c_redact = (\<lambda>s. s), c_redact_header = (\<lambda>h. h), c_redact_trailer = (\<lambda>h. h),
      c_dump = resp_body\<rparr>"

fun is_sent :: "event \<Rightarrow> bool" where
  "is_sent (Sent req body n tls) = True"
| "is_sent _ = False"

lemma example_sends:
  assumes "list_ex is_sent (fst (do_request (example_client name) unmatched_service example_registry []))"
  obtains req body n tls where
    "Sent req body n tls \<in> set (fst (do_request (example_client name) unmatched_service example_registry []))"
proof -
  from assms obtain e where e: "is_sent e"
    "e \<in> set (fst (do_request (example_client name) unmatched_service example_registry []))"
    by (auto simp: list_ex_iff)
  then obtain req body n tls where "e = Sent req body n tls" by (cases e) auto
  with e that show thesis by blast
qed

lemma example_sent_github:
  "list_ex is_sent (fst (do_request (example_client ''github'') unmatched_service example_registry []))"
  by code_simp

lemma example_sent_gitlab:
  "list_ex is_sent (fst (do_request (example_client ''gitlab'') unmatched_service example_registry []))"
  by code_simp

lemma example_found:
  "c_decode (example_client name) s = Some (example_args name)"
  "find_provider example_registry ''github'' = Inr (github_connector example_provider (Some example_table) no_hint)"
  "find_provider example_registry ''gitlab'' = Inr (gitlab_connector gl_example_provider (Some gl_example_table) no_hint)"
proof -
  show "c_decode (example_client name) s = Some (example_args name)" by (simp add: example_client_def)
  have n: "\<not> equal_fold ''github'' ''gitlab''" by code_simp
  show "find_provider example_registry ''github'' = Inr (github_connector example_provider (Some example_table) no_hint)"
    by (simp add: example_registry_def github_connector_def)
  show "find_provider example_registry ''gitlab'' = Inr (gitlab_connector gl_example_provider (Some gl_example_table) no_hint)"
    using n by (simp add: example_registry_def github_connector_def gitlab_connector_def)
qed

theorem every_sent_request_gated_witness:
  "\<exists>req0. build_request (example_client ''github'') (example_args ''github'') = Inr req0 \<and>
     admit_host (url_hostname req0) = Inr () \<and> reject_model_supplied_credential req0 = Inr ()"
proof -
  obtain req body n tls where
    "Sent req body n tls \<in> set (fst (do_request (example_client ''github'') unmatched_service example_registry []))"
    using example_sends [OF example_sent_github] .
  from every_sent_request_gated [OF this] show ?thesis by (auto simp: example_found)
qed

theorem github_sends_only_reads_witness:
  "\<exists>req :: http_request. map_of (req_header req) ''Authorization'' = Some [''Bearer tok''] \<and>
     gh_authorizes_host (to_lower (url_hostname req))"
proof -
  obtain req body n tls where s:
    "Sent req body n tls \<in> set (fst (do_request (example_client ''github'') unmatched_service example_registry []))"
    using example_sends [OF example_sent_github] .
  have p: "find_provider example_registry (ra_auth_provider (example_args ''github'')) =
      Inr (github_connector example_provider (Some example_table) no_hint)"
    by (simp add: example_args_def example_found)
  have q: "\<not> gh_posture_loud (gh_exposure example_provider)" by code_simp
  have e: "gh_exposure example_provider = gh_build_exposure []" "gh_token example_provider = ''tok''"
    by (simp_all add: example_provider_def)
  from github_sends_only_reads [OF s example_found(1) p e(1) q] e(2) show ?thesis
    by (intro exI [of _ req]) simp
qed

theorem gitlab_sends_only_reads_witness:
  "\<exists>req :: http_request. map_of (req_header req) ''Authorization'' = Some [''Bearer tok''] \<and>
     to_lower (url_hostname req) = ''gitlab.example''"
proof -
  obtain req body n tls where s:
    "Sent req body n tls \<in> set (fst (do_request (example_client ''gitlab'') unmatched_service example_registry []))"
    using example_sends [OF example_sent_gitlab] .
  have p: "find_provider example_registry (ra_auth_provider (example_args ''gitlab'')) =
      Inr (gitlab_connector gl_example_provider (Some gl_example_table) no_hint)"
    by (simp add: example_args_def example_found)
  have q: "\<not> gl_posture_loud (gl_exposure gl_example_provider)" by code_simp
  have e: "gl_exposure gl_example_provider = gl_build_exposure []" "gl_token gl_example_provider = ''tok''"
    by (simp_all add: gl_example_provider_def gl_token_def)
  have h: "to_lower (gl_served_hostname gl_example_provider) = ''gitlab.example''" by code_simp
  from gitlab_sends_only_reads [OF s example_found(1) p e(1) q] e(2) h show ?thesis
    by (intro exI [of _ req]) simp
qed

theorem structured_response_bounded_witness:
  "\<exists>r. snd (execute_structured (example_client ''github'') unmatched_service example_registry []) = Inr r \<and>
     int (length (sr_body r)) \<le> 10485760"
proof -
  have "is_ok (snd (execute_structured (example_client ''github'') unmatched_service example_registry []))" by code_simp
  then obtain r where r: "snd (execute_structured (example_client ''github'') unmatched_service example_registry []) = Inr r"
    by (auto simp: is_ok_iff)
  with structured_response_bounded [OF r] show ?thesis by fastforce
qed

text \<open>
  The transport owns the authority and the encoding: whatever headers the model lists,
  a request that is built carries no Host and no Accept-Encoding header in any case, and one
  value list per name.
\<close>

theorem reserved_headers_absent:
  assumes "build_request c args = Inr req"
  shows "distinct (map fst (req_header req)) \<and>
    (\<forall>(k, vs) \<in> set (req_header req). \<not> equal_fold k ''Host'' \<and> \<not> equal_fold k ''Accept-Encoding'')"
  using build_request_header [OF assms] by force

theorem reserved_headers_absent_witness:
  "\<exists>req. build_request (example_client ''github'') (example_args ''github'') = Inr req \<and>
     (\<forall>(k, vs) \<in> set (req_header req). \<not> equal_fold k ''Host'')"
proof -
  have "is_ok (build_request (example_client ''github'') (example_args ''github''))" by code_simp
  then obtain req where r: "build_request (example_client ''github'') (example_args ''github'') = Inr req"
    by (auto simp: is_ok_iff)
  from reserved_headers_absent [OF r] r show ?thesis by (intro exI [of _ req]) (auto simp only: case_prod_beta)
qed

text \<open>
  No dial of the session reaches below the floor: with the GitHub and GitLab connectors
  registered in any number, any configuration and any order, the dial guard of a request
  lets through only literal addresses that are no loopback, link-local, metadata or
  unique-local address in any of their spellings.
\<close>

theorem registry_dials_above_floor:
  assumes "\<forall>p \<in> set ps. (\<exists>gp t hint. p = github_connector gp t hint) \<or> (\<exists>gp t hint. p = gitlab_connector gp t hint)"
    and "dial_guard name ps raw address = Inr ()"
  shows "\<exists>a. dial_address address = Some a \<and> \<not> floor_forbidden a"
proof (rule guard_above_floor [OF _ assms(2)])
  show "\<forall>p \<in> set ps. addr_floor_kept p"
    using assms(1) by (auto simp: github_addr_floor gitlab_addr_floor)
qed

theorem registry_dials_above_floor_witness:
  "\<exists>a. dial_address ''140.82.112.5:443'' = Some a \<and> \<not> floor_forbidden a"
proof -
  have "is_ok (dial_guard ''github'' example_registry [] ''140.82.112.5:443'')" by code_simp
  then have g: "dial_guard ''github'' example_registry [] ''140.82.112.5:443'' = Inr ()" by (auto simp: is_ok_iff)
  show ?thesis
    by (rule registry_dials_above_floor [OF _ g]) (simp add: example_registry_def, blast)
qed

end
