(* ===== verification/Go_Codec.thy ===== *)
theory Go_Codec
  imports Host_Admission
begin

text \<open>\<open>strconv\<close> and \<open>encoding/base64\<close>, as far as several components use them.\<close>

text \<open>\<open>strconv.Atoi\<close> on a 64-bit platform.\<close>

definition str_atoi :: "string \<Rightarrow> int option" where
  "str_atoi s =
     (let signed = (s \<noteq> [] \<and> (hd s = CHR ''-'' \<or> hd s = CHR ''+''));
          neg = (s \<noteq> [] \<and> hd s = CHR ''-''); digits = (if signed then tl s else s) in
      if digits = [] then None
      else (case dec_number 0 digits of
          None \<Rightarrow> None
        | Some n \<Rightarrow> let i = (if neg then - int n else int n)
                    in if - (2 ^ 63) \<le> i \<and> i < 2 ^ 63 then Some i else None))"

text \<open>\<open>base64.StdEncoding\<close>.\<close>

definition base64_char :: "int \<Rightarrow> char" where
  "base64_char n = ''ABCDEFGHIJKLMNOPQRSTUVWXYZabcdefghijklmnopqrstuvwxyz0123456789+/'' ! nat n"

fun base64_encode :: "string \<Rightarrow> string" where
  "base64_encode [] = []"
| "base64_encode [a] =
     (let n = int (byte_val a) * 65536 in
      [base64_char (n div 262144), base64_char (n div 4096 mod 64), CHR ''='', CHR ''=''])"
| "base64_encode [a, b] =
     (let n = int (byte_val a) * 65536 + int (byte_val b) * 256 in
      [base64_char (n div 262144), base64_char (n div 4096 mod 64), base64_char (n div 64 mod 64), CHR ''=''])"
| "base64_encode (a # b # c # s) =
     (let n = int (byte_val a) * 65536 + int (byte_val b) * 256 + int (byte_val c) in
      [base64_char (n div 262144), base64_char (n div 4096 mod 64), base64_char (n div 64 mod 64), base64_char (n mod 64)] @
      base64_encode s)"

text \<open>\<open>base64.RawURLEncoding\<close>: the URL alphabet, without padding.\<close>

definition base64_raw_url :: "string \<Rightarrow> string" where
  "base64_raw_url s =
     map (\<lambda>c. if c = CHR ''+'' then CHR ''-'' else if c = CHR ''/'' then CHR ''_'' else c)
       (filter (\<lambda>c. c \<noteq> CHR ''='') (base64_encode s))"

lemma base64_nonempty: "s \<noteq> [] \<Longrightarrow> base64_encode s \<noteq> []"
  by (cases s rule: base64_encode.cases) (auto simp: Let_def)

text \<open>\<open>url.PathEscape\<close>.\<close>

definition path_plain :: "char \<Rightarrow> bool" where
  "path_plain c =
     (let n = byte_val c in
      (97 \<le> n \<and> n \<le> 122) \<or> (65 \<le> n \<and> n \<le> 90) \<or> (48 \<le> n \<and> n \<le> 57) \<or>
      c \<in> {CHR ''-'', CHR ''_'', CHR ''.'', CHR ''~'', CHR ''$'', CHR ''&'', CHR ''+'', CHR '':'', CHR ''='', CHR ''@''})"

definition path_escape :: "string \<Rightarrow> string" where
  "path_escape s = concat (map (\<lambda>c. if path_plain c then [c] else escape_byte c) s)"

text \<open>An escaped text is one path segment.\<close>

lemma hex_digit_not_slash: "n < 16 \<Longrightarrow> hex_digit n \<noteq> CHR ''/''"
  using hex_val_digit [of n] by (auto simp: hex_val_def Let_def byte_val_def dest: sym)

lemma escape_byte_no_slash: "CHR ''/'' \<notin> set (escape_byte c)"
proof -
  have "byte_val c div 16 < 16" "byte_val c mod 16 < 16" using byte_val_less [of c] by (auto simp: div_less_iff_less_mult)
  then show ?thesis using hex_digit_not_slash by (auto simp: escape_byte_def dest: sym)
qed

lemma path_escape_no_slash: "CHR ''/'' \<notin> set (path_escape s)"
proof -
  have "\<not> path_plain CHR ''/''" by (simp add: path_plain_def byte_val_def)
  then show ?thesis using escape_byte_no_slash by (auto simp: path_escape_def split: if_splits)
qed

end
