(* ===== verification/Egress.thy ===== *)
theory Egress
  imports Connectors Go_Codec "HOL-Library.Product_Lexorder" "HOL-Library.List_Lexorder" "HOL-Library.Char_ord"
begin

text \<open>
  \<open>internal/auth/egress.go\<close> and \<open>egress_route.go\<close>: the operator's proxy settings, the
  scrubbing of their credentials out of every text that leaves, and the binding of a
  connection to its route. \<open>url.Parse\<close>, \<open>strconv.Quote\<close> and the proxy selection of
  \<open>golang.org/x/net/http/httpproxy\<close> are parameters.
\<close>

subsection \<open>Proxy settings\<close>

record proxy_url =
  px_scheme :: string
  px_opaque :: string
  px_user :: "(string \<times> string option) option"
  px_host :: string
  px_hostname :: string
  px_port :: string
  px_path :: string
  px_raw_query :: string
  px_force_query :: bool
  px_fragment :: string

datatype proxy_problem = NotValidURL | UnsupportedScheme string | PortRange | PathOrQuery | SocksCredential | ControlCharacter

datatype proxy_error = ProxyError (pe_variable: string) (pe_problem: proxy_problem)

fun first_non_empty :: "(string \<Rightarrow> string option) \<Rightarrow> string list \<Rightarrow> string \<times> string" where
  "first_non_empty lookup [] = ([], [])"
| "first_non_empty lookup [n] = (case lookup n of Some v \<Rightarrow> (v, n) | None \<Rightarrow> ([], n))"
| "first_non_empty lookup (n # ns) =
     (case lookup n of
        Some v \<Rightarrow> if v \<noteq> [] then (v, n) else first_non_empty lookup ns
      | None \<Rightarrow> first_non_empty lookup ns)"

definition max_socks_credential_len :: nat where
  "max_socks_credential_len = 255"

definition socks_credential_fits :: "string \<times> string option \<Rightarrow> bool" where
  "socks_credential_fits u =
     (fst u \<noteq> [] \<and> length (fst u) \<le> max_socks_credential_len \<and>
      length (case snd u of None \<Rightarrow> [] | Some p \<Rightarrow> p) \<le> max_socks_credential_len)"

definition parse_proxy_value ::
    "(string \<Rightarrow> proxy_url option) \<Rightarrow> string \<Rightarrow> string \<Rightarrow> (proxy_error, proxy_url option) result" where
  "parse_proxy_value parse name raw =
     (if raw = [] then Inr None
      else (let u0 = parse raw;
                u1 = (if u0 = None \<or> px_scheme (the u0) = [] \<or> px_host (the u0) = [] then parse (''http://'' @ raw) else u0)
            in case u1 of
                 None \<Rightarrow> Inl (ProxyError name NotValidURL)
               | Some u \<Rightarrow>
                   if px_scheme u \<noteq> ''http'' \<and> px_scheme u \<noteq> ''socks5'' \<and> px_scheme u \<noteq> ''socks5h''
                   then Inl (ProxyError name (UnsupportedScheme (px_scheme u)))
                   else if px_hostname u = [] \<or> admit_host (px_hostname u) \<noteq> Inr () then Inl (ProxyError name NotValidURL)
                   else if px_port u \<noteq> [] \<and> (case str_atoi (px_port u) of None \<Rightarrow> True | Some n \<Rightarrow> n < 1 \<or> n > 65535)
                   then Inl (ProxyError name PortRange)
                   else if px_opaque u \<noteq> [] \<or> (px_path u \<noteq> [] \<and> px_path u \<noteq> ''/'') \<or> px_raw_query u \<noteq> [] \<or>
                           px_fragment u \<noteq> [] \<or> px_force_query u
                   then Inl (ProxyError name PathOrQuery)
                   else if px_user u \<noteq> None \<and> px_scheme u \<noteq> ''http'' \<and> \<not> socks_credential_fits (the (px_user u))
                   then Inl (ProxyError name SocksCredential)
                   else Inr (Some u)))"

definition proxy_default_port :: "string \<Rightarrow> string" where
  "proxy_default_port scheme = (if scheme = ''http'' then ''80'' else ''1080'')"

definition proxy_authority :: "proxy_url \<Rightarrow> string" where
  "proxy_authority p =
     join_host_port (px_hostname p) (if px_port p = [] then proxy_default_port (px_scheme p) else px_port p)"

definition render_proxy :: "proxy_url \<Rightarrow> string" where
  "render_proxy u =
     px_scheme u @ ''://'' @
     join_host_port (px_hostname u) (if px_port u = [] then proxy_default_port (px_scheme u) else px_port u)"

subsection \<open>The spellings of a credential\<close>

text \<open>\<open>Userinfo.String\<close>: what \<open>net/url\<close> escapes in a user name or password.\<close>

definition userinfo_plain :: "char \<Rightarrow> bool" where
  "userinfo_plain c =
     (let n = byte_val c in
      (97 \<le> n \<and> n \<le> 122) \<or> (65 \<le> n \<and> n \<le> 90) \<or> (48 \<le> n \<and> n \<le> 57) \<or>
      c \<in> {CHR ''-'', CHR ''_'', CHR ''.'', CHR ''~'', CHR ''$'', CHR ''&'', CHR ''+'', CHR '','', CHR '';'', CHR ''=''})"

definition escape_userinfo :: "string \<Rightarrow> string" where
  "escape_userinfo s = concat (map (\<lambda>c. if userinfo_plain c then [c] else escape_byte c) s)"

definition userinfo_string :: "string \<times> string option \<Rightarrow> string" where
  "userinfo_string u =
     escape_userinfo (fst u) @ (case snd u of None \<Rightarrow> [] | Some p \<Rightarrow> '':'' @ escape_userinfo p)"

definition min_scrubbed_credential_len :: nat where
  "min_scrubbed_credential_len = 4"

definition quoted_forms :: "(string \<Rightarrow> string) \<Rightarrow> string \<Rightarrow> string list" where
  "quoted_forms quote s = [s, butlast (tl (quote s))]"

definition plain_forms :: "(string \<Rightarrow> string) \<Rightarrow> string \<Rightarrow> string list" where
  "plain_forms quote s = (if length s < min_scrubbed_credential_len then [] else quoted_forms quote s)"

definition credential_forms :: "(string \<Rightarrow> string) \<Rightarrow> proxy_url option \<Rightarrow> string list" where
  "credential_forms quote u =
     (case u of
        None \<Rightarrow> []
      | Some u \<Rightarrow>
          (case px_user u of
             None \<Rightarrow> []
           | Some info \<Rightarrow>
               (let user = fst info; pass = (case snd info of None \<Rightarrow> [] | Some p \<Rightarrow> p); pair = user @ '':'' @ pass in
                if user = [] \<and> pass = [] then []
                else foldl append_new [base64_encode pair]
                       (plain_forms quote user @ plain_forms quote pass @ plain_forms quote (userinfo_string info) @
                        quoted_forms quote pair))))"

definition form_key :: "string \<Rightarrow> int \<times> string" where
  "form_key f = (- int (length f), f)"

definition scrub_forms :: "(string \<Rightarrow> string) \<Rightarrow> proxy_url option list \<Rightarrow> string list" where
  "scrub_forms quote proxies = compact (sort_key form_key (concat (map (credential_forms quote) proxies)))"

subsection \<open>The policy\<close>

record egress =
  eg_https :: "proxy_url option"
  eg_http :: "proxy_url option"
  eg_no_proxy :: string
  eg_secrets :: "string list"

function has_control :: "string \<Rightarrow> bool" where
  "has_control [] = False"
| "has_control (c # s) =
     (let n = utf8_len (c # s); r = take n (c # s) in
      if n = 0 then has_control s
      else byte_val c < 32 \<or> byte_val c = 127 \<or> (n = 2 \<and> byte_val c = 194 \<and> byte_val (r ! 1) < 160) \<or>
           has_control (drop n (c # s)))"
  by pat_completeness auto
termination by (relation "measure length") auto

definition new_egress ::
    "(string \<Rightarrow> proxy_url option) \<Rightarrow> (string \<Rightarrow> string) \<Rightarrow> (string \<Rightarrow> string option) \<Rightarrow> (proxy_error, egress) result" where
  "new_egress parse quote lookup =
     (let (https_raw, https_name) = first_non_empty lookup [''https_proxy'', ''HTTPS_PROXY''];
          (http_raw, http_name) = first_non_empty lookup [''http_proxy'', ''HTTP_PROXY''];
          (no_proxy, no_proxy_name) = first_non_empty lookup [''no_proxy'', ''NO_PROXY'']
      in and_then (parse_proxy_value parse https_name https_raw) (\<lambda>https.
         and_then (parse_proxy_value parse http_name http_raw) (\<lambda>http.
           if has_control no_proxy then Inl (ProxyError no_proxy_name ControlCharacter)
           else Inr \<lparr>eg_https = https, eg_http = http, eg_no_proxy = no_proxy,
                     eg_secrets = scrub_forms quote [https, http]\<rparr>)))"

definition middle_dot :: string where
  "middle_dot = [CHR '' '', CHR 0xC2, CHR 0xB7, CHR '' '']"

definition notice :: "egress \<Rightarrow> string" where
  "notice e =
     (let parts = (case eg_https e of None \<Rightarrow> [] | Some u \<Rightarrow> [''https_proxy '' @ render_proxy u]) @
                  (case eg_http e of None \<Rightarrow> [] | Some u \<Rightarrow> [''http_proxy '' @ render_proxy u]) in
      if parts = [] then []
      else join middle_dot (parts @ (if eg_no_proxy e \<noteq> [] then [''no_proxy '' @ eg_no_proxy e] else [])))"

subsection \<open>Scrubbing\<close>

definition scrub_placeholder :: string where
  "scrub_placeholder = ''[REDACTED:proxy-credential]''"

text \<open>The occurrences of one form. A start past the end would panic; only an empty form gets there.\<close>

function occurrences :: "string \<Rightarrow> string \<Rightarrow> nat \<Rightarrow> (nat \<times> nat) list" where
  "occurrences form s start =
     (if start > length s then []
      else (case str_index (drop start s) form of
          None \<Rightarrow> []
        | Some i \<Rightarrow> (start + i, start + i + length form) # occurrences form s (start + i + 1)))"
  by pat_completeness auto
termination by (relation "measure (\<lambda>(f, s, start). Suc (length s) - start)") auto

declare occurrences.simps [simp del]

fun merge_loop :: "(nat \<times> nat) list \<Rightarrow> (nat \<times> nat) list \<Rightarrow> (nat \<times> nat) list" where
  "merge_loop merged [] = rev merged"
| "merge_loop [] (sp # sps) = merge_loop [sp] sps"
| "merge_loop (m # ms) (sp # sps) =
     (if fst sp \<le> snd m then merge_loop ((fst m, max (snd m) (snd sp)) # ms) sps
      else merge_loop (sp # m # ms) sps)"

definition credential_spans :: "string \<Rightarrow> string list \<Rightarrow> (nat \<times> nat) list" where
  "credential_spans s forms = merge_loop [] (sort_key fst (concat (map (\<lambda>f. occurrences f s 0) forms)))"

fun write_spans :: "string \<Rightarrow> nat \<Rightarrow> (nat \<times> nat) list \<Rightarrow> string" where
  "write_spans s pos [] = drop pos s"
| "write_spans s pos (sp # sps) =
     take (fst sp - pos) (drop pos s) @ scrub_placeholder @ write_spans s (snd sp) sps"

definition scrub :: "egress \<Rightarrow> string \<Rightarrow> string" where
  "scrub e s = (let spans = credential_spans s (eg_secrets e) in if spans = [] then s else write_spans s 0 spans)"

text \<open>\<open>ScrubError\<close>, of an error's text: unchanged, or the wrapper's text.\<close>

definition scrub_error :: "egress \<Rightarrow> string option \<Rightarrow> string option" where
  "scrub_error e err = map_option (scrub e) err"

subsection \<open>Routes\<close>

datatype 'e route_error = RouteDialFailed 'e | ProxyDialMismatch

text \<open>\<open>bindRoute\<close>: the dialer of a transport bound to a route: the guarded one, or the plain one to the proxy alone.\<close>

definition bound_dial ::
    "proxy_url option \<Rightarrow> (string \<Rightarrow> ('e, unit) result) \<Rightarrow> (string \<Rightarrow> ('e, unit) result) \<Rightarrow> string \<Rightarrow>
     ('e route_error, unit) result" where
  "bound_dial route direct_dial proxy_dial addr =
     (case route of
        None \<Rightarrow> map_err RouteDialFailed (direct_dial addr)
      | Some p \<Rightarrow> if addr \<noteq> proxy_authority p then Inl ProxyDialMismatch else map_err RouteDialFailed (proxy_dial addr))"

subsection \<open>What scrubbing does\<close>

text \<open>A position is covered when an occurrence of some form lies over it.\<close>

definition occurs_at :: "string \<Rightarrow> string \<Rightarrow> nat \<Rightarrow> bool" where
  "occurs_at form s a \<longleftrightarrow> take (length form) (drop a s) = form \<and> a + length form \<le> length s"

definition covered :: "string list \<Rightarrow> string \<Rightarrow> nat \<Rightarrow> bool" where
  "covered forms s i \<longleftrightarrow> list_ex (\<lambda>f. list_ex (\<lambda>a. occurs_at f s a \<and> i < a + length f) [0..<Suc i]) forms"

text \<open>The reference: every covered position goes, and each run of them leaves one placeholder.\<close>

fun mask :: "(nat \<Rightarrow> bool) \<Rightarrow> bool \<Rightarrow> nat \<Rightarrow> string \<Rightarrow> string" where
  "mask cov inside i [] = []"
| "mask cov inside i (c # s) =
     (if cov i then (if inside then [] else scrub_placeholder) @ mask cov True (Suc i) s
      else c # mask cov False (Suc i) s)"

definition span_cover :: "(nat \<times> nat) list \<Rightarrow> nat \<Rightarrow> bool" where
  "span_cover sps i \<longleftrightarrow> (\<exists>sp \<in> set sps. fst sp \<le> i \<and> i < snd sp)"

lemma str_index_occurs: "str_index s sub = Some i \<Longrightarrow> occurs_at sub s i"
  using str_index_Some [of s sub i] by (auto simp: occurs_at_def)

lemma occurs_at_shift:
  "occurs_at form s a \<Longrightarrow> start \<le> a \<Longrightarrow>
    take (length form) (drop (a - start) (drop start s)) = form \<and> a - start \<le> length (drop start s)"
  by (auto simp: occurs_at_def intro: diff_le_mono)

lemma occurrences_exact:
  "form \<noteq> [] \<Longrightarrow> (a, b) \<in> set (occurrences form s start) \<longleftrightarrow> start \<le> a \<and> occurs_at form s a \<and> b = a + length form"
proof (induction form s start rule: occurrences.induct)
  case (1 form s start)
  show ?case
  proof (cases "start > length s")
    case True
    with 1(2) show ?thesis by (auto simp: occurrences.simps [of form s start] occurs_at_def)
  next
    case F: False
    show ?thesis
    proof (cases "str_index (drop start s) form")
      case None
      have "\<not> occurs_at form s a" if "start \<le> a"
        using occurs_at_shift [OF _ that, of form s] None unfolding str_index_None by metis
      with F None show ?thesis by (auto simp: occurrences.simps [of form s start])
    next
      case (Some i)
      have o: "occurs_at form s (start + i)"
        using str_index_occurs [OF Some] F by (auto simp: occurs_at_def add.commute)
      have n: "\<not> occurs_at form s a" if "start \<le> a" "a < start + i"
        using occurs_at_shift [OF _ that(1), of form s] str_index_least [OF Some, of "a - start"] that by auto
      have split: "start \<le> a \<longleftrightarrow> (start \<le> a \<and> a < start + i) \<or> a = start + i \<or> start + i + 1 \<le> a" by auto
      have "(a, b) \<in> set (occurrences form s start) \<longleftrightarrow> (a = start + i \<and> b = start + i + length form) \<or>
          (start + i + 1 \<le> a \<and> occurs_at form s a \<and> b = a + length form)"
        using F Some 1(1) [OF F Some 1(2)] by (auto simp: occurrences.simps [of form s start])
      also have "\<dots> \<longleftrightarrow> start \<le> a \<and> occurs_at form s a \<and> b = a + length form"
        using o n split by blast
      finally show ?thesis .
    qed
  qed
qed


lemma covered_iff: "covered forms s i \<longleftrightarrow> (\<exists>f \<in> set forms. \<exists>a \<le> i. occurs_at f s a \<and> i < a + length f)"
  unfolding covered_def list_ex_iff set_upt by (force simp: less_Suc_eq_le simp del: set_upt upt_Suc)

lemma covered_spans:
  "(\<forall>f \<in> set forms. f \<noteq> []) \<Longrightarrow>
    covered forms s i \<longleftrightarrow> span_cover (concat (map (\<lambda>f. occurrences f s 0) forms)) i"
proof -
  assume ne: "\<forall>f \<in> set forms. f \<noteq> []"
  have "span_cover (occurrences f s 0) i \<longleftrightarrow> (\<exists>a \<le> i. occurs_at f s a \<and> i < a + length f)" if "f \<in> set forms" for f
    using occurrences_exact [of f _ _ s 0] ne that by (auto simp: span_cover_def Bex_def)
  moreover have "span_cover (concat (map (\<lambda>f. occurrences f s 0) forms)) i \<longleftrightarrow>
      (\<exists>f \<in> set forms. span_cover (occurrences f s 0) i)"
    by (auto simp: span_cover_def)
  ultimately show ?thesis by (auto simp: covered_iff)
qed

subsection \<open>Merging\<close>

definition separated :: "nat \<Rightarrow> (nat \<times> nat) list \<Rightarrow> bool" where
  "separated n sps \<longleftrightarrow> sorted_wrt (\<lambda>p q. snd p < fst q) sps \<and> (\<forall>p \<in> set sps. fst p < snd p \<and> snd p \<le> n)"

lemma separated_extend:
  "separated n (rev (m # ms)) \<Longrightarrow> fst m \<le> fst sp \<Longrightarrow> fst sp < snd sp \<Longrightarrow> snd sp \<le> n \<Longrightarrow>
    separated n (rev ((fst m, max (snd m) (snd sp)) # ms))"
  by (auto simp: separated_def sorted_wrt_append)

lemma separated_push:
  "separated n (rev (m # ms)) \<Longrightarrow> snd m < fst sp \<Longrightarrow> fst sp < snd sp \<Longrightarrow> snd sp \<le> n \<Longrightarrow>
    separated n (rev (sp # m # ms))"
  by (fastforce simp: separated_def sorted_wrt_append)

lemma merge_loop_separated:
  "separated n (rev ms) \<Longrightarrow> (\<forall>p \<in> set sps. fst p < snd p \<and> snd p \<le> n) \<Longrightarrow> sorted (map fst sps) \<Longrightarrow>
    (\<forall>m \<in> set (take 1 ms). \<forall>p \<in> set sps. fst m \<le> fst p) \<Longrightarrow> separated n (merge_loop ms sps)"
proof (induction ms sps rule: merge_loop.induct)
  case (2 sp sps)
  then show ?case by (simp add: separated_def)
next
  case (3 m ms sp sps)
  then show ?case
    using separated_extend [of n m ms sp] separated_push [of n m ms sp] by auto
qed simp

lemma span_cover_simps [simp]:
  "\<not> span_cover [] i"
  "span_cover (p # sps) i \<longleftrightarrow> (fst p \<le> i \<and> i < snd p) \<or> span_cover sps i"
  by (auto simp: span_cover_def)

lemma span_cover_set: "set xs = set ys \<Longrightarrow> span_cover xs i = span_cover ys i"
  by (simp add: span_cover_def)

lemma merge_loop_cover:
  "sorted (map fst sps) \<Longrightarrow> (\<forall>m \<in> set (take 1 ms). \<forall>p \<in> set sps. fst m \<le> fst p) \<Longrightarrow>
    span_cover (merge_loop ms sps) i \<longleftrightarrow> span_cover ms i \<or> span_cover sps i"
proof (induction ms sps rule: merge_loop.induct)
  case (1 ms)
  then show ?case using span_cover_set [of "rev ms" ms] by simp
next
  case (3 m ms sp sps)
  then show ?case by (cases "fst sp \<le> snd m") (auto simp: max_def)
qed simp

subsection \<open>Writing\<close>

lemma mask_keep:
  "k \<le> length t \<Longrightarrow> (\<And>j. i \<le> j \<Longrightarrow> j < i + k \<Longrightarrow> \<not> cov j) \<Longrightarrow>
    mask cov False i t = take k t @ mask cov False (i + k) (drop k t)"
proof (induction k arbitrary: i t)
  case (Suc k)
  then obtain c t' where t: "t = c # t'" by (cases t) auto
  then show ?case using Suc.IH [of t' "Suc i"] Suc.prems by auto
qed simp

lemma mask_swallow:
  "k \<le> length t \<Longrightarrow> (\<And>j. i \<le> j \<Longrightarrow> j < i + k \<Longrightarrow> cov j) \<Longrightarrow>
    mask cov True i t = mask cov True (i + k) (drop k t)"
proof (induction k arbitrary: i t)
  case (Suc k)
  then obtain c t' where t: "t = c # t'" by (cases t) auto
  then show ?case using Suc.IH [of t' "Suc i"] Suc.prems by auto
qed simp

lemma mask_span:
  assumes "0 < k" "k \<le> length t" "\<And>j. i \<le> j \<Longrightarrow> j < i + k \<Longrightarrow> cov j" "\<not> cov (i + k)"
  shows "mask cov False i t = scrub_placeholder @ mask cov False (i + k) (drop k t)"
proof -
  obtain c t' where t: "t = c # t'" using assms by (cases t) auto
  obtain k' where k: "k = Suc k'" using assms(1) by (cases k) auto
  have "mask cov False i t = scrub_placeholder @ mask cov True (Suc i) t'"
    using assms(1,3) t by simp
  also have "mask cov True (Suc i) t' = mask cov True (i + k) (drop k t)"
    using mask_swallow [of k' t' "Suc i" cov] assms(2,3) t k by simp
  also have "\<dots> = mask cov False (i + k) (drop k t)" using assms(4) by (cases "drop k t") auto
  finally show ?thesis .
qed

lemma separated_not_covered:
  "separated n ((a, b) # sps) \<Longrightarrow> i \<le> b \<Longrightarrow> \<not> span_cover sps i"
  by (force simp: separated_def span_cover_def)

lemma write_spans_mask:
  "separated (length s) sps \<Longrightarrow> pos \<le> length s \<Longrightarrow> (\<forall>p \<in> set sps. pos \<le> fst p) \<Longrightarrow>
    (\<And>j. pos \<le> j \<Longrightarrow> cov j \<longleftrightarrow> span_cover sps j) \<Longrightarrow>
    write_spans s pos sps = mask cov False pos (drop pos s)"
proof (induction sps arbitrary: pos)
  case Nil
  then show ?case using mask_keep [of "length s - pos" "drop pos s" pos cov] by simp
next
  case (Cons sp sps)
  obtain a b where sp: "sp = (a, b)" by (cases sp)
  have ab: "a < b" "b \<le> length s" "pos \<le> a" "separated (length s) sps" "\<forall>p \<in> set sps. b \<le> fst p"
    using Cons.prems(1,3) sp by (auto simp: separated_def)
  have after: "cov j \<longleftrightarrow> span_cover sps j" if "b \<le> j" for j
    using Cons.prems(4) [of j] that ab sp by auto
  have gap: "\<not> cov j" if "pos \<le> j" "j < a" for j
    using Cons.prems(4) [OF that(1)] that ab sp separated_not_covered [of "length s" a b sps j] Cons.prems(1) by auto
  have span: "cov j" if "a \<le> j" "j < b" for j
    using Cons.prems(4) [of j] that ab sp by auto
  have stop: "\<not> cov b" using after [of b] separated_not_covered [of "length s" a b sps b] Cons.prems(1) sp by auto
  have "mask cov False pos (drop pos s) = take (a - pos) (drop pos s) @ mask cov False a (drop a s)"
    using mask_keep [of "a - pos" "drop pos s" pos cov] gap ab by simp
  also have "mask cov False a (drop a s) = scrub_placeholder @ mask cov False b (drop b s)"
    using mask_span [of "b - a" "drop a s" a cov] span stop ab by simp
  also have "mask cov False b (drop b s) = write_spans s b sps"
    using Cons.IH [of b] ab after by simp
  finally show ?case using sp by simp
qed


lemma scrub_mask:
  assumes "\<forall>f \<in> set (eg_secrets e). f \<noteq> []"
  shows "scrub e s = mask (covered (eg_secrets e) s) False 0 s"
proof -
  let ?found = "concat (map (\<lambda>f. occurrences f s 0) (eg_secrets e))"
  let ?sps = "credential_spans s (eg_secrets e)"
  have "fst p < snd p \<and> snd p \<le> length s" if p: "p \<in> set ?found" for p
  proof -
    obtain f where "f \<in> set (eg_secrets e)" "(fst p, snd p) \<in> set (occurrences f s 0)" using p by auto
    with occurrences_exact [of f "fst p" "snd p" s 0] assms show ?thesis by (auto simp: occurs_at_def)
  qed
  then have sep: "separated (length s) ?sps"
    unfolding credential_spans_def by (intro merge_loop_separated) (auto simp: separated_def)
  have "span_cover ?sps j \<longleftrightarrow> span_cover ?found j" for j
    unfolding credential_spans_def
    using merge_loop_cover [of "sort_key fst ?found" "[]" j] span_cover_set [of "sort_key fst ?found" ?found j] by simp
  then have "covered (eg_secrets e) s j \<longleftrightarrow> span_cover ?sps j" for j
    using covered_spans [OF assms] by simp
  then have "write_spans s 0 ?sps = mask (covered (eg_secrets e) s) False 0 s"
    using write_spans_mask [OF sep, of 0 "covered (eg_secrets e) s"] by simp
  then show ?thesis by (auto simp: scrub_def Let_def)
qed

subsection \<open>The policy read from the environment\<close>

lemma parse_proxy_value_Inr:
  "parse_proxy_value parse name raw = Inr r \<Longrightarrow>
     case r of None \<Rightarrow> raw = []
     | Some u \<Rightarrow> px_scheme u \<in> {''http'', ''socks5'', ''socks5h''} \<and> px_hostname u \<noteq> [] \<and> admit_host (px_hostname u) = Inr () \<and>
         (px_port u \<noteq> [] \<longrightarrow> (\<exists>n. str_atoi (px_port u) = Some n \<and> 1 \<le> n \<and> n \<le> 65535)) \<and> px_opaque u = [] \<and>
         px_path u \<in> {[], ''/''} \<and> px_raw_query u = [] \<and> px_fragment u = [] \<and>
         (\<forall>info. px_user u = Some info \<and> px_scheme u \<noteq> ''http'' \<longrightarrow> socks_credential_fits info)"
  unfolding parse_proxy_value_def Let_def by (auto split: if_splits option.splits)

lemma parse_proxy_value_error: "parse_proxy_value parse name raw = Inl e \<Longrightarrow> pe_variable e = name \<and> raw \<noteq> []"
  unfolding parse_proxy_value_def Let_def by (auto split: if_splits option.splits)

lemma new_egress_Inr:
  "new_egress parse quote lookup = Inr e \<Longrightarrow>
     \<exists>hn hr pn pr. parse_proxy_value parse hn hr = Inr (eg_https e) \<and> parse_proxy_value parse pn pr = Inr (eg_http e) \<and>
       eg_secrets e = scrub_forms quote [eg_https e, eg_http e] \<and> \<not> has_control (eg_no_proxy e)"
proof -
  assume h: "new_egress parse quote lookup = Inr e"
  obtain hr hn where 1: "first_non_empty lookup [''https_proxy'', ''HTTPS_PROXY''] = (hr, hn)" by fastforce
  obtain pr pn where 2: "first_non_empty lookup [''http_proxy'', ''HTTP_PROXY''] = (pr, pn)" by fastforce
  obtain nr nn where 3: "first_non_empty lookup [''no_proxy'', ''NO_PROXY''] = (nr, nn)" by fastforce
  have "parse_proxy_value parse hn hr = Inr (eg_https e) \<and> parse_proxy_value parse pn pr = Inr (eg_http e) \<and>
      eg_secrets e = scrub_forms quote [eg_https e, eg_http e] \<and> \<not> has_control (eg_no_proxy e)"
    using h unfolding new_egress_def 1 2 3 by (auto simp: result_elim split: if_splits)
  then show ?thesis by blast
qed

lemma quoted_forms_nonempty:
  "(\<And>x. x \<noteq> [] \<Longrightarrow> 2 < length (quote x)) \<Longrightarrow> s \<noteq> [] \<Longrightarrow> f \<in> set (quoted_forms quote s) \<Longrightarrow> f \<noteq> []"
  using length_butlast [of "tl (quote s)"] by (fastforce simp: quoted_forms_def)

lemma credential_forms_nonempty:
  assumes q: "\<And>x. x \<noteq> [] \<Longrightarrow> 2 < length (quote x)" and f: "f \<in> set (credential_forms quote u)"
  shows "f \<noteq> []"
proof -
  have pl: "g \<noteq> []" if "g \<in> set (plain_forms quote s)" for g s
  proof -
    from that have "\<not> length s < min_scrubbed_credential_len" and m: "g \<in> set (quoted_forms quote s)"
      by (simp_all add: plain_forms_def split: if_split_asm)
    then have "s \<noteq> []" by (auto simp: min_scrubbed_credential_len_def)
    with m show ?thesis using quoted_forms_nonempty [of quote s g] q by blast
  qed
  from f obtain v info where u: "u = Some v" "px_user v = Some info"
    by (cases u; cases "px_user (the u)") (auto simp: credential_forms_def)
  define pass where "pass = (case snd info of None \<Rightarrow> [] | Some p \<Rightarrow> p)"
  define pair where "pair = fst info @ '':'' @ pass"
  have pr: "pair \<noteq> []" by (simp add: pair_def)
  have "f \<in> set (foldl append_new [base64_encode pair]
      (plain_forms quote (fst info) @ plain_forms quote pass @ plain_forms quote (userinfo_string info) @ quoted_forms quote pair))"
    using f u unfolding credential_forms_def pass_def [symmetric] pair_def by (auto simp: Let_def pass_def split: if_splits)
  then consider "f = base64_encode pair" | s where "f \<in> set (plain_forms quote s)" | "f \<in> set (quoted_forms quote pair)"
    by (auto simp: set_foldl_append_new)
  then show ?thesis
  proof cases
    case 1
    then show ?thesis using base64_nonempty [OF pr] by simp
  next
    case 2
    then show ?thesis by (rule pl)
  next
    case 3
    then show ?thesis using quoted_forms_nonempty [of quote pair f] q pr by blast
  qed
qed


lemma scrub_forms_nonempty:
  "(\<And>x. x \<noteq> [] \<Longrightarrow> 2 < length (quote x)) \<Longrightarrow> f \<in> set (scrub_forms quote ps) \<Longrightarrow> f \<noteq> []"
  using credential_forms_nonempty [of quote f] by (auto simp: scrub_forms_def set_compact)

text \<open>The startup line shows nothing of a credential.\<close>

definition drop_user :: "proxy_url option \<Rightarrow> proxy_url option" where
  "drop_user u = map_option (\<lambda>u. u\<lparr>px_user := None\<rparr>) u"

lemma notice_without_credentials:
  "notice (e\<lparr>eg_https := drop_user (eg_https e), eg_http := drop_user (eg_http e)\<rparr>) = notice e"
  by (simp add: notice_def drop_user_def render_proxy_def split: option.splits)

subsection \<open>Properties\<close>

text \<open>
  C34. Scrubbing is exact: with a policy read from the environment, \<open>Scrub\<close> removes precisely
  the positions some spelling of a proxy credential occupies in the original text, overlapping
  occurrences included, and leaves one placeholder for each maximal run of them; everything
  else is kept. Of \<open>strconv.Quote\<close> only this is used: it adds two quotes.
\<close>

theorem scrub_exact:
  assumes "\<forall>x. x \<noteq> [] \<longrightarrow> 2 < length (quote x)" and "new_egress parse quote lookup = Inr e"
  shows "scrub e s = mask (covered (eg_secrets e) s) False 0 s"
proof -
  from new_egress_Inr [OF assms(2)] have "eg_secrets e = scrub_forms quote [eg_https e, eg_http e]" by blast
  then show ?thesis using scrub_mask scrub_forms_nonempty [of quote] assms(1) by metis
qed

definition example_proxy :: proxy_url where
  "example_proxy = \<lparr>px_scheme = ''http'', px_opaque = [], px_user = Some (''al'', Some ''swordfish''), px_host = ''p:80'',
     px_hostname = ''p'', px_port = ''80'', px_path = [], px_raw_query = [], px_force_query = False, px_fragment = []\<rparr>"

definition example_policy :: "(proxy_error, egress) result" where
  "example_policy = new_egress (\<lambda>raw. Some example_proxy) (\<lambda>s. ''Q'' @ s @ ''Q'')
     (\<lambda>n. if n = ''https_proxy'' then Some ''http://al:swordfish@p:80'' else None)"

definition example_forms :: "string list" where
  "example_forms = [''YWw6c3dvcmRmaXNo'', ''al:swordfish'', ''swordfish'']"

lemma example_policy_value:
  "example_policy = Inr \<lparr>eg_https = Some example_proxy, eg_http = None, eg_no_proxy = [], eg_secrets = example_forms\<rparr>"
  by code_simp

theorem scrub_exact_witness:
  "\<exists>e. example_policy = Inr e \<and>
     scrub e ''EOF al:swordfish'' = mask (covered (eg_secrets e) ''EOF al:swordfish'') False 0 ''EOF al:swordfish'' \<and>
     scrub e ''EOF al:swordfish'' = ''EOF [REDACTED:proxy-credential]''"
proof -
  let ?e = "\<lparr>eg_https = Some example_proxy, eg_http = None, eg_no_proxy = [], eg_secrets = example_forms\<rparr>"
  let ?q = "\<lambda>s. ''Q'' @ s @ ''Q''"
  have q: "\<forall>x. x \<noteq> [] \<longrightarrow> 2 < length (?q x)" by simp
  have "scrub ?e ''EOF al:swordfish'' = mask (covered (eg_secrets ?e) ''EOF al:swordfish'') False 0 ''EOF al:swordfish''"
    by (rule scrub_exact [OF q example_policy_value [unfolded example_policy_def]])
  moreover have "scrub ?e ''EOF al:swordfish'' = ''EOF [REDACTED:proxy-credential]''" by code_simp
  ultimately show ?thesis using example_policy_value by blast
qed

text \<open>
  A policy is only ever built of usable proxies, and its dialers reach nothing else: each
  proxy has a supported scheme, an admitted host and a port in range, and a connection bound to
  a route goes to an address above the floor when the route is direct, and to the proxy's own
  authority when it is not.
\<close>

theorem egress_dial_confined:
  assumes e: "new_egress parse quote lookup = Inr e" and r: "route \<in> {None, eg_https e, eg_http e}"
    and ps: "\<forall>p \<in> set ps. (\<exists>g c h. p = github_connector g c h) \<or> (\<exists>g c h. p = gitlab_connector g c h)"
    and ok: "bound_dial route (dial_guard name ps raw) plain addr = Inr ()"
  shows "case route of
      None \<Rightarrow> \<exists>a. dial_address addr = Some a \<and> \<not> floor_forbidden a
    | Some p \<Rightarrow> addr = proxy_authority p \<and> px_scheme p \<in> {''http'', ''socks5'', ''socks5h''} \<and>
        admit_host (px_hostname p) = Inr () \<and>
        (px_port p = [] \<or> (\<exists>n. str_atoi (px_port p) = Some n \<and> 1 \<le> n \<and> n \<le> 65535))"
proof (cases route)
  case None
  then have "dial_guard name ps raw addr = Inr ()" using ok by (simp add: bound_dial_def map_err_Inr)
  moreover have "\<forall>p \<in> set ps. addr_floor_kept p" using ps by (auto simp: github_addr_floor gitlab_addr_floor)
  ultimately show ?thesis using guard_above_floor None by fastforce
next
  case (Some p)
  obtain hn hr pn pr where "parse_proxy_value parse hn hr = Inr (eg_https e)" "parse_proxy_value parse pn pr = Inr (eg_http e)"
    using new_egress_Inr [OF e] by blast
  moreover have "eg_https e = Some p \<or> eg_http e = Some p" using r Some by auto
  ultimately obtain n v where "parse_proxy_value parse n v = Inr (Some p)" by metis
  from parse_proxy_value_Inr [OF this] Some ok show ?thesis by (auto simp: bound_dial_def split: if_splits)
qed


theorem egress_dial_confined_witness:
  "\<exists>e. example_policy = Inr e \<and>
     bound_dial (eg_https e) (dial_guard ''github'' ([] :: unit conn_error provider list) []) (\<lambda>_. Inr ()) ''p:80'' = Inr () \<and>
     ''p:80'' = proxy_authority example_proxy"
proof -
  let ?e = "\<lparr>eg_https = Some example_proxy, eg_http = None, eg_no_proxy = [], eg_secrets = example_forms\<rparr>"
  let ?g = "dial_guard ''github'' ([] :: unit conn_error provider list) []"
  have a: "proxy_authority example_proxy = ''p:80''" by code_simp
  have ok: "bound_dial (Some example_proxy) ?g (\<lambda>_. Inr ()) ''p:80'' = Inr ()" by (simp add: bound_dial_def a)
  have "case Some example_proxy of None \<Rightarrow> \<exists>a. dial_address ''p:80'' = Some a \<and> \<not> floor_forbidden a
    | Some p \<Rightarrow> ''p:80'' = proxy_authority p \<and> px_scheme p \<in> {''http'', ''socks5'', ''socks5h''} \<and>
        admit_host (px_hostname p) = Inr () \<and>
        (px_port p = [] \<or> (\<exists>n. str_atoi (px_port p) = Some n \<and> 1 \<le> n \<and> n \<le> 65535))"
    by (rule egress_dial_confined [OF example_policy_value [unfolded example_policy_def] _ _ ok]) simp_all
  with ok show ?thesis using example_policy_value by force
qed

end
