(* ===== verification/Table_Cache.thy ===== *)
theory Table_Cache
  imports Github_Gate "HOL-Library.Word"
begin

text \<open>
  \<open>internal/cache/cache.go\<close>: the on-disk TTL cache in front of every policy table. The
  files, the clock and the fetch are the environment of a call, and another process may change
  the files at any time; the cache itself is the memoised payload and its files. A time is its
  nanoseconds.
\<close>

subsection \<open>State\<close>

record disk =
  dk_data :: "string option"
  dk_meta :: "string option"

record 'a cache =
  ca_loaded :: bool
  ca_data :: "'a option"
  ca_disk :: disk

text \<open>What a cache was built with; \<open>cc_decode_meta\<close> and \<open>cc_encode_meta\<close> are the JSON of
  \<open>diskMeta\<close>.\<close>

record 'a cache_config =
  cc_ttl :: int
  cc_parse :: "string \<Rightarrow> 'a option"
  cc_decode_meta :: "string \<Rightarrow> int option"
  cc_encode_meta :: "int \<Rightarrow> string"
  cc_max_disk :: int

text \<open>
  One call's environment: whether the files can be read, the clock readings, the fetch, what
  other processes do to the files while it runs, and how each file system call ends (a failed
  write leaves the file as given).
\<close>

record load_env =
  le_readable :: bool
  le_now :: int
  le_fetch :: "string option"
  le_meanwhile :: "disk \<Rightarrow> disk"
  le_later :: int
  le_mkdir_ok :: bool
  le_write_data :: "string option option"  \<comment> \<open>\<open>Some d\<close>: it failed and left \<open>d\<close>\<close>
  le_write_meta :: "string option option"
  le_persist_now :: int

subsection \<open>Operations\<close>

definition time_since :: "int \<Rightarrow> int \<Rightarrow> int" where
  "time_since t u = max (- (2 ^ 63)) (min (2 ^ 63 - 1) (t - u))"

definition read_data :: "'a cache_config \<Rightarrow> bool \<Rightarrow> disk \<Rightarrow> string option" where
  "read_data cf readable d =
     (if \<not> readable then None
      else (case dk_data d of
          None \<Rightarrow> None
        | Some raw \<Rightarrow>
            if cc_max_disk cf \<le> 0 then Some raw
            else if int (length (take (nat (cc_max_disk cf + 1)) raw)) > cc_max_disk cf then None else Some raw))"

definition try_load_disk :: "'a cache_config \<Rightarrow> bool \<Rightarrow> int \<Rightarrow> disk \<Rightarrow> ('a \<times> int) option" where
  "try_load_disk cf readable now d =
     (case read_data cf readable d of
        None \<Rightarrow> None
      | Some raw \<Rightarrow>
          (case (if readable then dk_meta d else None) of
             None \<Rightarrow> None
           | Some meta_raw \<Rightarrow>
               (case cc_decode_meta cf meta_raw of
                  None \<Rightarrow> None
                | Some fetched_at \<Rightarrow>
                    (case cc_parse cf raw of
                       None \<Rightarrow> None
                     | Some parsed \<Rightarrow> Some (parsed, time_since now fetched_at)))))"

definition persist_disk :: "'a cache_config \<Rightarrow> load_env \<Rightarrow> string \<Rightarrow> disk \<Rightarrow> disk" where
  "persist_disk cf env raw d =
     (if \<not> le_mkdir_ok env then d
      else (case le_write_data env of
          Some left_over \<Rightarrow> d\<lparr>dk_data := left_over\<rparr>
        | None \<Rightarrow>
            d\<lparr>dk_data := Some raw,
              dk_meta := (case le_write_meta env of
                  Some left_over \<Rightarrow> left_over
                | None \<Rightarrow> Some (cc_encode_meta cf (le_persist_now env)))\<rparr>))"

definition cache_load :: "'a cache_config \<Rightarrow> load_env \<Rightarrow> disk \<Rightarrow> 'a option \<times> disk" where
  "cache_load cf env d =
     (let fallback = (let d1 = le_meanwhile env d in
            case le_fetch env of
              None \<Rightarrow> (map_option fst (try_load_disk cf (le_readable env) (le_later env) d1), d1)
            | Some raw \<Rightarrow>
                (case cc_parse cf raw of
                   None \<Rightarrow> (None, d1)
                 | Some parsed \<Rightarrow> (Some parsed, persist_disk cf env raw d1)))
      in case try_load_disk cf (le_readable env) (le_now env) d of
           Some (disk_table, age) \<Rightarrow> if age \<le> cc_ttl cf then (Some disk_table, d) else fallback
         | None \<Rightarrow> fallback)"

definition cache_get :: "'a cache_config \<Rightarrow> load_env \<Rightarrow> 'a cache \<Rightarrow> 'a option \<times> 'a cache" where
  "cache_get cf env c =
     (if ca_loaded c then (ca_data c, c)
      else (case cache_load cf env (ca_disk c) of
          (Some t, d) \<Rightarrow> (Some t, c\<lparr>ca_data := Some t, ca_loaded := True, ca_disk := d\<rparr>)
        | (None, d) \<Rightarrow> (ca_data c, c\<lparr>ca_disk := d\<rparr>)))"

definition cache_peek :: "'a cache \<Rightarrow> 'a option" where
  "cache_peek c = ca_data c"

text \<open>\<open>TryPeek\<close>; the flag tells whether the lock is free.\<close>

definition cache_try_peek :: "bool \<Rightarrow> 'a cache \<Rightarrow> 'a option" where
  "cache_try_peek free c = (if \<not> free then None else ca_data c)"

definition new_cache :: "disk \<Rightarrow> 'a cache" where
  "new_cache d = \<lparr>ca_loaded = False, ca_data = None, ca_disk = d\<rparr>"

text \<open>\<open>NewNamedCache\<close>: what is fetched is distilled and serialised, what is read is admitted.\<close>

definition named_fetch ::
    "('r, string) result \<Rightarrow> (string \<Rightarrow> ('r, 'a) result) \<Rightarrow> ('a \<Rightarrow> string) \<Rightarrow> string option" where
  "named_fetch fetched distill serialize =
     (case fetched of
        Inl _ \<Rightarrow> None
      | Inr raw \<Rightarrow> (case distill raw of Inl _ \<Rightarrow> None | Inr t \<Rightarrow> Some (serialize t)))"

definition named_parse :: "(string \<Rightarrow> 'a option) \<Rightarrow> ('a \<Rightarrow> ('e, unit) result) \<Rightarrow> string \<Rightarrow> 'a option" where
  "named_parse unmarshal admit raw =
     (case unmarshal raw of
        None \<Rightarrow> None
      | Some t \<Rightarrow> (case admit t of Inl _ \<Rightarrow> None | Inr _ \<Rightarrow> Some t))"

subsection \<open>Histories\<close>

text \<open>What may happen to a cache: a read, or another process writing its files.\<close>

datatype cache_op = Get load_env | Foreign "disk \<Rightarrow> disk"

fun cache_step :: "'a cache_config \<Rightarrow> cache_op \<Rightarrow> 'a cache \<Rightarrow> 'a option \<times> 'a cache" where
  "cache_step cf (Get env) c = cache_get cf env c"
| "cache_step cf (Foreign f) c = (ca_data c, c\<lparr>ca_disk := f (ca_disk c)\<rparr>)"

fun cache_run :: "'a cache_config \<Rightarrow> cache_op list \<Rightarrow> 'a cache \<Rightarrow> 'a option list \<times> 'a cache" where
  "cache_run cf [] c = ([], c)"
| "cache_run cf (x # xs) c =
     (case cache_step cf x c of (r, c1) \<Rightarrow> (case cache_run cf xs c1 of (rs, c2) \<Rightarrow> (r # rs, c2)))"

definition cache_ok :: "'a cache_config \<Rightarrow> 'a cache \<Rightarrow> bool" where
  "cache_ok cf c \<longleftrightarrow> (ca_loaded c \<longleftrightarrow> ca_data c \<noteq> None) \<and>
     (\<forall>t. ca_data c = Some t \<longrightarrow> (\<exists>raw. cc_parse cf raw = Some t))"

lemma try_load_parsed: "try_load_disk cf ok now d = Some (t, age) \<Longrightarrow> \<exists>raw. cc_parse cf raw = Some t"
  by (auto simp: try_load_disk_def split: option.split_asm)

lemma cache_load_parsed: "cache_load cf env d = (Some t, d') \<Longrightarrow> \<exists>raw. cc_parse cf raw = Some t"
  by (auto simp: cache_load_def Let_def split: option.split_asm prod.split_asm if_split_asm dest: try_load_parsed)

lemma cache_step_ok:
  assumes "cache_ok cf c" "cache_step cf x c = (r, c')"
  shows "cache_ok cf c' \<and> (r = ca_data c') \<and> (ca_data c \<noteq> None \<longrightarrow> ca_data c' = ca_data c)"
proof (cases x)
  case (Foreign f)
  with assms show ?thesis by (auto simp: cache_ok_def)
next
  case (Get env)
  obtain t d where l: "cache_load cf env (ca_disk c) = (t, d)" by (metis prod.exhaust)
  show ?thesis
  proof (cases "ca_loaded c")
    case True
    with Get assms have "r = ca_data c \<and> c' = c" by (auto simp: cache_get_def)
    with assms(1) show ?thesis by blast
  next
    case False
    with assms(1) have n: "ca_data c = None" by (simp add: cache_ok_def)
    show ?thesis
    proof (cases t)
      case None
      with Get assms False l n have "r = None" "c' = c\<lparr>ca_disk := d\<rparr>" by (simp_all add: cache_get_def)
      with n False show ?thesis by (simp add: cache_ok_def)
    next
      case (Some y)
      with Get False l have e: "cache_step cf x c = (Some y, c\<lparr>ca_data := Some y, ca_loaded := True, ca_disk := d\<rparr>)"
        by (simp add: cache_get_def)
      have "r = Some y" "c' = c\<lparr>ca_data := Some y, ca_loaded := True, ca_disk := d\<rparr>"
        using assms(2) unfolding e by blast+
      with n cache_load_parsed [OF l [unfolded Some]] show ?thesis by (simp add: cache_ok_def)
    qed
  qed
qed

lemma cache_run_ok:
  "cache_ok cf c \<Longrightarrow> cache_run cf xs c = (rs, c') \<Longrightarrow>
     cache_ok cf c' \<and> (\<forall>t. Some t \<in> set rs \<longrightarrow> ca_data c' = Some t) \<and> (ca_data c \<noteq> None \<longrightarrow> ca_data c' = ca_data c)"
proof (induction xs arbitrary: c rs)
  case (Cons x xs)
  obtain r c1 where s: "cache_step cf x c = (r, c1)" by (metis prod.exhaust)
  obtain rs1 c2 where r: "cache_run cf xs c1 = (rs1, c2)" by (metis prod.exhaust)
  have e: "rs = r # rs1" "c' = c2" using Cons.prems(2) s r by simp_all
  note k = cache_step_ok [OF Cons.prems(1) s]
  note q = Cons.IH [OF conjunct1 [OF k] r [folded e(2)]]
  have "ca_data c' = Some t" if "Some t \<in> set rs" for t
  proof (cases "Some t = r")
    case True
    with k have "ca_data c1 = Some t" by metis
    with q show ?thesis by simp
  next
    case False
    with that q e(1) show ?thesis by simp
  qed
  with k q show ?case by metis
qed auto

lemma new_cache_ok: "cache_ok cf (new_cache d)"
  by (simp add: cache_ok_def new_cache_def)

text \<open>
  C35. A poisoned table never becomes policy: whatever the network answers and whatever
  is planted in the cache files, before or while the process runs, every table a cache
  built by \<open>NewNamedCache\<close> ever hands out is an admitted one, and it is the same table
  from the first one on.
\<close>

theorem cache_serves_admitted:
  assumes "cc_parse cf = named_parse unmarshal admit" "cache_run cf xs (new_cache d) = (rs, c')"
  shows "list_all (\<lambda>r. case r of None \<Rightarrow> True | Some t \<Rightarrow> admit t = Inr () \<and> cache_peek c' = Some t) rs"
proof -
  have "admit t = Inr () \<and> cache_peek c' = Some t" if "Some t \<in> set rs" for t
  proof -
    from cache_run_ok [OF new_cache_ok assms(2)] that have c: "ca_data c' = Some t" "cache_ok cf c'" by blast+
    then obtain raw where "cc_parse cf raw = Some t" by (auto simp: cache_ok_def)
    with assms(1) c(1) show ?thesis by (auto simp: named_parse_def cache_peek_def split: option.splits sum.splits)
  qed
  then show ?thesis by (auto simp: list_all_iff split: option.splits)
qed

text \<open>
  What one load returns, on every branch: a fresh file's table without a fetch; else
  the fetched one, once it parses; else, when the fetch fails, the stale file's; else nothing.
\<close>

theorem cache_load_cases:
  "fst (cache_load cf env d) =
     (let old = try_load_disk cf (le_readable env) (le_now env) d;
          stale = try_load_disk cf (le_readable env) (le_later env) (le_meanwhile env d)
      in if old \<noteq> None \<and> snd (the old) \<le> cc_ttl cf then Some (fst (the old))
         else if le_fetch env \<noteq> None then Option.bind (le_fetch env) (cc_parse cf)
         else map_option fst stale)"
  by (auto simp: cache_load_def Let_def split: option.splits prod.splits)

text \<open>
  What a process fetched and could write, the next one reads back within the TTL,
  without fetching: the payload and its age survive the files (given that the time survives the
  metadata, and that the payload fits the bound).
\<close>

theorem cache_persists:
  assumes "cache_get cf env (new_cache d) = (Some t, c1)" "le_fetch env = Some raw"
    and "try_load_disk cf (le_readable env) (le_now env) d = None"
    and "le_mkdir_ok env" "le_write_data env = None" "le_write_meta env = None"
    and "cc_decode_meta cf (cc_encode_meta cf (le_persist_now env)) = Some (le_persist_now env)"
    and "cc_max_disk cf \<le> 0 \<or> int (length raw) \<le> cc_max_disk cf"
    and "le_readable env'" "le_persist_now env \<le> le_now env'" "le_now env' - le_persist_now env \<le> cc_ttl cf"
    and "cc_ttl cf < 2 ^ 63"
  shows "fst (cache_get cf (env'\<lparr>le_fetch := None\<rparr>) (new_cache (ca_disk c1))) = Some t"
proof -
  have p: "cc_parse cf raw = Some t" and c: "ca_disk c1 = persist_disk cf env raw (le_meanwhile env d)"
    using assms(1-3) by (auto simp: cache_get_def new_cache_def cache_load_def Let_def split: option.split_asm)
  have r: "read_data cf True (ca_disk c1) = Some raw"
    using assms(4-6,8) by (auto simp: read_data_def c persist_disk_def)
  have "try_load_disk cf True (le_now env') (ca_disk c1) = Some (t, time_since (le_now env') (le_persist_now env))"
    using r p assms(4-7) by (simp add: try_load_disk_def c persist_disk_def)
  moreover have "time_since (le_now env') (le_persist_now env) \<le> cc_ttl cf"
    using assms(10,11) by (simp add: time_since_def)
  ultimately show ?thesis using assms(9) by (simp add: cache_get_def new_cache_def cache_load_def)
qed

text \<open>A GitHub table cache: only the empty table is a payload.\<close>

definition gh_cache_config :: "gh_table cache_config" where
  "gh_cache_config =
     \<lparr>cc_ttl = 100,
      cc_parse = named_parse (\<lambda>raw. if raw = ''{}'' then Some \<lparr>by_method = [], multi_segment = []\<rparr> else None) gh_admit_table,
      cc_decode_meta = (\<lambda>s. Some (int (length s))), cc_encode_meta = (\<lambda>t. replicate (nat t) (CHR ''x'')),
      cc_max_disk = 0\<rparr>"

definition sample_load :: load_env where
  "sample_load = \<lparr>le_readable = True, le_now = 0, le_fetch = Some ''{}'', le_meanwhile = (\<lambda>d. d), le_later = 0,
     le_mkdir_ok = True, le_write_data = None, le_write_meta = None, le_persist_now = 0\<rparr>"

definition planted :: disk where
  "planted = \<lparr>dk_data = Some ''poison'', dk_meta = Some []\<rparr>"

theorem cache_serves_admitted_witness:
  "\<exists>rs c'. cache_run gh_cache_config [Get sample_load, Foreign (\<lambda>d. planted), Get sample_load] (new_cache planted) = (rs, c') \<and>
     length rs = 3 \<and> list_all (\<lambda>r. case r of None \<Rightarrow> True | Some t \<Rightarrow> gh_admit_table t = Inr () \<and> cache_peek c' = Some t) rs"
proof -
  obtain rs c' where r: "cache_run gh_cache_config [Get sample_load, Foreign (\<lambda>d. planted), Get sample_load]
      (new_cache planted) = (rs, c')" by (metis prod.exhaust)
  then have "length rs = 3" by (auto split: prod.splits)
  moreover have "list_all (\<lambda>r. case r of None \<Rightarrow> True | Some t \<Rightarrow> gh_admit_table t = Inr () \<and> cache_peek c' = Some t) rs"
    by (rule cache_serves_admitted [OF _ r]) (simp add: gh_cache_config_def)
  ultimately show ?thesis using r by blast
qed

theorem cache_persists_witness:
  "\<exists>t c1. cache_get gh_cache_config sample_load (new_cache planted) = (Some t, c1) \<and>
     fst (cache_get gh_cache_config (sample_load\<lparr>le_fetch := None\<rparr>) (new_cache (ca_disk c1))) = Some t"
proof -
  have "fst (cache_get gh_cache_config sample_load (new_cache planted)) \<noteq> None" by code_simp
  then obtain t c1 where g: "cache_get gh_cache_config sample_load (new_cache planted) = (Some t, c1)"
    by (metis fst_conv option.exhaust prod.exhaust)
  have "try_load_disk gh_cache_config (le_readable sample_load) (le_now sample_load) planted = None" by code_simp
  from cache_persists [OF g _ this, of "''{}''" sample_load] g show ?thesis
    by (simp add: sample_load_def gh_cache_config_def)
qed

end
