(* ===== verification/Json_Write.thy ===== *)
theory Json_Write
  imports Project_Block
begin

text \<open>
  \<open>encoding/json\<close>, the writing half: the string encoder (with HTML escaping, as
  \<open>json.Marshal\<close> has it), and the compaction a \<open>json.RawMessage\<close> goes through when it is
  embedded. Two facts about them carry the audit log: a quoted text reads back as itself, and
  what they write holds no line feed.
\<close>

subsection \<open>Strings\<close>

definition hex_lower :: "nat \<Rightarrow> char" where
  "hex_lower n = (if n < 10 then char_of (48 + n) else char_of (87 + n))"

definition control_escape :: "char \<Rightarrow> string" where
  "control_escape c = CHR 0x5C # ''u00'' @ [hex_lower (byte_val c div 16), hex_lower (byte_val c mod 16)]"

definition json_byte :: "char \<Rightarrow> string" where
  "json_byte c =
     (if c = CHR 0x5C \<or> c = CHR 0x22 then [CHR 0x5C, c]
      else if c = CHR 0x08 then CHR 0x5C # ''b''
      else if c = CHR 0x0C then CHR 0x5C # ''f''
      else if c = CHR 0x0A then CHR 0x5C # ''n''
      else if c = CHR 0x0D then CHR 0x5C # ''r''
      else if c = CHR 0x09 then CHR 0x5C # ''t''
      else if byte_val c < 32 \<or> c = CHR ''<'' \<or> c = CHR ''>'' \<or> c = CHR ''&'' then control_escape c
      else [c])"

text \<open>U+2028 and U+2029, the two line separators JavaScript does not allow in a string.\<close>

definition line_sep :: "string \<Rightarrow> string option" where
  "line_sep t = (if t = [CHR 0xE2, CHR 0x80, CHR 0xA8] then Some (CHR 0x5C # ''u2028'')
                 else if t = [CHR 0xE2, CHR 0x80, CHR 0xA9] then Some (CHR 0x5C # ''u2029'') else None)"

definition escape_seq :: "string \<Rightarrow> string" where
  "escape_seq t = (case line_sep t of Some e \<Rightarrow> e | None \<Rightarrow> t)"

function json_escape :: "string \<Rightarrow> string" where
  "json_escape [] = []"
| "json_escape (c # s) =
     (if byte_val c < 128 then json_byte c @ json_escape s
      else (let n = utf8_len (c # s) in
        if n = 0 then (CHR 0x5C # ''ufffd'') @ json_escape s
        else escape_seq (take n (c # s)) @ json_escape (drop n (c # s))))"
  by pat_completeness auto
termination by (relation "measure length") auto

declare json_escape.simps(2) [simp del]

definition json_quote :: "string \<Rightarrow> string" where
  "json_quote s = CHR 0x22 # json_escape s @ [CHR 0x22]"

text \<open>What a reader gets back: every byte that is not UTF-8 is U+FFFD.\<close>

function sanitize :: "string \<Rightarrow> string" where
  "sanitize [] = []"
| "sanitize (c # s) =
     (let n = utf8_len (c # s) in
      if n = 0 then replacement_char @ sanitize s
      else take n (c # s) @ sanitize (drop n (c # s)))"
  by pat_completeness auto
termination by (relation "measure length") auto

declare sanitize.simps(2) [simp del]

subsection \<open>Compaction\<close>

text \<open>
  \<open>appendCompact\<close>: white space between tokens goes, and inside strings the characters
  the encoder escapes. The flag tells whether the scan is inside a string.
\<close>

function compact_json :: "bool \<Rightarrow> string \<Rightarrow> string" where
  "compact_json q [] = []"
| "compact_json q (c # s) =
     (if \<not> q then (if is_json_space c then compact_json False s else c # compact_json (c = CHR 0x22) s)
      else if c = CHR 0x22 then c # compact_json False s
      else if c = CHR 0x5C then
        (case s of [] \<Rightarrow> [c] | e # r \<Rightarrow> c # e # compact_json True r)
      else if c = CHR ''<'' \<or> c = CHR ''>'' \<or> c = CHR ''&'' then control_escape c @ compact_json True s
      else (case line_sep (take 3 (c # s)) of
          Some e \<Rightarrow> e @ compact_json True (drop 2 s)
        | None \<Rightarrow> c # compact_json True s))"
  by pat_completeness auto
termination by (relation "measure (\<lambda>(q, s). length s)") auto

declare compact_json.simps(2) [simp del]

text \<open>A \<open>json.RawMessage\<close> as a member of a struct: invalid JSON is a marshal error.\<close>

definition marshal_raw :: "string \<Rightarrow> string option" where
  "marshal_raw raw = (if json_valid raw then Some (compact_json False raw) else None)"

subsection \<open>A quoted text reads back\<close>

lemma utf8_len_le: "utf8_len s \<le> length s"
  by (cases s rule: utf8_len.cases) (auto simp: Let_def split: list.splits)

lemma utf8_len_app: "utf8_len s \<noteq> 0 \<Longrightarrow> utf8_len (take (utf8_len s) s @ r) = utf8_len s"
  by (cases s rule: utf8_len.cases) (auto simp: Let_def split: list.splits if_splits)

lemma byte_val_inj: "byte_val c = byte_val d \<Longrightarrow> c = d"
  by (metis char_of_byte_val)

lemma parse_string_u:
  assumes "hex4 [w, x, y, z] = Some u" "\<not> (55296 \<le> u \<and> u \<le> 56319)"
  shows "parse_string (CHR 0x5C # CHR ''u'' # w # x # y # z # r) =
    map_option (\<lambda>(t, rest). (utf8_encode u @ t, rest)) (parse_string r)"
proof -
  have h: "hex4 (w # x # y # z # r) = Some u" using assms(1) by simp
  have d: "drop 4 (w # x # y # z # r) = r" by simp
  have n: "CHR 0x5C \<noteq> CHR 0x22" "\<not> byte_val CHR 0x5C < 32" by (simp_all add: byte_val_def)
  show ?thesis
    unfolding parse_string.simps(2) Let_def using assms(2) n
    by (simp only: list.case h option.case d if_False if_True simp_thms split: if_split)
       (use assms(2) in blast)
qed

lemma control_escape_parse:
  assumes "byte_val c < 128"
  shows "parse_string (control_escape c @ r) = map_option (\<lambda>(t, rest). (c # t, rest)) (parse_string r)"
proof -
  have v: "hex_val (hex_lower n) = Some n" if "n < 16" for n
    using that by (auto simp: hex_val_def hex_lower_def byte_val_def Let_def)
  have z: "hex_val CHR ''0'' = Some 0" by code_simp
  have h: "hex4 [CHR ''0'', CHR ''0'', hex_lower (byte_val c div 16), hex_lower (byte_val c mod 16)] = Some (byte_val c)"
    using assms by (simp add: v z)
  have "utf8_encode (byte_val c) = [c]" using assms by (simp add: utf8_encode_def)
  with parse_string_u [OF h, of r] assms show ?thesis by (simp add: control_escape_def)
qed

lemma json_byte_parse:
  assumes "byte_val c < 128"
  shows "parse_string (json_byte c @ r) = map_option (\<lambda>(t, rest). (c # t, rest)) (parse_string r)"
proof -
  have s: "parse_string (CHR 0x5C # e # r) = map_option (\<lambda>(t, rest). (d # t, rest)) (parse_string r)"
    if "simple_escape e = Some d" "e \<noteq> CHR ''u''" for d e
    using that by (simp add: parse_string.simps(2) byte_val_def)
  have e: "simple_escape CHR 0x5C = Some CHR 0x5C" "simple_escape CHR 0x22 = Some CHR 0x22"
    "simple_escape CHR ''b'' = Some CHR 0x08" "simple_escape CHR ''f'' = Some CHR 0x0C"
    "simple_escape CHR ''n'' = Some CHR 0x0A" "simple_escape CHR ''r'' = Some CHR 0x0D"
    "simple_escape CHR ''t'' = Some CHR 0x09"
    by (simp_all add: simple_escape_def)
  note E = e [THEN s]
  have p: "parse_string (c # r) = map_option (\<lambda>(t, rest). (c # t, rest)) (parse_string r)"
    if "c \<noteq> CHR 0x5C" "c \<noteq> CHR 0x22" "\<not> byte_val c < 32"
    using that assms by (simp add: parse_string.simps(2))
  show ?thesis
  proof (cases "c = CHR 0x5C \<or> c = CHR 0x22 \<or> c = CHR 0x08 \<or> c = CHR 0x0C \<or> c = CHR 0x0A \<or> c = CHR 0x0D \<or> c = CHR 0x09")
    case True
    then show ?thesis by (elim disjE) (simp_all add: json_byte_def E)
  next
    case other: False
    show ?thesis
    proof (cases "byte_val c < 32 \<or> c = CHR ''<'' \<or> c = CHR ''>'' \<or> c = CHR ''&''")
      case True
      with other have "json_byte c = control_escape c" unfolding json_byte_def by simp
      then show ?thesis using control_escape_parse [OF assms] by simp
    next
      case False
      with other have "json_byte c = [c]" unfolding json_byte_def by simp
      then show ?thesis using p other False by simp
    qed
  qed
qed

lemma line_sep_parse:
  "parse_string (CHR 0x5C # ''u2028'' @ r) =
     map_option (\<lambda>(t, rest). ([CHR 0xE2, CHR 0x80, CHR 0xA8] @ t, rest)) (parse_string r)"
  "parse_string (CHR 0x5C # ''u2029'' @ r) =
     map_option (\<lambda>(t, rest). ([CHR 0xE2, CHR 0x80, CHR 0xA9] @ t, rest)) (parse_string r)"
  "parse_string (CHR 0x5C # ''ufffd'' @ r) =
     map_option (\<lambda>(t, rest). (replacement_char @ t, rest)) (parse_string r)"
proof -
  have h: "hex4 ''2028'' = Some 8232" "hex4 ''2029'' = Some 8233" "hex4 ''fffd'' = Some 65533"
    by (simp_all add: hex_val_def byte_val_def)
  have e: "utf8_encode 8232 = [CHR 0xE2, CHR 0x80, CHR 0xA8]" "utf8_encode 8233 = [CHR 0xE2, CHR 0x80, CHR 0xA9]"
    "utf8_encode 65533 = replacement_char"
    by (simp_all add: utf8_encode_def replacement_char_def char_of_def bit_0)
  show "parse_string (CHR 0x5C # ''u2028'' @ r) =
     map_option (\<lambda>(t, rest). ([CHR 0xE2, CHR 0x80, CHR 0xA8] @ t, rest)) (parse_string r)"
    using parse_string_u [OF h(1), of r] by (simp add: e)
  show "parse_string (CHR 0x5C # ''u2029'' @ r) =
     map_option (\<lambda>(t, rest). ([CHR 0xE2, CHR 0x80, CHR 0xA9] @ t, rest)) (parse_string r)"
    using parse_string_u [OF h(2), of r] by (simp add: e)
  show "parse_string (CHR 0x5C # ''ufffd'' @ r) =
     map_option (\<lambda>(t, rest). (replacement_char @ t, rest)) (parse_string r)"
    using parse_string_u [OF h(3), of r] by (simp add: e)
qed

lemma parse_sequence:
  assumes "utf8_len (c # s) = n" "n \<noteq> 0" "128 \<le> byte_val c"
  shows "parse_string (escape_seq (take n (c # s)) @ r) =
     map_option (\<lambda>(t, rest). (take n (c # s) @ t, rest)) (parse_string r)"
proof (cases "line_sep (take n (c # s))")
  case None
  have p: "c \<noteq> CHR 0x22" "c \<noteq> CHR 0x5C" "\<not> byte_val c < 32" using assms(3) by (auto simp: byte_val_def)
  obtain x where x: "take n (c # s) = c # x" using assms(2) by (cases n) auto
  have l: "length (c # x) = n" using utf8_len_le [of "c # s"] assms(1) unfolding x [symmetric] by simp
  have u: "utf8_len (c # x @ r) = n" using utf8_len_app [of "c # s" r] assms(1,2) x by simp
  have "take n (c # x @ r) = c # x" "drop n (c # x @ r) = r" using l by auto
  with u p assms(2) None x show ?thesis by (simp add: parse_string.simps(2) escape_seq_def del: utf8_len.simps)
next
  case (Some e)
  then show ?thesis using line_sep_parse(1,2) [of r] by (auto simp: line_sep_def escape_seq_def split: if_splits)
qed

lemma json_escape_parse:
  "parse_string (json_escape s @ r) = map_option (\<lambda>(t, rest). (sanitize s @ t, rest)) (parse_string r)"
proof (induction s rule: json_escape.induct)
  case 1
  then show ?case by (cases "parse_string r") auto
next
  case (2 c s)
  have o: "map_option (\<lambda>(t, rest). (x @ t, rest)) (map_option (\<lambda>(t, rest). (y @ t, rest)) z) =
      map_option (\<lambda>(t, rest). ((x @ y) @ t, rest)) z" for x y and z :: "(string \<times> string) option"
    by (cases z) auto
  show ?case
  proof (cases "byte_val c < 128")
    case True
    then have "utf8_len (c # s) = 1" by simp
    with True 2(1) [OF True] o [of "[c]" "sanitize s"] show ?thesis
      by (simp add: json_escape.simps(2) sanitize.simps(2) json_byte_parse del: utf8_len.simps)
  next
    case False
    show ?thesis
    proof (cases "utf8_len (c # s) = 0")
      case True
      with False 2(2) [OF False refl] line_sep_parse(3) o [of replacement_char "sanitize s"] show ?thesis
        by (simp add: json_escape.simps(2) sanitize.simps(2) Let_def del: utf8_len.simps)
    next
      case nz: False
      from False have "128 \<le> byte_val c" by simp
      with False nz 2(3) [OF False refl nz] parse_sequence [OF refl nz] o [of "take (utf8_len (c # s)) (c # s)"]
      show ?thesis
        by (simp only: json_escape.simps(2) sanitize.simps(2) Let_def if_False append_assoc)
    qed
  qed
qed

lemma parse_json_quote: "parse_doc (json_quote s) = Some (JStr (sanitize s), False)"
proof -
  have "parse_string (json_escape s @ [CHR 0x22]) = Some (sanitize s, [])"
    by (simp add: json_escape_parse parse_string.simps(2))
  then show ?thesis
    by (simp add: parse_doc_def json_fuel_def json_quote_def skip_ws_def is_json_space_def)
qed

subsection \<open>Compacted values stay on one line\<close>

definition no_ctl :: "string \<Rightarrow> bool" where
  "no_ctl p \<longleftrightarrow> (\<forall>c \<in> set p. 32 \<le> byte_val c)"

lemma no_ctl_simps [simp]: "no_ctl []" "no_ctl (c # p) \<longleftrightarrow> 32 \<le> byte_val c \<and> no_ctl p"
  "no_ctl (p @ q) \<longleftrightarrow> no_ctl p \<and> no_ctl q"
  by (auto simp: no_ctl_def)

lemma no_ctl_newline: "no_ctl p \<Longrightarrow> CHR 0x0A \<notin> set p"
  by (auto simp: no_ctl_def byte_val_def)

lemma hex_val_ctl: "hex_val c = Some n \<Longrightarrow> 32 \<le> byte_val c"
  by (auto simp: hex_val_def Let_def split: if_splits)

lemma hex4_ctl: "hex4 r = Some u \<Longrightarrow> \<exists>p. r = p @ drop 4 r \<and> no_ctl p"
  by (drule hex4_Some, elim exE conjE)
     (rule exI [where x = "take 4 r"], auto dest: hex_val_ctl)

lemma simple_escape_ctl: "simple_escape e = Some d \<Longrightarrow> 32 \<le> byte_val e"
  by (auto simp: simple_escape_def byte_val_def split: if_splits)

lemma parse_string_ctl_step:
  assumes "parse_string (c # s) = Some (t, rest)"
  shows "32 \<le> byte_val c \<and> ((c = CHR 0x22 \<and> rest = s) \<or>
     (\<exists>p q t'. s = p @ q \<and> no_ctl p \<and> parse_string q = Some (t', rest)))"
proof -
  have bs: "32 \<le> byte_val CHR 0x5C" "32 \<le> byte_val CHR 0x22" "32 \<le> byte_val CHR ''u''" by (simp_all add: byte_val_def)
  have U: "\<exists>p q t'. CHR ''u'' # r = p @ q \<and> no_ctl p \<and> parse_string q = Some (t', rest)"
    if h: "parse_string (drop 4 r) = Some (x, rest)" "hex4 r = Some u" for r x u
  proof -
    obtain p where p: "r = p @ drop 4 r" "no_ctl p" using hex4_ctl [OF h(2)] by blast
    show ?thesis
      by (rule exI [where x = "CHR ''u'' # p"], rule exI [where x = "drop 4 r"], rule exI [where x = x])
         (use p bs h(1) in simp)
  qed
  have P: "\<exists>p q t'. CHR ''u'' # r = p @ q \<and> no_ctl p \<and> parse_string q = Some (t', rest)"
    if h: "parse_string (drop 10 r) = Some (x, rest)" "hex4 r = Some u"
      "take 2 (drop 4 r) = [CHR 0x5C, CHR ''u'']" "hex4 (drop 6 r) = Some l" for r x u l
  proof -
    have d: "drop 4 r = CHR 0x5C # CHR ''u'' # drop 6 r"
    proof -
      have "drop 6 r = drop 2 (drop 4 r)" by simp
      then show ?thesis using h(3) append_take_drop_id [of 2 "drop 4 r"] by simp
    qed
    obtain p where p: "r = p @ drop 4 r" "no_ctl p" using hex4_ctl [OF h(2)] by blast
    obtain p' where p': "drop 6 r = p' @ drop 4 (drop 6 r)" "no_ctl p'" using hex4_ctl [OF h(4)] by blast
    have "r = (p @ CHR 0x5C # CHR ''u'' # p') @ drop 10 r" using p(1) p'(1) d by simp
    moreover have "no_ctl (CHR ''u'' # p @ CHR 0x5C # CHR ''u'' # p')" using p(2) p'(2) bs by simp
    ultimately show ?thesis using h(1) by (metis append_Cons)
  qed
  have E: "\<exists>p q t'. e # r = p @ q \<and> no_ctl p \<and> parse_string q = Some (t', rest)"
    if "parse_string r = Some (x, rest)" "simple_escape e = Some d" for e r x d
    by (rule exI [where x = "[e]"], rule exI [where x = r], rule exI [where x = x])
       (use that simple_escape_ctl in simp)
  have N: "\<exists>p q t'. s = p @ q \<and> no_ctl p \<and> parse_string q = Some (t', rest)"
    if "parse_string s = Some (x, rest)" for x
    by (rule exI [where x = "[]"], rule exI [where x = s], rule exI [where x = x]) (use that in simp)
  have D: "\<exists>p q t'. s = p @ q \<and> no_ctl p \<and> parse_string q = Some (t', rest)"
    if h: "parse_string (drop (utf8_len (c # s)) (c # s)) = Some (x, rest)" "utf8_len (c # s) \<noteq> 0" for x
  proof -
    obtain p q where pq: "s = p @ q" "length p = utf8_len (c # s) - 1" "\<forall>x \<in> set p. is_cont x"
      using utf8_len_cont [OF refl h(2)] by blast
    have "drop (utf8_len (c # s)) (c # s) = drop (utf8_len (c # s) - 1) s"
      using h(2) by (cases "utf8_len (c # s)") (simp_all del: utf8_len.simps)
    also have "\<dots> = q" using pq(1,2) by (metis append_eq_conv_conj)
    finally have "parse_string q = Some (x, rest)" using h(1) by simp
    moreover have "no_ctl p" using pq(3) by (auto simp: no_ctl_def is_cont_def)
    ultimately show ?thesis using pq(1) by blast
  qed
  have c: "32 \<le> byte_val c"
    using assms bs unfolding parse_string.simps(2) by (simp add: not_le split: if_split_asm)
  have "(c = CHR 0x22 \<and> rest = s) \<or>
     (\<exists>p q t'. s = p @ q \<and> no_ctl p \<and> parse_string q = Some (t', rest))"
    using assms unfolding parse_string.simps(2)
    by (simp only: Let_def split: if_split_asm list.split_asm option.split_asm)
       ((simp; fail) |
        (rule disjI2, drule map_fst_Some [THEN iffD1], elim exE conjE,
          ((hypsubst, erule U, assumption) | (hypsubst, erule P, assumption, assumption, assumption) |
           (rule E, assumption, assumption) | (rule N, assumption) | (rule D, assumption, assumption))))+
  with c show ?thesis by blast
qed

lemma parse_string_ctl: "parse_string s = Some (t, rest) \<Longrightarrow> \<exists>p. s = p @ rest \<and> no_ctl p"
proof (induction s arbitrary: t rule: length_induct)
  case (1 s)
  then obtain c s' where s: "s = c # s'" by (cases s) auto
  from parse_string_ctl_step [OF "1.prems" [unfolded s]] have c: "32 \<le> byte_val c"
    and "(c = CHR 0x22 \<and> rest = s') \<or> (\<exists>p q t'. s' = p @ q \<and> no_ctl p \<and> parse_string q = Some (t', rest))"
    by blast+
  then show ?case
  proof (elim disjE exE conjE)
    assume "rest = s'"
    with c s show ?thesis by (intro exI [where x = "[c]"]) simp
  next
    fix p q t' assume q: "s' = p @ q" "no_ctl p" "parse_string q = Some (t', rest)"
    then have "length q < length s" using s by simp
    then obtain p' where "q = p' @ rest" "no_ctl p'" using "1.IH" q(3) by blast
    with q c s show ?thesis by (intro exI [where x = "c # p @ p'"]) simp
  qed
qed

lemma line_sep_split:
  assumes "line_sep (take 3 (c # s)) = Some e"
  shows "c # s = take 3 (c # s) @ drop 2 s \<and> CHR 0x0A \<notin> set e \<and> eos_s (c # s) = eos_s (drop 2 s)"
proof -
  have "c # s = take 3 (c # s) @ drop 3 (c # s)" by (rule append_take_drop_id [symmetric])
  then have a: "c # s = take 3 (c # s) @ drop 2 s" by simp
  have p: "\<forall>x \<in> set (take 3 (c # s)). x \<noteq> CHR 0x5C \<and> x \<noteq> CHR 0x22"
    using assms by (auto simp: line_sep_def split: if_splits)
  have "CHR 0x0A \<notin> set e" using assms by (auto simp: line_sep_def split: if_splits)
  with a eos_s_plain [OF p, of "drop 2 s"] show ?thesis by simp
qed

lemma hex_lower_newline: "n < 16 \<Longrightarrow> hex_lower n \<noteq> CHR 0x0A"
  by (auto simp: hex_lower_def byte_val_def dest!: arg_cong [where f = byte_val] split: if_splits)

lemma control_escape_newline: "CHR 0x0A \<notin> set (control_escape c)"
proof -
  have "byte_val c div 16 < 16" "byte_val c mod 16 < 16" using byte_val_less [of c] by simp_all
  then have "hex_lower (byte_val c div 16) \<noteq> CHR 0x0A" "hex_lower (byte_val c mod 16) \<noteq> CHR 0x0A"
    by (simp_all add: hex_lower_newline)
  then show ?thesis by (simp add: control_escape_def eq_commute [of "CHR 0x0A"])
qed

lemma compact_string:
  "\<exists>p u. s = p @ eos_s s \<and> compact_json True s = u @ compact_json False (eos_s s) \<and>
     (no_ctl p \<longrightarrow> CHR 0x0A \<notin> set u)"
proof (induction s rule: length_induct)
  case (1 s)
  show ?case
  proof (cases s)
    case (Cons c r)
    have n: "32 \<le> byte_val c \<longrightarrow> c \<noteq> CHR 0x0A" by (auto simp: byte_val_def)
    have step: ?thesis if "s = x @ q" "x \<noteq> []" "compact_json True s = v @ compact_json True q" "eos_s s = eos_s q"
      "no_ctl x \<longrightarrow> CHR 0x0A \<notin> set v" for x q v
    proof -
      have "length q < length s" using that(1,2) by simp
      then obtain p u where "q = p @ eos_s q" "compact_json True q = u @ compact_json False (eos_s q)"
        "no_ctl p \<longrightarrow> CHR 0x0A \<notin> set u" using "1.IH" by blast
      with that show ?thesis
        by (intro exI [where x = "x @ p"] exI [where x = "v @ u"]) auto
    qed
    consider "c = CHR 0x22" | "c = CHR 0x5C" "r = []" | e q where "c = CHR 0x5C" "r = e # q"
      | "c \<noteq> CHR 0x22" "c \<noteq> CHR 0x5C" by (cases r) auto
    then show ?thesis
    proof cases
      case q: 1
      then have "eos_s s = r" "compact_json True s = [CHR 0x22] @ compact_json False r"
        by (simp_all add: Cons eos_s_Cons compact_json.simps(2))
      with q show ?thesis unfolding Cons
        by (intro exI [where x = "[CHR 0x22]"] exI [where x = "[CHR 0x22]"]) simp
    next
      case 2
      then have "eos_s s = []" "compact_json True s = [CHR 0x5C]"
        by (simp_all add: Cons eos_s_Cons compact_json.simps(2))
      with 2 show ?thesis unfolding Cons
        by (intro exI [where x = "[CHR 0x5C]"] exI [where x = "[CHR 0x5C]"]) simp
    next
      case (3 e q)
      have "32 \<le> byte_val e \<longrightarrow> CHR 0x0A \<noteq> e" by (auto simp: byte_val_def)
      with 3 show ?thesis
        by (intro step [of "[c, e]" q "[c, e]"]) (simp_all add: Cons eos_s_Cons compact_json.simps(2))
    next
      case 4
      then have e1: "eos_s s = eos_s r" by (simp add: Cons eos_s_Cons)
      show ?thesis
      proof (cases "c = CHR ''<'' \<or> c = CHR ''>'' \<or> c = CHR ''&''")
        case True
        with 4 have "compact_json True s = control_escape c @ compact_json True r"
          unfolding Cons compact_json.simps(2) by simp
        with e1 show ?thesis using control_escape_newline by (intro step [of "[c]" r "control_escape c"]) (simp_all add: Cons)
      next
        case F: False
        show ?thesis
        proof (cases "line_sep (take 3 (c # r))")
          case None
          with F 4 have "compact_json True s = [c] @ compact_json True r"
            unfolding Cons compact_json.simps(2) by simp
          with e1 n show ?thesis by (intro step [of "[c]" r "[c]"]) (auto simp: Cons)
        next
          case (Some e)
          with F 4 have "compact_json True s = e @ compact_json True (drop 2 r)"
            unfolding Cons compact_json.simps(2) by simp
          with line_sep_split [OF Some] show ?thesis
            unfolding Cons by (intro step [unfolded Cons, of "take 3 (c # r)" "drop 2 r" e]) auto
        qed
      qed
    qed
  qed (simp add: compact_json.simps)
qed

text \<open>Reading a value, the compaction writes one part of its output, without a line feed.\<close>

definition flows :: "string \<Rightarrow> string \<Rightarrow> bool" where
  "flows s r \<longleftrightarrow> (\<exists>u. compact_json False s = u @ compact_json False r \<and> CHR 0x0A \<notin> set u)"

lemma flows_refl [simp]: "flows s s"
  by (simp add: flows_def)

lemma flows_trans [trans]: "flows s r \<Longrightarrow> flows r q \<Longrightarrow> flows s q"
  unfolding flows_def by (metis Un_iff append.assoc set_append)

lemma flows_one: "c \<noteq> CHR 0x22 \<Longrightarrow> flows (c # r) r"
  unfolding flows_def
  by (rule exI [where x = "if is_json_space c then [] else [c]"])
     (auto simp: compact_json.simps(2) is_json_space_def)

lemma flows_app: "\<forall>c \<in> set p. c \<noteq> CHR 0x22 \<Longrightarrow> flows (p @ r) r"
  by (induction p) (auto intro: flows_trans [OF flows_one])

lemma flows_skip: "flows s (skip_ws s)"
proof -
  have "\<forall>c \<in> set (takeWhile is_json_space s). c \<noteq> CHR 0x22"
    by (auto dest!: set_takeWhileD simp: is_json_space_def)
  then have "flows (takeWhile is_json_space s @ dropWhile is_json_space s) (dropWhile is_json_space s)"
    by (rule flows_app)
  then show ?thesis unfolding skip_ws_def takeWhile_dropWhile_id .
qed

lemma flows_skip_Cons: "skip_ws s = c # r \<Longrightarrow> c \<noteq> CHR 0x22 \<Longrightarrow> flows s r"
  using flows_trans [OF flows_skip [of s]] flows_one by simp

lemma flows_string: "parse_string r = Some (t, rest) \<Longrightarrow> flows (CHR 0x22 # r) rest"
proof -
  assume p: "parse_string r = Some (t, rest)"
  obtain x where x: "r = x @ rest" "no_ctl x" using parse_string_ctl [OF p] by blast
  have e: "eos_s r = rest" using parse_string_eos [OF p] .
  from compact_string [of r] obtain y u where yu: "r = y @ rest"
    "compact_json True r = u @ compact_json False rest" "no_ctl y \<longrightarrow> CHR 0x0A \<notin> set u"
    unfolding e by blast
  from x yu(1) have "y = x" by simp
  with x yu show ?thesis unfolding flows_def
    by (intro exI [where x = "CHR 0x22 # u"]) (simp add: compact_json.simps(2) is_json_space_def)
qed

lemma neutral_no_quote: "neutral c \<Longrightarrow> c \<noteq> CHR 0x22"
  by (simp add: neutral_def)

lemma flows_keyword: "keyword w j s = Some (x, rest) \<Longrightarrow> \<forall>c \<in> set w. neutral c \<and> \<not> is_json_delim c \<Longrightarrow>
    flows s rest"
  using flows_app neutral_no_quote by (auto dest!: keyword_text)

lemma flows_number: "parse_number s = Some (x, rest) \<Longrightarrow> flows s rest"
  using flows_app number_char_plain neutral_no_quote by (metis parse_number_text)

lemma parse_flows:
  "parse_value n d s = Some (v, rest) \<Longrightarrow> flows s rest"
  "parse_elements n d s = Some (es, rest) \<Longrightarrow> flows s rest"
  "parse_members n d s = Some (ms, rest) \<Longrightarrow> flows s rest"
proof (induction n d s and n d s and n d s arbitrary: v rest and es rest and ms rest
    rule: parse_value_parse_elements_parse_members.induct)
  case (2 n d s)
  from "2.prems"(1) obtain c r where cr: "skip_ws s = c # r" by (cases "skip_ws s") auto
  have sk: "flows s (c # r)" using flows_skip [of s] cr by simp
  consider "c = CHR 0x22" | "c = CHR ''{''" | "c = CHR ''[''"
    | "c \<notin> {CHR 0x22, CHR ''{'', CHR ''[''}" by blast
  then show ?case
  proof cases
    case 1
    with "2.prems" cr obtain t where "parse_string r = Some (t, rest)" by auto
    from flows_string [OF this] 1 sk show ?thesis by (auto intro: flows_trans)
  next
    case c: 2
    then have sr: "flows s r" using flows_trans [OF sk flows_one] by simp
    show ?thesis
    proof (cases "skip_ws r \<noteq> [] \<and> hd (skip_ws r) = CHR ''}''")
      case True
      with "2.prems" cr c have "rest = tl (skip_ws r)" by (auto split: if_splits)
      with True flows_skip_Cons [OF skip_ws_hd] have "flows r rest" by simp
      with sr show ?thesis by (rule flows_trans)
    next
      case False
      with "2.prems" cr c obtain ms where m: "parse_members n (d + 1) r = Some (ms, rest)" and d: "\<not> max_nesting \<le> d"
        by (auto split: if_splits)
      have "flows r rest" using "2.IH"(1) [OF cr _ c d False m] c by simp
      with sr show ?thesis by (rule flows_trans)
    qed
  next
    case c: 3
    then have sr: "flows s r" using flows_trans [OF sk flows_one] by simp
    show ?thesis
    proof (cases "skip_ws r \<noteq> [] \<and> hd (skip_ws r) = CHR '']''")
      case True
      with "2.prems" cr c have "rest = tl (skip_ws r)" by (auto split: if_splits)
      with True flows_skip_Cons [OF skip_ws_hd] have "flows r rest" by simp
      with sr show ?thesis by (rule flows_trans)
    next
      case False
      with "2.prems" cr c obtain ms where m: "parse_elements n (d + 1) r = Some (ms, rest)" and d: "\<not> max_nesting \<le> d"
        by (auto split: if_splits)
      have "flows r rest" using "2.IH"(2) [OF cr _ _ c d False m] c by simp
      with sr show ?thesis by (rule flows_trans)
    qed
  next
    case c: 4
    with "2.prems"(1) cr show ?thesis
      by (auto split: if_splits dest: flows_keyword [OF _ keywords_plain(1)]
          flows_keyword [OF _ keywords_plain(2)] flows_keyword [OF _ keywords_plain(3)] flows_number
          intro: flows_trans [OF sk])
  qed
next
  case (4 n d s)
  from "4.prems"(1) obtain j o1 r where p: "parse_value n d s = Some ((j, o1), r)"
    by (auto split: option.splits)
  with "4.prems"(1) obtain c r' where cr: "skip_ws r = c # r'" by (cases "skip_ws r") auto
  have sr: "flows s r" using "4.IH"(1) [OF p] .
  show ?case
  proof (cases "c = CHR '']''")
    case True
    with "4.prems" p cr have "rest = r'" by simp
    with flows_skip_Cons [OF cr] True sr show ?thesis by (auto intro: flows_trans)
  next
    case False
    with "4.prems"(1) p cr have c: "c = CHR '',''" by (auto split: if_splits)
    with False "4.prems"(1) p cr obtain js where e: "parse_elements n d r' = Some (js, rest)" by auto
    have "flows s r'" using flows_trans [OF sr flows_skip_Cons [OF cr]] c by simp
    from flows_trans [OF this "4.IH"(2) [OF p refl refl cr False c e]] show ?thesis .
  qed
next
  case (6 n d s)
  from "6.prems"(1) obtain s1 where q: "skip_ws s = CHR 0x22 # s1"
    by (cases "skip_ws s") (auto split: if_splits)
  with "6.prems"(1) obtain key s2 where k: "parse_string s1 = Some (key, s2)" by (auto split: option.splits)
  with q "6.prems"(1) obtain s3 where co: "skip_ws s2 = CHR '':'' # s3"
    by (cases "skip_ws s2") (auto split: if_splits)
  with q k "6.prems"(1) obtain j o1 r where p: "parse_value n d s3 = Some ((j, o1), r)"
    by (auto split: option.splits)
  with q k co "6.prems"(1) obtain c r' where cr: "skip_ws r = c # r'" by (cases "skip_ws r") auto
  have "flows s s2" using flows_trans [OF flows_skip [of s, unfolded q] flows_string [OF k]] .
  also have "flows s2 s3" using flows_skip_Cons [OF co] by simp
  also have "flows s3 r" using "6.IH"(1) [OF q _ k refl co _ p] by simp
  finally have sr: "flows s r" .
  show ?case
  proof (cases "c = CHR ''}''")
    case True
    with "6.prems" q k co p cr have "rest = r'" by simp
    with flows_skip_Cons [OF cr] True sr show ?thesis by (auto intro: flows_trans)
  next
    case False
    with "6.prems"(1) q k co p cr have c: "c = CHR '',''" by (auto split: if_splits)
    with False "6.prems"(1) q k co p cr obtain js where e: "parse_members n d r' = Some (js, rest)" by auto
    have "flows s r'" using flows_trans [OF sr flows_skip_Cons [OF cr]] c by simp
    from flows_trans [OF this "6.IH"(2) [OF q _ k refl co _ p refl refl cr False c e]] show ?thesis by simp
  qed
qed simp_all

lemma compact_one_line: "marshal_raw raw = Some t \<Longrightarrow> CHR 0x0A \<notin> set t"
proof -
  assume m: "marshal_raw raw = Some t"
  then obtain j rest where p: "parse_value (json_fuel raw) 0 raw = Some (j, rest)" and r: "skip_ws rest = []"
    and t: "t = compact_json False raw"
    by (auto simp: marshal_raw_def json_valid_def parse_doc_def split: if_splits option.splits)
  have "flows raw (skip_ws rest)" by (rule flows_trans [OF parse_flows(1) [OF p] flows_skip])
  then show ?thesis using t r by (auto simp: flows_def)
qed

lemma json_byte_newline: "CHR 0x0A \<notin> set (json_byte c)"
  using control_escape_newline by (simp add: json_byte_def)

lemma json_escape_newline: "CHR 0x0A \<notin> set (json_escape s)"
proof (induction s rule: json_escape.induct)
  case (2 c s)
  show ?case
  proof (cases "byte_val c < 128")
    case True
    with 2(1) show ?thesis using json_byte_newline by (simp add: json_escape.simps(2))
  next
    case False
    show ?thesis
    proof (cases "utf8_len (c # s) = 0")
      case True
      with False 2(2) show ?thesis by (simp add: json_escape.simps(2) Let_def del: utf8_len.simps)
    next
      case nz: False
      obtain p q where pq: "s = p @ q" "length p = utf8_len (c # s) - 1" "\<forall>x \<in> set p. is_cont x"
        using utf8_len_cont [OF refl nz] by blast
      have "take (utf8_len (c # s)) (c # s) = c # p"
        using nz pq(2) by (subst pq(1)) (cases "utf8_len (c # s)", simp_all add: pq(1) del: utf8_len.simps)
      moreover have "CHR 0x0A \<noteq> c" using False by (auto simp: byte_val_def)
      moreover have "CHR 0x0A \<notin> set p" using pq(3) by (auto simp: is_cont_def byte_val_def)
      ultimately have "CHR 0x0A \<notin> set (escape_seq (take (utf8_len (c # s)) (c # s)))"
        by (simp add: escape_seq_def line_sep_def)
      with False nz 2(3) [OF False refl nz] show ?thesis
        by (simp add: json_escape.simps(2) Let_def del: utf8_len.simps)
    qed
  qed
qed simp

lemma json_quote_newline: "CHR 0x0A \<notin> set (json_quote s)"
  using json_escape_newline by (simp add: json_quote_def)

end
