(* ===== verification/Audit_Log.thy ===== *)
theory Audit_Log
  imports Json_Write Go_Net "HOL-Library.Word"
begin

text \<open>
  \<open>internal/audit\<close>: the record format and the \<open>Logger\<close> of \<open>audit.go\<close>, the
  recorders a call carries (\<open>context.go\<close>) and the age rotation of the file
  (\<open>rotate.go\<close>). One \<open>Log\<close> call is one step of the logger's state; the clock, the
  redactor and the writer under it are parameters of the step. A time is its nanoseconds.
\<close>

subsection \<open>Records\<close>

record agent_provenance =
  ap_name :: string
  ap_source :: string
  ap_sha256 :: string

record log_record =
  r_time :: int
  r_seq :: "64 word"
  r_session_id :: string
  r_run_id :: string
  r_call_id :: string
  r_parent_call_id :: string
  r_depth :: int
  r_actor :: string
  r_agent :: "agent_provenance option"
  r_phase :: string
  r_via :: string
  r_tool :: string
  r_arguments :: "string option"  \<comment> \<open>\<open>None\<close> is a nil \<open>json.RawMessage\<close>\<close>
  r_decision :: string
  r_outcome :: string
  r_result :: string
  r_route :: string
  r_redact_args :: bool

definition show_int :: "int \<Rightarrow> string" where
  "show_int i = (if i < 0 then CHR ''-'' # show_dec (nat (- i)) else show_dec (nat i))"

text \<open>The struct encoding: the members in declaration order, \<open>omitempty\<close> ones only when set.\<close>

definition json_member :: "string \<times> string \<Rightarrow> string" where
  "json_member m = CHR 0x22 # fst m @ [CHR 0x22] @ '':'' @ snd m"

definition json_object :: "(string \<times> string) list \<Rightarrow> string" where
  "json_object ms = ''{'' @ join '','' (map json_member ms) @ ''}''"

definition omit_empty :: "string \<Rightarrow> string \<Rightarrow> (string \<times> string) list" where
  "omit_empty key v = (if v = [] then [] else [(key, json_quote v)])"

definition provenance_json :: "agent_provenance \<Rightarrow> string" where
  "provenance_json a = json_object
     [(''name'', json_quote (ap_name a)), (''source'', json_quote (ap_source a)), (''sha256'', json_quote (ap_sha256 a))]"

definition marshal_arguments :: "string option \<Rightarrow> string option" where
  "marshal_arguments a = (case a of None \<Rightarrow> Some ''null'' | Some raw \<Rightarrow> marshal_raw raw)"

definition record_members :: "string \<Rightarrow> string \<Rightarrow> log_record \<Rightarrow> (string \<times> string) list" where
  "record_members time args r =
     [(''time'', time), (''seq'', show_dec (unat (r_seq r))), (''session_id'', json_quote (r_session_id r)),
      (''run_id'', json_quote (r_run_id r)), (''call_id'', json_quote (r_call_id r))] @
     omit_empty ''parent_call_id'' (r_parent_call_id r) @
     [(''depth'', show_int (r_depth r)), (''actor'', json_quote (r_actor r))] @
     (case r_agent r of None \<Rightarrow> [] | Some a \<Rightarrow> [(''agent'', provenance_json a)]) @
     [(''phase'', json_quote (r_phase r))] @ omit_empty ''via'' (r_via r) @
     [(''tool'', json_quote (r_tool r)), (''arguments'', args)] @
     omit_empty ''decision'' (r_decision r) @ omit_empty ''outcome'' (r_outcome r) @
     omit_empty ''result'' (r_result r) @ omit_empty ''route'' (r_route r)"

definition marshal_record :: "(int \<Rightarrow> string option) \<Rightarrow> log_record \<Rightarrow> string option" where
  "marshal_record time_json r =
     (case time_json (r_time r) of
        None \<Rightarrow> None
      | Some t \<Rightarrow>
          (case marshal_arguments (r_arguments r) of
             None \<Rightarrow> None
           | Some args \<Rightarrow> Some (json_object (record_members t args r))))"

definition raw_args :: "string \<Rightarrow> string" where
  "raw_args s = (if json_valid s then s else json_quote s)"

subsection \<open>The logger\<close>

datatype log_error = MarshalFailed | WriteFailed | LogClosing | PendingRecords int | CloseFailed

datatype write_outcome = WriteOk | WriteShort nat  \<comment> \<open>how many bytes a failed write still wrote\<close>

text \<open>What the logger was built with. \<open>lc_time_json\<close> is \<open>time.Time.MarshalJSON\<close>.\<close>

record log_config =
  lc_redact :: "string \<Rightarrow> string"
  lc_time_json :: "int \<Rightarrow> string option"
  lc_actor :: string
  lc_agent :: "agent_provenance option"

record logger =
  lg_seq :: "64 word"
  lg_err :: "log_error option"
  lg_out :: string  \<comment> \<open>the bytes the writer took\<close>

definition new_logger :: logger where
  "new_logger = \<lparr>lg_seq = 0, lg_err = None, lg_out = []\<rparr>"

definition stamp_record :: "log_config \<Rightarrow> int \<Rightarrow> 64 word \<Rightarrow> log_record \<Rightarrow> log_record" where
  "stamp_record c now seq r =
     (let r1 = r\<lparr>r_seq := seq, r_time := now, r_actor := lc_actor c, r_agent := lc_agent c,
                 r_result := lc_redact c (r_result r)\<rparr>
      in if r_redact_args r then
           r1\<lparr>r_arguments := Some (raw_args (lc_redact c (case r_arguments r of None \<Rightarrow> [] | Some a \<Rightarrow> a)))\<rparr>
         else r1)"

definition log_line :: "log_config \<Rightarrow> int \<Rightarrow> 64 word \<Rightarrow> log_record \<Rightarrow> string option" where
  "log_line c now seq r = marshal_record (lc_time_json c) (stamp_record c now seq r)"

definition log_call ::
    "log_config \<Rightarrow> int \<Rightarrow> write_outcome \<Rightarrow> log_record \<Rightarrow> logger \<Rightarrow> logger \<times> log_error option" where
  "log_call c now w r l =
     (case lg_err l of
        Some e \<Rightarrow> (l, Some e)
      | None \<Rightarrow>
          (let seq = lg_seq l + 1 in
           case log_line c now seq r of
             None \<Rightarrow> (l\<lparr>lg_seq := seq, lg_err := Some MarshalFailed\<rparr>, Some MarshalFailed)
           | Some line \<Rightarrow>
               (case w of
                  WriteOk \<Rightarrow> (l\<lparr>lg_seq := seq, lg_out := lg_out l @ line @ [CHR 0x0A]\<rparr>, None)
                | WriteShort n \<Rightarrow>
                    (l\<lparr>lg_seq := seq, lg_out := lg_out l @ take n (line @ [CHR 0x0A]), lg_err := Some WriteFailed\<rparr>,
                     Some WriteFailed))))"

type_synonym log_step = "int \<times> write_outcome \<times> log_record"

fun log_run :: "log_config \<Rightarrow> log_step list \<Rightarrow> logger \<Rightarrow> logger" where
  "log_run c [] l = l"
| "log_run c ((now, w, r) # cs) l = log_run c cs (fst (log_call c now w r l))"

subsection \<open>What a log holds\<close>

text \<open>
  The specification: the lines of the calls before the first that fails, numbered from
  \<open>n\<close> on without a gap.
\<close>

fun trail :: "log_config \<Rightarrow> 64 word \<Rightarrow> log_step list \<Rightarrow> string list" where
  "trail c n [] = []"
| "trail c n ((now, w, r) # cs) =
     (case log_line c now n r of
        None \<Rightarrow> []
      | Some line \<Rightarrow> if w = WriteOk then line # trail c (n + 1) cs else [])"

definition log_file :: "string list \<Rightarrow> string" where
  "log_file ls = concat (map (\<lambda>l. l @ [CHR 0x0A]) ls)"

lemma log_file_simps [simp]: "log_file [] = []" "log_file (l # ls) = l @ CHR 0x0A # log_file ls"
  "log_file (ls @ ms) = log_file ls @ log_file ms"
  by (simp_all add: log_file_def)

lemma log_run_latched: "lg_err l = Some e \<Longrightarrow> log_run c cs l = l"
  by (induction c cs l rule: log_run.induct) (simp_all add: log_call_def)

text \<open>What a failed write left behind: a beginning of the line that was due.\<close>

fun torn :: "log_config \<Rightarrow> 64 word \<Rightarrow> log_step list \<Rightarrow> string" where
  "torn c n [] = []"
| "torn c n ((now, w, r) # cs) =
     (case log_line c now n r of
        None \<Rightarrow> []
      | Some line \<Rightarrow> (case w of WriteOk \<Rightarrow> torn c (n + 1) cs | WriteShort k \<Rightarrow> take k (line @ [CHR 0x0A])))"

lemma log_run_trail:
  assumes "lg_err l = None" "lg_seq l + 1 = n"
  shows "lg_out (log_run c cs l) = lg_out l @ log_file (trail c n cs) @ torn c n cs \<and>
     (lg_err (log_run c cs l) = None \<longleftrightarrow> length (trail c n cs) = length cs)"
  using assms
proof (induction cs arbitrary: l n)
  case (Cons x cs)
  obtain now w r where x: "x = (now, w, r)" by (cases x)
  show ?case
  proof (cases "log_line c now n r")
    case None
    then have "log_call c now w r l = (l\<lparr>lg_seq := n, lg_err := Some MarshalFailed\<rparr>, Some MarshalFailed)"
      using Cons.prems by (simp add: log_call_def)
    with None Cons.prems show ?thesis by (simp add: x log_run_latched)
  next
    case line: (Some line)
    show ?thesis
    proof (cases w)
      case WriteOk
      let ?l = "l\<lparr>lg_seq := n, lg_out := lg_out l @ line @ [CHR 0x0A]\<rparr>"
      have e: "fst (log_call c now w r l) = ?l" using Cons.prems line WriteOk by (simp add: log_call_def)
      have "lg_err ?l = None" "lg_seq ?l + 1 = n + 1" using Cons.prems by simp_all
      from Cons.IH [OF this] line WriteOk show ?thesis by (simp add: x e [unfolded WriteOk])
    next
      case (WriteShort k)
      then have "log_call c now w r l =
          (l\<lparr>lg_seq := n, lg_out := lg_out l @ take k (line @ [CHR 0x0A]), lg_err := Some WriteFailed\<rparr>, Some WriteFailed)"
        using Cons.prems line by (simp add: log_call_def)
      with line WriteShort show ?thesis by (simp add: x log_run_latched)
    qed
  qed
qed simp

subsection \<open>One record, one line\<close>

lemma show_dec_digits: "x \<in> set (show_dec n) \<Longrightarrow> dig x"
proof (induction n rule: show_dec.induct)
  case (1 n)
  show ?case
  proof (cases "n < 10")
    case True
    with "1.prems" show ?thesis by (simp add: show_dec.simps [of n] dig_def Let_def)
  next
    case False
    with "1.prems" have "x \<in> set (show_dec (n div 10)) \<or> x = char_of (48 + n mod 10)"
      by (auto simp: show_dec.simps [of n])
    with False 1(1) show ?thesis by (auto simp: dig_def Let_def)
  qed
qed

lemma show_dec_newline: "CHR 0x0A \<notin> set (show_dec n)"
  using show_dec_digits [of "CHR 0x0A" n] by (auto simp: dig_def byte_val_def Let_def)

lemma show_int_newline: "CHR 0x0A \<notin> set (show_int i)"
  by (simp add: show_int_def show_dec_newline)

lemma join_newline: "CHR 0x0A \<notin> set sep \<Longrightarrow> \<forall>x \<in> set xs. CHR 0x0A \<notin> set x \<Longrightarrow> CHR 0x0A \<notin> set (join sep xs)"
  by (induction sep xs rule: join.induct) auto

lemma json_object_newline:
  assumes "\<forall>m \<in> set ms. CHR 0x0A \<notin> set (fst m) \<and> CHR 0x0A \<notin> set (snd m)"
  shows "CHR 0x0A \<notin> set (json_object ms)"
proof -
  have "CHR 0x0A \<notin> set (join '','' (map json_member ms))"
    using assms by (intro join_newline) (auto simp: json_member_def)
  then show ?thesis by (simp add: json_object_def)
qed

lemma omit_empty_newline:
  "CHR 0x0A \<notin> set k \<Longrightarrow> m \<in> set (omit_empty k v) \<Longrightarrow> CHR 0x0A \<notin> set (fst m) \<and> CHR 0x0A \<notin> set (snd m)"
  by (auto simp: omit_empty_def json_quote_newline split: if_splits)

lemma provenance_newline: "CHR 0x0A \<notin> set (provenance_json a)"
  unfolding provenance_json_def by (rule json_object_newline) (simp add: json_quote_newline)

lemma marshal_arguments_newline: "marshal_arguments a = Some t \<Longrightarrow> CHR 0x0A \<notin> set t"
  using compact_one_line by (auto simp: marshal_arguments_def split: option.splits)

lemma record_newline:
  assumes "CHR 0x0A \<notin> set t" "CHR 0x0A \<notin> set args"
  shows "CHR 0x0A \<notin> set (json_object (record_members t args r))"
proof (rule json_object_newline, rule ballI)
  fix m assume "m \<in> set (record_members t args r)"
  with assms show "CHR 0x0A \<notin> set (fst m) \<and> CHR 0x0A \<notin> set (snd m)"
    unfolding record_members_def set_append Un_iff
    by (elim disjE)
       (auto simp: json_quote_newline show_dec_newline show_int_newline provenance_newline split: option.splits
          dest!: omit_empty_newline [rotated])
qed

lemma log_line_newline:
  assumes "\<forall>now t. lc_time_json c now = Some t \<longrightarrow> CHR 0x0A \<notin> set t" "log_line c now n r = Some line"
  shows "CHR 0x0A \<notin> set line"
  using assms record_newline marshal_arguments_newline
  by (auto simp: log_line_def marshal_record_def split: option.splits)

lemma trail_newline:
  assumes "\<forall>now t. lc_time_json c now = Some t \<longrightarrow> CHR 0x0A \<notin> set t"
  shows "l \<in> set (trail c n cs) \<Longrightarrow> CHR 0x0A \<notin> set l"
proof (induction cs arbitrary: n)
  case (Cons x cs)
  obtain now w r where x: "x = (now, w, r)" by (cases x)
  from Cons.prems obtain line where line: "log_line c now n r = Some line" and l: "l = line \<or> l \<in> set (trail c (n + 1) cs)"
    by (cases "log_line c now n r") (auto simp: x split: if_splits)
  from l log_line_newline [OF assms line] Cons.IH show ?case by blast
qed simp

lemma split_log_file:
  "\<forall>l \<in> set ls. CHR 0x0A \<notin> set l \<Longrightarrow> split_on CHR 0x0A (log_file ls @ t) = ls @ split_on CHR 0x0A t"
  by (induction ls) (simp_all add: split_on_append)

subsection \<open>The properties of the file\<close>

text \<open>The line of call \<open>i\<close> carries sequence number \<open>i + 1\<close>.\<close>

lemma trail_nth:
  "i < length (trail c n cs) \<Longrightarrow> cs ! i = (now, w, r) \<Longrightarrow>
     log_line c now (n + of_nat i) r = Some (trail c n cs ! i)"
proof (induction cs arbitrary: n i)
  case (Cons x cs)
  obtain now' w' r' where x: "x = (now', w', r')" by (cases x)
  with Cons.prems(1) obtain line where l: "log_line c now' n r' = Some line" "trail c n (x # cs) = line # trail c (n + 1) cs"
    by (cases "log_line c now' n r'") (auto split: if_splits)
  show ?case
  proof (cases i)
    case (Suc k)
    with Cons.prems l have "log_line c now (n + 1 + of_nat k) r = Some (trail c (n + 1) cs ! k)"
      by (intro Cons.IH) auto
    then show ?thesis using Suc l by (simp add: add.assoc)
  qed (use Cons.prems l x in simp)
qed simp

lemma length_trail: "length (trail c n cs) \<le> length cs"
  by (induction c n cs rule: trail.induct) (auto split: option.splits)

lemma torn_complete: "length (trail c n cs) = length cs \<Longrightarrow> torn c n cs = []"
  by (induction c n cs rule: trail.induct) (auto split: option.splits if_splits)

text \<open>
  C30. The logger is an append-only list of records that stops at the first failure: the
  file holds, in order, the lines of the calls before it, numbered from 1 without a gap; a failed
  write leaves at most a beginning of its own line; and the latched error is set exactly when a
  call failed, after which nothing more is written.
\<close>

theorem audit_log_refines_trail:
  "lg_out (log_run c cs new_logger) =
     log_file (trail c 1 cs) @ (if length (trail c 1 cs) = length cs then [] else torn c 1 cs) \<and>
   (lg_err (log_run c cs new_logger) = None \<longleftrightarrow> length (trail c 1 cs) = length cs) \<and>
   trail c 1 cs = map (\<lambda>(i, now, w, r). the (log_line c now (1 + of_nat i) r))
                    (take (length (trail c 1 cs)) (enumerate 0 cs))"
proof -
  have l: "length (trail c 1 cs) \<le> length cs"
    by (rule length_trail)
  have "trail c 1 cs ! i = map (\<lambda>(i, now, w, r). the (log_line c now (1 + of_nat i) r))
                    (take (length (trail c 1 cs)) (enumerate 0 cs)) ! i" if "i < length (trail c 1 cs)" for i
  proof -
    obtain now w r where x: "cs ! i = (now, w, r)" by (metis prod.exhaust)
    with trail_nth [OF that x] that l show ?thesis by (simp add: nth_enumerate_eq)
  qed
  with l have "trail c 1 cs = map (\<lambda>(i, now, w, r). the (log_line c now (1 + of_nat i) r))
                    (take (length (trail c 1 cs)) (enumerate 0 cs))"
    by (intro nth_equalityI) simp_all
  then show ?thesis
    using log_run_trail [of new_logger 1 c cs] torn_complete [of c 1 cs] by (auto simp: new_logger_def)
qed

text \<open>
  A file whose every write succeeded is read back line by line: splitting it at its line
  feeds gives exactly the records' lines, in order, whatever the tool results and arguments hold
  (\<open>time.Time\<close> marshals without a line feed).
\<close>

theorem audit_lines_recovered:
  assumes "\<forall>now t. lc_time_json c now = Some t \<longrightarrow> CHR 0x0A \<notin> set t"
    and "lg_err (log_run c cs new_logger) = None"
  shows "split_on CHR 0x0A (lg_out (log_run c cs new_logger)) = trail c 1 cs @ [[]]"
proof -
  have "length (trail c 1 cs) = length cs" "lg_out (log_run c cs new_logger) = log_file (trail c 1 cs) @ torn c 1 cs"
    using log_run_trail [of new_logger 1 c cs] assms(2) by (auto simp: new_logger_def)
  then have "lg_out (log_run c cs new_logger) = log_file (trail c 1 cs) @ []" using torn_complete by simp
  with split_log_file [of "trail c 1 cs" "[]"] trail_newline [OF assms(1)] show ?thesis by simp
qed

text \<open>\<open>RawArgs\<close> always gives a JSON value.\<close>

lemma json_valid_raw_args: "json_valid (raw_args s)"
  by (simp add: raw_args_def) (simp add: json_valid_def parse_json_quote)

text \<open>
  No tool call can make its own record fail to marshal: with arguments from
  \<open>RawArgs\<close>, redacted or not, only the clock can.
\<close>

theorem audit_arguments_always_marshal:
  assumes "r_arguments r = Some (raw_args s)"
  shows "log_line c now n r = None \<longleftrightarrow> lc_time_json c now = None"
  using assms json_valid_raw_args
  by (auto simp: log_line_def marshal_record_def stamp_record_def Let_def marshal_arguments_def marshal_raw_def
      split: option.splits)

definition sample_config :: log_config where
  "sample_config = \<lparr>lc_redact = (\<lambda>s. s), lc_time_json = (\<lambda>_. Some (json_quote ''2026-01-01T00:00:00Z'')),
     lc_actor = ''openai/gpt'', lc_agent = None\<rparr>"

definition sample_record :: log_record where
  "sample_record = \<lparr>r_time = 0, r_seq = 9, r_session_id = ''s'', r_run_id = ''r'', r_call_id = ''c'',
     r_parent_call_id = [], r_depth = 0, r_actor = ''forged'', r_agent = None, r_phase = ''attempt'', r_via = [],
     r_tool = ''http_request'', r_arguments = Some (raw_args ''{ }''), r_decision = [], r_outcome = [],
     r_result = [CHR 0x0A], r_route = [], r_redact_args = True\<rparr>"

theorem audit_lines_recovered_witness:
  "split_on CHR 0x0A (lg_out (log_run sample_config [(0, WriteOk, sample_record)] new_logger)) =
     trail sample_config 1 [(0, WriteOk, sample_record)] @ [[]]"
proof (rule audit_lines_recovered)
  show "\<forall>now t. lc_time_json sample_config now = Some t \<longrightarrow> CHR 0x0A \<notin> set t"
    using json_quote_newline by (simp add: sample_config_def)
  show "lg_err (log_run sample_config [(0, WriteOk, sample_record)] new_logger) = None" by code_simp
qed

theorem audit_arguments_always_marshal_witness:
  "log_line sample_config 0 1 sample_record = None \<longleftrightarrow> lc_time_json sample_config 0 = None"
  by (rule audit_arguments_always_marshal [of _ "''{ }''"]) (simp add: sample_record_def)

subsection \<open>Holds and the closer\<close>

text \<open>
  \<open>Hold\<close>, the release it returns, and \<open>pendingAfter\<close>, which run in different
  goroutines. A granted hold is an index into \<open>hs_handles\<close>, whose entry is its
  \<open>sync.Once\<close>; \<open>hs_gen\<close> counts the \<open>drained\<close> channels made so far and
  \<open>hs_open\<close> tells whether the last of them is still open, the earlier ones being closed.
\<close>

record holds_state =
  hs_holds :: int
  hs_gen :: nat
  hs_open :: bool
  hs_closing :: bool
  hs_handles :: "bool list"  \<comment> \<open>released already?\<close>

definition no_holds :: holds_state where
  "no_holds = \<lparr>hs_holds = 0, hs_gen = 0, hs_open = False, hs_closing = False, hs_handles = []\<rparr>"

definition hold_op :: "holds_state \<Rightarrow> (log_error, holds_state) result" where
  "hold_op s =
     (if hs_closing s then Inl LogClosing
      else let s1 = (if hs_holds s = 0 then s\<lparr>hs_gen := hs_gen s + 1, hs_open := True\<rparr> else s)
           in Inr (s1\<lparr>hs_holds := hs_holds s1 + 1, hs_handles := hs_handles s1 @ [False]\<rparr>))"

definition release_op :: "nat \<Rightarrow> holds_state \<Rightarrow> holds_state" where
  "release_op i s =
     (if i < length (hs_handles s) \<and> \<not> hs_handles s ! i then
        let s1 = s\<lparr>hs_handles := (hs_handles s)[i := True], hs_holds := hs_holds s - 1\<rparr>
        in if hs_holds s1 = 0 then s1\<lparr>hs_open := False\<rparr> else s1
      else s)"

datatype closer = Reading | Waiting nat | Returned int  \<comment> \<open>before the lock, in the select, done\<close>

record drain_run =
  dr_state :: holds_state
  dr_now :: int
  dr_closer :: closer

text \<open>One read of the loop of \<open>pendingAfter\<close>, under the lock.\<close>

definition pending_read :: "int \<Rightarrow> drain_run \<Rightarrow> drain_run" where
  "pending_read deadline d =
     (if hs_holds (dr_state d) = 0 \<or> deadline - dr_now d \<le> 0
      then d\<lparr>dr_state := (dr_state d)\<lparr>hs_closing := True\<rparr>, dr_closer := Returned (hs_holds (dr_state d))\<rparr>
      else d\<lparr>dr_closer := Waiting (hs_gen (dr_state d))\<rparr>)"

definition channel_closed :: "nat \<Rightarrow> holds_state \<Rightarrow> bool" where
  "channel_closed g s \<longleftrightarrow> g < hs_gen s \<or> (g = hs_gen s \<and> \<not> hs_open s)"

inductive drain_step :: "int \<Rightarrow> drain_run \<Rightarrow> drain_run \<Rightarrow> bool" for deadline where
  holds: "hold_op (dr_state d) = Inr s \<Longrightarrow> drain_step deadline d (d\<lparr>dr_state := s\<rparr>)"
| releases: "drain_step deadline d (d\<lparr>dr_state := release_op i (dr_state d)\<rparr>)"
| passes: "dr_now d \<le> t \<Longrightarrow> drain_step deadline d (d\<lparr>dr_now := t\<rparr>)"
| reads: "dr_closer d = Reading \<Longrightarrow> drain_step deadline d (pending_read deadline d)"
| wakes: "dr_closer d = Waiting g \<Longrightarrow> channel_closed g (dr_state d) \<or> deadline \<le> dr_now d \<Longrightarrow>
    drain_step deadline d (d\<lparr>dr_closer := Reading\<rparr>)"

inductive_cases drain_stepE: "drain_step deadline d d'"

definition drain_start :: "int \<Rightarrow> holds_state \<Rightarrow> drain_run" where
  "drain_start now s = \<lparr>dr_state = s, dr_now = now, dr_closer = Reading\<rparr>"

text \<open>What the closer returns, by what it found.\<close>

definition close_result :: "log_error option \<Rightarrow> int \<Rightarrow> log_error option \<Rightarrow> log_error option" where
  "close_result latched pending cerr =
     (case latched of
        Some e \<Rightarrow> Some e
      | None \<Rightarrow> if pending > 0 then Some (PendingRecords pending) else cerr)"

definition closer_bound :: "log_error option \<Rightarrow> int \<Rightarrow> int" where
  "closer_bound latched drain = (if latched \<noteq> None then 0 else drain)"

definition outstanding :: "holds_state \<Rightarrow> int" where
  "outstanding s = int (length (filter Not (hs_handles s)))"

definition holds_ok :: "holds_state \<Rightarrow> bool" where
  "holds_ok s \<longleftrightarrow> hs_holds s = outstanding s \<and> (hs_open s \<longleftrightarrow> hs_holds s > 0)"

definition drain_ok :: "drain_run \<Rightarrow> bool" where
  "drain_ok d \<longleftrightarrow> holds_ok (dr_state d) \<and>
     (case dr_closer d of
        Reading \<Rightarrow> \<not> hs_closing (dr_state d)
      | Waiting g \<Rightarrow> \<not> hs_closing (dr_state d) \<and> g \<le> hs_gen (dr_state d)
      | Returned n \<Rightarrow> hs_closing (dr_state d) \<and> outstanding (dr_state d) \<le> n)"

lemma outstanding_nonneg [simp]: "0 \<le> outstanding s"
  by (simp add: outstanding_def)

lemma filter_update:
  "i < length xs \<Longrightarrow> \<not> xs ! i \<Longrightarrow> length (filter Not (xs[i := True])) + 1 = length (filter Not xs)"
  by (induction xs arbitrary: i) (auto split: nat.splits simp: less_Suc_eq_0_disj)

lemma hold_op_ok: "holds_ok s \<Longrightarrow> hold_op s = Inr s' \<Longrightarrow>
    holds_ok s' \<and> \<not> hs_closing s \<and> \<not> hs_closing s' \<and> hs_gen s \<le> hs_gen s' \<and> outstanding s' = outstanding s + 1"
  by (auto simp: hold_op_def holds_ok_def outstanding_def Let_def split: if_splits)

lemma release_op_ok: "holds_ok s \<Longrightarrow> holds_ok (release_op i s) \<and> hs_closing (release_op i s) = hs_closing s \<and>
    hs_gen (release_op i s) = hs_gen s \<and> outstanding (release_op i s) \<le> outstanding s"
  using filter_update [of i "hs_handles s"]
  by (auto simp: release_op_def holds_ok_def outstanding_def Let_def split: if_splits)

lemma drain_step_ok: "drain_step deadline d d' \<Longrightarrow> drain_ok d \<Longrightarrow> drain_ok d'"
proof (induction rule: drain_step.induct)
  case (holds d s)
  then show ?case using hold_op_ok [of "dr_state d" s] by (auto simp: drain_ok_def split: closer.splits)
next
  case (releases d i)
  then show ?case using release_op_ok [of "dr_state d" i] by (auto simp: drain_ok_def split: closer.splits)
next
  case (reads d)
  then show ?case by (auto simp: drain_ok_def pending_read_def holds_ok_def outstanding_def split: closer.splits)
qed (auto simp: drain_ok_def split: closer.splits)

lemma drain_reach_ok: "(drain_step deadline)\<^sup>*\<^sup>* d d' \<Longrightarrow> drain_ok d \<Longrightarrow> drain_ok d'"
  by (induction rule: rtranclp_induct) (auto dest: drain_step_ok)

lemma drain_start_ok: "drain_ok (drain_start now no_holds)"
  by (simp add: drain_ok_def drain_start_def no_holds_def holds_ok_def outstanding_def)

lemma outstanding_zero: "outstanding s = 0 \<longleftrightarrow> list_all (\<lambda>r. r) (hs_handles s)"
  by (auto simp: outstanding_def filter_empty_conv list_all_iff)

text \<open>
  C32. A close that reports no error lost nothing: when \<open>Closer\<close> returns nil after any
  interleaving of holds, releases and waiting, no write had failed, every hold ever granted was
  released, and none is granted after.
\<close>

theorem close_success_complete:
  assumes "(drain_step deadline)\<^sup>*\<^sup>* (drain_start now no_holds) d" "dr_closer d = Returned n"
    and "close_result latched n cerr = None"
  shows "latched = None \<and> cerr = None \<and> list_all (\<lambda>r. r) (hs_handles (dr_state d)) \<and>
    hold_op (dr_state d) = Inl LogClosing"
proof -
  have "drain_ok d" using drain_reach_ok [OF assms(1) drain_start_ok] .
  with assms(2) have c: "hs_closing (dr_state d)" "outstanding (dr_state d) \<le> n" by (auto simp: drain_ok_def)
  from assms(3) have l: "latched = None" "cerr = None" "n \<le> 0" by (auto simp: close_result_def split: option.splits if_splits)
  then have "outstanding (dr_state d) = 0" using c(2) outstanding_nonneg [of "dr_state d"] by linarith
  with l c(1) show ?thesis by (simp add: outstanding_zero hold_op_def)
qed

lemma drain_one: "drain_step deadline d d' \<Longrightarrow> (drain_step deadline ^^ 1) d d'"
  by (auto simp: relcompp.simps)

lemma pending_read_returns:
  "hs_holds (dr_state d) = 0 \<or> deadline \<le> dr_now d \<Longrightarrow>
     \<exists>n. dr_closer (pending_read deadline d) = Returned n \<and>
       hs_handles (dr_state (pending_read deadline d)) = hs_handles (dr_state d)"
  by (auto simp: pending_read_def)


text \<open>One run: a record is held, the closer waits, the record is released.\<close>

definition held :: holds_state where
  "held = \<lparr>hs_holds = 1, hs_gen = 1, hs_open = True, hs_closing = False, hs_handles = [False]\<rparr>"

lemma held_run:
  "(drain_step 5)\<^sup>*\<^sup>* (drain_start 0 no_holds)
     \<lparr>dr_state = release_op 0 held, dr_now = 0, dr_closer = Waiting 1\<rparr>"
proof -
  have h: "hold_op (dr_state (drain_start 0 no_holds)) = Inr held"
    by (simp add: hold_op_def drain_start_def no_holds_def held_def)
  have 1: "drain_step 5 (drain_start 0 no_holds) (drain_start 0 held)"
    using drain_step.holds [OF h, of 5] by (simp add: drain_start_def)
  have 2: "drain_step 5 (drain_start 0 held) \<lparr>dr_state = held, dr_now = 0, dr_closer = Waiting 1\<rparr>"
    using drain_step.reads [of "drain_start 0 held" 5] by (simp add: drain_start_def pending_read_def held_def)
  have 3: "drain_step 5 \<lparr>dr_state = held, dr_now = 0, dr_closer = Waiting 1\<rparr>
      \<lparr>dr_state = release_op 0 held, dr_now = 0, dr_closer = Waiting 1\<rparr>"
    using drain_step.releases [of 5 "\<lparr>dr_state = held, dr_now = 0, dr_closer = Waiting 1\<rparr>" 0] by simp
  from 1 2 3 show ?thesis by (meson rtranclp.rtrancl_into_rtrancl rtranclp.rtrancl_refl)
qed


theorem close_success_complete_witness:
  "\<exists>d :: drain_run. list_all (\<lambda>r. r) (hs_handles (dr_state d)) \<and> hs_handles (dr_state d) = [True] \<and>
     hold_op (dr_state d) = Inl LogClosing"
proof -
  let ?d = "\<lparr>dr_state = release_op 0 held, dr_now = 0, dr_closer = Reading\<rparr>"
  have "drain_step 5 \<lparr>dr_state = release_op 0 held, dr_now = 0, dr_closer = Waiting 1\<rparr> ?d"
    using drain_step.wakes [of "\<lparr>dr_state = release_op 0 held, dr_now = 0, dr_closer = Waiting 1\<rparr>" 1 5]
    by (simp add: channel_closed_def release_op_def held_def)
  moreover have "drain_step 5 ?d (pending_read 5 ?d)" by (rule drain_step.reads) simp
  ultimately have r: "(drain_step 5)\<^sup>*\<^sup>* (drain_start 0 no_holds) (pending_read 5 ?d)"
    using held_run by (meson rtranclp.rtrancl_into_rtrancl)
  have c: "dr_closer (pending_read 5 ?d) = Returned 0" by (simp add: pending_read_def release_op_def held_def)
  have "hs_handles (dr_state (pending_read 5 ?d)) = [True]" by (simp add: pending_read_def release_op_def held_def)
  with close_success_complete [OF r c, of None None] show ?thesis
    by (intro exI [where x = "pending_read 5 ?d"]) (simp add: close_result_def)
qed

subsection \<open>context.go: the recorders of one call\<close>

record decision =
  d_decided :: bool
  d_approved :: bool
  d_session :: bool
  d_unprompted :: bool

text \<open>Each recorder is absent (\<open>None\<close>) when none is installed on the context.\<close>

definition new_decision :: decision where
  "new_decision = \<lparr>d_decided = False, d_approved = False, d_session = False, d_unprompted = False\<rparr>"

definition record_decision :: "bool \<Rightarrow> decision option \<Rightarrow> decision option" where
  "record_decision approved = map_option (\<lambda>d. d\<lparr>d_decided := True, d_approved := approved\<rparr>)"

definition record_session_approval :: "decision option \<Rightarrow> decision option" where
  "record_session_approval = map_option (\<lambda>d. d\<lparr>d_decided := True, d_approved := True, d_session := True\<rparr>)"

definition record_unprompted :: "decision option \<Rightarrow> decision option" where
  "record_unprompted = map_option (\<lambda>d. d\<lparr>d_unprompted := True\<rparr>)"

definition session_approved :: "decision option \<Rightarrow> bool" where
  "session_approved d = (case d of None \<Rightarrow> False | Some d \<Rightarrow> d_session d)"

text \<open>\<open>Fatal.Set\<close> keeps the first error.\<close>

definition fatal_set :: "'e option \<Rightarrow> 'e option \<Rightarrow> 'e option" where
  "fatal_set latched e = (case latched of None \<Rightarrow> e | Some x \<Rightarrow> Some x)"

text \<open>\<open>Failure\<close>: two atomic counters.\<close>

record failure =
  f_count :: "64 word"
  f_progress :: "64 word"

definition mark_failed :: "failure option \<Rightarrow> failure option" where
  "mark_failed = map_option (\<lambda>f. f\<lparr>f_count := f_count f + 1\<rparr>)"

definition mark_progress :: "failure option \<Rightarrow> failure option" where
  "mark_progress = map_option (\<lambda>f. f\<lparr>f_progress := f_progress f + 1\<rparr>)"

definition failed :: "failure \<Rightarrow> bool" where
  "failed f \<longleftrightarrow> sint (f_count f) > 0"

datatype route_mark = RouteUnset | RouteDirect | RouteProxy

definition mark_route :: "bool \<Rightarrow> route_mark option \<Rightarrow> route_mark option" where
  "mark_route proxied = map_option (\<lambda>_. if proxied then RouteProxy else RouteDirect)"

definition route_value :: "route_mark \<Rightarrow> string" where
  "route_value m = (case m of RouteUnset \<Rightarrow> [] | RouteDirect \<Rightarrow> ''direct'' | RouteProxy \<Rightarrow> ''proxy'')"

subsection \<open>rotate.go: the age of the file\<close>

text \<open>
  A \<open>time.Duration\<close> is a signed 64-bit count of nanoseconds: the product wraps, and
  \<open>Time.Sub\<close> saturates. The zero time, an unknown age, is \<open>None\<close>.
\<close>

definition one_day :: int where
  "one_day = 24 * 60 * 60 * 10 ^ 9"

definition duration :: "int \<Rightarrow> int" where
  "duration i = sint (word_of_int i :: 64 word)"

definition retention_from_days :: "int \<Rightarrow> int" where
  "retention_from_days days = duration (duration days * one_day)"

definition time_sub :: "int \<Rightarrow> int \<Rightarrow> int" where
  "time_sub t u = max (- (2 ^ 63)) (min (2 ^ 63 - 1) (t - u))"

definition rotate_due_by_age :: "int option \<Rightarrow> int \<Rightarrow> int \<Rightarrow> bool" where
  "rotate_due_by_age oldest now retention =
     (case oldest of
        None \<Rightarrow> False
      | Some t \<Rightarrow> if retention \<le> 0 then False else time_sub now t \<ge> retention)"

text \<open>
  \<open>parseFirstRecordTime\<close>; decoding the \<open>time\<close> member of a line is \<open>decode\<close>
  (its zero time is \<open>Some None\<close>).
\<close>

definition parse_first_record_time :: "(string \<Rightarrow> int option option) \<Rightarrow> string \<Rightarrow> int option" where
  "parse_first_record_time decode line0 =
     (let line = trim_space line0 in
      if line = [] then None else (case decode line of Some t \<Rightarrow> t | None \<Rightarrow> None))"

text \<open>
  \<open>ageRotatingWriter.Write\<close>: the anchor, and what the inner writer saw. The two clock
  readings of one write are \<open>now\<close> and \<open>after\<close>.
\<close>

datatype file_event = Rotated bool | Wrote string write_outcome

definition age_write ::
    "int \<Rightarrow> int \<Rightarrow> int \<Rightarrow> bool \<Rightarrow> write_outcome \<Rightarrow> string \<Rightarrow> int option \<Rightarrow> int option \<times> file_event list \<times> write_outcome" where
  "age_write retention now after rotate_ok w p oldest =
     (let due = rotate_due_by_age oldest now retention in
      if due \<and> \<not> rotate_ok then (oldest, [Rotated False], WriteShort 0)
      else (let anchor = (if due then None else oldest) in
            (if w = WriteOk \<and> anchor = None then Some after else anchor,
             (if due then [Rotated True] else []) @ [Wrote p w], w)))"

lemma duration_id: "- (2 ^ 63) \<le> i \<Longrightarrow> i < 2 ^ 63 \<Longrightarrow> duration i = i"
  unfolding duration_def by (simp add: signed_of_int signed_take_bit_int_eq_self)

text \<open>
  C40. The retention window is the configured number of days up to 106751; above, the product
  wraps around: 213504 days, which the configuration accepts, make a window of 25 minutes.
\<close>

theorem retention_window:
  "(0 \<le> days \<and> days \<le> 106751 \<longrightarrow> retention_from_days days = days * one_day) \<and>
   retention_from_days 213504 = 1526290448384 \<and>
   rotate_due_by_age (Some t) (t + 1526290448384) (retention_from_days 213504)"
proof (intro conjI impI)
  assume d: "0 \<le> days \<and> days \<le> 106751"
  then have "duration days = days" by (intro duration_id) simp_all
  moreover have "duration (days * one_day) = days * one_day"
    using d by (intro duration_id) (simp_all add: one_day_def)
  ultimately show "retention_from_days days = days * one_day" by (simp add: retention_from_days_def)
next
  show w: "retention_from_days 213504 = 1526290448384"
    by (simp add: retention_from_days_def duration_def one_day_def)
  show "rotate_due_by_age (Some t) (t + 1526290448384) (retention_from_days 213504)"
    unfolding w by (simp add: rotate_due_by_age_def time_sub_def)
qed

theorem retention_window_witness:
  "retention_from_days 30 = 30 * one_day \<and> retention_from_days 213504 < one_day"
  using retention_window [of 30 0] by (simp add: one_day_def)

end
