(* ===== verification/Session_State.thy ===== *)
theory Session_State
  imports Go_Strings "HOL-Library.Word"
begin

text \<open>
  Small shared state of a session: the two-stage interrupt latch
  (\<open>internal/interrupt/state.go\<close>), the metrics accumulator with the token budget
  (\<open>internal/metrics/metrics.go\<close>), and the messages of a transcript
  (\<open>internal/schema\<close>). The mutexes make every operation one step.
\<close>

subsection \<open>The interrupt latch\<close>

record interrupt_state =
  is_in_turn :: bool
  is_tripped :: bool

definition interrupt_init :: interrupt_state where
  "interrupt_init = \<lparr>is_in_turn = False, is_tripped = False\<rparr>"

definition interrupted_now :: "interrupt_state \<Rightarrow> bool" where
  "interrupted_now s = is_tripped s"

definition begin_turn :: "interrupt_state \<Rightarrow> interrupt_state" where
  "begin_turn s = s\<lparr>is_tripped := False, is_in_turn := True\<rparr>"

definition end_turn :: "interrupt_state \<Rightarrow> interrupt_state" where
  "end_turn s = s\<lparr>is_in_turn := False\<rparr>"

text \<open>\<open>Trip\<close>: the new state and whether the process should die.\<close>

definition trip :: "interrupt_state \<Rightarrow> interrupt_state \<times> bool" where
  "trip s = (if \<not> is_in_turn s then (s, True) else if is_tripped s then (s, True)
             else (s\<lparr>is_tripped := True\<rparr>, False))"

datatype interrupt_op = Begin | End | Press

fun interrupt_step :: "interrupt_op \<Rightarrow> interrupt_state \<Rightarrow> interrupt_state \<times> bool" where
  "interrupt_step Begin s = (begin_turn s, False)"
| "interrupt_step End s = (end_turn s, False)"
| "interrupt_step Press s = trip s"

fun interrupt_run :: "interrupt_op list \<Rightarrow> interrupt_state \<Rightarrow> interrupt_state \<times> bool list" where
  "interrupt_run [] s = (s, [])"
| "interrupt_run (x # xs) s =
     (case interrupt_step x s of (s1, k) \<Rightarrow> (case interrupt_run xs s1 of (s2, ks) \<Rightarrow> (s2, k # ks)))"

text \<open>
  The specification reads the history, latest operation first: in a turn since the last
  Begin or End is a Begin, and presses are counted back to it.
\<close>

fun in_turn_spec :: "interrupt_op list \<Rightarrow> bool" where
  "in_turn_spec [] = False"
| "in_turn_spec (Begin # h) = True"
| "in_turn_spec (End # h) = False"
| "in_turn_spec (Press # h) = in_turn_spec h"

fun presses_spec :: "interrupt_op list \<Rightarrow> nat" where
  "presses_spec [] = 0"
| "presses_spec (Begin # h) = 0"
| "presses_spec (End # h) = presses_spec h"
| "presses_spec (Press # h) = presses_spec h + (if in_turn_spec h then 1 else 0)"

definition kills_spec :: "interrupt_op list \<Rightarrow> bool" where
  "kills_spec h \<longleftrightarrow> \<not> in_turn_spec h \<or> presses_spec h > 0"

definition abs_state :: "interrupt_op list \<Rightarrow> interrupt_state" where
  "abs_state h = \<lparr>is_in_turn = in_turn_spec h, is_tripped = (presses_spec h > 0)\<rparr>"

lemma interrupt_step_spec:
  "interrupt_step x (abs_state h) = (abs_state (x # h), x = Press \<and> kills_spec h)"
  by (cases x) (auto simp: abs_state_def begin_turn_def end_turn_def trip_def kills_spec_def)

lemma interrupt_run_spec:
  "interrupt_run xs (abs_state h) =
     (abs_state (rev xs @ h), map (\<lambda>i. xs ! i = Press \<and> kills_spec (rev (take i xs) @ h)) [0..<length xs])"
proof (induction xs arbitrary: h)
  case (Cons x xs)
  show ?case
    by (simp add: interrupt_step_spec Cons.IH map_upt_Suc del: upt_Suc)
qed simp

text \<open>
  The interrupt latch, against its history: a press kills exactly when no turn is open
  or the turn was pressed before, and a graceful stop is reported exactly when the latest turn was
  pressed.
\<close>

theorem interrupt_latch_spec:
  "interrupt_run xs interrupt_init =
     (\<lparr>is_in_turn = in_turn_spec (rev xs), is_tripped = (presses_spec (rev xs) > 0)\<rparr>,
      map (\<lambda>i. xs ! i = Press \<and> kills_spec (rev (take i xs))) [0..<length xs])"
  using interrupt_run_spec [of xs "[]"] by (simp add: abs_state_def interrupt_init_def)

subsection \<open>Token usage and the budget\<close>

text \<open>Go's \<open>int\<close> is a 64-bit word; sums wrap.\<close>

type_synonym go_int = "64 word"

record usage =
  us_prompt :: go_int
  us_completion :: go_int
  us_total :: go_int
  us_cached_read :: go_int
  us_cached_write :: go_int

record stats =
  st_elapsed :: int
  st_round_trips :: go_int
  st_responses :: go_int
  st_tool_calls :: go_int
  st_subagents :: go_int
  st_verifiers :: go_int
  st_usage :: usage

record accumulator =
  acc_max_tokens :: go_int
  acc_round_trips :: go_int
  acc_responses :: go_int
  acc_tool_calls :: go_int
  acc_subagents :: go_int
  acc_verifiers :: go_int
  acc_usage :: usage
  acc_active :: int
  acc_billed :: go_int
  acc_turn_start :: "int option"  \<comment> \<open>\<open>None\<close> is the zero time\<close>
  acc_baseline :: stats

definition zero_usage :: usage where
  "zero_usage = \<lparr>us_prompt = 0, us_completion = 0, us_total = 0, us_cached_read = 0, us_cached_write = 0\<rparr>"

definition zero_stats :: stats where
  "zero_stats = \<lparr>st_elapsed = 0, st_round_trips = 0, st_responses = 0, st_tool_calls = 0, st_subagents = 0,
     st_verifiers = 0, st_usage = zero_usage\<rparr>"

definition new_accumulator :: "go_int \<Rightarrow> accumulator" where
  "new_accumulator max_tokens =
     \<lparr>acc_max_tokens = max_tokens, acc_round_trips = 0, acc_responses = 0, acc_tool_calls = 0, acc_subagents = 0,
      acc_verifiers = 0, acc_usage = zero_usage, acc_active = 0, acc_billed = 0, acc_turn_start = None, acc_baseline = zero_stats\<rparr>"

definition usage_tokens :: "usage \<Rightarrow> go_int" where
  "usage_tokens u = (if sint (us_total u) > 0 then us_total u else us_prompt u + us_completion u)"

definition plus_usage :: "usage \<Rightarrow> usage \<Rightarrow> usage" where
  "plus_usage a u =
     \<lparr>us_prompt = us_prompt a + us_prompt u, us_completion = us_completion a + us_completion u,
      us_total = us_total a + us_total u, us_cached_read = us_cached_read a + us_cached_read u,
      us_cached_write = us_cached_write a + us_cached_write u\<rparr>"

definition add_usage :: "usage \<Rightarrow> accumulator \<Rightarrow> accumulator" where
  "add_usage u a = a\<lparr>acc_usage := plus_usage (acc_usage a) u, acc_billed := acc_billed a + usage_tokens u\<rparr>"

definition add_round_trip :: "accumulator \<Rightarrow> accumulator" where
  "add_round_trip a = a\<lparr>acc_round_trips := acc_round_trips a + 1\<rparr>"

definition add_response :: "accumulator \<Rightarrow> accumulator" where
  "add_response a = a\<lparr>acc_responses := acc_responses a + 1\<rparr>"

definition add_tool_call :: "accumulator \<Rightarrow> accumulator" where
  "add_tool_call a = a\<lparr>acc_tool_calls := acc_tool_calls a + 1\<rparr>"

definition add_subagent :: "accumulator \<Rightarrow> accumulator" where
  "add_subagent a = a\<lparr>acc_subagents := acc_subagents a + 1\<rparr>"

definition add_verifier :: "accumulator \<Rightarrow> accumulator" where
  "add_verifier a = a\<lparr>acc_verifiers := acc_verifiers a + 1\<rparr>"

text \<open>The active window of a turn; \<open>now\<close> is the clock reading, in nanoseconds.\<close>

definition elapsed :: "int \<Rightarrow> accumulator \<Rightarrow> int" where
  "elapsed now a = (case acc_turn_start a of None \<Rightarrow> acc_active a | Some t \<Rightarrow> acc_active a + (now - t))"

definition snapshot :: "int \<Rightarrow> accumulator \<Rightarrow> stats" where
  "snapshot now a =
     \<lparr>st_elapsed = elapsed now a, st_round_trips = acc_round_trips a, st_responses = acc_responses a,
      st_tool_calls = acc_tool_calls a, st_subagents = acc_subagents a, st_verifiers = acc_verifiers a,
      st_usage = acc_usage a\<rparr>"

definition start_turn :: "int \<Rightarrow> accumulator \<Rightarrow> accumulator" where
  "start_turn now a = a\<lparr>acc_baseline := snapshot now a, acc_turn_start := Some now\<rparr>"

definition close_turn :: "int \<Rightarrow> accumulator \<Rightarrow> accumulator" where
  "close_turn now a =
     (case acc_turn_start a of
        None \<Rightarrow> a
      | Some t \<Rightarrow> a\<lparr>acc_active := acc_active a + (now - t), acc_turn_start := None\<rparr>)"

definition minus_usage :: "usage \<Rightarrow> usage \<Rightarrow> usage" where
  "minus_usage a u =
     \<lparr>us_prompt = us_prompt a - us_prompt u, us_completion = us_completion a - us_completion u,
      us_total = us_total a - us_total u, us_cached_read = us_cached_read a - us_cached_read u,
      us_cached_write = us_cached_write a - us_cached_write u\<rparr>"

definition diff_stats :: "stats \<Rightarrow> stats \<Rightarrow> stats" where
  "diff_stats cur base =
     \<lparr>st_elapsed = st_elapsed cur - st_elapsed base, st_round_trips = st_round_trips cur - st_round_trips base,
      st_responses = st_responses cur - st_responses base, st_tool_calls = st_tool_calls cur - st_tool_calls base,
      st_subagents = st_subagents cur - st_subagents base, st_verifiers = st_verifiers cur - st_verifiers base,
      st_usage = minus_usage (st_usage cur) (st_usage base)\<rparr>"

definition turn_snapshot :: "int \<Rightarrow> accumulator \<Rightarrow> stats" where
  "turn_snapshot now a = diff_stats (snapshot now a) (acc_baseline a)"

definition budget_exceeded :: "accumulator \<Rightarrow> bool" where
  "budget_exceeded a \<longleftrightarrow> sint (acc_max_tokens a) > 0 \<and> sint (acc_billed a) \<ge> sint (acc_max_tokens a)"

definition has_budget :: "accumulator \<Rightarrow> bool" where
  "has_budget a \<longleftrightarrow> sint (acc_max_tokens a) > 0"

subsection \<open>Messages\<close>

datatype role = System | User | Assistant | Tool

datatype block =
    TextBlock (text_of: string)
  | ToolCallBlock (tc_id: string) (tc_name: string) (tc_args: string)
  | ToolResultBlock (tr_id: string) (tr_content: string)
  | ReasoningBlock (rb_text: "string option") (rb_details: "string list")

record message =
  m_role :: role
  m_content :: "block list"

definition system_message :: "string \<Rightarrow> message" where
  "system_message text = \<lparr>m_role = System, m_content = [TextBlock text]\<rparr>"

definition user_message :: "string \<Rightarrow> message" where
  "user_message text = \<lparr>m_role = User, m_content = [TextBlock text]\<rparr>"

definition assistant_message :: "string \<Rightarrow> block list \<Rightarrow> message" where
  "assistant_message text calls =
     \<lparr>m_role = Assistant, m_content = (if text \<noteq> [] then [TextBlock text] else []) @ calls\<rparr>"

definition tool_message :: "string \<Rightarrow> string \<Rightarrow> message" where
  "tool_message content tool_call_id = \<lparr>m_role = Tool, m_content = [ToolResultBlock tool_call_id content]\<rparr>"

definition message_text :: "message \<Rightarrow> string" where
  "message_text m = concat (map text_of (filter is_TextBlock (m_content m)))"

definition tool_calls :: "message \<Rightarrow> block list" where
  "tool_calls m = filter is_ToolCallBlock (m_content m)"

definition tool_results :: "message \<Rightarrow> block list" where
  "tool_results m = filter is_ToolResultBlock (m_content m)"

definition reasoning :: "message \<Rightarrow> block option" where
  "reasoning m = (case filter is_ReasoningBlock (m_content m) of [] \<Rightarrow> None | r # _ \<Rightarrow> Some r)"

lemma message_simps [simp]:
  "m_role (user_message t) = User" "tool_calls (user_message t) = []" "message_text (user_message t) = t"
  "m_role (tool_message c i) = Tool" "tool_calls (tool_message c i) = []"
  "tool_results (tool_message c i) = [ToolResultBlock i c]" "message_text (tool_message c i) = []"
  "m_role (assistant_message t cs) = Assistant" "tool_calls (assistant_message t cs) = filter is_ToolCallBlock cs"
  "m_role (system_message t) = System" "tool_calls (system_message t) = []"
  by (simp_all add: user_message_def tool_message_def assistant_message_def system_message_def tool_calls_def
      tool_results_def message_text_def)

end
