(* ===== verification/Agent_Loop.thy ===== *)
theory Agent_Loop
  imports Audit_Log Session_State
begin

text \<open>
  \<open>internal/agent\<close>: the tool-calling loop (\<open>loop.go\<close>), the failure summary
  (\<open>failure_summary.go\<close>), the \<open>task\<close> sub-agent (\<open>task.go\<close>), the fence around
  tool output (\<open>framing.go\<close>) and the turn that drives them (\<open>agent.go\<close>,
  \<open>history.go\<close>). The world outside (the model, the tools, the operator, the clock) is a
  state of its own that every call may change; rendering is not modelled. A run also keeps the
  trace of the events the properties speak of.
\<close>

subsection \<open>State\<close>

datatype stop_reason = StopUnspecified | StopNormal | StopLength | StopContentFilter | StopToolCalls | StopOther

record generation =
  g_message :: "message option"
  g_stop :: stop_reason
  g_raw :: string

datatype loop_error =
    Interrupted
  | OverBudget
  | IterationLimit
  | EmptyResponses
  | OutputLimit
  | ContentFiltered
  | StoppedEarly string
  | ModelFailed
  | ContextDone
  | AuditFailed log_error

record run_state =
  rs_depth :: nat
  rs_run_id :: string
  rs_failures :: int
  rs_empty :: nat
  rs_truncated :: nat
  rs_answer_truncated :: bool
  rs_answer_reasoning :: "block option"
  rs_host_answer :: bool

definition new_run_state :: "nat \<Rightarrow> string \<Rightarrow> run_state" where
  "new_run_state depth run_id =
     \<lparr>rs_depth = depth, rs_run_id = run_id, rs_failures = 0, rs_empty = 0, rs_truncated = 0,
      rs_answer_truncated = False, rs_answer_reasoning = None, rs_host_answer = False\<rparr>"

datatype agent_event =
    Generated "message list" bool  \<comment> \<open>the transcript, and whether tools were offered\<close>
  | Logged log_record bool  \<comment> \<open>an audit record and whether it was written\<close>
  | ToolRun string string string  \<comment> \<open>the call's ID, the tool and its arguments\<close>

record 'w core =
  co_world :: 'w
  co_metrics :: accumulator
  co_trace :: "agent_event list"

definition emit :: "agent_event \<Rightarrow> 'w core \<Rightarrow> 'w core" where
  "emit ev c = c\<lparr>co_trace := co_trace c @ [ev]\<rparr>"

definition bill :: "usage list \<Rightarrow> 'w core \<Rightarrow> 'w core" where
  "bill us c = c\<lparr>co_metrics := fold add_usage us (co_metrics c)\<rparr>"

text \<open>What a tool gives back: its text, an audit failure, or another error.\<close>

datatype tool_out = ToolOk string | ToolAuditError log_error | ToolError string

datatype tool_kind = ScopedTool | GatedTool | UngatedTool

record 'w io_result =
  io_out :: tool_out
  io_decision :: decision
  io_failure :: failure
  io_route :: route_mark
  io_usages :: "usage list"
  io_world :: 'w

record scope =
  sc_session_id :: string
  sc_run_id :: string
  sc_depth :: nat
  sc_call_id :: string

record 'w agent =
  ag_tool :: "string \<Rightarrow> tool_kind option"
  ag_scoped :: "run_state \<Rightarrow> string \<Rightarrow> string \<Rightarrow> 'w core \<Rightarrow> tool_out \<times> 'w core"
  ag_io :: "scope \<Rightarrow> string \<Rightarrow> string \<Rightarrow> 'w \<Rightarrow> 'w io_result"
  ag_generate :: "message list \<Rightarrow> bool \<Rightarrow> 'w \<Rightarrow> generation option \<times> usage list \<times> 'w"
  ag_interrupted :: "'w \<Rightarrow> bool \<times> 'w"
  ag_context_done :: "'w \<Rightarrow> bool \<times> 'w"
  ag_new_id :: "'w \<Rightarrow> string \<times> 'w"
  ag_log :: "(log_record \<Rightarrow> 'w \<Rightarrow> log_error option \<times> 'w) option"
  ag_session_id :: string
  ag_denied_result :: string
  ag_max_failures :: int
  ag_quote :: "string \<Rightarrow> string"  \<comment> \<open>\<open>strconv.Quote\<close>\<close>

subsection \<open>Halts\<close>

definition interrupted :: "'w agent \<Rightarrow> 'w core \<Rightarrow> bool \<times> 'w core" where
  "interrupted a c = (case ag_interrupted a (co_world c) of (b, w) \<Rightarrow> (b, c\<lparr>co_world := w\<rparr>))"

definition halt_err :: "'w agent \<Rightarrow> 'w core \<Rightarrow> loop_error option \<times> 'w core" where
  "halt_err a c =
     (case interrupted a c of
        (True, c1) \<Rightarrow> (Some Interrupted, c1)
      | (False, c1) \<Rightarrow> (if budget_exceeded (co_metrics c1) then (Some OverBudget, c1) else (None, c1)))"

definition halt_or :: "'w agent \<Rightarrow> loop_error \<Rightarrow> 'w core \<Rightarrow> loop_error \<times> 'w core" where
  "halt_or a fallback c = (case halt_err a c of (Some e, c1) \<Rightarrow> (e, c1) | (None, c1) \<Rightarrow> (fallback, c1))"

definition tally :: "(accumulator \<Rightarrow> accumulator) \<Rightarrow> 'w core \<Rightarrow> 'w core" where
  "tally f c = c\<lparr>co_metrics := f (co_metrics c)\<rparr>"

definition generate :: "'w agent \<Rightarrow> message list \<Rightarrow> bool \<Rightarrow> 'w core \<Rightarrow> generation option \<times> 'w core" where
  "generate a turn with_tools c =
     (case ag_generate a turn with_tools (co_world c) of
        (g, us, w) \<Rightarrow> (g, tally add_round_trip (bill us (emit (Generated turn with_tools) (c\<lparr>co_world := w\<rparr>)))))"

subsection \<open>Framing\<close>

definition untrusted_tag :: string where
  "untrusted_tag = ''tool_output''"

definition is_regex_space :: "char \<Rightarrow> bool" where
  "is_regex_space c \<longleftrightarrow> c \<in> {CHR 0x09, CHR 0x0A, CHR 0x0C, CHR 0x0D, CHR '' ''}"

text \<open>
  The match of \<open>(?i)</\s*tag\s*>\<close> at the start of a text: what follows it. Neither
  tag has a letter that folds outside ASCII.
\<close>

definition closing_tag :: "string \<Rightarrow> string \<Rightarrow> string option" where
  "closing_tag tag s =
     (case cut_prefix s ''</'' of
        None \<Rightarrow> None
      | Some r \<Rightarrow>
          (let r1 = dropWhile is_regex_space r in
           if map ascii_lower (take (length tag) r1) = map ascii_lower tag then
             (case dropWhile is_regex_space (drop (length tag) r1) of
                c # r2 \<Rightarrow> if c = CHR ''>'' then Some r2 else None
              | [] \<Rightarrow> None)
           else None))"

lemma closing_tag_Some:
  assumes "closing_tag tag s = Some r"
  shows "\<exists>x. s = ''</'' @ x \<and> map ascii_lower (take (length tag) (dropWhile is_regex_space x)) = map ascii_lower tag \<and>
    dropWhile is_regex_space (drop (length tag) (dropWhile is_regex_space x)) = CHR ''>'' # r"
proof (cases "cut_prefix s ''</''")
  case None
  with assms show ?thesis unfolding closing_tag_def by (simp only: option.case) simp
next
  case (Some x)
  define y where "y = dropWhile is_regex_space (drop (length tag) (dropWhile is_regex_space x))"
  have "closing_tag tag s =
      (if map ascii_lower (take (length tag) (dropWhile is_regex_space x)) = map ascii_lower tag
       then (case y of c # r2 \<Rightarrow> if c = CHR ''>'' then Some r2 else None | [] \<Rightarrow> None) else None)"
    unfolding closing_tag_def Some option.case Let_def y_def ..
  with assms have m: "map ascii_lower (take (length tag) (dropWhile is_regex_space x)) = map ascii_lower tag"
    and "(case y of c # r2 \<Rightarrow> if c = CHR ''>'' then Some r2 else None | [] \<Rightarrow> None) = Some r"
    by (auto simp only: split: if_splits)
  then have "y = CHR ''>'' # r" by (cases y) (auto split: if_splits)
  with m Some show ?thesis unfolding y_def cut_prefix_Some by blast
qed

lemma closing_tag_shorter: "closing_tag tag s = Some r \<Longrightarrow> length r < length s"
proof -
  assume "closing_tag tag s = Some r"
  then obtain x where x: "s = ''</'' @ x"
      "dropWhile is_regex_space (drop (length tag) (dropWhile is_regex_space x)) = CHR ''>'' # r"
    using closing_tag_Some by blast
  have "length (CHR ''>'' # r) \<le> length (drop (length tag) (dropWhile is_regex_space x))"
    using length_dropWhile_le x(2) by metis
  also have "\<dots> \<le> length x" using length_dropWhile_le [of is_regex_space x] by simp
  finally show ?thesis using x(1) by simp
qed

function escape_fence :: "string \<Rightarrow> string \<Rightarrow> string" where
  "escape_fence tag [] = []"
| "escape_fence tag (c # s) =
     (case closing_tag tag (c # s) of
        Some r \<Rightarrow> ''<'' @ CHR 0x5C # ''/'' @ tag @ ''>'' @ escape_fence tag r
      | None \<Rightarrow> c # escape_fence tag s)"
  by pat_completeness auto
termination by (relation "measure (\<lambda>(t, s). length s)") (auto dest: closing_tag_shorter)

declare escape_fence.simps(2) [simp del]

definition wrap_untrusted :: "'w agent \<Rightarrow> string \<Rightarrow> string \<Rightarrow> string" where
  "wrap_untrusted a tool_name content =
     ''<'' @ untrusted_tag @ '' tool='' @ ag_quote a tool_name @ ''>'' @ [CHR 0x0A] @
     escape_fence untrusted_tag content @ [CHR 0x0A] @ ''</'' @ untrusted_tag @ ''>''"

subsection \<open>Dispatching one call\<close>

record call_outcome =
  oc_decision :: string
  oc_outcome :: string
  oc_result :: string
  oc_failures :: int
  oc_progress :: int
  oc_route :: string

definition host_outcome :: "string \<Rightarrow> string \<Rightarrow> string \<Rightarrow> call_outcome" where
  "host_outcome decision outcome res =
     \<lparr>oc_decision = decision, oc_outcome = outcome, oc_result = res, oc_failures = 0, oc_progress = 0, oc_route = []\<rparr>"

definition ungated_label :: "decision \<Rightarrow> string" where
  "ungated_label d = (if d_unprompted d then ''unprompted'' else ''ungated'')"

definition decision_label :: "decision \<Rightarrow> string" where
  "decision_label d =
     (if d_decided d \<and> \<not> d_approved d then ''denied''
      else if d_session d then ''approved_session'' else ''approved'')"

definition denied_interrupt_result :: string where
  "denied_interrupt_result = ''Tool not run: the operator interrupted the turn.''"

definition credited_failures :: "call_outcome \<Rightarrow> int" where
  "credited_failures oc =
     (if oc_progress oc > 0 then 0 else if oc_failures oc > 0 then oc_failures oc
      else if oc_outcome oc \<noteq> ''ok'' then 1 else 0)"

definition approval_shown :: "'w agent \<Rightarrow> string \<Rightarrow> bool" where
  "approval_shown a name = (ag_tool a name = Some GatedTool)"

definition audited :: "'w agent \<Rightarrow> log_record \<Rightarrow> 'w core \<Rightarrow> log_error option \<times> 'w core" where
  "audited a r c =
     (case ag_log a of
        None \<Rightarrow> (None, c)
      | Some log \<Rightarrow>
          (case log r (co_world c) of (e, w) \<Rightarrow> (e, emit (Logged r (e = None)) (c\<lparr>co_world := w\<rparr>))))"

definition invoke_scoped ::
    "'w agent \<Rightarrow> run_state \<Rightarrow> string \<Rightarrow> string \<Rightarrow> string \<Rightarrow> 'w core \<Rightarrow>
     (log_error, string \<times> call_outcome) result \<times> 'w core" where
  "invoke_scoped a rs name args call_id c =
     (case ag_scoped a rs name args (emit (ToolRun call_id name args) c) of
        (ToolAuditError e, c1) \<Rightarrow> (Inl e, c1)
      | (ToolError t, c1) \<Rightarrow>
          (let msg = ''Error executing tool '' @ ag_quote a name @ '': '' @ t
           in (Inr (msg, host_outcome ''ungated'' ''error'' msg), c1))
      | (ToolOk t, c1) \<Rightarrow> (Inr (t, host_outcome ''ungated'' ''ok'' t), c1))"

definition invoke_io ::
    "'w agent \<Rightarrow> run_state \<Rightarrow> string \<Rightarrow> bool \<Rightarrow> string \<Rightarrow> string \<Rightarrow> 'w core \<Rightarrow>
     (log_error, string \<times> call_outcome) result \<times> 'w core" where
  "invoke_io a rs name ungated args call_id c =
     (case interrupted a c of
        (True, c1) \<Rightarrow>
          (Inr (denied_interrupt_result, host_outcome ''denied'' ''denied'' denied_interrupt_result), c1)
      | (False, c1) \<Rightarrow>
          (let sc = \<lparr>sc_session_id = ag_session_id a, sc_run_id = rs_run_id rs, sc_depth = rs_depth rs,
                     sc_call_id = call_id\<rparr>;
               r = ag_io a sc name args (co_world c1);
               c2 = bill (io_usages r) (emit (ToolRun call_id name args) (c1\<lparr>co_world := io_world r\<rparr>));
               label = (if ungated then ungated_label (io_decision r) else decision_label (io_decision r))
           in case io_out r of
                ToolAuditError e \<Rightarrow> (Inl e, c2)
              | ToolError t \<Rightarrow>
                  (let msg = ''Error executing tool '' @ ag_quote a name @ '': '' @ t
                   in (Inr (msg, (host_outcome label ''error'' msg)\<lparr>oc_route := route_value (io_route r)\<rparr>), c2))
              | ToolOk out \<Rightarrow>
                  (let outcome = (if label = ''denied'' then ''denied''
                                  else if failed (io_failure r) then ''error'' else ''ok'');
                       ret = (if ag_denied_result a \<noteq> [] \<and> out = ag_denied_result a then out
                              else wrap_untrusted a name out)
                   in (Inr (ret, \<lparr>oc_decision = label, oc_outcome = outcome, oc_result = out,
                                  oc_failures = sint (f_count (io_failure r)),
                                  oc_progress = sint (f_progress (io_failure r)),
                                  oc_route = route_value (io_route r)\<rparr>), c2))))"

definition invoke ::
    "'w agent \<Rightarrow> run_state \<Rightarrow> string \<Rightarrow> string \<Rightarrow> string \<Rightarrow> 'w core \<Rightarrow>
     (log_error, string \<times> call_outcome) result \<times> 'w core" where
  "invoke a rs name args call_id c =
     (case ag_tool a name of
        None \<Rightarrow>
          (let msg = ''Error: unknown tool '' @ ag_quote a name @ ''.''
           in (Inr (msg, host_outcome ''ungated'' ''error'' msg), c))
      | Some ScopedTool \<Rightarrow> invoke_scoped a rs name args call_id c
      | Some GatedTool \<Rightarrow> invoke_io a rs name False args call_id c
      | Some UngatedTool \<Rightarrow> invoke_io a rs name True args call_id c)"

definition attempt_record :: "'w agent \<Rightarrow> run_state \<Rightarrow> string \<Rightarrow> string \<Rightarrow> string \<Rightarrow> log_record" where
  "attempt_record a rs call_id name args =
     \<lparr>r_time = 0, r_seq = 0, r_session_id = ag_session_id a, r_run_id = rs_run_id rs, r_call_id = call_id,
      r_parent_call_id = [], r_depth = int (rs_depth rs), r_actor = [], r_agent = None, r_phase = ''attempt'',
      r_via = [], r_tool = name, r_arguments = Some (raw_args args), r_decision = [], r_outcome = [], r_result = [],
      r_route = [], r_redact_args = (\<not> approval_shown a name)\<rparr>"

definition result_record :: "'w agent \<Rightarrow> run_state \<Rightarrow> string \<Rightarrow> string \<Rightarrow> string \<Rightarrow> call_outcome \<Rightarrow> log_record" where
  "result_record a rs call_id name args oc =
     (attempt_record a rs call_id name args)
       \<lparr>r_phase := ''result'', r_decision := oc_decision oc, r_outcome := oc_outcome oc, r_result := oc_result oc,
        r_route := oc_route oc\<rparr>"

definition dispatch ::
    "'w agent \<Rightarrow> run_state \<Rightarrow> string \<Rightarrow> string \<Rightarrow> 'w core \<Rightarrow> (log_error, string \<times> int) result \<times> 'w core" where
  "dispatch a rs name args c =
     (case ag_new_id a (co_world c) of
        (call_id, w) \<Rightarrow>
          (case audited a (attempt_record a rs call_id name args) (c\<lparr>co_world := w\<rparr>) of
             (Some e, c1) \<Rightarrow> (Inl e, c1)
           | (None, c1) \<Rightarrow>
               (case invoke a rs name args call_id c1 of
                  (Inl e, c2) \<Rightarrow> (Inl e, c2)
                | (Inr (ret, oc), c2) \<Rightarrow>
                    (case audited a (result_record a rs call_id name args oc) c2 of
                       (Some e, c3) \<Rightarrow> (Inl e, c3)
                     | (None, c3) \<Rightarrow> (Inr (ret, credited_failures oc), c3)))))"

subsection \<open>The failure summary\<close>

definition stop_summary_directive :: string where
  "stop_summary_directive = ''You have stopped because you hit several consecutive tool '' @
     ''failures and appear to be stuck. Do NOT call any more tools. In 2-4 sentences for the '' @
     ''operator: (1) the wall you hit, (2) the specific input, credential, or decision you need '' @
     ''to proceed, and (3) a concrete recommended next step they can confirm with '' @ [CHR 0x22] @ ''yes'' @ [CHR 0x22] @
     '' or by supplying the value. Be direct; do not apologize at length.''"

definition deterministic_failure_notice :: string where
  "deterministic_failure_notice = ''I stopped after repeated tool failures and could not '' @
     ''summarize the cause. Please check the required inputs (e.g. an account/project ID, region, '' @
     ''or credentials) and tell me how to proceed.''"

definition synthetic_halt_result :: string where
  "synthetic_halt_result = ''Tool not run: the turn halted after repeated tool failures.''"

fun pending_ids :: "string list \<Rightarrow> block list \<Rightarrow> string list" where
  "pending_ids answered [] = []"
| "pending_ids answered (tc # tcs) =
     (if tc_id tc \<in> set answered then pending_ids answered tcs
      else tc_id tc # pending_ids (tc_id tc # answered) tcs)"

definition complete_pending :: "message list \<Rightarrow> message list" where
  "complete_pending turn =
     turn @ map (tool_message synthetic_halt_result)
       (pending_ids (map tr_id (concat (map tool_results turn))) (concat (map tool_calls turn)))"

definition failures_exhausted :: "'w agent \<Rightarrow> run_state \<Rightarrow> bool" where
  "failures_exhausted a rs \<longleftrightarrow> ag_max_failures a > 0 \<and> rs_failures rs \<ge> ag_max_failures a"

type_synonym ('w, 'a) loop_result = "(loop_error, 'a) result \<times> run_state \<times> 'w core"

definition failure_summary :: "'w agent \<Rightarrow> run_state \<Rightarrow> message list \<Rightarrow> 'w core \<Rightarrow> ('w, string) loop_result" where
  "failure_summary a rs turn c =
     (case interrupted a c of
        (True, c1) \<Rightarrow> (Inl Interrupted, rs, c1)
      | (False, c1) \<Rightarrow>
          (case generate a (complete_pending turn @ [user_message stop_summary_directive]) False c1 of
             (g, c2) \<Rightarrow>
               (case interrupted a c2 of
                  (True, c3) \<Rightarrow> (Inl Interrupted, rs, c3)
                | (False, c3) \<Rightarrow>
                    (case ag_context_done a (co_world c3) of
                       (True, w) \<Rightarrow> (Inl ContextDone, rs, c3\<lparr>co_world := w\<rparr>)
                     | (False, w) \<Rightarrow>
                         (let c4 = c3\<lparr>co_world := w\<rparr>;
                              notice = (Inr deterministic_failure_notice, rs\<lparr>rs_host_answer := True\<rparr>, c4)
                          in if budget_exceeded (co_metrics c4) then (Inl OverBudget, rs, c4)
                             else (case g of
                                 None \<Rightarrow> notice
                               | Some gen \<Rightarrow>
                                   (case g_message gen of
                                      None \<Rightarrow> notice
                                    | Some m \<Rightarrow>
                                        if trim_space (message_text m) = [] then notice
                                        else (case halt_err a c4 of
                                            (Some e, c5) \<Rightarrow> (Inl e, rs, c5)
                                          | (None, c5) \<Rightarrow>
                                              (Inr (message_text m),
                                               rs\<lparr>rs_answer_truncated := (rs_answer_truncated rs \<or> g_stop gen = StopLength),
                                                  rs_answer_reasoning := reasoning m\<rparr>, c5)))))))))"

subsection \<open>Dispatching a turn's calls\<close>

text \<open>The answer of a halt is empty when there is none, as in the code.\<close>

definition dispatch_and_track ::
    "'w agent \<Rightarrow> run_state \<Rightarrow> block \<Rightarrow> message list \<Rightarrow> 'w core \<Rightarrow> ('w, message list \<times> string) loop_result" where
  "dispatch_and_track a rs tc turn c =
     (case dispatch a rs (tc_name tc) (tc_args tc) c of
        (Inl e, c1) \<Rightarrow> (Inl (AuditFailed e), rs, c1)
      | (Inr (res, failures), c1) \<Rightarrow>
          (let turn' = turn @ [tool_message res (tc_id tc)];
               rs' = rs\<lparr>rs_failures := (if failures > 0 then rs_failures rs + failures else 0)\<rparr>
           in case halt_err a c1 of
                (Some e, c2) \<Rightarrow> (Inl e, rs', c2)
              | (None, c2) \<Rightarrow>
                  (if failures_exhausted a rs' then
                     (case failure_summary a rs' turn' c2 of
                        (Inl e, rs2, c3) \<Rightarrow> (Inl e, rs2, c3)
                      | (Inr answer, rs2, c3) \<Rightarrow> (Inr (turn', answer), rs2, c3))
                   else (Inr (turn', []), rs', c2))))"

fun dispatch_all ::
    "'w agent \<Rightarrow> run_state \<Rightarrow> block list \<Rightarrow> message list \<Rightarrow> 'w core \<Rightarrow> ('w, message list \<times> string) loop_result" where
  "dispatch_all a rs [] turn c = (Inr (turn, []), rs, c)"
| "dispatch_all a rs (tc # tcs) turn c =
     (case dispatch_and_track a rs tc turn (tally add_tool_call c) of
        (Inl e, rs1, c1) \<Rightarrow> (Inl e, rs1, c1)
      | (Inr (turn1, halt), rs1, c1) \<Rightarrow>
          if halt \<noteq> [] then (Inr (turn1, halt), rs1, c1) else dispatch_all a rs1 tcs turn1 c1)"

subsection \<open>Accepting a turn\<close>

definition max_consecutive_empty :: nat where
  "max_consecutive_empty = 3"

definition max_consecutive_truncated :: nat where
  "max_consecutive_truncated = 3"

definition empty_turn_directive :: string where
  "empty_turn_directive = ''Your previous response was empty: it contained neither text nor a '' @
     ''tool call. Continue the investigation with a tool call, or give your final answer as text.''"

definition truncated_calls_directive :: string where
  "truncated_calls_directive = ''Your previous response hit the output limit midway through writing '' @
     ''tool calls, so none of them were run. Re-issue the work in smaller steps: shorter arguments, '' @
     ''or fewer tool calls per turn.''"

definition blank_turn :: "message option \<Rightarrow> bool" where
  "blank_turn m = (case m of None \<Rightarrow> True | Some m \<Rightarrow> tool_calls m = [] \<and> trim_space (message_text m) = [])"

definition handle_blank_turn ::
    "'w agent \<Rightarrow> run_state \<Rightarrow> message list \<Rightarrow> generation \<Rightarrow> 'w core \<Rightarrow> ('w, message list) loop_result" where
  "handle_blank_turn a rs turn gen c =
     (let stop = (\<lambda>e rs. case halt_or a e c of (e', c1) \<Rightarrow> (Inl e', rs, c1)) in
      case g_stop gen of
        StopLength \<Rightarrow> stop OutputLimit rs
      | StopContentFilter \<Rightarrow> stop ContentFiltered rs
      | StopOther \<Rightarrow> stop (StoppedEarly (g_raw gen)) rs
      | _ \<Rightarrow>
          (let rs1 = rs\<lparr>rs_empty := rs_empty rs + 1\<rparr> in
           if rs_empty rs1 \<ge> max_consecutive_empty then stop EmptyResponses rs1
           else (Inr (turn @ [user_message empty_turn_directive]), rs1, c)))"

definition refuse_truncated_calls ::
    "'w agent \<Rightarrow> run_state \<Rightarrow> message list \<Rightarrow> message \<Rightarrow> 'w core \<Rightarrow> ('w, message list) loop_result" where
  "refuse_truncated_calls a rs turn m c =
     (let rs1 = rs\<lparr>rs_truncated := rs_truncated rs + 1\<rparr>;
          text = message_text m;
          projected = assistant_message text [];
          projected1 = (case reasoning m of None \<Rightarrow> projected
                        | Some r \<Rightarrow> projected\<lparr>m_content := r # m_content projected\<rparr>);
          turn1 = (if trim_space text \<noteq> [] then turn @ [projected1] else turn)
      in if rs_truncated rs1 \<ge> max_consecutive_truncated then
           (case halt_or a OutputLimit c of (e, c1) \<Rightarrow> (Inl e, rs1, c1))
         else (Inr (turn1 @ [user_message truncated_calls_directive]), rs1, c))"

text \<open>The transcript, the calls to dispatch, the answer, and whether the run is over.\<close>

definition accept_turn ::
    "'w agent \<Rightarrow> run_state \<Rightarrow> message list \<Rightarrow> generation \<Rightarrow> 'w core \<Rightarrow>
     ('w, message list \<times> block list \<times> string \<times> bool) loop_result" where
  "accept_turn a rs turn gen c =
     (if blank_turn (g_message gen) then
        (case handle_blank_turn a rs turn gen c of
           (Inl e, rs1, c1) \<Rightarrow> (Inl e, rs1, c1)
         | (Inr next, rs1, c1) \<Rightarrow> (Inr (next, [], [], False), rs1, c1))
      else (let m = the (g_message gen); rs0 = rs\<lparr>rs_empty := 0\<rparr>; calls = tool_calls m in
        if calls \<noteq> [] \<and> g_stop gen = StopLength then
          (case refuse_truncated_calls a rs0 turn m c of
             (Inl e, rs1, c1) \<Rightarrow> (Inl e, rs1, c1)
           | (Inr next, rs1, c1) \<Rightarrow> (Inr (next, [], [], False), rs1, c1))
        else (let rs1 = rs0\<lparr>rs_truncated := 0\<rparr>; turn1 = turn @ [m] in
          if calls \<noteq> [] then (Inr (turn1, calls, [], False), rs1, c)
          else (case halt_err a c of
              (Some e, c1) \<Rightarrow> (Inl e, rs1, c1)
            | (None, c1) \<Rightarrow>
                (Inr (turn1, [], message_text m, True),
                 rs1\<lparr>rs_answer_truncated := (rs_answer_truncated rs1 \<or> g_stop gen = StopLength),
                     rs_answer_reasoning := reasoning m\<rparr>, c1)))))"

subsection \<open>The loop\<close>

fun run_loop :: "'w agent \<Rightarrow> nat \<Rightarrow> run_state \<Rightarrow> message list \<Rightarrow> 'w core \<Rightarrow> ('w, string) loop_result" where
  "run_loop a 0 rs turn c = (case halt_or a IterationLimit c of (e, c1) \<Rightarrow> (Inl e, rs, c1))"
| "run_loop a (Suc n) rs turn c =
     (case halt_err a c of
        (Some e, c1) \<Rightarrow> (Inl e, rs, c1)
      | (None, c1) \<Rightarrow>
          (case generate a turn True c1 of
             (g, c2) \<Rightarrow>
               (case halt_err a c2 of
                  (Some e, c3) \<Rightarrow> (Inl e, rs, c3)
                | (None, c3) \<Rightarrow>
                    (case g of
                       None \<Rightarrow> (Inl ModelFailed, rs, c3)
                     | Some gen \<Rightarrow>
                         (case accept_turn a rs turn gen (tally add_response c3) of
                            (Inl e, rs1, c4) \<Rightarrow> (Inl e, rs1, c4)
                          | (Inr (turn1, calls, answer, done), rs1, c4) \<Rightarrow>
                              if done then (Inr answer, rs1, c4)
                              else (case dispatch_all a rs1 calls turn1 c4 of
                                  (Inl e, rs2, c5) \<Rightarrow> (Inl e, rs2, c5)
                                | (Inr (turn2, halt), rs2, c5) \<Rightarrow>
                                    if halt \<noteq> [] then (Inr halt, rs2, c5)
                                    else run_loop a n rs2 turn2 c5))))))"

subsection \<open>The task sub-agent\<close>

definition max_task_depth :: nat where
  "max_task_depth = 1"

definition subagent_delegation_guidance :: string where
  "subagent_delegation_guidance = ''Sub-agents cannot themselves delegate with task; '' @
     ''do the work directly in this sub-agent.''"

definition subagent_truncated_marker :: string where
  "subagent_truncated_marker =
     ''[The sub-agent's answer reached the model's output limit and may be incomplete.]''"

fun subagent_stop :: "loop_error \<Rightarrow> string option" where
  "subagent_stop IterationLimit = Some ''Sub-agent reached its iteration limit without a conclusion.''"
| "subagent_stop EmptyResponses = Some ''Sub-agent stopped: the model returned repeated empty responses.''"
| "subagent_stop OutputLimit = Some ''Sub-agent stopped: the model reached its output limit before answering.''"
| "subagent_stop ContentFiltered = Some ''Sub-agent stopped: the model's content filter blocked the response.''"
| "subagent_stop (StoppedEarly r) = Some ''Sub-agent stopped: the model ended the turn without an answer.''"
| "subagent_stop _ = None"

text \<open>
  \<open>taskTool.runScoped\<close>. \<open>decode\<close> reads the description out of the arguments
  (\<open>None\<close>: malformed); \<open>show_err\<close> is the text of an error that is not an audit
  failure; the agent it drives is \<open>a\<close>.
\<close>

definition task_run ::
    "'w agent \<Rightarrow> (string \<Rightarrow> string option) \<Rightarrow> (loop_error \<Rightarrow> string) \<Rightarrow> string \<Rightarrow> nat \<Rightarrow> run_state \<Rightarrow> string \<Rightarrow>
     'w core \<Rightarrow> tool_out \<times> 'w core" where
  "task_run a decode show_err system_prompt max_iter rs args c =
     (if rs_depth rs \<ge> max_task_depth then (ToolOk subagent_delegation_guidance, c)
      else (case decode args of
          None \<Rightarrow> (ToolOk ''Provide a non-empty 'description' for the sub-agent task.'', c)
        | Some description \<Rightarrow>
            if description = [] then (ToolOk ''Provide a non-empty 'description' for the sub-agent task.'', c)
            else (case run_loop a max_iter (new_run_state (rs_depth rs + 1) (rs_run_id rs))
                         [system_message system_prompt, user_message description] (tally add_subagent c) of
                (Inl e, sub, c1) \<Rightarrow>
                  (case subagent_stop e of
                     Some notice \<Rightarrow> (ToolOk notice, c1)
                   | None \<Rightarrow>
                       (case e of
                          AuditFailed le \<Rightarrow> (ToolAuditError le, c1)
                        | _ \<Rightarrow> (ToolError (show_err e), c1)))
              | (Inr answer, sub, c1) \<Rightarrow>
                  (ToolOk (wrap_untrusted a ''task''
                     (answer @ (if rs_answer_truncated sub then [CHR 0x0A, CHR 0x0A] @ subagent_truncated_marker else []))),
                   c1))))"

text \<open>
  The other orchestration tools (\<open>write_todos\<close>, \<open>verify_findings\<close>) are a parameter here; \<open>Agent_Verify\<close> models them.
  The task tool drives the same agent; its depth guard makes one level of unfolding exact
  (\<open>agent_at_guard\<close>).
\<close>

record 'w base_agent =
  ba_agent :: "'w agent"  \<comment> \<open>with the other orchestration tools in \<open>ag_scoped\<close>\<close>
  ba_decode :: "string \<Rightarrow> string option"
  ba_show_err :: "loop_error \<Rightarrow> string"
  ba_system_prompt :: string
  ba_max_iter :: int
  ba_max_subagent_iter :: int

definition with_task :: "'w base_agent \<Rightarrow> 'w agent \<Rightarrow> 'w agent" where
  "with_task b sub =
     (ba_agent b)\<lparr>ag_scoped := (\<lambda>rs name args c.
        if name = ''task''
        then task_run sub (ba_decode b) (ba_show_err b) (ba_system_prompt b) (nat (ba_max_subagent_iter b)) rs args c
        else ag_scoped (ba_agent b) rs name args c)\<rparr>"

definition agent_at :: "'w base_agent \<Rightarrow> nat \<Rightarrow> 'w agent" where
  "agent_at b n = (with_task b ^^ Suc n) (ba_agent b)"

definition the_agent :: "'w base_agent \<Rightarrow> 'w agent" where
  "the_agent b = agent_at b max_task_depth"

subsection \<open>One turn\<close>

record session =
  se_history :: "message list"
  se_unanswered :: "string list"

definition unanswered_prefix :: string where
  "unanswered_prefix = ''Earlier question, which ended without an answer: ''"

definition with_unanswered :: "string list \<Rightarrow> string \<Rightarrow> string" where
  "with_unanswered unanswered question =
     concat (map (\<lambda>q. unanswered_prefix @ q @ [CHR 0x0A, CHR 0x0A]) unanswered) @ question"

definition history_answer :: "string \<Rightarrow> block option \<Rightarrow> message" where
  "history_answer answer r =
     (let m = assistant_message answer [] in
      case r of
        Some (ReasoningBlock (Some t) _) \<Rightarrow> m\<lparr>m_content := ReasoningBlock (Some t) [] # m_content m\<rparr>
      | _ \<Rightarrow> m)"

text \<open>Whether a stop ends in an operator notice (\<open>stopNotice\<close>).\<close>

fun stop_notice :: "loop_error \<Rightarrow> bool" where
  "stop_notice OverBudget = True"
| "stop_notice IterationLimit = True"
| "stop_notice EmptyResponses = True"
| "stop_notice OutputLimit = True"
| "stop_notice ContentFiltered = True"
| "stop_notice (StoppedEarly r) = True"
| "stop_notice _ = False"

datatype turn_outcome = Answered | TurnInterrupted | NoAnswer loop_error | TurnFailed loop_error

text \<open>\<open>Agent.Run\<close>: \<open>begin\<close> and \<open>finish\<close> bracket the turn in the world, which
  also gives the clock.\<close>

definition agent_run ::
    "'w base_agent \<Rightarrow> ('w \<Rightarrow> 'w) \<Rightarrow> ('w \<Rightarrow> 'w) \<Rightarrow> ('w \<Rightarrow> int) \<Rightarrow> string \<Rightarrow> session \<Rightarrow> 'w core \<Rightarrow>
     turn_outcome \<times> session \<times> 'w core" where
  "agent_run b begin finish clock question se c0 =
     (let c1 = tally (start_turn (clock (co_world c0))) c0;
          c2 = c1\<lparr>co_world := begin (co_world c1)\<rparr>;
          a = the_agent b
      in case ag_new_id a (co_world c2) of
        (run_id, w) \<Rightarrow>
          (let full = with_unanswered (se_unanswered se) question;
               seed = system_message (ba_system_prompt b) # se_history se @ [user_message full]
           in case run_loop a (nat (ba_max_iter b)) (new_run_state 0 run_id) seed (c2\<lparr>co_world := w\<rparr>) of
                (res, rs, c3) \<Rightarrow>
                  (let c4 = c3\<lparr>co_world := finish (co_world c3)\<rparr>;
                       c5 = tally (close_turn (clock (co_world c4))) c4
                   in case res of
                        Inl e \<Rightarrow>
                          (if e = Interrupted then TurnInterrupted
                           else if stop_notice e then NoAnswer e else TurnFailed e, se, c5)
                      | Inr answer \<Rightarrow>
                          (Answered,
                           if rs_host_answer rs then se\<lparr>se_unanswered := se_unanswered se @ [question]\<rparr>
                           else se\<lparr>se_history := se_history se @
                                    [user_message full, history_answer answer (rs_answer_reasoning rs)],
                                  se_unanswered := []\<rparr>, c5))))"

subsection \<open>The trace\<close>

text \<open>
  Every assistant turn with calls is followed by the results of exactly those calls, in
  order, and no result stands anywhere else. The first argument holds the calls still to be
  answered.
\<close>

fun paired :: "string list \<Rightarrow> message list \<Rightarrow> bool" where
  "paired ps [] = (ps = [])"
| "paired ps (m # ms) =
     (if m_role m = Tool then (case ps of [] \<Rightarrow> False | p # ps' \<Rightarrow> map tr_id (tool_results m) = [p] \<and> paired ps' ms)
      else ps = [] \<and> paired (map tc_id (tool_calls m)) ms)"

text \<open>
  What may follow the event before it. Nothing follows a record that was not written; a tool
  only runs right after the attempt record of its own call; and the model only sees paired
  transcripts when it is offered tools.
\<close>

fun ok_next :: "bool \<Rightarrow> agent_event option \<Rightarrow> agent_event \<Rightarrow> bool" where
  "ok_next on (Some (Logged r False)) ev = False"
| "ok_next on p (Generated t tools) = (\<not> tools \<or> paired [] t)"
| "ok_next on p (Logged r ok) = on"
| "ok_next on p (ToolRun call_id name args) =
     (case p of
        Some (Logged r True) \<Rightarrow> r_phase r = ''attempt'' \<and> r_call_id r = call_id \<and> r_tool r = name \<and>
           r_arguments r = Some (raw_args args)
      | _ \<Rightarrow> \<not> on)"

fun chained :: "bool \<Rightarrow> agent_event list \<Rightarrow> bool" where
  "chained on [] = True"
| "chained on (ev # evs) = (ok_next on (case evs of [] \<Rightarrow> None | p # _ \<Rightarrow> Some p) ev \<and> chained on evs)"

definition trace_ok :: "bool \<Rightarrow> agent_event list \<Rightarrow> bool" where
  "trace_ok on tr \<longleftrightarrow> chained on (rev tr)"

definition alive :: "agent_event list \<Rightarrow> bool" where
  "alive tr \<longleftrightarrow> (case rev tr of Logged r False # _ \<Rightarrow> False | _ \<Rightarrow> True)"

definition prev_event :: "agent_event list \<Rightarrow> agent_event option" where
  "prev_event tr = (case rev tr of [] \<Rightarrow> None | p # _ \<Rightarrow> Some p)"

lemma trace_ok_Nil [simp]: "trace_ok on []"
  by (simp add: trace_ok_def)

lemma trace_ok_snoc [simp]: "trace_ok on (tr @ [ev]) \<longleftrightarrow> ok_next on (prev_event tr) ev \<and> trace_ok on tr"
  by (simp add: trace_ok_def prev_event_def)

lemma alive_snoc [simp]: "alive (tr @ [ev]) \<longleftrightarrow> (\<forall>r. ev \<noteq> Logged r False)"
  by (cases ev) (auto simp: alive_def split: bool.splits)

lemma alive_prev: "alive tr \<longleftrightarrow> (\<forall>r. prev_event tr \<noteq> Some (Logged r False))"
  by (auto simp: alive_def prev_event_def split: list.splits agent_event.splits bool.splits)

lemma prev_event_snoc [simp]: "prev_event (tr @ [ev]) = Some ev"
  by (simp add: prev_event_def)

lemma ok_next_generated: "alive tr \<Longrightarrow> ok_next on (prev_event tr) (Generated t tools) \<longleftrightarrow> (tools \<longrightarrow> paired [] t)"
  by (cases "prev_event tr" rule: option.exhaust; (cases "the (prev_event tr)")?)
     (auto simp: alive_prev)

lemma ok_next_logged: "alive tr \<Longrightarrow> ok_next on (prev_event tr) (Logged r ok) \<longleftrightarrow> on"
  by (cases "prev_event tr" rule: option.exhaust; (cases "the (prev_event tr)")?)
     (auto simp: alive_prev)

lemma ok_next_off: "alive tr \<Longrightarrow> (\<forall>r. prev_event tr \<noteq> Some (Logged r True)) \<Longrightarrow>
    ok_next False (prev_event tr) (ToolRun i n args)"
  by (cases "prev_event tr" rule: option.exhaust; (cases "the (prev_event tr)")?)
     (auto simp: alive_prev)

definition auditing :: "'w agent \<Rightarrow> bool" where
  "auditing a \<longleftrightarrow> ag_log a \<noteq> None"

definition core_inv :: "'w agent \<Rightarrow> 'w core \<Rightarrow> bool" where
  "core_inv a c \<longleftrightarrow> trace_ok (auditing a) (co_trace c) \<and> alive (co_trace c)"

definition post :: "'w agent \<Rightarrow> 'w core \<Rightarrow> bool \<Rightarrow> bool" where
  "post a c fatal \<longleftrightarrow> trace_ok (auditing a) (co_trace c) \<and> (alive (co_trace c) \<or> fatal)"

lemma ok_next_on: "ok_next b p (Logged r k) \<Longrightarrow> b"
  by (cases "(b, p, Logged r k)" rule: ok_next.cases) auto

lemma trace_ok_off: "trace_ok False tr \<Longrightarrow> prev_event tr \<noteq> Some (Logged r b)"
proof (cases tr rule: rev_cases)
  case (snoc ys ev)
  moreover assume "trace_ok False tr"
  ultimately have o: "ok_next False (prev_event ys) ev" by simp
  have "ev \<noteq> Logged r b"
  proof
    assume "ev = Logged r b"
    with o ok_next_on show False by blast
  qed
  with snoc show ?thesis by simp
qed (simp add: prev_event_def)

lemma core_trace [simp]:
  "co_trace (tally f c) = co_trace c" "co_trace (bill us c) = co_trace c"
  "co_trace (emit ev c) = co_trace c @ [ev]"
  by (simp_all add: tally_def bill_def emit_def)

lemma interrupted_trace: "interrupted a c = (b, c') \<Longrightarrow> co_trace c' = co_trace c"
  by (auto simp: interrupted_def split: prod.splits)

lemma halt_err_trace: "halt_err a c = (r, c') \<Longrightarrow> co_trace c' = co_trace c"
  by (auto simp: halt_err_def dest: interrupted_trace split: prod.splits bool.splits if_splits)

lemma halt_err_kind: "halt_err a c = (Some e, c') \<Longrightarrow> e = Interrupted \<or> e = OverBudget"
  by (auto simp: halt_err_def split: prod.splits bool.splits if_splits)

lemma halt_or_trace: "halt_or a f c = (e, c') \<Longrightarrow> co_trace c' = co_trace c"
  by (auto simp: halt_or_def dest: halt_err_trace split: prod.splits option.splits)

lemma generate_trace: "generate a t w c = (g, c') \<Longrightarrow> co_trace c' = co_trace c @ [Generated t w]"
  by (auto simp: generate_def split: prod.splits)

lemma generate_inv: "core_inv a c \<Longrightarrow> generate a t w c = (g, c') \<Longrightarrow> (w \<Longrightarrow> paired [] t) \<Longrightarrow> core_inv a c'"
  by (auto simp: core_inv_def generate_trace ok_next_generated)

lemma audited_inv:
  "core_inv a c \<Longrightarrow> audited a r c = (e, c') \<Longrightarrow> trace_ok (auditing a) (co_trace c') \<and> (e = None \<longrightarrow> alive (co_trace c')) \<and>
     (e = None \<longrightarrow> (if auditing a then prev_event (co_trace c') = Some (Logged r True) else co_trace c' = co_trace c))"
  by (auto simp: audited_def core_inv_def ok_next_logged auditing_def split: option.splits prod.splits)

definition scoped_ok :: "'w agent \<Rightarrow> bool" where
  "scoped_ok a \<longleftrightarrow> (\<forall>rs name args c out c'. core_inv a c \<longrightarrow> ag_scoped a rs name args c = (out, c') \<longrightarrow>
     post a c' (\<exists>e. out = ToolAuditError e))"

text \<open>A state right after the attempt record of a call.\<close>

definition ready :: "'w agent \<Rightarrow> string \<Rightarrow> string \<Rightarrow> string \<Rightarrow> 'w core \<Rightarrow> bool" where
  "ready a call_id name args c \<longleftrightarrow> core_inv a c \<and> ok_next (auditing a) (prev_event (co_trace c)) (ToolRun call_id name args)"

lemma attempt_ready:
  assumes "core_inv a c" "audited a (attempt_record a rs call_id name args) c = (None, c')"
  shows "ready a call_id name args c'"
proof (cases "auditing a")
  case True
  with audited_inv [OF assms] show ?thesis by (simp add: ready_def core_inv_def attempt_record_def)
next
  case False
  with audited_inv [OF assms] have "co_trace c' = co_trace c" by simp
  moreover have "\<forall>r b. prev_event (co_trace c) \<noteq> Some (Logged r b)"
    using assms(1) False trace_ok_off by (auto simp: core_inv_def)
  ultimately show ?thesis using assms(1) False by (simp add: ready_def core_inv_def ok_next_off)
qed

lemma ready_emit: "ready a i n args c \<Longrightarrow> core_inv a (emit (ToolRun i n args) c)"
  by (simp add: ready_def core_inv_def)

lemma ready_interrupted: "ready a i n args c \<Longrightarrow> interrupted a c = (b, c') \<Longrightarrow> ready a i n args c'"
  by (auto simp: ready_def core_inv_def dest: interrupted_trace)

lemma invoke_scoped_post:
  assumes "scoped_ok a" "ready a call_id name args c" "invoke_scoped a rs name args call_id c = (r, c')"
  shows "post a c' (\<exists>e. r = Inl e)"
proof -
  obtain out c1 where s: "ag_scoped a rs name args (emit (ToolRun call_id name args) c) = (out, c1)"
    by (metis prod.exhaust)
  have "post a c1 (\<exists>e. out = ToolAuditError e)"
    using assms(1) ready_emit [OF assms(2)] s unfolding scoped_ok_def by blast
  with assms(3) s show ?thesis
    by (cases out) (auto simp: invoke_scoped_def Let_def)
qed

lemma invoke_io_post:
  assumes "ready a call_id name args c" "invoke_io a rs name ungated args call_id c = (r, c')"
  shows "post a c' (\<exists>e. r = Inl e)"
proof -
  obtain b c1 where i: "interrupted a c = (b, c1)" by (metis prod.exhaust)
  note ready_interrupted [OF assms(1) i]
  then have "core_inv a c1" "ok_next (auditing a) (prev_event (co_trace c1)) (ToolRun call_id name args)"
    by (simp_all add: ready_def)
  with assms(2) i show ?thesis
    by (cases b)
       (auto simp: invoke_io_def Let_def post_def core_inv_def split: tool_out.splits)
qed

lemma invoke_post:
  assumes "scoped_ok a" "ready a call_id name args c" "invoke a rs name args call_id c = (r, c')"
  shows "post a c' (\<exists>e. r = Inl e)"
proof (cases "ag_tool a name")
  case None
  with assms(2,3) show ?thesis by (auto simp: invoke_def Let_def post_def ready_def core_inv_def)
next
  case (Some k)
  with assms show ?thesis
    by (cases k) (auto simp: invoke_def dest: invoke_scoped_post [OF assms(1,2)] invoke_io_post [OF assms(2)])
qed

lemma dispatch_post:
  assumes "scoped_ok a" "core_inv a c" "dispatch a rs name args c = (r, c')"
  shows "post a c' (\<exists>e. r = Inl e)"
proof -
  obtain call_id w where i: "ag_new_id a (co_world c) = (call_id, w)" by (metis prod.exhaust)
  have inv: "core_inv a (c\<lparr>co_world := w\<rparr>)" using assms(2) by (simp add: core_inv_def)
  obtain e1 c1 where a1: "audited a (attempt_record a rs call_id name args) (c\<lparr>co_world := w\<rparr>) = (e1, c1)"
    by (metis prod.exhaust)
  show ?thesis
  proof (cases e1)
    case (Some e)
    with assms(3) i a1 audited_inv [OF inv a1] show ?thesis by (auto simp: dispatch_def post_def)
  next
    case None
    note ready = attempt_ready [OF inv a1 [unfolded None]]
    obtain r2 c2 where v: "invoke a rs name args call_id c1 = (r2, c2)" by (metis prod.exhaust)
    note p = invoke_post [OF assms(1) ready v]
    show ?thesis
    proof (cases r2)
      case (Inl e)
      with assms(3) i a1 None v p show ?thesis by (auto simp: dispatch_def)
    next
      case (Inr x)
      obtain ret oc where x: "x = (ret, oc)" by (cases x)
      obtain e3 c3 where a3: "audited a (result_record a rs call_id name args oc) c2 = (e3, c3)" by (metis prod.exhaust)
      have "core_inv a c2" using p Inr by (simp add: post_def core_inv_def)
      from audited_inv [OF this a3] assms(3) i a1 None v Inr x a3 show ?thesis
        by (cases e3) (auto simp: dispatch_def post_def)
    qed
  qed
qed

text \<open>The calls a transcript leaves unanswered at its end, if it is well formed.\<close>

fun pend :: "string list \<Rightarrow> message list \<Rightarrow> string list option" where
  "pend ps [] = Some ps"
| "pend ps (m # ms) =
     (if m_role m = Tool then
        (case ps of [] \<Rightarrow> None | p # ps' \<Rightarrow> if map tr_id (tool_results m) = [p] then pend ps' ms else None)
      else if ps = [] then pend (map tc_id (tool_calls m)) ms else None)"

lemma paired_pend: "paired ps ms \<longleftrightarrow> pend ps ms = Some []"
  by (induction ps ms rule: pend.induct) (auto split: list.splits)

lemma pend_append: "pend ps (xs @ ys) = Option.bind (pend ps xs) (\<lambda>qs. pend qs ys)"
  by (induction ps xs rule: pend.induct) (auto split: list.splits)

definition assistant_model :: "'w agent \<Rightarrow> bool" where
  "assistant_model a \<longleftrightarrow> (\<forall>turn tools w g us w' m.
     ag_generate a turn tools w = (Some g, us, w') \<longrightarrow> g_message g = Some m \<longrightarrow> m_role m \<noteq> Tool)"

lemma core_inv_trace: "co_trace c' = co_trace c \<Longrightarrow> core_inv a c' = core_inv a c"
  by (simp add: core_inv_def)

lemma post_of_inv: "core_inv a c \<Longrightarrow> post a c b"
  by (simp add: core_inv_def post_def)

lemma failure_summary_inv:
  assumes "core_inv a c" "failure_summary a rs turn c = (r, rs', c')"
  shows "core_inv a c' \<and> (\<forall>e. r \<noteq> Inl (AuditFailed e)) \<and> (\<forall>t. r = Inr t \<longrightarrow> t \<noteq> [])"
proof -
  obtain b1 c1 where 1: "interrupted a c = (b1, c1)" by (metis prod.exhaust)
  obtain g c2 where 2: "generate a (complete_pending turn @ [user_message stop_summary_directive]) False c1 = (g, c2)"
    by (metis prod.exhaust)
  obtain b3 c3 where 3: "interrupted a c2 = (b3, c3)" by (metis prod.exhaust)
  obtain b4 w where 4: "ag_context_done a (co_world c3) = (b4, w)" by (metis prod.exhaust)
  obtain h c5 where 5: "halt_err a (c3\<lparr>co_world := w\<rparr>) = (h, c5)" by (metis prod.exhaust)
  have i1: "core_inv a c1" using assms(1) interrupted_trace [OF 1] core_inv_trace by blast
  have i2: "core_inv a c2" using generate_inv [OF i1 2] by simp
  have i3: "core_inv a c3" using i2 interrupted_trace [OF 3] core_inv_trace by blast
  then have i4: "core_inv a (c3\<lparr>co_world := w\<rparr>)" by (simp add: core_inv_def)
  then have i5: "core_inv a c5" using halt_err_trace [OF 5] core_inv_trace by blast
  have n: "deterministic_failure_notice \<noteq> []" by (simp add: deterministic_failure_notice_def)
  have t: "trim_space [] = []" by code_simp
  from halt_err_kind [of a "c3\<lparr>co_world := w\<rparr>"] 5 have k: "h = Some e \<Longrightarrow> e = Interrupted \<or> e = OverBudget" for e by blast
  show ?thesis
    using assms(2) i1 i2 i3 i4 i5 n t k unfolding failure_summary_def 1 2 3 4 Let_def prod.case
    by (auto simp: 5 split: bool.split_asm option.split_asm if_split_asm)
qed

lemma dispatch_and_track_post:
  assumes "scoped_ok a" "core_inv a c" "dispatch_and_track a rs tc turn c = (r, rs', c')"
  shows "post a c' (\<exists>e. r = Inl (AuditFailed e)) \<and> (\<forall>t h. r = Inr (t, h) \<longrightarrow> (\<exists>x. t = turn @ [tool_message x (tc_id tc)]))"
proof -
  obtain d c1 where d: "dispatch a rs (tc_name tc) (tc_args tc) c = (d, c1)" by (metis prod.exhaust)
  note p = dispatch_post [OF assms(1,2) d]
  show ?thesis
  proof (cases d)
    case (Inl e)
    with assms(3) d p show ?thesis by (auto simp: dispatch_and_track_def)
  next
    case (Inr x)
    obtain res fs where x: "x = (res, fs)" by (cases x)
    obtain h c2 where h: "halt_err a c1 = (h, c2)" by (metis prod.exhaust)
    have i2: "core_inv a c2" using p Inr halt_err_trace [OF h] by (auto simp: post_def core_inv_def)
    define turn' where "turn' = turn @ [tool_message res (tc_id tc)]"
    define rs1 where "rs1 = rs\<lparr>rs_failures := (if fs > 0 then rs_failures rs + fs else 0)\<rparr>"
    obtain s rs2 c3 where s: "failure_summary a rs1 turn' c2 = (s, rs2, c3)" by (metis prod.exhaust)
    have i3: "core_inv a c3" using failure_summary_inv [OF i2 s] by blast
    have "(r, rs', c') = (case h of Some e \<Rightarrow> (Inl e, rs1, c2) | None \<Rightarrow>
        (if failures_exhausted a rs1 then
           (case s of Inl e \<Rightarrow> (Inl e, rs2, c3) | Inr answer \<Rightarrow> (Inr (turn', answer), rs2, c3))
         else (Inr (turn', []), rs1, c2)))"
      using assms(3) s unfolding dispatch_and_track_def d Inr x sum.case prod.case Let_def rs1_def turn'_def
      by (cases h; cases s; cases "0 < fs") (auto simp: h split: if_split_asm)
    with i2 i3 show ?thesis
      by (auto simp: turn'_def intro: post_of_inv split: option.split_asm if_split_asm sum.split_asm)
  qed
qed

lemma dispatch_all_post:
  assumes "scoped_ok a" "core_inv a c" "pend [] turn = Some (map tc_id tcs)" "dispatch_all a rs tcs turn c = (r, rs', c')"
  shows "post a c' (\<exists>e. r = Inl (AuditFailed e)) \<and> (\<forall>t. r = Inr (t, []) \<longrightarrow> pend [] t = Some [])"
  using assms(2-)
proof (induction tcs arbitrary: rs turn c)
  case Nil
  then show ?case by (auto intro: post_of_inv)
next
  case (Cons tc tcs)
  obtain d rs1 c1 where d: "dispatch_and_track a rs tc turn (tally add_tool_call c) = (d, rs1, c1)"
    by (metis prod.exhaust)
  have i: "core_inv a (tally add_tool_call c)" using Cons.prems(1) by (simp add: core_inv_def)
  note p = dispatch_and_track_post [OF assms(1) i d]
  show ?case
  proof (cases d)
    case (Inl e)
    with Cons.prems(3) d p show ?thesis by auto
  next
    case (Inr x)
    obtain turn1 halt where x: "x = (turn1, halt)" by (cases x)
    with p Inr obtain y where t1: "turn1 = turn @ [tool_message y (tc_id tc)]" by blast
    have i1: "core_inv a c1" using p Inr by (simp add: post_def core_inv_def)
    show ?thesis
    proof (cases "halt = []")
      case True
      have "pend [] turn1 = Some (map tc_id tcs)" using Cons.prems(2) by (simp add: t1 pend_append)
      moreover have "dispatch_all a rs1 tcs turn1 c1 = (r, rs', c')" using Cons.prems(3) d Inr x True by simp
      ultimately show ?thesis by (rule Cons.IH [OF i1])
    next
      case False
      with Cons.prems(3) d Inr x i1 show ?thesis by (auto intro: post_of_inv)
    qed
  qed
qed

lemma stop_via_halt:
  assumes "halt_or a f c = (e, c')" "core_inv a c" "\<forall>x. f \<noteq> AuditFailed x"
  shows "core_inv a c' \<and> (\<forall>x. e \<noteq> AuditFailed x)"
proof -
  obtain h c1 where h: "halt_err a c = (h, c1)" by (metis prod.exhaust)
  have i: "core_inv a c1" using assms(2) halt_err_trace [OF h] core_inv_trace by blast
  show ?thesis
  proof (cases h)
    case None
    with assms(1,3) h i show ?thesis by (auto simp: halt_or_def)
  next
    case (Some x)
    with halt_err_kind [of a c x c1] h have "x = Interrupted \<or> x = OverBudget" by simp
    with Some assms(1) h i show ?thesis by (auto simp: halt_or_def)
  qed
qed

lemma stop_result:
  assumes "(case halt_or a f c of (e', c1) \<Rightarrow> (Inl e', rs1, c1)) = (r, rs', c')" "core_inv a c" "\<forall>x. f \<noteq> AuditFailed x"
  shows "core_inv a c' \<and> (\<forall>e. r \<noteq> Inl (AuditFailed e)) \<and> (\<forall>t. r \<noteq> Inr t)"
  using assms(1) stop_via_halt [OF _ assms(2,3)] by (auto split: prod.splits)

lemma handle_blank_inv:
  assumes "handle_blank_turn a rs turn gen c = (r, rs', c')" "core_inv a c" "pend [] turn = Some []"
  shows "core_inv a c' \<and> (\<forall>e. r \<noteq> Inl (AuditFailed e)) \<and> (\<forall>t. r = Inr t \<longrightarrow> pend [] t = Some [])"
proof -
  have S: "core_inv a c' \<and> (\<forall>e. r \<noteq> Inl (AuditFailed e)) \<and> (\<forall>t. r = Inr t \<longrightarrow> pend [] t = Some [])"
    if "(case halt_or a f c of (e', c1) \<Rightarrow> (Inl e', rsx, c1)) = (r, rs', c')" "\<forall>x. f \<noteq> AuditFailed x" for f rsx
    using stop_result [OF that(1) assms(2) that(2)] by blast
  have R: "core_inv a c' \<and> (\<forall>e. r \<noteq> Inl (AuditFailed e)) \<and> (\<forall>t. r = Inr t \<longrightarrow> pend [] t = Some [])"
    if "(Inr (turn @ [user_message empty_turn_directive]), rsx, c) = (r, rs', c')" for rsx
    using that assms(2,3) by (auto simp: pend_append)
  let ?rs = "rs\<lparr>rs_empty := rs_empty rs + 1\<rparr>"
  have retry: ?thesis
    if "handle_blank_turn a rs turn gen c = (if rs_empty ?rs \<ge> max_consecutive_empty
          then (case halt_or a EmptyResponses c of (e', c1) \<Rightarrow> (Inl e', ?rs, c1))
          else (Inr (turn @ [user_message empty_turn_directive]), ?rs, c))"
  proof (cases "rs_empty ?rs \<ge> max_consecutive_empty")
    case True
    with that assms(1) show ?thesis by (intro S [where f = EmptyResponses and rsx = ?rs]) simp_all
  next
    case False
    with that assms(1) show ?thesis by (intro R [where rsx = ?rs]) simp
  qed
  show ?thesis
  proof (cases "g_stop gen")
    case StopLength
    with assms(1) show ?thesis by (intro S [where f = OutputLimit and rsx = rs]) (simp_all add: handle_blank_turn_def)
  next
    case StopContentFilter
    with assms(1) show ?thesis by (intro S [where f = ContentFiltered and rsx = rs]) (simp_all add: handle_blank_turn_def)
  next
    case StopOther
    with assms(1) show ?thesis by (intro S [where f = "StoppedEarly (g_raw gen)" and rsx = rs]) (simp_all add: handle_blank_turn_def)
  qed (rule retry, simp add: handle_blank_turn_def Let_def)+
qed

lemma refuse_inv:
  assumes "refuse_truncated_calls a rs turn m c = (r, rs', c')" "core_inv a c" "pend [] turn = Some []"
  shows "core_inv a c' \<and> (\<forall>e. r \<noteq> Inl (AuditFailed e)) \<and> (\<forall>t. r = Inr t \<longrightarrow> pend [] t = Some [])"
proof -
  define p where "p = (case reasoning m of None \<Rightarrow> assistant_message (message_text m) []
    | Some r \<Rightarrow> (assistant_message (message_text m) [])\<lparr>m_content := r # m_content (assistant_message (message_text m) [])\<rparr>)"
  have "reasoning m = Some b \<Longrightarrow> is_ReasoningBlock b" for b
    by (auto simp: reasoning_def filter_eq_Cons_iff split: list.splits)
  then have "tool_calls p = [] \<and> m_role p = Assistant"
    unfolding p_def
    by (cases "reasoning m") (auto simp: tool_calls_def assistant_message_def is_ReasoningBlock_def)
  then have t: "pend [] (turn @ [p, user_message x]) = Some []" "pend [] (turn @ [user_message x]) = Some []" for x
    using assms(3) by (simp_all add: pend_append)
  obtain e c1 where h: "halt_or a OutputLimit c = (e, c1)" by (metis prod.exhaust)
  have k: "core_inv a c1 \<and> (\<forall>x. e \<noteq> AuditFailed x)" by (rule stop_via_halt [OF h assms(2)]) simp
  show ?thesis
    using assms(1,2) k t [of truncated_calls_directive] unfolding refuse_truncated_calls_def Let_def p_def [symmetric] h
    by (auto split: if_split_asm)
qed

lemma accept_turn_inv:
  assumes "accept_turn a rs turn gen c = (r, rs', c')" "core_inv a c" "pend [] turn = Some []"
    and "\<And>m. g_message gen = Some m \<Longrightarrow> m_role m \<noteq> Tool"
  shows "core_inv a c' \<and> (\<forall>e. r \<noteq> Inl (AuditFailed e)) \<and>
    (\<forall>t calls ans done. r = Inr (t, calls, ans, done) \<longrightarrow> done \<or> pend [] t = Some (map tc_id calls))"
proof (cases "blank_turn (g_message gen)")
  case True
  obtain r1 rs1 c1 where b: "handle_blank_turn a rs turn gen c = (r1, rs1, c1)" by (metis prod.exhaust)
  from handle_blank_inv [OF b assms(2,3)] assms(1) True b show ?thesis
    by (cases r1) (auto simp: accept_turn_def)
next
  case False
  then obtain m where m: "g_message gen = Some m" by (auto simp: blank_turn_def split: option.splits)
  note role = assms(4) [OF m]
  have p: "pend [] (turn @ [m]) = Some (map tc_id (tool_calls m))"
    using role assms(3) by (simp add: pend_append)
  show ?thesis
  proof (cases "tool_calls m \<noteq> [] \<and> g_stop gen = StopLength")
    case True
    obtain r1 rs1 c1 where f: "refuse_truncated_calls a (rs\<lparr>rs_empty := 0\<rparr>) turn m c = (r1, rs1, c1)" by (metis prod.exhaust)
    from refuse_inv [OF f assms(2,3)] assms(1) \<open>\<not> blank_turn _\<close> True f m show ?thesis
      by (cases r1) (auto simp: accept_turn_def Let_def)
  next
    case ok: False
    obtain h c1 where h: "halt_err a c = (h, c1)" by (metis prod.exhaust)
    have i: "core_inv a c1" using assms(2) halt_err_trace [OF h] core_inv_trace by blast
    from assms(1,2) False ok m h i p halt_err_kind [of a c] show ?thesis
      by (auto simp: accept_turn_def Let_def split: if_split_asm option.split_asm)
  qed
qed

lemma run_loop_post:
  assumes "scoped_ok a" "assistant_model a"
  shows "core_inv a c \<Longrightarrow> pend [] turn = Some [] \<Longrightarrow> run_loop a n rs turn c = (r, rs', c') \<Longrightarrow>
    post a c' (\<exists>e. r = Inl (AuditFailed e))"
proof (induction n arbitrary: rs turn c)
  case 0
  obtain e c1 where h: "halt_or a IterationLimit c = (e, c1)" by (metis prod.exhaust)
  have "core_inv a c1" using stop_via_halt [OF h "0.prems"(1)] by simp
  with "0.prems"(3) h show ?case by (auto intro: post_of_inv)
next
  case (Suc n)
  obtain h1 c1 where 1: "halt_err a c = (h1, c1)" by (metis prod.exhaust)
  obtain g c2 where 2: "generate a turn True c1 = (g, c2)" by (metis prod.exhaust)
  obtain h3 c3 where 3: "halt_err a c2 = (h3, c3)" by (metis prod.exhaust)
  have i1: "core_inv a c1" using Suc.prems(1) halt_err_trace [OF 1] core_inv_trace by blast
  have i2: "core_inv a c2" using generate_inv [OF i1 2] Suc.prems(2) by (simp add: paired_pend)
  have i3: "core_inv a c3" using i2 halt_err_trace [OF 3] core_inv_trace by blast
  show ?case
  proof (cases "h1 = None \<and> h3 = None \<and> g \<noteq> None")
    case False
    with Suc.prems(3) 1 2 3 i1 i2 i3 show ?thesis
      by (auto intro: post_of_inv split: option.split_asm)
  next
    case True
    then obtain gen where g: "g = Some gen" by auto
    have role: "m_role m \<noteq> Tool" if "g_message gen = Some m" for m
    proof -
      from 2 obtain us w' where "ag_generate a turn True (co_world c1) = (g, us, w')"
        by (auto simp: generate_def split: prod.splits)
      with assms(2) g that show ?thesis unfolding assistant_model_def by blast
    qed
    have i4: "core_inv a (tally add_response c3)" using i3 by (simp add: core_inv_def)
    obtain ra rs1 c4 where a: "accept_turn a rs turn gen (tally add_response c3) = (ra, rs1, c4)" by (metis prod.exhaust)
    note acc = accept_turn_inv [OF a i4 Suc.prems(2) role]
    show ?thesis
    proof (cases ra)
      case (Inl e)
      with Suc.prems(3) 1 2 3 True g a acc show ?thesis by (auto intro: post_of_inv)
    next
      case (Inr x)
      obtain turn1 calls answer "done" where x: "x = (turn1, calls, answer, done)" by (metis prod.exhaust)
      show ?thesis
      proof (cases "done")
        case True
        with Suc.prems(3) 1 2 3 \<open>h1 = None \<and> _\<close> g a acc Inr x show ?thesis by (auto intro: post_of_inv)
      next
        case nd: False
        with acc Inr x have p1: "pend [] turn1 = Some (map tc_id calls)" and i5: "core_inv a c4" by auto
        obtain rd rs2 c5 where d: "dispatch_all a rs1 calls turn1 c4 = (rd, rs2, c5)" by (metis prod.exhaust)
        note dp = dispatch_all_post [OF assms(1) i5 p1 d]
        have e: "run_loop a (Suc n) rs turn c = (case rd of Inl e \<Rightarrow> (Inl e, rs2, c5)
            | Inr (turn2, halt) \<Rightarrow> if halt \<noteq> [] then (Inr halt, rs2, c5) else run_loop a n rs2 turn2 c5)"
          using 1 2 3 True g a Inr x nd d by (auto split: sum.splits)
        show ?thesis
        proof (cases rd)
          case (Inl y)
          with e Suc.prems(3) dp show ?thesis by auto
        next
          case (Inr y)
          obtain turn2 halt where y: "y = (turn2, halt)" by (cases y)
          have i6: "core_inv a c5" using dp Inr by (simp add: post_def core_inv_def)
          show ?thesis
          proof (cases "halt = []")
            case True
            with dp Inr y have p2: "pend [] turn2 = Some []" by simp
            from e Inr y True Suc.prems(3) have "run_loop a n rs2 turn2 c5 = (r, rs', c')" by simp
            with Suc.IH [OF i6 p2] show ?thesis .
          next
            case False
            with e Inr y Suc.prems(3) i6 show ?thesis by (auto intro: post_of_inv)
          qed
        qed
      qed
    qed
  qed
qed

subsection \<open>The whole agent\<close>

text \<open>
  What the other orchestration tools may add to the run's trace: nothing, or model calls that
  offer no tools, as the verifier's.
\<close>

definition quiet_scoped :: "'w agent \<Rightarrow> bool" where
  "quiet_scoped a \<longleftrightarrow> (\<forall>rs name args c. co_trace (snd (ag_scoped a rs name args c)) = co_trace c)"

definition toolless :: "agent_event \<Rightarrow> bool" where
  "toolless ev = (case ev of Generated t tools \<Rightarrow> \<not> tools | _ \<Rightarrow> False)"

definition toolless_scoped :: "'w agent \<Rightarrow> bool" where
  "toolless_scoped a \<longleftrightarrow> (\<forall>rs name args c. \<exists>evs.
     co_trace (snd (ag_scoped a rs name args c)) = co_trace c @ evs \<and> list_all toolless evs)"

lemma quiet_toolless: "quiet_scoped a \<Longrightarrow> toolless_scoped a"
  by (simp add: quiet_scoped_def toolless_scoped_def)

lemma core_inv_toolless:
  "core_inv a c \<Longrightarrow> co_trace c' = co_trace c @ evs \<Longrightarrow> list_all toolless evs \<Longrightarrow> core_inv a c'"
proof (induction evs arbitrary: c' rule: rev_induct)
  case (snoc ev evs)
  then obtain t where ev: "ev = Generated t False" by (auto simp: toolless_def split: agent_event.splits)
  have "core_inv a (c\<lparr>co_trace := co_trace c @ evs\<rparr>)" using snoc by simp
  then show ?case using snoc.prems(2) ev
    by (simp add: core_inv_def ok_next_generated flip: append_assoc)
qed (simp add: core_inv_def)

lemma toolless_scoped_inv:
  assumes "toolless_scoped a" "core_inv b c" "ag_scoped a rs name args c = (out, c')"
  shows "core_inv b c'"
proof -
  obtain evs where "co_trace c' = co_trace c @ evs" "list_all toolless evs"
    using assms(1,3) unfolding toolless_scoped_def by (metis snd_conv)
  with assms(2) show ?thesis by (rule core_inv_toolless)
qed

lemma toolless_scoped_ok: "toolless_scoped a \<Longrightarrow> scoped_ok a"
  unfolding scoped_ok_def using toolless_scoped_inv post_of_inv by blast

lemma same_log:
  "ag_log a = ag_log b \<Longrightarrow> core_inv a c = core_inv b c" "ag_log a = ag_log b \<Longrightarrow> post a c f = post b c f"
  by (simp_all add: core_inv_def post_def auditing_def)

lemma seed_paired: "pend [] [system_message s, user_message u] = Some []"
  by simp

lemma task_run_post:
  assumes "scoped_ok a" "assistant_model a" "core_inv a c"
    and "task_run a decode show_err sys mi rs args c = (out, c')"
  shows "post a c' (\<exists>e. out = ToolAuditError e)"
proof -
  have i: "core_inv a (tally add_subagent c)" using assms(3) by (simp add: core_inv_def)
  note p = post_of_inv [OF assms(3)]
  show ?thesis
  proof (cases "rs_depth rs \<ge> max_task_depth \<or> decode args = None \<or> decode args = Some []")
    case True
    with assms(4) p show ?thesis by (auto simp: task_run_def split: if_split_asm)
  next
    case False
    then obtain d where d: "decode args = Some d" "d \<noteq> []" "\<not> rs_depth rs \<ge> max_task_depth" by auto
    obtain r sub c1 where r: "run_loop a mi (new_run_state (rs_depth rs + 1) (rs_run_id rs))
        [system_message sys, user_message d] (tally add_subagent c) = (r, sub, c1)" by (metis prod.exhaust)
    note q = run_loop_post [OF assms(1,2) i seed_paired r]
    show ?thesis
    proof (cases r)
      case (Inr t)
      with assms(4) d r q show ?thesis by (auto simp: task_run_def post_def)
    next
      case (Inl e)
      with assms(4) d r q show ?thesis
        by (cases e) (auto simp: task_run_def post_def)
    qed
  qed
qed

lemma with_task_fields [simp]:
  "ag_log (with_task b s) = ag_log (ba_agent b)" "ag_generate (with_task b s) = ag_generate (ba_agent b)"
  by (simp_all add: with_task_def)

lemma assistant_with_task: "assistant_model (ba_agent b) \<Longrightarrow> assistant_model (with_task b s)"
  by (simp add: assistant_model_def)

lemma with_task_ok:
  assumes "toolless_scoped (ba_agent b)" "scoped_ok s" "assistant_model s" "ag_log s = ag_log (ba_agent b)"
  shows "scoped_ok (with_task b s)"
  unfolding scoped_ok_def
proof (intro allI impI)
  fix rs name args c out c'
  assume c: "core_inv (with_task b s) c" and r: "ag_scoped (with_task b s) rs name args c = (out, c')"
  have l: "ag_log (with_task b s) = ag_log s" using assms(4) by simp
  have i: "core_inv s c" using c same_log(1) [OF l] by simp
  show "post (with_task b s) c' (\<exists>e. out = ToolAuditError e)"
  proof (cases "name = ''task''")
    case True
    with r have "task_run s (ba_decode b) (ba_show_err b) (ba_system_prompt b) (nat (ba_max_subagent_iter b)) rs args c
        = (out, c')" by (simp add: with_task_def)
    from task_run_post [OF assms(2,3) i this] show ?thesis using same_log(2) [OF l] by simp
  next
    case False
    with r have "ag_scoped (ba_agent b) rs name args c = (out, c')" by (simp add: with_task_def)
    from toolless_scoped_inv [OF assms(1) c this] show ?thesis by (rule post_of_inv)
  qed
qed

lemma the_agent_eq: "the_agent b = with_task b (with_task b (ba_agent b))"
  by (simp add: the_agent_def agent_at_def max_task_depth_def)

lemma the_agent_ok:
  assumes "toolless_scoped (ba_agent b)" "assistant_model (ba_agent b)"
  shows "scoped_ok (the_agent b) \<and> assistant_model (the_agent b)"
proof -
  have "scoped_ok (with_task b (ba_agent b))"
    by (rule with_task_ok [OF assms(1) toolless_scoped_ok [OF assms(1)] assms(2)]) simp
  then have "scoped_ok (the_agent b)"
    unfolding the_agent_eq by (rule with_task_ok [OF assms(1) _ assistant_with_task [OF assms(2)]]) simp
  then show ?thesis by (simp add: the_agent_eq assistant_with_task [OF assms(2)])
qed

text \<open>The guard on the depth makes the unfolding exact: one level down nothing is delegated.\<close>

lemma agent_at_guard:
  "max_task_depth \<le> rs_depth rs \<Longrightarrow>
     ag_scoped (with_task b s) rs ''task'' args c = (ToolOk subagent_delegation_guidance, c)"
  by (simp add: with_task_def task_run_def)

lemma turn_trace:
  assumes "toolless_scoped (ba_agent b)" "assistant_model (ba_agent b)"
    and "paired [] (se_history se)" "co_trace c = []"
    and "agent_run b begin finish clock question se c = (out, se', c')"
  shows "trace_ok (ag_log (ba_agent b) \<noteq> None) (co_trace c') \<and> paired [] (se_history se')"
proof -
  define a where "a = the_agent b"
  define full where "full = with_unanswered (se_unanswered se) question"
  define c2 where "c2 = (tally (start_turn (clock (co_world c))) c)\<lparr>co_world := begin (co_world c)\<rparr>"
  define seed where "seed = system_message (ba_system_prompt b) # se_history se @ [user_message full]"
  obtain run_id w where i: "ag_new_id a (co_world c2) = (run_id, w)" by (metis prod.exhaust)
  obtain r rs c3 where r: "run_loop a (nat (ba_max_iter b)) (new_run_state 0 run_id) seed (c2\<lparr>co_world := w\<rparr>) = (r, rs, c3)"
    by (metis prod.exhaust)
  have l: "ag_log a = ag_log (ba_agent b)" by (simp add: a_def the_agent_eq)
  have e: "co_trace c' = co_trace c3 \<and>
      se_history se' \<in> {se_history se, se_history se @ [user_message full, history_answer (case r of Inr t \<Rightarrow> t | Inl _ \<Rightarrow> []) (rs_answer_reasoning rs)]}"
    using assms(5) i r unfolding agent_run_def Let_def a_def c2_def seed_def full_def
    by (auto simp: tally_def split: sum.splits if_splits)
  have p: "pend [] seed = Some []"
    using assms(3) by (simp add: seed_def paired_pend pend_append)
  have "core_inv a (c2\<lparr>co_world := w\<rparr>)"
    using assms(4) by (simp add: core_inv_def c2_def alive_def)
  with run_loop_post [OF conjunct1 [OF the_agent_ok] conjunct2 [OF the_agent_ok], OF assms(1,2,1,2), folded a_def, OF _ p r]
  have "trace_ok (auditing a) (co_trace c3)" by (simp add: post_def)
  moreover have "pend [] [user_message full, history_answer t x] = Some []" for t x
    by (auto simp: history_answer_def Let_def tool_calls_def assistant_message_def user_message_def
        split: option.splits block.splits)
  ultimately show ?thesis
    using e assms(3) l by (auto simp: auditing_def paired_pend pend_append)
qed

subsection \<open>Stops and answers\<close>

lemma halt_err_interrupted:
  assumes "\<forall>w. fst (ag_interrupted a w)"
  shows "halt_err a c = (Some Interrupted, c\<lparr>co_world := snd (ag_interrupted a (co_world c))\<rparr>)"
proof -
  obtain w where "ag_interrupted a (co_world c) = (True, w)" using assms by (metis (full_types) prod.exhaust_sel)
  then show ?thesis by (simp add: halt_err_def interrupted_def)
qed

text \<open>
  The operator's stop wins: once the interrupt is pressed, a run ends with it, without
  another model call, tool run or audit record, whatever budget, limit or turn it was at.
\<close>

theorem interrupt_wins:
  assumes "\<forall>w. fst (ag_interrupted a w)"
  shows "run_loop a n rs turn c = (Inl Interrupted, rs, c\<lparr>co_world := snd (ag_interrupted a (co_world c))\<rparr>)"
  by (cases n) (simp_all add: halt_or_def halt_err_interrupted [OF assms])

definition spoken :: "('e, string) result \<Rightarrow> bool" where
  "spoken r \<longleftrightarrow> (case r of Inr t \<Rightarrow> trim_space t \<noteq> [] | Inl _ \<Rightarrow> True)"

lemma trim_space_Nil: "trim_space [] = []"
  by code_simp

lemma notice_spoken: "trim_space deterministic_failure_notice \<noteq> []"
  by code_simp

lemma failure_summary_spoken: "failure_summary a rs turn c = (r, rs', c') \<Longrightarrow> spoken r"
  unfolding failure_summary_def Let_def spoken_def
  using notice_spoken by (auto split: prod.split_asm bool.split_asm option.split_asm if_split_asm)

lemma track_spoken:
  assumes "dispatch_and_track a rs tc turn c = (r, rs', c')"
  shows "r = Inr (t, h) \<Longrightarrow> h = [] \<or> trim_space h \<noteq> []"
  using assms failure_summary_spoken [of a]
  by (auto simp: dispatch_and_track_def Let_def spoken_def split: prod.split_asm sum.split_asm option.split_asm if_split_asm)
     fastforce+

lemma dispatch_all_spoken:
  "dispatch_all a rs tcs turn c = (Inr (t, h), rs', c') \<Longrightarrow> h = [] \<or> trim_space h \<noteq> []"
proof (induction tcs arbitrary: rs turn c)
  case (Cons tc tcs)
  obtain d rs1 c1 where d: "dispatch_and_track a rs tc turn (tally add_tool_call c) = (d, rs1, c1)"
    by (metis prod.exhaust)
  show ?case
  proof (cases d)
    case (Inl e)
    with Cons.prems d show ?thesis by simp
  next
    case (Inr x)
    obtain turn1 halt where x: "x = (turn1, halt)" by (cases x)
    show ?thesis
    proof (cases "halt = []")
      case True
      with Cons.prems d Inr x have "dispatch_all a rs1 tcs turn1 c1 = (Inr (t, h), rs', c')" by simp
      then show ?thesis by (rule Cons.IH)
    next
      case False
      with Cons.prems d Inr x have "h = halt" by simp
      with track_spoken [OF d] Inr x False show ?thesis by blast
    qed
  qed
qed simp

lemma accept_turn_spoken:
  assumes "accept_turn a rs turn gen c = (Inr (t, calls, ans, done), rs', c')"
  shows "(done \<longrightarrow> trim_space ans \<noteq> []) \<and> (calls \<noteq> [] \<longrightarrow> g_stop gen \<noteq> StopLength \<and> g_message gen \<noteq> None \<and>
    calls = tool_calls (the (g_message gen)))"
  using assms
  by (auto simp: accept_turn_def Let_def blank_turn_def
      split: prod.split_asm sum.split_asm option.split_asm if_split_asm)

text \<open>
  A run that returns an answer returns one with text in it: a blank turn is never an answer,
  and neither is a blank summary after repeated failures.
\<close>

theorem run_answer_spoken:
  "run_loop a n rs turn c = (r, rs', c') \<Longrightarrow> spoken r"
proof (induction n arbitrary: rs turn c)
  case 0
  then show ?case by (auto simp: spoken_def split: prod.splits)
next
  case (Suc n)
  obtain h1 c1 where 1: "halt_err a c = (h1, c1)" by (metis prod.exhaust)
  obtain g c2 where 2: "generate a turn True c1 = (g, c2)" by (metis prod.exhaust)
  obtain h3 c3 where 3: "halt_err a c2 = (h3, c3)" by (metis prod.exhaust)
  show ?case
  proof (cases "h1 = None \<and> h3 = None \<and> g \<noteq> None")
    case False
    with Suc.prems 1 2 3 show ?thesis by (auto simp: spoken_def split: option.split_asm)
  next
    case True
    then obtain gen where g: "g = Some gen" by auto
    obtain ra rs1 c4 where a: "accept_turn a rs turn gen (tally add_response c3) = (ra, rs1, c4)" by (metis prod.exhaust)
    show ?thesis
    proof (cases ra)
      case (Inl e)
      with Suc.prems 1 2 3 True g a show ?thesis by (auto simp: spoken_def)
    next
      case (Inr x)
      obtain turn1 calls answer "done" where x: "x = (turn1, calls, answer, done)" by (metis prod.exhaust)
      show ?thesis
      proof (cases "done")
        case True
        with accept_turn_spoken [OF a [unfolded Inr x]] Suc.prems 1 2 3 \<open>h1 = None \<and> _\<close> g a Inr x show ?thesis
          by (auto simp: spoken_def)
      next
        case nd: False
        obtain rd rs2 c5 where d: "dispatch_all a rs1 calls turn1 c4 = (rd, rs2, c5)" by (metis prod.exhaust)
        have e: "run_loop a (Suc n) rs turn c = (case rd of Inl e \<Rightarrow> (Inl e, rs2, c5)
            | Inr (turn2, halt) \<Rightarrow> if halt \<noteq> [] then (Inr halt, rs2, c5) else run_loop a n rs2 turn2 c5)"
          using 1 2 3 True g a Inr x nd d by (auto split: sum.splits)
        show ?thesis
        proof (cases rd)
          case (Inl y)
          with e Suc.prems show ?thesis by (auto simp: spoken_def)
        next
          case (Inr y)
          obtain turn2 halt where y: "y = (turn2, halt)" by (cases y)
          with d Inr dispatch_all_spoken have "halt = [] \<or> trim_space halt \<noteq> []" by blast
          with e Inr y Suc show ?thesis by (cases "halt = []") (auto simp: spoken_def)
        qed
      qed
    qed
  qed
qed

subsection \<open>The fence holds\<close>

definition plain_tag :: "string \<Rightarrow> bool" where
  "plain_tag tag \<longleftrightarrow> (\<forall>c \<in> set tag. ascii_lower c \<noteq> CHR ''<'' \<and> ascii_lower c \<noteq> CHR ''>'' \<and> \<not> is_regex_space (ascii_lower c))"

lemma lower_space: "is_regex_space c \<Longrightarrow> ascii_lower c = c"
  by (auto simp: is_regex_space_def ascii_lower_def byte_val_def)

lemma tag_chars:
  assumes "plain_tag tag" "map ascii_lower tg = map ascii_lower tag" "c \<in> set tg"
  shows "c \<noteq> CHR ''<'' \<and> c \<noteq> CHR ''>'' \<and> \<not> is_regex_space c"
proof -
  have "ascii_lower c \<in> set (map ascii_lower tag)" using assms(2,3) by (metis image_eqI list.set_map)
  then obtain d where d: "d \<in> set tag" "ascii_lower c = ascii_lower d" by auto
  have l: "ascii_lower CHR ''<'' = CHR ''<''" "ascii_lower CHR ''>'' = CHR ''>''"
    by (simp_all add: ascii_lower_def byte_val_def)
  show ?thesis using assms(1) d l lower_space unfolding plain_tag_def by metis
qed

lemma dropWhile_spaces:
  "\<forall>c \<in> set w. is_regex_space c \<Longrightarrow> r = [] \<or> \<not> is_regex_space (hd r) \<Longrightarrow> dropWhile is_regex_space (w @ r) = r"
  by (induction w) (auto simp: dropWhile_eq_self_iff)

lemma spaces_split: "\<exists>w. s = w @ dropWhile is_regex_space s \<and> (\<forall>c \<in> set w. is_regex_space c)"
  by (metis set_takeWhileD takeWhile_dropWhile_id)

text \<open>A closing delimiter, spelled out.\<close>

definition delimiter :: "string \<Rightarrow> string \<Rightarrow> bool" where
  "delimiter tag p \<longleftrightarrow> (\<exists>w1 tg w2. p = ''/'' @ w1 @ tg @ w2 @ ''>'' \<and> (\<forall>c \<in> set w1. is_regex_space c) \<and>
     (\<forall>c \<in> set w2. is_regex_space c) \<and> map ascii_lower tg = map ascii_lower tag)"

lemma closing_delimiter:
  assumes "closing_tag tag s = Some r"
  shows "\<exists>p. delimiter tag p \<and> s = ''<'' @ p @ r"
proof -
  from closing_tag_Some [OF assms] obtain x where x: "s = ''</'' @ x"
    "map ascii_lower (take (length tag) (dropWhile is_regex_space x)) = map ascii_lower tag"
    "dropWhile is_regex_space (drop (length tag) (dropWhile is_regex_space x)) = CHR ''>'' # r" by blast
  let ?y = "dropWhile is_regex_space x"
  obtain w1 where w1: "x = w1 @ ?y" "\<forall>c \<in> set w1. is_regex_space c" using spaces_split by blast
  obtain w2 where w2: "drop (length tag) ?y = w2 @ CHR ''>'' # r" "\<forall>c \<in> set w2. is_regex_space c"
    using spaces_split [of "drop (length tag) ?y"] x(3) by auto
  have "?y = take (length tag) ?y @ w2 @ CHR ''>'' # r" using w2(1) append_take_drop_id [of "length tag" ?y] by simp
  with w1(1) have "x = w1 @ take (length tag) ?y @ w2 @ CHR ''>'' # r" by simp
  with x(1) have "s = ''<'' @ (''/'' @ w1 @ take (length tag) ?y @ w2 @ ''>'') @ r" by simp
  with x(2) w1(2) w2(2) show ?thesis unfolding delimiter_def by blast
qed

lemma delimiter_closes:
  assumes "plain_tag tag" "delimiter tag p"
  shows "closing_tag tag (''<'' @ p @ r) = Some r"
proof -
  from assms(2) obtain w1 tg w2 where p: "p = ''/'' @ w1 @ tg @ w2 @ ''>''" "\<forall>c \<in> set w1. is_regex_space c"
    "\<forall>c \<in> set w2. is_regex_space c" "map ascii_lower tg = map ascii_lower tag" unfolding delimiter_def by blast
  have len: "length tg = length tag" using p(4) by (metis length_map)
  have gt: "\<not> is_regex_space CHR ''>''" by (simp add: is_regex_space_def)
  have c: "cut_prefix (''<'' @ p @ r) ''</'' = Some (w1 @ tg @ w2 @ ''>'' @ r)"
    by (simp add: cut_prefix_Some p(1))
  show ?thesis
  proof (cases "tg = []")
    case True
    have "\<forall>c \<in> set (w1 @ w2). is_regex_space c" using p(2,3) by auto
    from dropWhile_spaces [OF this, of "''>'' @ r"] gt
    have d: "dropWhile is_regex_space (w1 @ w2 @ CHR ''>'' # r) = CHR ''>'' # r" by simp
    with True c len p(4) gt show ?thesis by (simp add: closing_tag_def Let_def)
  next
    case False
    then have "\<not> is_regex_space (hd tg)" using tag_chars [OF assms(1) p(4)] by simp
    then have d1: "dropWhile is_regex_space (w1 @ tg @ w2 @ ''>'' @ r) = tg @ w2 @ ''>'' @ r"
      using dropWhile_spaces [OF p(2)] False by simp
    have d2: "dropWhile is_regex_space (w2 @ ''>'' @ r) = ''>'' @ r" using dropWhile_spaces [OF p(3)] gt by simp
    show ?thesis unfolding closing_tag_def c option.case Let_def d1
      using p(4) d2 len by (simp flip: len)
  qed
qed

lemma delimiter_chars:
  assumes "plain_tag tag" "delimiter tag p"
  shows "CHR ''<'' \<notin> set p"
proof -
  from assms(2) obtain w1 tg w2 where p: "p = ''/'' @ w1 @ tg @ w2 @ ''>''" "\<forall>c \<in> set w1. is_regex_space c"
    "\<forall>c \<in> set w2. is_regex_space c" "map ascii_lower tg = map ascii_lower tag" unfolding delimiter_def by blast
  have "\<not> is_regex_space CHR ''<''" by (simp add: is_regex_space_def)
  with p tag_chars [OF assms(1) p(4)] show ?thesis by auto
qed

lemma escape_fence_prefix:
  "CHR ''<'' \<notin> set p \<Longrightarrow> escape_fence tag s = p @ q \<Longrightarrow> \<exists>q'. s = p @ q'"
proof (induction p arbitrary: s)
  case (Cons x p)
  then obtain c s' where s: "s = c # s'" by (cases s) auto
  show ?case
  proof (cases "closing_tag tag (c # s')")
    case None
    with Cons.prems s have "x = c" "escape_fence tag s' = p @ q" by (simp_all add: escape_fence.simps(2))
    with Cons.IH Cons.prems(1) obtain q' where "s' = p @ q'" by auto
    with s \<open>x = c\<close> show ?thesis by simp
  next
    case (Some r)
    with Cons.prems s show ?thesis by (simp add: escape_fence.simps(2))
  qed
qed simp

text \<open>No delimiter starts inside an escaped text, whatever follows it without a bracket.\<close>

lemma escaped_no_delimiter:
  assumes "plain_tag tag" "i < length (escape_fence tag s)"
    and "t = [] \<or> hd t = CHR ''<''"
  shows "closing_tag tag (drop i (escape_fence tag s) @ CHR 0x0A # t) = None"
  using assms(2)
proof (induction s arbitrary: i rule: length_induct)
  case (1 s)
  show ?case
  proof (cases s)
    case (Cons c s')
    show ?thesis
    proof (cases "closing_tag tag (c # s')")
      case None
      then have e: "escape_fence tag s = c # escape_fence tag s'" by (simp add: Cons escape_fence.simps(2))
      show ?thesis
      proof (cases i)
        case (Suc k)
        with "1.IH" "1.prems" e Cons show ?thesis by simp
      next
        case 0
        show ?thesis
        proof (rule ccontr)
          assume "closing_tag tag (drop i (escape_fence tag s) @ CHR 0x0A # t) \<noteq> None"
          then obtain r where "closing_tag tag (c # escape_fence tag s' @ CHR 0x0A # t) = Some r" using 0 e by auto
          from closing_delimiter [OF this] obtain p where p: "delimiter tag p" "c = CHR ''<''"
            "escape_fence tag s' @ CHR 0x0A # t = p @ r" by auto
          have f: "CHR ''<'' \<notin> set p" using delimiter_chars [OF assms(1) p(1)] .
          have l: "p \<noteq> [] \<and> last p = CHR ''>''" using p(1) by (auto simp: delimiter_def)
          have "\<exists>q. escape_fence tag s' = p @ q"
          proof (cases "length p \<le> length (escape_fence tag s')")
            case True
            with p(3) show ?thesis by (metis append_eq_append_conv_if append_take_drop_id)
          next
            case False
            then obtain z where z: "p = escape_fence tag s' @ z" "z @ r = CHR 0x0A # t" "z \<noteq> []"
              using p(3) by (auto simp: append_eq_append_conv2)
            then obtain z' where z': "z = CHR 0x0A # z'" "z' @ r = t" by (cases z) auto
            show ?thesis
            proof (cases z')
              case Nil
              with z z' l show ?thesis by simp
            next
              case (Cons y ys)
              with z' assms(3) have "y = CHR ''<''" by auto
              with f z z' Cons show ?thesis by simp
            qed
          qed
          with escape_fence_prefix [OF f] obtain q' where "s' = p @ q'" by blast
          with p(2) delimiter_closes [OF assms(1) p(1), of q'] None show False by simp
        qed
      qed
    next
      case (Some r)
      let ?h = "''<'' @ CHR 0x5C # ''/'' @ tag @ ''>''"
      have e: "escape_fence tag s = ?h @ escape_fence tag r" using Some by (simp add: Cons escape_fence.simps(2))
      have r: "length r < length s" using closing_tag_shorter [OF Some] Cons by simp
      have nb: "closing_tag tag (x # y) = None" if "x \<noteq> CHR ''<'' \<or> (y \<noteq> [] \<and> hd y \<noteq> CHR ''/'')" for x y
      proof (rule ccontr)
        assume "closing_tag tag (x # y) \<noteq> None"
        then obtain z where "closing_tag tag (x # y) = Some z" by auto
        from closing_delimiter [OF this] that show False by (auto simp: delimiter_def)
      qed
      show ?thesis
      proof (cases "i < length ?h")
        case False
        then have "drop i ?h = []" by simp
        then have "drop i (escape_fence tag s) = drop (i - length ?h) (escape_fence tag r)"
          unfolding e drop_append by (simp only: append_Nil)
        moreover have "i - length ?h < length (escape_fence tag r)"
          using "1.prems" False unfolding e by simp
        ultimately show ?thesis using "1.IH" r by simp
      next
        case True
        then have "i - length ?h = 0" by simp
        then have d: "drop i (escape_fence tag s) = drop i ?h @ escape_fence tag r"
          unfolding e drop_append by (simp only: drop_0)
        show ?thesis
        proof (cases i)
          case 0
          have "drop i (escape_fence tag s) @ CHR 0x0A # t =
              CHR ''<'' # (CHR 0x5C # ''/'' @ tag @ ''>'') @ escape_fence tag r @ CHR 0x0A # t"
            unfolding 0 e by simp
          then show ?thesis using nb by simp
        next
          case (Suc k)
          then obtain x y where xy: "drop i ?h = x # y" using True by (metis Cons_nth_drop_Suc)
          have "x \<in> set (CHR 0x5C # ''/'' @ tag @ ''>'')" using xy Suc in_set_dropD [of x k "CHR 0x5C # ''/'' @ tag @ ''>''"] by simp
          moreover have "CHR ''<'' \<notin> set tag" using tag_chars [OF assms(1) refl] by blast
          ultimately have "x \<noteq> CHR ''<''" by auto
          moreover have "drop i (escape_fence tag s) @ CHR 0x0A # t = x # y @ escape_fence tag r @ CHR 0x0A # t"
            unfolding d xy by simp
          ultimately show ?thesis using nb by simp
        qed
      qed
    qed
  qed (use "1.prems" in simp)
qed


subsection \<open>A turn run\<close>

text \<open>The model asks for one tool call, then answers; the world counts the model's calls.\<close>

definition sample_agent :: "nat agent" where
  "sample_agent =
     \<lparr>ag_tool = (\<lambda>name. if name = ''http_request'' then Some GatedTool else None),
      ag_scoped = (\<lambda>rs name args c. (ToolOk [], c)),
      ag_io = (\<lambda>sc name args w. \<lparr>io_out = ToolOk ''200 OK </TOOL_output >'', io_decision = new_decision,
         io_failure = \<lparr>f_count = 0, f_progress = 1\<rparr>, io_route = RouteDirect, io_usages = [], io_world = w\<rparr>),
      ag_generate = (\<lambda>turn tools w.
         (Some \<lparr>g_message = Some (if w = 0 then assistant_message [] [ToolCallBlock ''1'' ''http_request'' ''{}'']
                                 else assistant_message ''done'' []), g_stop = StopNormal, g_raw = []\<rparr>, [], w + 1)),
      ag_interrupted = (\<lambda>w. (False, w)), ag_context_done = (\<lambda>w. (False, w)), ag_new_id = (\<lambda>w. (''id'', w)),
      ag_log = Some (\<lambda>r w. (None, w)), ag_session_id = ''s'', ag_denied_result = [], ag_max_failures = 3,
      ag_quote = (\<lambda>s. [CHR 0x22] @ s @ [CHR 0x22])\<rparr>"

definition sample_base :: "nat base_agent" where
  "sample_base = \<lparr>ba_agent = sample_agent, ba_decode = (\<lambda>s. None), ba_show_err = (\<lambda>e. []), ba_system_prompt = ''p'',
     ba_max_iter = 5, ba_max_subagent_iter = 5\<rparr>"

definition sample_core :: "nat core" where
  "sample_core = \<lparr>co_world = 0, co_metrics = new_accumulator 0, co_trace = []\<rparr>"

definition sample_turn :: "turn_outcome \<times> session \<times> nat core" where
  "sample_turn = agent_run sample_base (\<lambda>w. w) (\<lambda>w. w) (\<lambda>w. 0) ''q'' \<lparr>se_history = [], se_unanswered = []\<rparr> sample_core"

lemma sample_turn_runs: "fst sample_turn = Answered \<and> length (co_trace (snd (snd sample_turn))) = 5"
  by code_simp

lemma sample_quiet: "quiet_scoped (ba_agent sample_base)" and sample_assistant: "assistant_model (ba_agent sample_base)"
  by (auto simp: quiet_scoped_def assistant_model_def sample_base_def sample_agent_def)

theorem interrupt_wins_witness:
  "run_loop (sample_agent\<lparr>ag_interrupted := (\<lambda>w. (True, w))\<rparr>) 3 (new_run_state 0 ''r'') [] sample_core =
     (Inl Interrupted, new_run_state 0 ''r'', sample_core)"
  using interrupt_wins [of "sample_agent\<lparr>ag_interrupted := (\<lambda>w. (True, w))\<rparr>" 3 "new_run_state 0 ''r''" "[]" sample_core]
  by simp

theorem run_answer_spoken_witness:
  "\<exists>r rs' c'. run_loop sample_agent 5 (new_run_state 0 ''r'') [user_message ''q''] sample_core = (r, rs', c') \<and>
     r = Inr ''done'' \<and> spoken r"
proof -
  obtain r rs' c' where s: "run_loop sample_agent 5 (new_run_state 0 ''r'') [user_message ''q''] sample_core = (r, rs', c')"
    by (metis prod.exhaust)
  have "fst (run_loop sample_agent 5 (new_run_state 0 ''r'') [user_message ''q''] sample_core) = Inr ''done''" by code_simp
  with s run_answer_spoken [OF s] show ?thesis by auto
qed

end
