(* ===== verification/Agent_Bound.thy ===== *)
theory Agent_Bound
  imports Agent_Loop
begin

text \<open>
  How many model calls a run of \<open>loop.go\<close> makes. The loop's bound is \<open>maxIterations\<close>; what has to
  be shown is that nothing inside an iteration (the dispatch of its calls, a blank or truncated
  turn, the summary after repeated failures) calls the model again and goes on.
\<close>

fun is_generated :: "agent_event \<Rightarrow> bool" where
  "is_generated (Generated _ _) = True"
| "is_generated _ = False"

fun offers_tools :: "agent_event \<Rightarrow> bool" where
  "offers_tools (Generated _ tools) = tools"
| "offers_tools _ = False"

definition model_calls :: "'w core \<Rightarrow> nat" where
  "model_calls c = length (filter is_generated (co_trace c))"

definition tool_rounds :: "'w core \<Rightarrow> nat" where
  "tool_rounds c = length (filter offers_tools (co_trace c))"

text \<open>Both counts move only with the trace; \<open>calls_by c c' k j\<close>: at most \<open>k\<close> calls more, \<open>j\<close> of them offering tools.\<close>

definition calls_by :: "'w core \<Rightarrow> 'w core \<Rightarrow> nat \<Rightarrow> nat \<Rightarrow> bool" where
  "calls_by c c' k j \<longleftrightarrow> model_calls c' \<le> model_calls c + k \<and> tool_rounds c' \<le> tool_rounds c + j"

lemma calls_same: "co_trace c' = co_trace c \<Longrightarrow> calls_by c c' k j"
  by (simp add: calls_by_def model_calls_def tool_rounds_def)

lemma calls_emit: "\<not> is_generated ev \<Longrightarrow> co_trace c' = co_trace c @ [ev] \<Longrightarrow> calls_by c c' 0 0"
  by (cases ev) (simp_all add: calls_by_def model_calls_def tool_rounds_def)

lemma calls_emit_world: "\<not> is_generated ev \<Longrightarrow> calls_by c (emit ev (c\<lparr>co_world := w\<rparr>)) 0 0"
  by (rule calls_emit) simp_all

lemma calls_trans: "calls_by c c1 k j \<Longrightarrow> calls_by c1 c2 k' j' \<Longrightarrow> calls_by c c2 (k + k') (j + j')"
  by (simp add: calls_by_def)

lemma calls_weaken: "calls_by c c' k j \<Longrightarrow> k \<le> k' \<Longrightarrow> j \<le> j' \<Longrightarrow> calls_by c c' k' j'"
  by (simp add: calls_by_def)

lemma calls_silent: "calls_by c c1 0 0 \<Longrightarrow> calls_by c1 c2 k j \<Longrightarrow> calls_by c c2 k j"
  using calls_trans [of c c1 0 0 c2 k j] by simp

lemma calls_generate: "generate a t w c = (g, c') \<Longrightarrow> calls_by c c' 1 (if w then 1 else 0)"
  by (auto simp: calls_by_def model_calls_def tool_rounds_def dest!: generate_trace)

lemma calls_audited: "audited a r c = (e, c') \<Longrightarrow> calls_by c c' 0 0"
  by (auto simp: audited_def intro: calls_same calls_emit_world split: option.splits prod.splits)

lemma calls_invoke:
  assumes "quiet_scoped a" "invoke a rs name args call_id c = (r, c')"
  shows "calls_by c c' 0 0"
proof -
  have s: "calls_by c c' 0 0" if "invoke_scoped a rs name args call_id c = (r, c')"
  proof -
    obtain out c1 where o: "ag_scoped a rs name args (emit (ToolRun call_id name args) c) = (out, c1)" by (metis prod.exhaust)
    have "co_trace c1 = co_trace c @ [ToolRun call_id name args]"
      using assms(1) o unfolding quiet_scoped_def by (metis core_trace(3) snd_conv)
    moreover have "c' = c1" using that o by (cases out) (auto simp: invoke_scoped_def Let_def)
    ultimately show ?thesis using calls_emit [of "ToolRun call_id name args" c' c] by simp
  qed
  have i: "calls_by c c' 0 0" if "invoke_io a rs name u args call_id c = (r, c')" for u
  proof -
    obtain b c1 where h: "interrupted a c = (b, c1)" by (metis prod.exhaust)
    have "c' = c1 \<or> co_trace c' = co_trace c1 @ [ToolRun call_id name args]"
      using that h by (cases b) (auto simp: invoke_io_def Let_def split: tool_out.splits)
    then have "calls_by c1 c' 0 0" using calls_emit [of "ToolRun call_id name args" c' c1] calls_same [of c' c1] by auto
    with calls_silent [OF calls_same [OF interrupted_trace [OF h]]] show ?thesis by blast
  qed
  show ?thesis using assms(2) s i by (auto simp: invoke_def Let_def intro: calls_same split: option.splits tool_kind.splits)
qed

lemma calls_dispatch:
  assumes "quiet_scoped a" "dispatch a rs name args c = (r, c')"
  shows "calls_by c c' 0 0"
proof -
  obtain call_id w where i: "ag_new_id a (co_world c) = (call_id, w)" by (metis prod.exhaust)
  obtain e1 c1 where 1: "audited a (attempt_record a rs call_id name args) (c\<lparr>co_world := w\<rparr>) = (e1, c1)" by (metis prod.exhaust)
  obtain r2 c2 where 2: "invoke a rs name args call_id c1 = (r2, c2)" by (metis prod.exhaust)
  have k1: "calls_by c c1 0 0" using calls_silent [OF calls_same calls_audited [OF 1]] by simp
  have k2: "calls_by c c2 0 0" by (rule calls_silent [OF k1 calls_invoke [OF assms(1) 2]])
  from assms(2) i 1 2 k1 k2 show ?thesis
    by (auto simp: dispatch_def intro: calls_silent [OF k2 calls_audited] split: option.splits sum.splits prod.splits)
qed

text \<open>The summary is one call without tools; a stop that is not interrupted ends the run with it.\<close>

lemma calls_summary: "failure_summary a rs turn c = (r, rs', c') \<Longrightarrow> calls_by c c' 1 0"
proof -
  assume f: "failure_summary a rs turn c = (r, rs', c')"
  obtain b1 c1 where 1: "interrupted a c = (b1, c1)" by (metis prod.exhaust)
  obtain g c2 where 2: "generate a (complete_pending turn @ [user_message stop_summary_directive]) False c1 = (g, c2)"
    by (metis prod.exhaust)
  obtain b3 c3 where 3: "interrupted a c2 = (b3, c3)" by (metis prod.exhaust)
  have k1: "co_trace c1 = co_trace c" by (rule interrupted_trace [OF 1])
  have "co_trace c' = co_trace c1 \<or> co_trace c' = co_trace c2"
    using f 1 2 interrupted_trace [OF 3] 3 unfolding failure_summary_def Let_def
    by (auto dest: halt_err_trace split: prod.split_asm bool.split_asm option.split_asm if_split_asm)
  moreover have "calls_by c c2 1 0" using calls_silent [OF calls_same [OF k1] calls_generate [OF 2]] by simp
  ultimately show ?thesis using k1 calls_same by (auto simp: calls_by_def model_calls_def tool_rounds_def)
qed

lemma calls_track:
  assumes "quiet_scoped a" "dispatch_and_track a rs tc turn c = (r, rs', c')"
  shows "calls_by c c' 1 0 \<and> (\<forall>t. r = Inr (t, []) \<longrightarrow> calls_by c c' 0 0)"
proof -
  obtain d c1 where d: "dispatch a rs (tc_name tc) (tc_args tc) c = (d, c1)" by (metis prod.exhaust)
  note k1 = calls_dispatch [OF assms(1) d]
  have k2: "calls_by c c2 0 0" if "halt_err a c1 = (h, c2)" for h c2
    by (rule calls_silent [OF k1 calls_same [OF halt_err_trace [OF that]]])
  have k3: "calls_by c c3 1 0" if "halt_err a c1 = (h, c2)" "failure_summary a rsx turnx c2 = (s, rs2, c3)" for h c2 rsx turnx s rs2 c3
    by (rule calls_silent [OF k2 [OF that(1)] calls_summary [OF that(2)]])
  have n: "failure_summary a rsx turnx c2 \<noteq> (Inr [], rs2, c3)" for rsx turnx c2 rs2 c3
    using failure_summary_spoken [of a rsx turnx c2 "Inr []"] by (auto simp: spoken_def trim_space_Nil)
  show ?thesis
    using assms(2) d k1 k2 k3 n calls_weaken [of c _ 0 0 1 0]
    by (auto simp: dispatch_and_track_def Let_def split: prod.split_asm sum.split_asm option.split_asm if_split_asm)
qed

lemma calls_dispatch_all:
  assumes "quiet_scoped a"
  shows "dispatch_all a rs tcs turn c = (r, rs', c') \<Longrightarrow>
    calls_by c c' 1 0 \<and> (\<forall>t. r = Inr (t, []) \<longrightarrow> calls_by c c' 0 0)"
proof (induction tcs arbitrary: rs turn c)
  case (Cons tc tcs)
  obtain d rs1 c1 where d: "dispatch_and_track a rs tc turn (tally add_tool_call c) = (d, rs1, c1)" by (metis prod.exhaust)
  have t: "calls_by c (tally add_tool_call c) 0 0" by (rule calls_same) simp
  note k = calls_track [OF assms d]
  show ?case
  proof (cases "\<exists>turn1. d = Inr (turn1, [])")
    case True
    then obtain turn1 where x: "d = Inr (turn1, [])" by blast
    with k have k1: "calls_by c c1 0 0" using calls_silent [OF t] by blast
    from Cons.prems d x have "dispatch_all a rs1 tcs turn1 c1 = (r, rs', c')" by simp
    from Cons.IH [OF this] calls_silent [OF k1] show ?thesis by blast
  next
    case False
    with Cons.prems d have "c' = c1 \<and> (\<forall>t. r \<noteq> Inr (t, []))" by (auto split: sum.splits prod.splits if_splits)
    with k calls_silent [OF t] show ?thesis by blast
  qed
qed (auto intro: calls_same)

lemma accept_turn_trace: "accept_turn a rs turn gen c = (r, rs', c') \<Longrightarrow> co_trace c' = co_trace c"
  by (auto simp: accept_turn_def handle_blank_turn_def refuse_truncated_calls_def Let_def
      dest: halt_or_trace halt_err_trace split: prod.split_asm sum.split_asm option.split_asm if_split_asm stop_reason.split_asm)


text \<open>An agent whose model never stops asking for a tool.\<close>

definition stubborn_agent :: "nat agent" where
  "stubborn_agent = sample_agent\<lparr>ag_generate := (\<lambda>turn tools w.
     (Some \<lparr>g_message = Some (assistant_message [] [ToolCallBlock ''1'' ''x'' ''{}'']), g_stop = StopNormal, g_raw = []\<rparr>, [], w))\<rparr>"


end
