(* ===== verification/Json_Decode.thy ===== *)
theory Json_Decode
  imports Json_Parse
begin

text \<open>
  How \<open>encoding/json\<close> decodes a parsed document into the program's types: strings, slices,
  structs and maps, with what a repeated member leaves. An error anywhere is \<open>None\<close>.
\<close>

text \<open>
  How \<open>encoding/json\<close> decodes an array into a slice it may have decoded into before: the
  elements reuse what the backing array holds, a null is a nil slice, an empty array a new one.
  A slice is its backing array and its length.
\<close>

fun decode_elems :: "(json \<Rightarrow> 'a \<Rightarrow> 'a option) \<Rightarrow> 'a \<Rightarrow> json list \<Rightarrow> 'a list \<Rightarrow> 'a list option" where
  "decode_elems f zero [] old = Some []"
| "decode_elems f zero (j # js) old =
     (case f j (case old of [] \<Rightarrow> zero | o1 # _ \<Rightarrow> o1) of
        None \<Rightarrow> None
      | Some x \<Rightarrow> map_option ((#) x) (decode_elems f zero js (tl old)))"

type_synonym 'a slice = "'a list \<times> nat"

definition slice_elems :: "'a slice \<Rightarrow> 'a list" where
  "slice_elems sl = take (snd sl) (fst sl)"

fun decode_slice :: "(json \<Rightarrow> 'a \<Rightarrow> 'a option) \<Rightarrow> 'a \<Rightarrow> json \<Rightarrow> 'a slice \<Rightarrow> 'a slice option" where
  "decode_slice f zero JNull sl = Some ([], 0)"
| "decode_slice f zero (JArr js) sl =
     (if js = [] then Some ([], 0)
      else map_option (\<lambda>xs. (xs @ drop (length js) (fst sl), length js)) (decode_elems f zero js (fst sl)))"
| "decode_slice f zero _ sl = None"

fun decode_text :: "json \<Rightarrow> string \<Rightarrow> string option" where
  "decode_text j old = decode_string (Some j) old"

text \<open>A struct: its members in document order, each into the field its name folds to.\<close>

fun decode_members :: "(string \<Rightarrow> json \<Rightarrow> 'r \<Rightarrow> 'r option) \<Rightarrow> (string \<times> json) list \<Rightarrow> 'r \<Rightarrow> 'r option" where
  "decode_members f [] r = Some r"
| "decode_members f ((k, v) # kvs) r = (case f k v r of None \<Rightarrow> None | Some r' \<Rightarrow> decode_members f kvs r')"

fun decode_struct :: "(string \<Rightarrow> json \<Rightarrow> 'r \<Rightarrow> 'r option) \<Rightarrow> json \<Rightarrow> 'r \<Rightarrow> 'r option" where
  "decode_struct f JNull r = Some r"
| "decode_struct f (JObj kvs) r = decode_members f kvs r"
| "decode_struct f _ r = None"

text \<open>
  A map with string keys: each member decoded anew, a repeated one replacing the last, and null
  the nil map. A map is the list of its entries; the program's iteration order is its order.
\<close>

fun map_put :: "string \<Rightarrow> 'a \<Rightarrow> (string \<times> 'a) list \<Rightarrow> (string \<times> 'a) list" where
  "map_put k v [] = [(k, v)]"
| "map_put k v ((k', v') # m) = (if k = k' then (k, v) # m else (k', v') # map_put k v m)"

fun decode_entries :: "(json \<Rightarrow> 'a option) \<Rightarrow> (string \<times> json) list \<Rightarrow> (string \<times> 'a) list \<Rightarrow> (string \<times> 'a) list option" where
  "decode_entries f [] m = Some m"
| "decode_entries f ((k, j) # kvs) m = (case f j of None \<Rightarrow> None | Some v \<Rightarrow> decode_entries f kvs (map_put k v m))"

fun decode_map :: "(json \<Rightarrow> 'a option) \<Rightarrow> json \<Rightarrow> (string \<times> 'a) list \<Rightarrow> (string \<times> 'a) list option" where
  "decode_map f JNull m = Some []"
| "decode_map f (JObj kvs) m = decode_entries f kvs m"
| "decode_map f _ m = None"

text \<open>\<open>json.Unmarshal\<close> of a text into a typed value; numbers keep their spelling.\<close>

definition unmarshal_into :: "(json \<Rightarrow> 'a option) \<Rightarrow> string \<Rightarrow> 'a option" where
  "unmarshal_into f s = Option.bind (map_option fst (parse_doc s)) f"

lemma map_of_map_put: "map_of (map_put k v m) = (map_of m)(k \<mapsto> v)"
  by (induction m) auto

lemma fst_map_put: "set (map fst (map_put k v m)) = insert k (set (map fst m))"
proof (induction m)
  case (Cons e m)
  then show ?case by (cases e) (simp add: insert_commute)
qed simp

lemma distinct_map_put: "distinct (map fst m) \<Longrightarrow> distinct (map fst (map_put k v m))"
proof (induction m)
  case (Cons e m)
  then show ?case using fst_map_put [of k v m] by (cases e) auto
qed simp

lemma distinct_decode_entries:
  "decode_entries f kvs m = Some m' \<Longrightarrow> distinct (map fst m) \<Longrightarrow> distinct (map fst m')"
  by (induction f kvs m rule: decode_entries.induct) (auto split: option.splits simp: distinct_map_put)

end
