(* ===== verification/Gcp_Classify.thy ===== *)
theory Gcp_Classify
  imports Request_Path "HOL-Library.Char_ord" "HOL-Library.List_Lexorder" "HOL-Library.Product_Lexorder"
begin

text \<open>
  \<open>classifier.go\<close> of package \<open>auth/gcp\<close>: which Discovery method a request may run. The loop that
  keeps the most specific templates of a reading is proved equal to \<open>reading_winners\<close>, and the
  classifier to "exactly one method wins some reading".
\<close>

record method_descriptor =
  md_id :: string
  md_http_method :: string
  md_flat_path :: string
  md_service_path :: string
  md_path :: string

text \<open>The index of a service: its entries in the order the map is iterated in.\<close>

type_synonym method_index = "(string \<times> method_descriptor) list"

definition is_placeholder :: "string \<Rightarrow> bool" where
  "is_placeholder seg \<longleftrightarrow> has_prefix seg ''{'' \<and> has_suffix seg ''}''"

definition gcp_split_segments :: "string \<Rightarrow> string list" where
  "gcp_split_segments p = (if p = [] then [] else split_on CHR ''/'' p)"

definition segment_base :: "string \<Rightarrow> string" where
  "segment_base seg = fst (str_cut seg '':'')"

definition segment_equal :: "string \<Rightarrow> string \<Rightarrow> bool" where
  "segment_equal t_seg r_seg =
     (if str_contains t_seg '':'' then
        (let (t_base, t_verb, _) = str_cut t_seg '':''; (r_base, r_verb, _) = str_cut r_seg '':'' in
         if t_verb \<noteq> r_verb then False else is_placeholder t_base \<or> equal_fold t_base r_base)
      else equal_fold t_seg r_seg)"

fun match_segments :: "string list \<Rightarrow> string list \<Rightarrow> bool" where
  "match_segments (ts # tss) (r # rs) =
     (if is_placeholder ts then (if str_contains r '':'' then False else match_segments tss rs)
      else if \<not> segment_equal ts r then False
      else match_segments tss rs)"
| "match_segments _ _ = True"

definition gcp_match_template :: "string list \<Rightarrow> string list \<Rightarrow> bool" where
  "gcp_match_template t_segs r_segs = (if length t_segs \<noteq> length r_segs then False else match_segments t_segs r_segs)"

definition effective_template :: "method_descriptor \<Rightarrow> string" where
  "effective_template md =
     (let rel = (if md_flat_path md = [] then md_path md else md_flat_path md) in
      trim_char CHR ''/'' (trim_suffix (md_service_path md) ''/'' @ ''/'' @ trim_prefix rel ''/''))"

definition trim_empty_edges :: "string list \<Rightarrow> string list" where
  "trim_empty_edges segs = rev (dropWhile (\<lambda>s. s = []) (rev (dropWhile (\<lambda>s. s = []) segs)))"

fun literals_exact :: "string list \<Rightarrow> string list \<Rightarrow> bool" where
  "literals_exact (ts # tss) (r # rs) =
     (if \<not> is_placeholder (segment_base ts) \<and> segment_base ts \<noteq> segment_base r then False else literals_exact tss rs)"
| "literals_exact _ _ = True"

text \<open>The two templates match one request, so they are of one length.\<close>

fun more_specific :: "string list \<Rightarrow> string list \<Rightarrow> int" where
  "more_specific (x # xs) (y # ys) =
     (let a_lit = (\<not> is_placeholder (segment_base x)); b_lit = (\<not> is_placeholder (segment_base y)) in
      if a_lit \<noteq> b_lit then (if a_lit then 1 else -1) else more_specific xs ys)"
| "more_specific _ _ = 0"

text \<open>The loop over the index: the best template so far, its winners (\<open>None\<close> is nil), all matches, folded.\<close>

record survivor_state =
  sv_best :: "string list"
  sv_winners :: "string list option"
  sv_matched :: "string list"
  sv_folded :: bool

definition template_of :: "method_descriptor \<Rightarrow> string list" where
  "template_of md = gcp_split_segments (effective_template md)"

definition survivor_step :: "string \<Rightarrow> string list \<Rightarrow> method_descriptor \<Rightarrow> survivor_state \<Rightarrow> survivor_state" where
  "survivor_step http_method req_segs md s =
     (if \<not> equal_fold (md_http_method md) http_method then s
      else let t_segs = template_of md in
        if \<not> gcp_match_template t_segs req_segs then s
        else let rank = (case sv_winners s of None \<Rightarrow> 1 | Some _ \<Rightarrow> more_specific t_segs (sv_best s));
                 s1 = s\<lparr>sv_matched := sv_matched s @ [md_id md],
                        sv_folded := (sv_folded s \<or> \<not> literals_exact t_segs req_segs)\<rparr>
             in if rank > 0 then s1\<lparr>sv_best := t_segs, sv_winners := Some [md_id md]\<rparr>
                else if rank = 0 then s1\<lparr>sv_winners := Some (the (sv_winners s) @ [md_id md])\<rparr>
                else s1)"

fun survivor_loop :: "string \<Rightarrow> string list \<Rightarrow> method_descriptor list \<Rightarrow> survivor_state \<Rightarrow> survivor_state" where
  "survivor_loop http_method req_segs [] s = s"
| "survivor_loop http_method req_segs (md # mds) s =
     survivor_loop http_method req_segs mds (survivor_step http_method req_segs md s)"

definition no_survivor :: survivor_state where
  "no_survivor = \<lparr>sv_best = [], sv_winners = None, sv_matched = [], sv_folded = False\<rparr>"

text \<open>\<open>seen\<close> is the set of the survivors so far, so it needs no state of its own.\<close>

definition append_survivors :: "string list \<Rightarrow> method_descriptor list \<Rightarrow> string \<Rightarrow> string list \<Rightarrow> string list" where
  "append_survivors survivors mds http_method req_segs =
     (let s = survivor_loop http_method req_segs mds no_survivor;
          winners = (if sv_folded s then sv_matched s else case sv_winners s of None \<Rightarrow> [] | Some ws \<Rightarrow> ws)
      in foldl append_new survivors winners)"

datatype gcp_classify_error = GcpUnmatched | GcpAmbiguous nat

definition sorted_methods :: "method_index \<Rightarrow> method_descriptor list" where
  "sorted_methods idx = List.map_filter (map_of idx) (sort (map fst idx))"

definition gcp_classify :: "method_index \<Rightarrow> view \<Rightarrow> string list list \<Rightarrow> (gcp_classify_error, string) result" where
  "gcp_classify idx v readings =
     (let http_method = to_upper (v_method v);
          survivors = foldl (\<lambda>acc segs. append_survivors acc (sorted_methods idx) http_method (trim_empty_edges segs)) [] readings
      in if length survivors = 1 then Inr (survivors ! 0)
         else if length survivors = 0 then Inl GcpUnmatched
         else Inl (GcpAmbiguous (length survivors)))"

definition gcp_classify_path :: "method_index \<Rightarrow> view \<Rightarrow> (gcp_classify_error, string) result" where
  "gcp_classify_path idx v = gcp_classify idx v (path_readings v)"

definition gcp_classify_as_sent :: "method_index \<Rightarrow> view \<Rightarrow> (gcp_classify_error, string) result" where
  "gcp_classify_as_sent idx v = gcp_classify idx v (wire_readings v)"

subsection \<open>The ranking is an order on shapes\<close>

text \<open>Which segments of a template are literal; the more literal one further left is the greater.\<close>

definition literal_shape :: "string list \<Rightarrow> bool list" where
  "literal_shape ts = map (\<lambda>t. \<not> is_placeholder (segment_base t)) ts"

lemma more_specific_shape:
  "length a = length b \<Longrightarrow> (more_specific a b > 0 \<longleftrightarrow> literal_shape b < literal_shape a) \<and>
     (more_specific a b = 0 \<longleftrightarrow> literal_shape a = literal_shape b)"
proof (induction a b rule: list_induct2)
  case (Cons x xs y ys)
  then show ?case by (auto simp: literal_shape_def Let_def)
qed (simp add: literal_shape_def)

definition gcp_hits :: "method_descriptor list \<Rightarrow> string \<Rightarrow> string list \<Rightarrow> method_descriptor list" where
  "gcp_hits mds http_method req_segs =
     filter (\<lambda>md. equal_fold (md_http_method md) http_method \<and> gcp_match_template (template_of md) req_segs) mds"

text \<open>The winners of one reading: all matches when one spells a literal in another case, else the greatest shapes.\<close>

definition reading_winners :: "method_descriptor list \<Rightarrow> string \<Rightarrow> string list \<Rightarrow> method_descriptor list" where
  "reading_winners mds http_method req_segs =
     (let hits = gcp_hits mds http_method req_segs in
      if \<exists>md \<in> set hits. \<not> literals_exact (template_of md) req_segs then hits
      else filter (\<lambda>md. \<forall>d \<in> set hits. literal_shape (template_of d) \<le> literal_shape (template_of md)) hits)"

definition top_shapes :: "method_descriptor list \<Rightarrow> method_descriptor list" where
  "top_shapes hits = filter (\<lambda>md. \<forall>d \<in> set hits. literal_shape (template_of d) \<le> literal_shape (template_of md)) hits"

lemma top_shapes_Nil [simp]: "top_shapes [] = []"
  by (simp add: top_shapes_def)

lemma gcp_hits_Cons: "gcp_hits (md # mds) m segs = gcp_hits [md] m segs @ gcp_hits mds m segs"
  by (simp add: gcp_hits_def)

definition loop_ok :: "string list \<Rightarrow> method_descriptor list \<Rightarrow> survivor_state \<Rightarrow> bool" where
  "loop_ok req_segs hits s \<longleftrightarrow>
     sv_matched s = map md_id hits \<and> sv_folded s = (\<exists>md \<in> set hits. \<not> literals_exact (template_of md) req_segs) \<and>
     (case sv_winners s of
        None \<Rightarrow> hits = []
      | Some ws \<Rightarrow> ws = map md_id (top_shapes hits) \<and>
          (\<exists>b \<in> set hits. template_of b = sv_best s \<and> (\<forall>d \<in> set hits. literal_shape (template_of d) \<le> literal_shape (sv_best s))))"

lemma top_shapes_greater:
  assumes "\<forall>d \<in> set hits. literal_shape (template_of d) < literal_shape (template_of md)"
  shows "top_shapes (hits @ [md]) = [md]"
  using assms by (force simp: top_shapes_def filter_empty_conv)

lemma top_shapes_equal:
  assumes "\<forall>d \<in> set hits. literal_shape (template_of d) \<le> literal_shape (template_of md)"
  shows "top_shapes (hits @ [md]) = top_shapes hits @ [md] \<or>
    (\<forall>d \<in> set hits. literal_shape (template_of d) \<noteq> literal_shape (template_of md))"
proof (cases "\<exists>d \<in> set hits. literal_shape (template_of d) = literal_shape (template_of md)")
  case True
  then show ?thesis using assms by (auto simp: top_shapes_def intro!: filter_cong)
qed auto

lemma top_shapes_less:
  assumes "b \<in> set hits" "literal_shape (template_of md) < literal_shape (template_of b)"
  shows "top_shapes (hits @ [md]) = top_shapes hits"
  using assms by (force simp: top_shapes_def intro!: filter_cong)

lemma loop_ok_step:
  assumes ok: "loop_ok req_segs hits s" and len: "\<forall>d \<in> set hits. length (template_of d) = length req_segs"
  shows "loop_ok req_segs (hits @ gcp_hits [md] http_method req_segs) (survivor_step http_method req_segs md s)"
proof (cases "equal_fold (md_http_method md) http_method \<and> gcp_match_template (template_of md) req_segs")
  case False
  with ok show ?thesis by (auto simp: survivor_step_def gcp_hits_def Let_def)
next
  case True
  then have h: "gcp_hits [md] http_method req_segs = [md]" and l: "length (template_of md) = length req_segs"
    by (auto simp: gcp_hits_def gcp_match_template_def split: if_splits)
  show ?thesis
  proof (cases "sv_winners s")
    case None
    with ok h True show ?thesis by (auto simp: survivor_step_def Let_def loop_ok_def top_shapes_def)
  next
    case (Some ws)
    with ok obtain b where b: "b \<in> set hits" "template_of b = sv_best s"
      "\<forall>d \<in> set hits. literal_shape (template_of d) \<le> literal_shape (sv_best s)" and ws: "ws = map md_id (top_shapes hits)"
      by (auto simp: loop_ok_def)
    have len': "length (template_of md) = length (sv_best s)" using len l b(1,2) by metis
    note r = more_specific_shape [OF len']
    consider "literal_shape (sv_best s) < literal_shape (template_of md)" | "literal_shape (template_of md) = literal_shape (sv_best s)"
      | "literal_shape (template_of md) < literal_shape (sv_best s)" by (rule linorder_cases) auto
    then show ?thesis
    proof cases
      case 1
      then have "\<forall>d \<in> set hits. literal_shape (template_of d) < literal_shape (template_of md)"
        using b(3) by (meson le_less_trans)
      note t = top_shapes_greater [OF this]
      have "\<forall>d \<in> set (hits @ [md]). literal_shape (template_of d) \<le> literal_shape (template_of md)"
        using b(3) 1 by (auto intro: less_imp_le le_less_trans)
      with ok 1 h True Some r t show ?thesis by (auto simp: survivor_step_def Let_def loop_ok_def)
    next
      case 2
      then have "\<forall>d \<in> set hits. literal_shape (template_of d) \<le> literal_shape (template_of md)" using b(3) by simp
      from top_shapes_equal [OF this] 2 b(1,2) have t: "top_shapes (hits @ [md]) = top_shapes hits @ [md]" by metis
      have "\<not> more_specific (template_of md) (sv_best s) > 0" "more_specific (template_of md) (sv_best s) = 0" using r 2 by auto
      with ok 2 h True Some t b show ?thesis by (auto simp: survivor_step_def Let_def loop_ok_def)
    next
      case 3
      then have t: "top_shapes (hits @ [md]) = top_shapes hits" using top_shapes_less [OF b(1)] b(2) by simp
      have "\<not> more_specific (template_of md) (sv_best s) > 0" "more_specific (template_of md) (sv_best s) \<noteq> 0" using r 3 by auto
      with ok 3 h True Some t b show ?thesis by (auto simp: survivor_step_def Let_def loop_ok_def)
    qed
  qed
qed

lemma survivor_loop_ok:
  assumes "loop_ok req_segs hits s" "\<forall>d \<in> set hits. length (template_of d) = length req_segs"
  shows "loop_ok req_segs (hits @ gcp_hits mds http_method req_segs) (survivor_loop http_method req_segs mds s)"
  using assms
proof (induction mds arbitrary: hits s)
  case Nil
  then show ?case by (simp add: gcp_hits_def)
next
  case (Cons md mds)
  have "\<forall>d \<in> set (hits @ gcp_hits [md] http_method req_segs). length (template_of d) = length req_segs"
    using Cons.prems(2) by (auto simp: gcp_hits_def gcp_match_template_def split: if_splits)
  from Cons.IH [OF loop_ok_step [OF Cons.prems] this] show ?case by (simp only: gcp_hits_Cons [of md mds] append_assoc survivor_loop.simps)
qed

lemma append_survivors_winners:
  "append_survivors survivors mds http_method req_segs =
     foldl append_new survivors (map md_id (reading_winners mds http_method req_segs))"
proof -
  have "loop_ok req_segs (gcp_hits mds http_method req_segs) (survivor_loop http_method req_segs mds no_survivor)"
    using survivor_loop_ok [of req_segs "[]" no_survivor] by (simp add: loop_ok_def no_survivor_def)
  then have "(let s = survivor_loop http_method req_segs mds no_survivor in
      if sv_folded s then sv_matched s else case sv_winners s of None \<Rightarrow> [] | Some ws \<Rightarrow> ws) =
      map md_id (reading_winners mds http_method req_segs)"
    unfolding reading_winners_def Let_def top_shapes_def [symmetric]
    by (auto simp: loop_ok_def split: option.splits)
  then show ?thesis by (simp add: append_survivors_def Let_def)
qed

definition gcp_may_run :: "method_index \<Rightarrow> string \<Rightarrow> string list list \<Rightarrow> string set" where
  "gcp_may_run idx http_method readings =
     (\<Union>segs \<in> set readings. md_id ` set (reading_winners (sorted_methods idx) http_method (trim_empty_edges segs)))"

lemma survivors_set:
  "set (foldl (\<lambda>acc segs. append_survivors acc mds m (trim_empty_edges segs)) acc readings) =
     set acc \<union> (\<Union>segs \<in> set readings. md_id ` set (reading_winners mds m (trim_empty_edges segs)))"
  by (induction readings arbitrary: acc) (auto simp: append_survivors_winners set_foldl_append_new)

lemma survivors_distinct:
  "distinct acc \<Longrightarrow> distinct (foldl (\<lambda>acc segs. append_survivors acc mds m (trim_empty_edges segs)) acc readings)"
  by (induction readings arbitrary: acc) (auto simp: append_survivors_winners distinct_foldl_append_new)

lemma classified_survivors:
  obtains survivors where "set survivors = gcp_may_run idx (to_upper (v_method v)) readings" "distinct survivors"
    "gcp_classify idx v readings =
      (if length survivors = 1 then Inr (survivors ! 0) else if length survivors = 0 then Inl GcpUnmatched
       else Inl (GcpAmbiguous (length survivors)))"
proof -
  define survivors where "survivors =
    foldl (\<lambda>acc segs. append_survivors acc (sorted_methods idx) (to_upper (v_method v)) (trim_empty_edges segs)) [] readings"
  show ?thesis
    by (rule that [of survivors]) (unfold gcp_may_run_def survivors_def survivors_set,
      simp_all add: survivors_distinct gcp_classify_def Let_def)
qed

lemma gcp_classify_one:
  assumes "gcp_classify idx v readings = Inr m" shows "gcp_may_run idx (to_upper (v_method v)) readings = {m}"
proof -
  obtain survivors where s: "set survivors = gcp_may_run idx (to_upper (v_method v)) readings"
    "gcp_classify idx v readings = (if length survivors = 1 then Inr (survivors ! 0) else if length survivors = 0 then Inl GcpUnmatched
       else Inl (GcpAmbiguous (length survivors)))" by (rule classified_survivors)
  with assms have "length survivors = 1" "survivors ! 0 = m" by (auto split: if_splits)
  then have "survivors = [m]" by (cases survivors) auto
  with s(1) show ?thesis by simp
qed

text \<open>
  C18. The classifier is exact: it names a method precisely when that one method is all that wins any
  reading of the path, and otherwise fails, as unmatched when nothing matches and as ambiguous
  with the number of methods. A reading's winners are its matches of the most specific shape,
  all of its matches when one of them spells a literal in another case than the request.
\<close>

theorem gcp_classify_exact:
  "gcp_classify idx v readings =
     (let ids = gcp_may_run idx (to_upper (v_method v)) readings in
      if \<exists>id. ids = {id} then Inr (the_elem ids)
      else if ids = {} then Inl GcpUnmatched
      else Inl (GcpAmbiguous (card ids)))"
proof -
  obtain survivors where s: "set survivors = gcp_may_run idx (to_upper (v_method v)) readings" and d: "distinct survivors"
    and e: "gcp_classify idx v readings =
      (if length survivors = 1 then Inr (survivors ! 0) else if length survivors = 0 then Inl GcpUnmatched
       else Inl (GcpAmbiguous (length survivors)))" by (rule classified_survivors)
  have c: "card (set survivors) = length survivors" using d by (rule distinct_card)
  show ?thesis
  proof (cases "\<exists>id. set survivors = {id}")
    case True
    then obtain id where id: "set survivors = {id}" by blast
    with c have "length survivors = 1" by simp
    then obtain x where "survivors = [x]" by (cases survivors) auto
    with e s [symmetric] show ?thesis by simp
  next
    case False
    then have "length survivors \<noteq> 1" using c by (metis card_1_singletonE)
    with e s [symmetric] c False show ?thesis by auto
  qed
qed

end
