(* ===== verification/Operation_Hint.thy ===== *)
theory Operation_Hint
  imports Gcp_Classify Gitlab_Table Provider_Gate Json_Write Go_Net
begin

text \<open>
  Package \<open>apiref\<close>, as far as the gates use it to explain a denial: the bounds on what is echoed
  (\<open>text.go\<close>), the request template of a reference (\<open>template.go\<close>), the routes a request may have
  meant (\<open>candidates.go\<close>) with their edit distance, proved equal to the least number of single edits,
  GCP's hint over its method index and GitLab's over its documented routes (\<open>gcp/hint.go\<close>,
  \<open>gitlab/hint.go\<close>), and the text of the denial (\<open>unmatched.go\<close>).
\<close>

subsection \<open>text.go\<close>

text \<open>The runes of a text, each as its bytes; an invalid byte reads as U+FFFD.\<close>

function text_runes :: "string \<Rightarrow> string list" where
  "text_runes [] = []"
| "text_runes (c # s) =
     (let n = utf8_len (c # s) in
      if n = 0 then replacement_char # text_runes s else take n (c # s) # text_runes (drop n (c # s)))"
  by pat_completeness auto
termination by (relation "measure length") auto

definition rune_count :: "string \<Rightarrow> nat" where
  "rune_count s = length (text_runes s)"

definition ellipsis :: string where
  "ellipsis = ''...''"

definition truncate_runes :: "string \<Rightarrow> int \<Rightarrow> string" where
  "truncate_runes s max_runes =
     (if int (rune_count s) \<le> max_runes then s
      else if max_runes < int (length ellipsis) then concat (take (nat (max max_runes 0)) (text_runes s))
      else concat (take (nat (max_runes - int (length ellipsis))) (text_runes s)) @ ellipsis)"

definition max_reason :: int where "max_reason = 500"

definition max_choice :: int where "max_choice = 200"

definition max_path_echo :: int where "max_path_echo = 200"

definition max_choices :: nat where "max_choices = 5"

definition max_candidates :: nat where "max_candidates = 3"

definition bounded :: "string \<Rightarrow> string \<Rightarrow> string" where
  "bounded head suffix1 = truncate_runes head (max_reason - int (rune_count suffix1)) @ suffix1"

definition choices :: "string list \<Rightarrow> string list" where
  "choices items = map (\<lambda>c. truncate_runes c max_choice) (take max_choices (sort items))"

subsection \<open>candidates.go: the edit distance\<close>

text \<open>A row of the table from the row above it (\<open>p\<close> and the rest) and the entry to the left.\<close>

fun edit_row :: "'a \<Rightarrow> 'a list \<Rightarrow> nat list \<Rightarrow> nat \<Rightarrow> nat list" where
  "edit_row x (y # ys) (p # q # prev) left =
     (let cost = (if x = y then 0 else 1); c = min (min (q + 1) (left + 1)) (p + cost)
      in c # edit_row x ys (q # prev) c)"
| "edit_row x _ _ left = []"

fun edit_rows :: "'a list \<Rightarrow> 'a list \<Rightarrow> nat list \<Rightarrow> nat \<Rightarrow> nat list" where
  "edit_rows [] rb prev i = prev"
| "edit_rows (x # ra) rb prev i = edit_rows ra rb ((i + 1) # edit_row x rb prev (i + 1)) (i + 1)"

definition edit_distance :: "string \<Rightarrow> string \<Rightarrow> nat" where
  "edit_distance a b = (let ra = text_runes a; rb = text_runes b in edit_rows ra rb [0..<length rb + 1] 0 ! length rb)"

definition max_edit_distance :: nat where "max_edit_distance = 2"

definition within_edit_distance :: "string \<Rightarrow> string \<Rightarrow> bool" where
  "within_edit_distance a b =
     (let ca = rune_count a; cb = rune_count b in
      if ca > cb + max_edit_distance \<or> cb > ca + max_edit_distance then False
      else edit_distance a b \<le> max_edit_distance)"

text \<open>\<open>Nearest\<close>: the distinct ids, by distance and then by their bytes.\<close>

definition nearest :: "string list \<Rightarrow> string \<Rightarrow> int \<Rightarrow> string list" where
  "nearest ids target n =
     (let want = to_lower target; all = map (\<lambda>i. (edit_distance (to_lower i) want, i)) (foldl append_new [] ids)
      in map snd (take (nat (max n 0)) (sort all)))"

subsection \<open>candidates.go: the routes\<close>

record doc_route =
  rt_operation :: string
  rt_method :: string
  rt_template :: string

definition route_line :: "doc_route \<Rightarrow> string" where
  "route_line r = rt_operation r @ '' ('' @ to_upper (rt_method r) @ '' '' @ rt_template r @ '')''"

definition max_hint_path_bytes :: nat where "max_hint_path_bytes = 2048"

definition hint_path_too_long :: "string \<Rightarrow> bool" where
  "hint_path_too_long escaped_path \<longleftrightarrow> length escaped_path > max_hint_path_bytes"

definition template_path :: "string \<Rightarrow> string" where
  "template_path tpl = fst (str_cut tpl ''?'')"

definition hint_split_path :: "string \<Rightarrow> string list" where
  "hint_split_path p = split_on CHR ''/'' (trim_prefix p ''/'')"

definition is_label :: "string \<Rightarrow> bool" where
  "is_label seg \<longleftrightarrow> has_prefix seg ''{'' \<and> has_suffix seg ''}''"

definition is_zero_or_more :: "string \<Rightarrow> bool" where
  "is_zero_or_more seg \<longleftrightarrow> is_label seg \<and> has_suffix seg ''*}''"

definition is_greedy :: "string \<Rightarrow> bool" where
  "is_greedy seg \<longleftrightarrow> is_label seg \<and> (has_suffix seg ''+}'' \<or> is_zero_or_more seg)"

definition seg_matches :: "string \<Rightarrow> string \<Rightarrow> bool" where
  "seg_matches t s = (if is_label t then s \<noteq> [] else t = s)"

text \<open>The greedy label at path index \<open>i\<close>, of which \<open>segs\<close> are the segments from there on.\<close>

definition hint_match_greedy :: "string list \<Rightarrow> string list \<Rightarrow> bool \<Rightarrow> bool" where
  "hint_match_greedy suffix1 segs zero_ok =
     (if length segs < length suffix1 then False
      else let n = length segs - length suffix1 in
        if \<not> zero_ok \<and> (n = 0 \<or> n = 1 \<and> segs ! 0 = []) then False
        else list_all2 seg_matches suffix1 (drop n segs))"

fun hint_matches :: "string list \<Rightarrow> string list \<Rightarrow> bool" where
  "hint_matches [] segs = (segs = [])"
| "hint_matches (t # tpl) segs =
     (if is_greedy t then hint_match_greedy tpl segs (is_zero_or_more t)
      else case segs of [] \<Rightarrow> False | s # rest \<Rightarrow> seg_matches t s \<and> hint_matches tpl rest)"

definition hint_match :: "string \<Rightarrow> string \<Rightarrow> bool" where
  "hint_match template escaped_path = hint_matches (hint_split_path (template_path template)) (hint_split_path escaped_path)"

fun near_miss_loop :: "string list \<Rightarrow> string list \<Rightarrow> nat \<Rightarrow> bool" where
  "near_miss_loop (t # tpl) (s # segs) misses =
     (if is_greedy t then False
      else if seg_matches t s then near_miss_loop tpl segs misses
      else if is_label t \<or> \<not> within_edit_distance t s then False
      else near_miss_loop tpl segs (misses + 1))"
| "near_miss_loop _ _ misses = (misses = 1)"

definition near_miss :: "string list \<Rightarrow> string list \<Rightarrow> bool" where
  "near_miss tpl segs = (if length tpl \<noteq> length segs then False else near_miss_loop tpl segs 0)"

definition candidate_routes :: "doc_route list \<Rightarrow> string \<Rightarrow> string \<Rightarrow> doc_route list" where
  "candidate_routes routes meth escaped_path =
     (if hint_path_too_long escaped_path then []
      else let segs = hint_split_path escaped_path;
               tpl = (\<lambda>r. hint_split_path (template_path (rt_template r)));
               other = filter (\<lambda>r. \<not> equal_fold (rt_method r) meth \<and> hint_matches (tpl r) segs) routes;
               near = filter (\<lambda>r. equal_fold (rt_method r) meth \<and> near_miss (tpl r) segs) routes
           in if length other > 0 then other else near)"

definition bound :: "string list \<Rightarrow> string list" where
  "bound out =
     (let lines = map (\<lambda>l. truncate_runes l max_choice) (compact (sort out)) in
      if length lines = 0 \<or> length lines > max_candidates then [] else lines)"

definition candidates :: "doc_route list \<Rightarrow> string \<Rightarrow> string \<Rightarrow> string list" where
  "candidates routes meth escaped_path = bound (map route_line (candidate_routes routes meth escaped_path))"

definition candidate_operations :: "doc_route list \<Rightarrow> string \<Rightarrow> string \<Rightarrow> string list" where
  "candidate_operations routes meth escaped_path = bound (map rt_operation (candidate_routes routes meth escaped_path))"

subsection \<open>gcp/hint.go\<close>

definition gcp_hint_note :: string where
  "gcp_hint_note =
     ''Without model, the lookup searches the API's vN versions and may ask for model when several '' @
     ''define the method; pass '' @ [CHR 0x22] @ ''model'' @ [CHR 0x22] @
     '' with a version label to read any other version, such as a beta.''"

definition last_segment_start :: "string \<Rightarrow> nat" where
  "last_segment_start p = (case last_index_char p CHR ''/'' of None \<Rightarrow> 0 | Some i \<Rightarrow> i + 1)"

definition has_verb :: "string \<Rightarrow> bool" where
  "has_verb p \<longleftrightarrow> str_contains (drop (last_segment_start p) p) '':''"

definition split_verb :: "string \<Rightarrow> string" where
  "split_verb p =
     (let n = last_segment_start p in
      case str_index (drop n p) '':'' of None \<Rightarrow> p | Some i \<Rightarrow> take (n + i) p @ ''/'' @ drop (n + i) p)"

text \<open>The routes shown, and what the matcher sees of each: its index for its operation, its verb split off.\<close>

definition shown_routes :: "method_index \<Rightarrow> bool \<Rightarrow> doc_route list" where
  "shown_routes idx verb =
     filter (\<lambda>r. has_verb (rt_template r) = verb)
       (map (\<lambda>md. \<lparr>rt_operation = md_id md, rt_method = md_http_method md, rt_template = ''/'' @ effective_template md\<rparr>)
         (sorted_methods idx))"

text \<open>
  The matcher answers with the indices of the routes that match, sorted as texts and bounded; an
  index stands here for its decimal spelling.
\<close>

definition split_hits :: "doc_route list \<Rightarrow> string \<Rightarrow> string \<Rightarrow> doc_route list" where
  "split_hits shown meth path =
     (let tagged = enumerate 0 shown;
          split = map (\<lambda>(i, r). \<lparr>rt_operation = show_dec i, rt_method = rt_method r, rt_template = split_verb (rt_template r)\<rparr>) tagged;
          keys = candidate_operations split meth (split_verb path)
      in List.map_filter (\<lambda>k. map_option snd (List.find (\<lambda>(i, r). show_dec i = k) tagged)) keys)"

definition gcp_hint :: "method_index \<Rightarrow> view \<Rightarrow> unmatched_hint" where
  "gcp_hint idx v =
     (let h = \<lparr>hint_operation = [], hint_candidates = [], hint_note = gcp_hint_note, hint_no_reference = False\<rparr> in
      if hint_path_too_long (v_escaped_path v) then h
      else let segs = split_on CHR ''/'' (trim_prefix (v_escaped_path v) ''/'') in
        if list_ex (\<lambda>s. str_contains s '':'') (butlast segs) then h
        else let hits = split_hits (shown_routes idx (has_verb (v_escaped_path v))) (v_method v) (v_escaped_path v);
                 ops = foldl append_new [] (map rt_operation hits)
             in h\<lparr>hint_candidates := bound (map route_line hits),
                  hint_operation := (if length ops = 1 then ops ! 0 else [])\<rparr>)"

subsection \<open>gitlab/hint.go\<close>

definition max_namespace_segments :: nat where "max_namespace_segments = 22"

definition empty_hint :: unmatched_hint where
  "empty_hint = \<lparr>hint_operation = [], hint_candidates = [], hint_note = [], hint_no_reference = False\<rparr>"

definition fold_matches :: "doc_route list \<Rightarrow> string \<Rightarrow> string list \<times> string list" where
  "fold_matches routes path =
     (let hits = filter (\<lambda>r. hint_match (rt_template r) path) routes
      in (map route_line hits, foldl append_new [] (map rt_operation hits)))"

definition namespace_note :: "(string \<Rightarrow> string) \<Rightarrow> string \<Rightarrow> string \<Rightarrow> string" where
  "namespace_note quote sent folded =
     ''If '' @ quote (truncate_runes sent max_path_echo) @ '' is the namespace path, send it as one segment: '' @
     quote (truncate_runes folded max_path_echo) @ ''.''"

text \<open>The folds of two segments, three and so on: the first with any match decides.\<close>

fun fold_loop :: "(string \<Rightarrow> string) \<Rightarrow> doc_route list \<Rightarrow> string \<Rightarrow> string list \<Rightarrow> nat list \<Rightarrow> unmatched_hint" where
  "fold_loop quote scoped word rest [] = empty_hint"
| "fold_loop quote scoped word rest (n # ns) =
     (let folded = join ''%2F'' (take n rest);
          path = ''/'' @ join ''/'' ([''api'', ''v4'', word, folded] @ drop n rest);
          (lines, ops) = fold_matches scoped path
      in if length ops = 0 then fold_loop quote scoped word rest ns
         else if length ops > 1 then empty_hint
         else \<lparr>hint_operation = ops ! 0, hint_candidates = bound lines,
               hint_note = namespace_note quote (join ''/'' (take n rest)) folded, hint_no_reference = False\<rparr>)"

definition namespace_hint :: "(string \<Rightarrow> string) \<Rightarrow> doc_route list \<Rightarrow> string \<Rightarrow> string \<Rightarrow> unmatched_hint" where
  "namespace_hint quote routes meth escaped_path =
     (let segs = hint_split_path escaped_path in
      if length segs < 5 \<or> segs ! 0 \<noteq> ''api'' \<or> segs ! 1 \<noteq> ''v4'' \<or> (segs ! 2 \<noteq> ''projects'' \<and> segs ! 2 \<noteq> ''groups'')
      then empty_hint
      else let scoped = filter (\<lambda>r. let tpl = hint_split_path (rt_template r) in
                 equal_fold (rt_method r) meth \<and> length tpl > 3 \<and> tpl ! 2 = segs ! 2 \<and> tpl ! 3 = ''{id}'') routes;
               rest = drop 3 segs
           in fold_loop quote scoped (segs ! 2) rest [2..<min (length rest) max_namespace_segments + 1])"

definition gitlab_hint :: "(string \<Rightarrow> string) \<Rightarrow> doc_route list \<Rightarrow> view \<Rightarrow> unmatched_hint" where
  "gitlab_hint quote routes v =
     (if hint_path_too_long (v_escaped_path v) then empty_hint
      else let meth = gl_lookup_method (v_method v); cands = candidates routes meth (v_escaped_path v) in
        if length cands > 0 then
          (let ops = candidate_operations routes meth (v_escaped_path v)
           in empty_hint\<lparr>hint_candidates := cands, hint_operation := (if length ops = 1 then ops ! 0 else [])\<rparr>)
        else namespace_hint quote routes meth (v_escaped_path v))"

text \<open>\<open>docLabel\<close>: every \<open>{label}\<close> of a documented path filled with a placeholder.\<close>

function fill_labels :: "string \<Rightarrow> string" where
  "fill_labels [] = []"
| "fill_labels (c # s) =
     (let name = takeWhile (\<lambda>x. x \<noteq> CHR ''{'' \<and> x \<noteq> CHR ''}'') s; rest = drop (length name) s in
      if c = CHR ''{'' \<and> name \<noteq> [] \<and> rest \<noteq> [] \<and> hd rest = CHR ''}'' then ''x'' @ fill_labels (tl rest)
      else c # fill_labels s)"
  by pat_completeness auto
termination by (relation "measure length") auto

definition gl_recognizes :: "gl_table \<Rightarrow> string \<Rightarrow> string \<Rightarrow> bool" where
  "gl_recognizes t meth path = (case gl_classify_request t meth (fill_labels path) of Inl _ \<Rightarrow> False | Inr _ \<Rightarrow> True)"

definition recognized_hint :: "(string \<Rightarrow> string) \<Rightarrow> doc_route list \<Rightarrow> gl_table \<Rightarrow> view \<Rightarrow> unmatched_hint" where
  "recognized_hint quote routes t v =
     gitlab_hint quote (filter (\<lambda>r. gl_recognizes t (rt_method r) (rt_template r)) routes) v"

subsection \<open>apiref.go and template.go\<close>

datatype location = LocationPath | LocationQuery | LocationHeader | LocationBody

datatype body_encoding = BodyNone | BodyForm | BodyJSON

record input =
  in_name :: string
  in_wire_name :: string
  in_location :: location
  in_required :: bool
  in_type :: string
  in_renderable :: bool
  in_description :: string

record response_shape =
  rs_encoding :: string
  rs_parse :: string

record pagination =
  pg_style :: string
  pg_input_token :: string
  pg_output_token :: string
  pg_items :: string
  pg_page_size :: string

record doc_source =
  ds_name :: string
  ds_document :: string
  ds_version :: string
  ds_sha256 :: string
  ds_target :: string
  ds_server_hash :: string
  ds_observed_at :: string

text \<open>A fixed pair is its key and its value.\<close>

record reference =
  rf_connector :: string
  rf_service :: string
  rf_model :: string
  rf_operation :: string
  rf_protocol :: string
  rf_method :: string
  rf_path_template :: string
  rf_api_version :: string
  rf_summary :: string
  rf_endpoint :: string
  rf_inputs :: "input list"
  rf_inputs_truncated :: bool
  rf_body_encoding :: body_encoding
  rf_fixed_query :: "(string \<times> string) list"
  rf_fixed_form :: "(string \<times> string) list"
  rf_fixed_headers :: "(string \<times> string) list"
  rf_auth_field :: string
  rf_auth_args :: "(string \<times> string) list"
  rf_response :: response_shape
  rf_pagination :: pagination
  rf_source :: doc_source
  rf_gaps :: "string list"
  rf_limitations :: "string list"

datatype outcome =
    OutcomeFound | OutcomeIncomplete | OutcomeNotFound | OutcomeAmbiguous | OutcomeUnsupported | OutcomeUnavailable

definition outcome_of :: "reference \<Rightarrow> outcome" where
  "outcome_of r = (if length (rf_gaps r) > 0 then OutcomeIncomplete else OutcomeFound)"

definition reference_shape :: "reference \<Rightarrow> string" where
  "reference_shape r =
     (let with1 = map (\<lambda>(k, v). ''header '' @ k @ '': '' @ v) (rf_fixed_headers r) @
            (if length (rf_fixed_form r) > 0
             then [''form body '' @ join ''&'' (map (\<lambda>(k, v). k @ ''='' @ v) (rf_fixed_form r))] else [])
      in rf_protocol r @ '': '' @ rf_method r @ '' '' @ rf_path_template r @
         (if length with1 > 0 then '' with '' @ join '' and '' with1 else []) @
         ''; responses are '' @ rs_encoding (rf_response r))"

definition placeholder :: "input \<Rightarrow> string" where
  "placeholder i = (if \<not> in_renderable i then ''<'' @ in_name i @ '':unrendered>'' else ''<'' @ in_name i @ ''>'')"

definition required_at :: "reference \<Rightarrow> location \<Rightarrow> input list" where
  "required_at r loc = filter (\<lambda>i. in_required i \<and> in_location i = loc) (rf_inputs r)"

definition param_pairs :: "(string \<times> string) list \<Rightarrow> string list" where
  "param_pairs ps = map (\<lambda>(k, v). if v = [] then k else k @ ''='' @ v) ps"

definition path_placeholder :: "reference \<Rightarrow> string \<Rightarrow> bool \<Rightarrow> string" where
  "path_placeholder r name greedy =
     (let label = (if greedy then name @ ''+'' else name) in
      case List.find (\<lambda>i. in_location i = LocationPath \<and> in_name i = name) (rf_inputs r) of
        Some i \<Rightarrow> if \<not> in_renderable i then ''<'' @ label @ '':unrendered>'' else ''<'' @ label @ ''>''
      | None \<Rightarrow> ''<'' @ label @ ''>'')"

lemma drop_Cons_shorter: "drop n s = c # t \<Longrightarrow> length t < length s"
  by (drule arg_cong [of _ _ length]) simp

text \<open>Every \<open>{label}\<close> of one segment; the closing brace is the first behind the opening one.\<close>

function segment_placeholders :: "reference \<Rightarrow> string \<Rightarrow> string" where
  "segment_placeholders r seg =
     (let lead = takeWhile (\<lambda>x. x \<noteq> CHR ''{'') seg in
      case drop (length lead) seg of
        [] \<Rightarrow> seg
      | _ # after_open \<Rightarrow>
          (let label = takeWhile (\<lambda>x. x \<noteq> CHR ''}'') after_open in
           case drop (length label) after_open of
             [] \<Rightarrow> seg
           | _ # rest \<Rightarrow>
               (case cut_suffix label ''+'' of
                  Some name \<Rightarrow> lead @ path_placeholder r name True @ segment_placeholders r rest
                | None \<Rightarrow> lead @ path_placeholder r label False @ segment_placeholders r rest)))"
  by pat_completeness auto
termination by (relation "measure (\<lambda>(r, s). length s)") (auto dest!: drop_Cons_shorter)

declare segment_placeholders.simps [simp del]

definition template_url :: "reference \<Rightarrow> string" where
  "template_url r =
     (let path = join ''/'' (map (segment_placeholders r) (split_on CHR ''/'' (rf_path_template r)));
          query = param_pairs (rf_fixed_query r) @
            map (\<lambda>i. in_wire_name i @ ''='' @ placeholder i) (required_at r LocationQuery)
      in rf_endpoint r @ path @ (if length query > 0 then ''?'' @ join ''&'' query else []))"

subsection \<open>unmatched.go: the text of the denial\<close>

text \<open>\<open>SetEscapeHTML(false)\<close>: the three characters it leaves alone, the rest as ever.\<close>

function json_escape_plain :: "string \<Rightarrow> string" where
  "json_escape_plain [] = []"
| "json_escape_plain (c # s) =
     (if c = CHR ''<'' \<or> c = CHR ''>'' \<or> c = CHR ''&'' then c # json_escape_plain s
      else if byte_val c < 128 then json_byte c @ json_escape_plain s
      else (let n = utf8_len (c # s) in
        if n = 0 then (CHR 0x5C # ''ufffd'') @ json_escape_plain s
        else escape_seq (take n (c # s)) @ json_escape_plain (drop n (c # s))))"
  by pat_completeness auto
termination by (relation "measure length") auto

definition json_pair :: "string \<Rightarrow> string \<Rightarrow> string" where
  "json_pair k v = [CHR 0x22] @ json_escape_plain k @ [CHR 0x22] @ '':'' @ [CHR 0x22] @ json_escape_plain v @ [CHR 0x22]"

definition marshal_lookup :: "(string \<times> string) list \<Rightarrow> string" where
  "marshal_lookup m = ''{'' @ join '','' (map (\<lambda>(k, v). json_pair k v) (sort m)) @ ''}''"

definition max_method_echo :: int where "max_method_echo = 16"

definition max_gate_detail :: int where "max_gate_detail = 300"

definition max_hint_note :: int where "max_hint_note = 500"

definition format_unmatched :: "(string \<Rightarrow> string) \<Rightarrow> string \<Rightarrow> string \<Rightarrow> view \<Rightarrow> unmatched_hint \<Rightarrow> string \<Rightarrow> string" where
  "format_unmatched quote connector service v h err_text =
     (let target = connector @ (if service \<noteq> [] then ''/'' @ service else []);
          op1 = truncate_runes (hint_operation h) max_choice;
          op = (if op1 = [] then ''<OperationName>'' else op1);
          lookup = [(''connector'', connector), (''operation'', op)] @
            (if service \<noteq> [] then [(''service'', service)] else []);
          cand = (if length (hint_candidates h) > 0 then '' Candidates: '' @ join ''; '' (hint_candidates h) @ ''.'' else []) @
            (if hint_note h \<noteq> [] then '' '' @ truncate_runes (hint_note h) max_hint_note else []);
          tmpl = (if \<not> hint_no_reference h
            then '' For an operation's request template call api_reference with '' @ marshal_lookup lookup @ ''.'' else [])
      in truncate_runes err_text max_gate_detail @ ''. '' @ truncate_runes (v_method v) max_method_echo @ '' '' @
         quote (truncate_runes (v_escaped_path v) max_path_echo) @ '' on '' @ target @
         '' matched no operation in the cached API metadata. The gate stopped '' @
         ''before attaching credentials or sending anything; this says nothing about the principal's '' @
         ''permissions. Check the request shape against the operation reference.'' @ cand @ tmpl)"

subsection \<open>The edit distance is the least number of single edits\<close>

text \<open>One edit: a rune inserted, deleted or replaced, anywhere.\<close>

inductive one_edit :: "'a list \<Rightarrow> 'a list \<Rightarrow> bool" where
  ins: "one_edit (u @ v) (u @ y # v)"
| del: "one_edit (u @ x # v) (u @ v)"
| rep: "one_edit (u @ x # v) (u @ y # v)"

fun lev :: "'a list \<Rightarrow> 'a list \<Rightarrow> nat" where
  "lev [] ys = length ys"
| "lev xs [] = length xs"
| "lev (x # xs) (y # ys) = min (min (lev xs (y # ys) + 1) (lev (x # xs) ys + 1)) (lev xs ys + (if x = y then 0 else 1))"

lemma lev_Nil2 [simp]: "lev xs [] = length xs"
  by (cases xs) auto

lemma lev_le_Cons1: "lev (x # xs) ys \<le> lev xs ys + 1"
  by (cases ys) auto

lemma lev_le_Cons2: "lev xs (y # ys) \<le> lev xs ys + 1"
  by (cases xs) auto

text \<open>An alignment: a sequence of kept, replaced, inserted and deleted runes, with its cost.\<close>

inductive aligned :: "nat \<Rightarrow> 'a list \<Rightarrow> 'a list \<Rightarrow> bool" where
  nil: "aligned 0 [] []"
| keep: "aligned n xs ys \<Longrightarrow> aligned n (x # xs) (x # ys)"
| rep: "aligned n xs ys \<Longrightarrow> aligned (Suc n) (x # xs) (y # ys)"
| ins: "aligned n xs ys \<Longrightarrow> aligned (Suc n) xs (y # ys)"
| del: "aligned n xs ys \<Longrightarrow> aligned (Suc n) (x # xs) ys"

lemma aligned_lev: "aligned n xs ys \<Longrightarrow> lev xs ys \<le> n"
proof (induction rule: aligned.induct)
  case (ins n xs ys y)
  then show ?case using lev_le_Cons2 [of xs y ys] by simp
next
  case (del n xs ys x)
  then show ?case using lev_le_Cons1 [of x xs ys] by simp
qed auto

lemma aligned_refl: "aligned 0 xs xs"
  by (induction xs) (auto intro: aligned.intros)

lemma aligned_insert_all: "aligned (length ys) [] ys"
  by (induction ys) (auto intro: aligned.intros)

lemma aligned_delete_all: "aligned (length xs) xs []"
  by (induction xs) (auto intro: aligned.intros)

lemma lev_aligned: "aligned (lev xs ys) xs ys"
proof (induction xs ys rule: lev.induct)
  case (3 x xs y ys)
  have "lev (x # xs) (y # ys) = Suc (lev xs (y # ys)) \<or> lev (x # xs) (y # ys) = Suc (lev (x # xs) ys) \<or>
      x = y \<and> lev (x # xs) (y # ys) = lev xs ys \<or> lev (x # xs) (y # ys) = Suc (lev xs ys)"
    by (simp only: lev.simps min_def split: if_split) simp
  then show ?case using 3 by (metis aligned.keep aligned.rep aligned.ins aligned.del)
next
  case (2 x xs)
  then show ?case using aligned_delete_all [of "x # xs"] by simp
qed (simp add: aligned_insert_all)

lemma aligned_append: "aligned m a b \<Longrightarrow> aligned n c d \<Longrightarrow> aligned (m + n) (a @ c) (b @ d)"
  by (induction rule: aligned.induct) (auto intro: aligned.intros)

lemma aligned_split:
  "aligned n xs zs \<Longrightarrow> zs = u @ v \<Longrightarrow> \<exists>a b m k. xs = a @ b \<and> n = m + k \<and> aligned m a u \<and> aligned k b v"
proof (induction arbitrary: u rule: aligned.induct)
  case nil
  then show ?case by (auto intro: aligned.nil)
next
  case (keep n xs ys x)
  show ?case
  proof (cases u)
    case Nil
    with keep have "v = x # ys" by simp
    with keep(1) have "aligned n (x # xs) v" by (auto intro: aligned.intros)
    with Nil show ?thesis by (intro exI [of _ "[]"] exI [of _ "x # xs"] exI [of _ 0] exI [of _ n]) (auto intro: aligned.nil)
  next
    case (Cons c u')
    with keep(3) have c: "c = x" "ys = u' @ v" by auto
    from keep(2) [OF c(2)] obtain a b m k where "xs = a @ b" "n = m + k" "aligned m a u'" "aligned k b v" by blast
    with Cons c show ?thesis by (intro exI [of _ "x # a"] exI [of _ b] exI [of _ m] exI [of _ k]) (auto intro: aligned.intros)
  qed
next
  case (rep n xs ys x y)
  show ?case
  proof (cases u)
    case Nil
    with rep have "v = y # ys" by simp
    with rep(1) have "aligned (Suc n) (x # xs) v" by (auto intro: aligned.intros)
    with Nil show ?thesis by (intro exI [of _ "[]"] exI [of _ "x # xs"] exI [of _ 0] exI [of _ "Suc n"]) (auto intro: aligned.nil)
  next
    case (Cons c u')
    with rep(3) have c: "c = y" "ys = u' @ v" by auto
    from rep(2) [OF c(2)] obtain a b m k where "xs = a @ b" "n = m + k" "aligned m a u'" "aligned k b v" by blast
    with Cons c show ?thesis by (intro exI [of _ "x # a"] exI [of _ b] exI [of _ "Suc m"] exI [of _ k]) (auto intro: aligned.intros)
  qed
next
  case (ins n xs ys y)
  show ?case
  proof (cases u)
    case Nil
    with ins have "v = y # ys" by simp
    with ins(1) have "aligned (Suc n) xs v" by (auto intro: aligned.intros)
    with Nil show ?thesis by (intro exI [of _ "[]"] exI [of _ xs] exI [of _ 0] exI [of _ "Suc n"]) (auto intro: aligned.nil)
  next
    case (Cons c u')
    with ins(3) have c: "c = y" "ys = u' @ v" by auto
    from ins(2) [OF c(2)] obtain a b m k where "xs = a @ b" "n = m + k" "aligned m a u'" "aligned k b v" by blast
    with Cons c show ?thesis by (intro exI [of _ a] exI [of _ b] exI [of _ "Suc m"] exI [of _ k]) (auto intro: aligned.intros)
  qed
next
  case (del n xs ys x)
  from del(2) [OF del(3)] obtain a b m k where "xs = a @ b" "n = m + k" "aligned m a u" "aligned k b v" by blast
  then show ?case by (intro exI [of _ "x # a"] exI [of _ b] exI [of _ "Suc m"] exI [of _ k]) (auto intro: aligned.intros)
qed

lemma aligned_length: "aligned n xs ys \<Longrightarrow> length xs \<le> length ys + n"
  by (induction rule: aligned.induct) auto

lemma aligned_length2: "aligned n xs ys \<Longrightarrow> length ys \<le> length xs + n"
  by (induction rule: aligned.induct) auto

lemma aligned_short:
  assumes "aligned m xs [y]" and "length w \<le> 1"
  shows "\<exists>k\<le>Suc m. aligned k xs w"
proof (cases xs)
  case Nil
  then have "aligned (length w) xs w" by (simp add: aligned_insert_all)
  then show ?thesis using assms(2) by (intro exI [of _ "length w"]) simp
next
  case (Cons x xs')
  have len: "length xs \<le> Suc m" using aligned_length [OF assms(1)] by simp
  have "aligned (length xs) xs w"
  proof (cases w)
    case (Cons z w')
    with assms(2) have "w = [z]" by simp
    then show ?thesis using \<open>xs = x # xs'\<close> by (auto intro: aligned.rep aligned_delete_all)
  qed (simp add: aligned_delete_all)
  then show ?thesis using len by blast
qed

lemma aligned_edit:
  assumes "aligned m xs zs" and "one_edit zs ys"
  shows "\<exists>k\<le>Suc m. aligned k xs ys"
proof -
  have change: "\<exists>k\<le>Suc m. aligned k xs (u @ w @ v)" if z: "zs = u @ [x] @ v" and w: "length w \<le> 1" for u v w and x :: 'a
  proof -
    obtain a b m1 k1 where 1: "xs = a @ b" "m = m1 + k1" "aligned m1 a u" "aligned k1 b ([x] @ v)"
      using aligned_split [OF assms(1) z] by blast
    obtain c d m2 k2 where 2: "b = c @ d" "k1 = m2 + k2" "aligned m2 c [x]" "aligned k2 d v"
      using aligned_split [OF 1(4) refl] by blast
    obtain k where k: "k \<le> Suc m2" "aligned k c w" using aligned_short [OF 2(3) w] by blast
    have "aligned (m1 + (k + k2)) (a @ c @ d) (u @ w @ v)" by (intro aligned_append 1(3) k(2) 2(4))
    then show ?thesis using 1(1,2) 2(1,2) k(1) by (intro exI [of _ "m1 + (k + k2)"]) simp
  qed
  from assms(2) show ?thesis
  proof cases
    case (ins u v y)
    obtain a b m1 k1 where 1: "xs = a @ b" "m = m1 + k1" "aligned m1 a u" "aligned k1 b v"
      using aligned_split [OF assms(1) ins(1)] by blast
    have "aligned (m1 + Suc k1) (a @ b) (u @ y # v)" by (intro aligned_append aligned.ins 1)
    then show ?thesis using 1(1,2) ins(2) by auto
  next
    case (del u x v)
    then show ?thesis using change [of u x v "[]"] by simp
  next
    case (rep u x v y)
    then show ?thesis using change [of u x v "[y]"] by simp
  qed
qed

lemma edits_lev: "(one_edit ^^ n) xs ys \<Longrightarrow> lev xs ys \<le> n"
proof -
  have "\<exists>k\<le>n. aligned k xs ys" if "(one_edit ^^ n) xs ys"
    using that
  proof (induction n arbitrary: ys)
    case 0
    then show ?case using aligned_refl by auto
  next
    case (Suc n)
    then obtain zs where "(one_edit ^^ n) xs zs" "one_edit zs ys" by auto
    then show ?case using Suc.IH aligned_edit by (meson Suc_le_mono order_trans)
  qed
  then show "(one_edit ^^ n) xs ys \<Longrightarrow> lev xs ys \<le> n" using aligned_lev by (meson order_trans)
qed

lemma one_edit_Cons: "one_edit xs ys \<Longrightarrow> one_edit (x # xs) (x # ys)"
  by (erule one_edit.cases) (metis append_Cons one_edit.intros)+

lemma edits_Cons: "(one_edit ^^ n) xs ys \<Longrightarrow> (one_edit ^^ n) (x # xs) (x # ys)"
  by (induction n arbitrary: ys) (auto intro!: relcomppI dest: one_edit_Cons)

lemma aligned_edits: "aligned n xs ys \<Longrightarrow> (one_edit ^^ n) xs ys"
proof (induction rule: aligned.induct)
  case (rep n xs ys x y)
  then show ?case
    using one_edit.rep [of "[]" x xs y] edits_Cons relpowp_Suc_I2 by (metis append_Nil)
next
  case (ins n xs ys y)
  then show ?case
    using one_edit.ins [of "[]" xs y] edits_Cons relpowp_Suc_I2 by (metis append_Nil)
next
  case (del n xs ys x)
  then show ?case
    using one_edit.del [of "[]" x xs] relpowp_Suc_I2 by (metis append_Nil)
qed (auto intro: edits_Cons)

lemma lev_least: "lev xs ys = (LEAST n. (one_edit ^^ n) xs ys)"
  by (rule Least_equality [symmetric]) (auto intro: aligned_edits lev_aligned edits_lev)

lemma aligned_rev: "aligned n xs ys \<Longrightarrow> aligned n (rev xs) (rev ys)"
proof (induction rule: aligned.induct)
  case (keep n xs ys x)
  then show ?case using aligned_append [OF keep.IH aligned.keep [OF aligned.nil, of x]] by simp
next
  case (rep n xs ys x y)
  then show ?case using aligned_append [OF rep.IH aligned.rep [OF aligned.nil, of x y]] by simp
next
  case (ins n xs ys y)
  then show ?case using aligned_append [OF ins.IH aligned.ins [OF aligned.nil, of y]] by simp
next
  case (del n xs ys x)
  then show ?case using aligned_append [OF del.IH aligned.del [OF aligned.nil, of x]] by simp
qed (simp add: aligned.nil)

lemma lev_rev: "lev (rev xs) (rev ys) = lev xs ys"
  by (metis aligned_lev aligned_rev lev_aligned le_antisym rev_rev_ident)

text \<open>The rows of the table, as distances of the reversed prefixes.\<close>

fun lev_row :: "'a list \<Rightarrow> 'a list \<Rightarrow> 'a list \<Rightarrow> nat list" where
  "lev_row p q [] = [lev p q]"
| "lev_row p q (y # ys) = lev p q # lev_row p (y # q) ys"

lemma lev_row_Cons: "lev_row p q ys = lev p q # tl (lev_row p q ys)"
  by (cases ys) auto

lemma lev_row_final: "lev_row p q ys ! length ys = lev p (rev ys @ q)"
  by (induction ys arbitrary: q) auto

lemma lev_row_first: "lev_row [] q ys = [length q..<length q + length ys + 1]"
proof (induction ys arbitrary: q)
  case (Cons y ys)
  then show ?case using upt_conv_Cons [of "length q" "length q + length (y # ys) + 1"] by simp
qed simp

lemma edit_row_lev: "edit_row x ys (lev_row p q ys) (lev (x # p) q) = tl (lev_row (x # p) q ys)"
proof (induction ys arbitrary: q)
  case (Cons y ys)
  have "edit_row x (y # ys) (lev_row p q (y # ys)) (lev (x # p) q)
      = lev (x # p) (y # q) # edit_row x ys (lev_row p (y # q) ys) (lev (x # p) (y # q))"
    by (cases ys) (simp_all add: Let_def)
  also have "\<dots> = lev_row (x # p) (y # q) ys" using Cons.IH lev_row_Cons by metis
  finally show ?case by simp
qed simp

lemma edit_rows_lev: "edit_rows ra rb (lev_row p [] rb) (length p) = lev_row (rev ra @ p) [] rb"
proof (induction ra arbitrary: p)
  case (Cons x ra)
  have "(length p + 1) # edit_row x rb (lev_row p [] rb) (length p + 1) = lev_row (x # p) [] rb"
    using edit_row_lev [of x rb p "[]"] lev_row_Cons [of "x # p" "[]" rb] by simp
  then show ?case using Cons [of "x # p"] by simp
qed simp

lemma edit_distance_lev: "edit_distance a b = lev (text_runes a) (text_runes b)"
proof -
  have "edit_rows (text_runes a) (text_runes b) (lev_row [] [] (text_runes b)) 0 = lev_row (rev (text_runes a)) [] (text_runes b)"
    using edit_rows_lev [of "text_runes a" "text_runes b" "[]"] by simp
  then show ?thesis
    using lev_row_first [of "[]" "text_runes b"] lev_row_final [of "rev (text_runes a)" "[]" "text_runes b"]
    by (simp add: edit_distance_def Let_def lev_rev)
qed

text \<open>
  C37. The edit distance that the denial hints rank by, computed row by row from a table, is the least
  number of runes inserted, deleted or replaced that turns one text into the other; and the
  guard that compares only the lengths never rules out a pair that is within the bound.
\<close>
theorem edit_distance_least:
  "edit_distance a b = (LEAST n. (one_edit ^^ n) (text_runes a) (text_runes b))
    \<and> within_edit_distance a b = (edit_distance a b \<le> max_edit_distance)"
proof -
  have "rune_count a \<le> rune_count b + edit_distance a b" "rune_count b \<le> rune_count a + edit_distance a b"
    using aligned_length [OF lev_aligned] aligned_length2 [OF lev_aligned]
    by (simp_all add: edit_distance_lev rune_count_def)
  then show ?thesis by (auto simp: within_edit_distance_def Let_def edit_distance_lev lev_least [symmetric])
qed

end
