(* ===== verification/Kube_Policy.thy ===== *)
theory Kube_Policy
  imports Go_Url Json_Decode
begin

text \<open>
  Package \<open>auth/k8s\<close>: the view of a Kubernetes API request the authorization judges
  (\<open>classify.go\<close>, after the API server's own \<open>RequestInfo\<close>), the rules of a ClusterRole
  (\<open>policy.go\<close>), their decoding from the API's answer (\<open>parse.go\<close>) and the read-only
  check (\<open>authorize.go\<close>).
\<close>

subsection \<open>classify.go\<close>

record request_info =
  ri_resource_request :: bool
  ri_verb :: string
  ri_api_group :: string
  ri_api_version :: string
  ri_namespace :: string
  ri_resource :: string
  ri_subresource :: string
  ri_name :: string
  ri_path :: string

definition non_resource :: "string \<Rightarrow> string \<Rightarrow> request_info" where
  "non_resource verb path =
     \<lparr>ri_resource_request = False, ri_verb = verb, ri_api_group = [], ri_api_version = [], ri_namespace = [],
      ri_resource = [], ri_subresource = [], ri_name = [], ri_path = path\<rparr>"

definition kube_split_path :: "string \<Rightarrow> string list" where
  "kube_split_path p = (let t = trim_char CHR ''/'' p in if t = [] then [] else split_on CHR ''/'' t)"

definition is_namespace_subresource :: "string \<Rightarrow> bool" where
  "is_namespace_subresource segment \<longleftrightarrow> segment = ''status'' \<or> segment = ''finalize''"

definition consume_namespace :: "request_info \<Rightarrow> string list \<Rightarrow> request_info \<times> string list" where
  "consume_namespace ri parts =
     (if parts = [] \<or> parts ! 0 \<noteq> ''namespaces'' then (ri, parts)
      else if length parts < 3 \<or> is_namespace_subresource (parts ! 2) then (ri, parts)
      else (ri\<lparr>ri_namespace := parts ! 1\<rparr>, drop 2 parts))"

definition consume_resource :: "request_info \<Rightarrow> string list \<Rightarrow> request_info" where
  "consume_resource ri parts =
     (if parts = [] then ri
      else let ri1 = ri\<lparr>ri_resource := parts ! 0\<rparr>;
               ri2 = (if length parts \<ge> 2 then ri1\<lparr>ri_name := parts ! 1\<rparr> else ri1)
           in if length parts \<ge> 3 \<and> ri_verb ri2 \<noteq> ''proxy'' then ri2\<lparr>ri_subresource := parts ! 2\<rparr> else ri2)"

definition is_watch :: "url_values \<Rightarrow> bool" where
  "is_watch query \<longleftrightarrow> parse_bool (values_get query ''watch'') = Some True"

definition verb_of_method :: "string \<Rightarrow> string" where
  "verb_of_method m =
     (if m = ''post'' then ''create''
      else if m = ''get'' \<or> m = ''head'' then ''get''
      else if m = ''put'' then ''update''
      else if m = ''patch'' then ''patch''
      else if m = ''delete'' then ''delete''
      else m)"

definition apply_verb :: "request_info \<Rightarrow> string \<Rightarrow> url_values \<Rightarrow> request_info" where
  "apply_verb ri http_verb query =
     (if ri_verb ri \<noteq> [] then ri
      else let v1 = verb_of_method http_verb;
               v2 = (if ri_name ri = [] then
                       (if v1 = ''get'' then ''list'' else if v1 = ''delete'' then ''deletecollection'' else v1)
                     else v1)
           in ri\<lparr>ri_verb := (if v2 = ''list'' \<and> is_watch query then ''watch'' else v2)\<rparr>)"

definition classify_resource ::
    "string \<Rightarrow> string \<Rightarrow> string \<Rightarrow> string \<Rightarrow> string list \<Rightarrow> url_values \<Rightarrow> request_info" where
  \<comment> \<open>The part of \<open>Classify\<close> behind the group and version.\<close>
  "classify_resource http_verb path grp version parts query =
     (let special = (parts \<noteq> [] \<and> (parts ! 0 = ''proxy'' \<or> parts ! 0 = ''watch''));
          ri = (non_resource (if special then parts ! 0 else []) path)
                 \<lparr>ri_resource_request := True, ri_api_group := grp, ri_api_version := version\<rparr>
      in case consume_namespace ri (if special then drop 1 parts else parts) of
           (ri', rest) \<Rightarrow> apply_verb (consume_resource ri' rest) http_verb query)"

definition kube_classify :: "string \<Rightarrow> string \<Rightarrow> url_values \<Rightarrow> request_info" where
  "kube_classify http_method path query =
     (let http_verb = to_lower http_method; parts = kube_split_path path in
      if length parts < 3 \<or> (parts ! 0 \<noteq> ''api'' \<and> parts ! 0 \<noteq> ''apis'') then non_resource http_verb path
      else if parts ! 0 = ''api'' then classify_resource http_verb path [] (parts ! 1) (drop 2 parts) query
      else if length parts < 4 then non_resource http_verb path
      else classify_resource http_verb path (parts ! 1) (parts ! 2) (drop 3 parts) query)"

subsection \<open>policy.go\<close>

record policy_rule =
  pr_api_groups :: "string list"
  pr_resources :: "string list"
  pr_resource_names :: "string list"
  pr_verbs :: "string list"

text \<open>A \<open>*ViewPolicy\<close>; \<open>None\<close> is nil.\<close>

type_synonym view_policy = "policy_rule list option"

definition match_item :: "string list \<Rightarrow> string \<Rightarrow> bool" where
  "match_item items want = list_ex (\<lambda>s. s = ''*'' \<or> s = want) items"

definition resource_name_matches :: "string list \<Rightarrow> string \<Rightarrow> bool" where
  "resource_name_matches names request_name =
     (if names = [] then True else if request_name = [] then False else request_name \<in> set names)"

definition rule_target :: "request_info \<Rightarrow> string" where
  "rule_target ri = (if ri_subresource ri \<noteq> [] then ri_resource ri @ ''/'' @ ri_subresource ri else ri_resource ri)"

definition view_allows :: "view_policy \<Rightarrow> request_info \<Rightarrow> bool" where
  "view_allows vp ri =
     (case vp of
        None \<Rightarrow> False
      | Some rules \<Rightarrow>
          ri_resource_request ri \<and>
          list_ex (\<lambda>r. match_item (pr_verbs r) (ri_verb ri) \<and> match_item (pr_api_groups r) (ri_api_group ri) \<and>
                       match_item (pr_resources r) (rule_target ri) \<and>
                       resource_name_matches (pr_resource_names r) (ri_name ri)) rules)"

subsection \<open>authorize.go\<close>

definition safe_non_resource_paths :: "string list" where
  "safe_non_resource_paths = [''/'', ''/version'', ''/healthz'', ''/livez'', ''/readyz'', ''/api'', ''/apis'']"

definition safe_non_resource_prefixes :: "string list" where
  "safe_non_resource_prefixes =
     [''/openapi'', ''/api/'', ''/apis/'', ''/version/'', ''/healthz/'', ''/livez/'', ''/readyz/'']"

definition allowed_non_resource :: "string \<Rightarrow> string \<Rightarrow> bool" where
  "allowed_non_resource verb path =
     (if verb \<noteq> ''get'' \<and> verb \<noteq> ''head'' then False
      else if path \<in> set safe_non_resource_paths then True
      else list_ex (has_prefix path) safe_non_resource_prefixes)"

datatype kube_error =
    KubeForbidden
  | KubeUnclassifiable
  | KubeHostNotAuthorized
  | KubeClusterAccessDenied
  | KubeFetchFailed
  | KubeArgsMissing
  | KubeInvalidIdentifier
  | KubeBadArguments
  | KubeResolveFailed
  | KubeCredentialFailed

definition kube_authorize :: "request_info \<Rightarrow> view_policy \<Rightarrow> (kube_error, unit) result" where
  "kube_authorize ri vp =
     (if \<not> ri_resource_request ri then
        (if allowed_non_resource (ri_verb ri) (ri_path ri) then Inr () else Inl KubeForbidden)
      else if view_allows vp ri then Inr ()
      else Inl KubeForbidden)"

subsection \<open>parse.go\<close>

record raw_rule =
  rr_api_groups :: "string slice"
  rr_resources :: "string slice"
  rr_resource_names :: "string slice"
  rr_verbs :: "string slice"

definition zero_rule :: raw_rule where
  "zero_rule = \<lparr>rr_api_groups = ([], 0), rr_resources = ([], 0), rr_resource_names = ([], 0), rr_verbs = ([], 0)\<rparr>"

definition decode_rule_member :: "string \<Rightarrow> json \<Rightarrow> raw_rule \<Rightarrow> raw_rule option" where
  "decode_rule_member k v r =
     (if equal_fold k ''apiGroups'' then
        map_option (\<lambda>x. r\<lparr>rr_api_groups := x\<rparr>) (decode_slice decode_text [] v (rr_api_groups r))
      else if equal_fold k ''resources'' then
        map_option (\<lambda>x. r\<lparr>rr_resources := x\<rparr>) (decode_slice decode_text [] v (rr_resources r))
      else if equal_fold k ''resourceNames'' then
        map_option (\<lambda>x. r\<lparr>rr_resource_names := x\<rparr>) (decode_slice decode_text [] v (rr_resource_names r))
      else if equal_fold k ''verbs'' then
        map_option (\<lambda>x. r\<lparr>rr_verbs := x\<rparr>) (decode_slice decode_text [] v (rr_verbs r))
      else Some r)"

record cluster_role =
  cr_kind :: string
  cr_rules :: "raw_rule slice"

definition decode_role_member :: "string \<Rightarrow> json \<Rightarrow> cluster_role \<Rightarrow> cluster_role option" where
  "decode_role_member k v cr =
     (if equal_fold k ''kind'' then map_option (\<lambda>x. cr\<lparr>cr_kind := x\<rparr>) (decode_text v (cr_kind cr))
      else if equal_fold k ''rules'' then
        map_option (\<lambda>x. cr\<lparr>cr_rules := x\<rparr>)
          (decode_slice (decode_struct decode_rule_member) zero_rule v (cr_rules cr))
      else Some cr)"

definition rule_of_raw :: "raw_rule \<Rightarrow> policy_rule" where
  "rule_of_raw r =
     \<lparr>pr_api_groups = slice_elems (rr_api_groups r), pr_resources = slice_elems (rr_resources r),
      pr_resource_names = slice_elems (rr_resource_names r), pr_verbs = slice_elems (rr_verbs r)\<rparr>"

definition parse_cluster_role_rules :: "string \<Rightarrow> (kube_error, policy_rule list) result" where
  "parse_cluster_role_rules data =
     (case Option.bind (map_option fst (parse_doc data))
              (\<lambda>j. decode_struct decode_role_member j \<lparr>cr_kind = [], cr_rules = ([], 0)\<rparr>) of
        None \<Rightarrow> Inl KubeUnclassifiable
      | Some cr \<Rightarrow>
          if cr_kind cr \<noteq> ''ClusterRole'' then Inl KubeUnclassifiable
          else if slice_elems (cr_rules cr) = [] then Inl KubeUnclassifiable
          else Inr (map rule_of_raw (slice_elems (cr_rules cr))))"

subsection \<open>A path says what it names\<close>

text \<open>The path the API server documents for an object, its segments first.\<close>

definition kube_segments :: "string \<Rightarrow> string \<Rightarrow> string \<Rightarrow> string \<Rightarrow> string \<Rightarrow> string \<Rightarrow> string list" where
  "kube_segments grp version ns resource name sub =
     (if grp = [] then [''api'', version] else [''apis'', grp, version]) @
     (if ns = [] then [] else [''namespaces'', ns]) @ [resource] @
     (if name = [] then [] else name # (if sub = [] then [] else [sub]))"

definition slash_path :: "string list \<Rightarrow> string" where
  "slash_path segs = ''/'' @ join ''/'' segs"

definition plain_segment :: "string \<Rightarrow> bool" where
  "plain_segment s \<longleftrightarrow> s \<noteq> [] \<and> CHR ''/'' \<notin> set s"

lemma join_plain:
  "list_all plain_segment segs \<Longrightarrow> segs \<noteq> [] \<Longrightarrow>
     join ''/'' segs \<noteq> [] \<and> hd (join ''/'' segs) \<noteq> CHR ''/'' \<and> last (join ''/'' segs) \<noteq> CHR ''/''"
proof (induction segs)
  case (Cons s segs)
  have s: "s \<noteq> []" "hd s \<noteq> CHR ''/''" "last s \<noteq> CHR ''/''"
    using Cons.prems(1) by (auto simp: plain_segment_def dest: hd_in_set last_in_set)
  show ?case
  proof (cases "segs = []")
    case False
    with Cons s show ?thesis by (simp add: join_Cons)
  qed (use s in simp)
qed simp

lemma dropWhile_hd: "s \<noteq> [] \<Longrightarrow> \<not> P (hd s) \<Longrightarrow> dropWhile P s = s"
  by (cases s) auto

lemma kube_split_slash_path:
  assumes "list_all plain_segment segs" "segs \<noteq> []"
  shows "kube_split_path (slash_path segs) = segs"
proof -
  let ?j = "join ''/'' segs"
  have j: "?j \<noteq> []" "hd ?j \<noteq> CHR ''/''" "last ?j \<noteq> CHR ''/''" using join_plain [OF assms] by auto
  have "dropWhile (\<lambda>x. x = CHR ''/'') (slash_path segs) = ?j"
    using dropWhile_hd [OF j(1), of "\<lambda>x. x = CHR ''/''"] j(2) by (simp add: slash_path_def)
  moreover have "trim_right_char CHR ''/'' ?j = ?j"
    using dropWhile_hd [of "rev ?j" "\<lambda>x. x = CHR ''/''"] j(1,3) by (simp add: trim_right_char_def hd_rev)
  ultimately have "trim_char CHR ''/'' (slash_path segs) = ?j" by (simp add: trim_char_def)
  with j(1) show ?thesis
    using split_on_join [OF assms(2), of "CHR ''/''"] assms(1)
    by (auto simp: kube_split_path_def list_all_iff plain_segment_def)
qed

lemma kube_segments_plain:
  "plain_segment version \<Longrightarrow> plain_segment resource \<Longrightarrow> (\<forall>s \<in> {grp, ns, name, sub}. s = [] \<or> plain_segment s) \<Longrightarrow>
     list_all plain_segment (kube_segments grp version ns resource name sub)"
  by (auto simp: kube_segments_def plain_segment_def)

text \<open>
  The request for an object is classified as that object: group, version, namespace,
  resource, name and subresource are read back from the path the API documents for them, with the
  verb its method stands for.
\<close>

theorem kube_classify_path:
  assumes "plain_segment version" "plain_segment resource" "\<forall>s \<in> {grp, ns, name, sub}. s = [] \<or> plain_segment s"
    and "resource \<notin> {''proxy'', ''watch'', ''namespaces''}" "name = [] \<longrightarrow> sub = []"
    and "ns \<noteq> [] \<longrightarrow> resource \<notin> {''status'', ''finalize''}"
  shows "kube_classify m (slash_path (kube_segments grp version ns resource name sub)) query =
    \<lparr>ri_resource_request = True, ri_verb = ri_verb (apply_verb ((non_resource [] [])\<lparr>ri_name := name\<rparr>) (to_lower m) query),
     ri_api_group = grp, ri_api_version = version, ri_namespace = ns, ri_resource = resource,
     ri_subresource = sub, ri_name = name,
     ri_path = slash_path (kube_segments grp version ns resource name sub)\<rparr>"
proof -
  let ?segs = "kube_segments grp version ns resource name sub"
  have "?segs \<noteq> []" by (simp add: kube_segments_def)
  with kube_segments_plain [OF assms(1-3)] have p: "kube_split_path (slash_path ?segs) = ?segs"
    by (rule kube_split_slash_path)
  note d = kube_segments_def classify_resource_def consume_namespace_def consume_resource_def apply_verb_def
    non_resource_def is_namespace_subresource_def
  show ?thesis
  proof (cases "ns = []")
    case True
    with assms(4,5) show ?thesis unfolding kube_classify_def p
      by (cases "grp = []"; cases "name = []"; cases "sub = []") (simp_all add: d Let_def)
  next
    case False
    with assms(4-6) show ?thesis unfolding kube_classify_def p
      by (cases "grp = []"; cases "name = []"; cases "sub = []") (simp_all add: d Let_def)
  qed
qed


text \<open>The witness: the log of a pod of \<open>default\<close>.\<close>

theorem kube_classify_path_witness:
  "kube_classify ''GET'' (slash_path (kube_segments [] ''v1'' ''default'' ''pods'' ''web'' ''log'')) [] =
    \<lparr>ri_resource_request = True, ri_verb = ''get'', ri_api_group = [], ri_api_version = ''v1'', ri_namespace = ''default'',
     ri_resource = ''pods'', ri_subresource = ''log'', ri_name = ''web'',
     ri_path = ''/api/v1/namespaces/default/pods/web/log''\<rparr>"
proof -
  have p: "slash_path (kube_segments [] ''v1'' ''default'' ''pods'' ''web'' ''log'') = ''/api/v1/namespaces/default/pods/web/log''"
    by code_simp
  have v: "ri_verb (apply_verb ((non_resource [] [])\<lparr>ri_name := ''web''\<rparr>) (to_lower ''GET'') []) = ''get''" by code_simp
  show ?thesis
    using kube_classify_path [of "''v1''" "''pods''" "[]" "''default''" "''web''" "''log''" "''GET''" "[]"]
    unfolding v p by (simp add: plain_segment_def)
qed

subsection \<open>What a read-only role lets through\<close>

definition read_rules :: "policy_rule list \<Rightarrow> bool" where
  "read_rules rules \<longleftrightarrow> list_all (\<lambda>r. set (pr_verbs r) \<subseteq> {''get'', ''list'', ''watch''}) rules"

definition no_wildcard :: "policy_rule list \<Rightarrow> bool" where
  "no_wildcard rules \<longleftrightarrow> list_all (\<lambda>r. ''*'' \<notin> set (pr_resources r)) rules"

lemma match_item_iff: "match_item items want \<longleftrightarrow> ''*'' \<in> set items \<or> want \<in> set items"
  by (auto simp: match_item_def list_ex_iff)

lemma kube_authorize_Inr:
  "kube_authorize ri vp = Inr () \<longleftrightarrow>
     (if ri_resource_request ri then view_allows vp ri else allowed_non_resource (ri_verb ri) (ri_path ri))"
  by (simp add: kube_authorize_def)

text \<open>Whether a request path goes through the deprecated \<open>watch\<close> prefix.\<close>

definition watch_path :: "string \<Rightarrow> bool" where
  "watch_path path \<longleftrightarrow>
     (let parts = kube_split_path path in
      length parts > 2 \<and> parts ! 0 = ''api'' \<and> parts ! 2 = ''watch'' \<or> length parts > 3 \<and> parts ! 3 = ''watch'')"

lemma consume_resource_keeps [simp]:
  "ri_verb (consume_resource ri parts) = ri_verb ri"
  "ri_resource_request (consume_resource ri parts) = ri_resource_request ri"
  by (simp_all add: consume_resource_def Let_def)

lemma consume_namespace_keeps:
  "consume_namespace ri parts = (ri', rest) \<Longrightarrow>
     ri_verb ri' = ri_verb ri \<and> ri_resource_request ri' = ri_resource_request ri"
  by (auto simp: consume_namespace_def split: if_splits)

lemma apply_verb_keeps [simp]: "ri_resource_request (apply_verb ri m query) = ri_resource_request ri"
  by (simp add: apply_verb_def Let_def)

text \<open>How a resource request got its verb: from the path, or from the method.\<close>

lemma classify_resource_cases:
  obtains (special) v where "parts \<noteq> []" "parts ! 0 = v" "v = ''proxy'' \<or> v = ''watch''"
      "ri_verb (classify_resource m path grp version parts query) = v"
    | (plain) ri where "ri_verb ri = []"
      "classify_resource m path grp version parts query = apply_verb ri m query"
proof -
  define special where "special = (parts \<noteq> [] \<and> (parts ! 0 = ''proxy'' \<or> parts ! 0 = ''watch''))"
  define ri where "ri = (non_resource (if special then parts ! 0 else []) path)
     \<lparr>ri_resource_request := True, ri_api_group := grp, ri_api_version := version\<rparr>"
  obtain ri' rest where c: "consume_namespace ri (if special then drop 1 parts else parts) = (ri', rest)"
    by (cases "consume_namespace ri (if special then drop 1 parts else parts)") blast
  have e: "classify_resource m path grp version parts query = apply_verb (consume_resource ri' rest) m query"
    using c unfolding classify_resource_def special_def [symmetric] Let_def ri_def [symmetric] by simp
  have v: "ri_verb (consume_resource ri' rest) = (if special then parts ! 0 else [])"
    using consume_namespace_keeps [OF c] by (simp add: ri_def non_resource_def)
  show thesis
  proof (cases special)
    case True
    then have "ri_verb (consume_resource ri' rest) \<noteq> []" using v by (auto simp: special_def)
    then have "ri_verb (classify_resource m path grp version parts query) = parts ! 0"
      using e v True by (simp add: apply_verb_def)
    with True show thesis by (intro that(1)) (auto simp: special_def)
  next
    case False
    with e v that(2) [of "consume_resource ri' rest"] show thesis by simp
  qed
qed

lemma classify_resource_request [simp]: "ri_resource_request (classify_resource m path grp version parts query)"
proof -
  define special where "special = (parts \<noteq> [] \<and> (parts ! 0 = ''proxy'' \<or> parts ! 0 = ''watch''))"
  define ri where "ri = (non_resource (if special then parts ! 0 else []) path)
     \<lparr>ri_resource_request := True, ri_api_group := grp, ri_api_version := version\<rparr>"
  obtain ri' rest where c: "consume_namespace ri (if special then drop 1 parts else parts) = (ri', rest)"
    by (cases "consume_namespace ri (if special then drop 1 parts else parts)") blast
  then have "classify_resource m path grp version parts query = apply_verb (consume_resource ri' rest) m query"
    unfolding classify_resource_def special_def [symmetric] Let_def ri_def [symmetric] by simp
  with consume_namespace_keeps [OF c] show ?thesis by (simp add: ri_def)
qed

lemma apply_verb_read:
  "ri_verb ri = [] \<Longrightarrow> ri_verb (apply_verb ri m query) \<in> {''get'', ''list'', ''watch''} \<Longrightarrow>
     m \<in> {''get'', ''head'', ''list'', ''watch''}"
  by (auto simp: apply_verb_def verb_of_method_def Let_def split: if_splits)

lemma kube_classify_verb:
  assumes "ri_resource_request (kube_classify m path query)"
    and "ri_verb (kube_classify m path query) \<in> {''get'', ''list'', ''watch''}" and "\<not> watch_path path"
  shows "to_lower m \<in> {''get'', ''head'', ''list'', ''watch''}"
proof -
  let ?parts = "kube_split_path path"
  consider
      (core) "length ?parts > 2" "?parts ! 0 = ''api''"
        "kube_classify m path query = classify_resource (to_lower m) path [] (?parts ! 1) (drop 2 ?parts) query"
    | (named) "length ?parts > 3" "?parts ! 0 = ''apis''"
        "kube_classify m path query = classify_resource (to_lower m) path (?parts ! 1) (?parts ! 2) (drop 3 ?parts) query"
    using assms(1) unfolding kube_classify_def Let_def
    by (auto simp: non_resource_def split: if_splits)
  then show ?thesis
  proof cases
    case core
    then have w: "drop 2 ?parts \<noteq> [] \<Longrightarrow> drop 2 ?parts ! 0 \<noteq> ''watch''"
      using assms(3) by (auto simp: watch_path_def Let_def)
    show ?thesis
    proof (cases "to_lower m" path "[]::string" "?parts ! 1" "drop 2 ?parts" query rule: classify_resource_cases)
      case (special v)
      with w assms(2) core(3) show ?thesis by auto
    next
      case (plain ri)
      with apply_verb_read [OF plain(1)] assms(2) core(3) show ?thesis by simp
    qed
  next
    case named
    then have w: "drop 3 ?parts \<noteq> [] \<Longrightarrow> drop 3 ?parts ! 0 \<noteq> ''watch''"
      using assms(3) by (auto simp: watch_path_def Let_def)
    show ?thesis
    proof (cases "to_lower m" path "?parts ! 1" "?parts ! 2" "drop 3 ?parts" query rule: classify_resource_cases)
      case (special v)
      with w assms(2) named(3) show ?thesis by auto
    next
      case (plain ri)
      with apply_verb_read [OF plain(1)] assms(2) named(3) show ?thesis by simp
    qed
  qed
qed

text \<open>
  C7. Under a role that only reads, no request that writes passes: what the check lets through
  was not sent with POST, PUT, PATCH or DELETE (a path behind the API's \<open>watch\<close> prefix apart,
  which the server serves for GET alone), and it is either one of the discovery paths, or names a
  resource, with its subresource when it has one, that a rule of the role lists for its group.
\<close>

theorem kube_read_only:
  assumes "read_rules rules" "no_wildcard rules"
    and "kube_authorize (kube_classify m path query) (Some rules) = Inr ()"
  shows "(to_lower m \<in> {''get'', ''head'', ''list'', ''watch''} \<or> watch_path path) \<and>
    (let ri = kube_classify m path query in
     if ri_resource_request ri then
       \<exists>r \<in> set rules. rule_target ri \<in> set (pr_resources r) \<and>
         (ri_api_group ri \<in> set (pr_api_groups r) \<or> ''*'' \<in> set (pr_api_groups r)) \<and>
         (pr_resource_names r = [] \<or> ri_name ri \<in> set (pr_resource_names r))
     else allowed_non_resource (to_lower m) path)"
proof (cases "ri_resource_request (kube_classify m path query)")
  case True
  with assms(3) obtain r where r: "r \<in> set rules" "match_item (pr_verbs r) (ri_verb (kube_classify m path query))"
    "match_item (pr_api_groups r) (ri_api_group (kube_classify m path query))"
    "match_item (pr_resources r) (rule_target (kube_classify m path query))"
    "resource_name_matches (pr_resource_names r) (ri_name (kube_classify m path query))"
    by (auto simp: kube_authorize_Inr view_allows_def list_ex_iff)
  from r(1) assms(1,2) have "set (pr_verbs r) \<subseteq> {''get'', ''list'', ''watch''}" "''*'' \<notin> set (pr_resources r)"
    by (auto simp: read_rules_def no_wildcard_def list_all_iff)
  then have v: "ri_verb (kube_classify m path query) \<in> {''get'', ''list'', ''watch''}"
    and t: "rule_target (kube_classify m path query) \<in> set (pr_resources r)"
    using r(2,4) by (auto simp: match_item_iff)
  have "to_lower m \<in> {''get'', ''head'', ''list'', ''watch''} \<or> watch_path path"
    using kube_classify_verb [OF True v] by blast
  moreover have "\<exists>r \<in> set rules. rule_target (kube_classify m path query) \<in> set (pr_resources r) \<and>
      (ri_api_group (kube_classify m path query) \<in> set (pr_api_groups r) \<or> ''*'' \<in> set (pr_api_groups r)) \<and>
      (pr_resource_names r = [] \<or> ri_name (kube_classify m path query) \<in> set (pr_resource_names r))"
    using r t by (intro bexI [of _ r]) (auto simp: match_item_iff resource_name_matches_def split: if_splits)
  ultimately show ?thesis using True unfolding Let_def by simp
next
  case False
  moreover have "kube_classify m path query = non_resource (to_lower m) path"
    using False unfolding kube_classify_def Let_def by (auto split: if_splits)
  ultimately show ?thesis
    using assms(3) by (auto simp: kube_authorize_Inr non_resource_def allowed_non_resource_def split: if_splits)
qed

definition view_rules :: "policy_rule list" where
  "view_rules = [\<lparr>pr_api_groups = [[]], pr_resources = [''pods'', ''pods/log''], pr_resource_names = [],
     pr_verbs = [''get'', ''list'', ''watch'']\<rparr>]"

theorem kube_read_only_witness:
  "kube_authorize (kube_classify ''GET'' ''/api/v1/namespaces/default/pods/web/log'' []) (Some view_rules) = Inr () \<and>
   kube_authorize (kube_classify ''POST'' ''/api/v1/namespaces/default/pods/web/exec'' []) (Some view_rules) \<noteq> Inr () \<and>
   (to_lower ''GET'' \<in> {''get'', ''head'', ''list'', ''watch''} \<or> watch_path ''/api/v1/namespaces/default/pods/web/log'')"
proof -
  have a: "kube_authorize (kube_classify ''GET'' ''/api/v1/namespaces/default/pods/web/log'' []) (Some view_rules) = Inr ()"
    and b: "kube_authorize (kube_classify ''POST'' ''/api/v1/namespaces/default/pods/web/exec'' []) (Some view_rules) \<noteq> Inr ()"
    by code_simp+
  have "read_rules view_rules" "no_wildcard view_rules" by (auto simp: read_rules_def no_wildcard_def view_rules_def)
  from kube_read_only [OF this a] a b show ?thesis by blast
qed

end
