(* ===== verification/Go_Regexp.thy ===== *)
theory Go_Regexp
  imports Go_Strings
begin

text \<open>
  Anchored regular expressions over bytes, as far as the program writes them: character
  classes, sequences and bounded or unbounded repetition. \<open>regexp.MatchString\<close> of a pattern
  anchored at both ends is membership in its language; the matcher here takes derivatives, and
  \<open>rx_match_lang\<close> is its correctness.
\<close>

datatype rx =
    RNone
  | REps
  | RCls "char \<Rightarrow> bool"
  | RSeq rx rx
  | RAlt rx rx
  | RRep rx nat "nat option"  \<comment> \<open>at least, at most\<close>

fun rx_nullable :: "rx \<Rightarrow> bool" where
  "rx_nullable RNone = False"
| "rx_nullable REps = True"
| "rx_nullable (RCls P) = False"
| "rx_nullable (RSeq r s) = (rx_nullable r \<and> rx_nullable s)"
| "rx_nullable (RAlt r s) = (rx_nullable r \<or> rx_nullable s)"
| "rx_nullable (RRep r lo hi) = (lo = 0 \<or> rx_nullable r)"

definition rx_room :: "nat \<Rightarrow> nat option \<Rightarrow> bool" where
  "rx_room lo hi = (case hi of None \<Rightarrow> True | Some h \<Rightarrow> lo \<le> h \<and> h > 0)"

fun rx_deriv :: "char \<Rightarrow> rx \<Rightarrow> rx" where
  "rx_deriv c RNone = RNone"
| "rx_deriv c REps = RNone"
| "rx_deriv c (RCls P) = (if P c then REps else RNone)"
| "rx_deriv c (RSeq r s) =
     (if rx_nullable r then RAlt (RSeq (rx_deriv c r) s) (rx_deriv c s) else RSeq (rx_deriv c r) s)"
| "rx_deriv c (RAlt r s) = RAlt (rx_deriv c r) (rx_deriv c s)"
| "rx_deriv c (RRep r lo hi) =
     (if rx_room lo hi then RSeq (rx_deriv c r) (RRep r (lo - 1) (map_option (\<lambda>h. h - 1) hi)) else RNone)"

fun rx_match :: "rx \<Rightarrow> string \<Rightarrow> bool" where
  "rx_match r [] = rx_nullable r"
| "rx_match r (c # s) = rx_match (rx_deriv c r) s"

subsection \<open>The language\<close>

fun rx_lang :: "rx \<Rightarrow> string set" where
  "rx_lang RNone = {}"
| "rx_lang REps = {[]}"
| "rx_lang (RCls P) = {[c] | c. P c}"
| "rx_lang (RSeq r s) = {u @ v | u v. u \<in> rx_lang r \<and> v \<in> rx_lang s}"
| "rx_lang (RAlt r s) = rx_lang r \<union> rx_lang s"
| "rx_lang (RRep r lo hi) =
     {concat us | us. set us \<subseteq> rx_lang r \<and> lo \<le> length us \<and> (\<forall>h. hi = Some h \<longrightarrow> length us \<le> h)}"

text \<open>A repetition with a lower bound above its upper one is not a pattern; the matcher is not used on one.\<close>

fun rx_wf :: "rx \<Rightarrow> bool" where
  "rx_wf (RSeq r s) = (rx_wf r \<and> rx_wf s)"
| "rx_wf (RAlt r s) = (rx_wf r \<and> rx_wf s)"
| "rx_wf (RRep r lo hi) = (rx_wf r \<and> (\<forall>h. hi = Some h \<longrightarrow> lo \<le> h))"
| "rx_wf _ = True"

lemma rx_wf_deriv: "rx_wf r \<Longrightarrow> rx_wf (rx_deriv c r)"
  by (induction r) (auto simp: rx_room_def)

lemma rx_nullable_lang: "rx_wf r \<Longrightarrow> rx_nullable r \<longleftrightarrow> [] \<in> rx_lang r"
proof (induction r)
  case (RRep r lo hi)
  show ?case
  proof
    assume n: "rx_nullable (RRep r lo hi)"
    show "[] \<in> rx_lang (RRep r lo hi)"
    proof (cases "lo = 0")
      case True
      then show ?thesis by (auto intro!: exI [of _ "[]"])
    next
      case False
      with n RRep show ?thesis by (auto intro!: exI [of _ "replicate lo []"])
    qed
  next
    assume "[] \<in> rx_lang (RRep r lo hi)"
    then obtain us where "concat us = []" "set us \<subseteq> rx_lang r" "lo \<le> length us" by auto
    then show "rx_nullable (RRep r lo hi)" using RRep by (cases us) auto
  qed
qed auto

lemma concat_Cons_split:
  "c # w = concat us \<Longrightarrow> \<exists>es u vs. us = es @ (c # u) # vs \<and> set es \<subseteq> {[]} \<and> w = u @ concat vs"
proof (induction us)
  case (Cons x us)
  show ?case
  proof (cases x)
    case Nil
    with Cons obtain es u vs where "us = es @ (c # u) # vs" "set es \<subseteq> {[]}" "w = u @ concat vs" by auto
    with Nil show ?thesis by (intro exI [of _ "[] # es"]) auto
  next
    case (Cons d x')
    with Cons.prems have "x # us = [] @ (c # x') # us" "w = x' @ concat us" by auto
    then show ?thesis by (metis empty_subsetI list.set(1))
  qed
qed simp

lemma concat_empties: "set es \<subseteq> {[]} \<Longrightarrow> concat es = []"
  by (induction es) auto

lemma rx_deriv_lang: "rx_wf r \<Longrightarrow> w \<in> rx_lang (rx_deriv c r) \<longleftrightarrow> c # w \<in> rx_lang r"
proof (induction r arbitrary: w)
  case (RSeq r s)
  have "c # w \<in> rx_lang (RSeq r s) \<longleftrightarrow>
      (\<exists>u v. w = u @ v \<and> c # u \<in> rx_lang r \<and> v \<in> rx_lang s) \<or> ([] \<in> rx_lang r \<and> c # w \<in> rx_lang s)"
    by (auto simp: Cons_eq_append_conv)
  with RSeq show ?case by (auto simp: rx_nullable_lang)
next
  case (RRep r lo hi)
  have IH: "w \<in> rx_lang (rx_deriv c r) \<longleftrightarrow> c # w \<in> rx_lang r" for w using RRep by simp
  show ?case
  proof
    assume "w \<in> rx_lang (rx_deriv c (RRep r lo hi))"
    then obtain u us where u: "rx_room lo hi" "w = u @ concat us" "c # u \<in> rx_lang r" "set us \<subseteq> rx_lang r"
      "lo - 1 \<le> length us" "\<forall>h. map_option (\<lambda>h. h - 1) hi = Some h \<longrightarrow> length us \<le> h"
      by (auto simp: IH split: if_splits)
    then show "c # w \<in> rx_lang (RRep r lo hi)"
      by (auto simp: rx_room_def intro!: exI [of _ "(c # u) # us"])
  next
    assume "c # w \<in> rx_lang (RRep r lo hi)"
    then obtain us where us: "c # w = concat us" "set us \<subseteq> rx_lang r" "lo \<le> length us"
      "\<forall>h. hi = Some h \<longrightarrow> length us \<le> h" by auto
    from concat_Cons_split [OF us(1)] obtain es u vs
      where s: "us = es @ (c # u) # vs" "set es \<subseteq> {[]}" "w = u @ concat vs" by blast
    have "w = u @ concat (vs @ es)" using s(2,3) by (simp add: concat_empties)
    moreover have "rx_room lo hi" using us(3,4) s(1) by (auto simp: rx_room_def split: option.splits)
    moreover have "set (vs @ es) \<subseteq> rx_lang r" "c # u \<in> rx_lang r" using us(2) s(1) by auto
    moreover have "lo - 1 \<le> length (vs @ es)"
      "\<forall>h. map_option (\<lambda>h. h - 1) hi = Some h \<longrightarrow> length (vs @ es) \<le> h" using us(3,4) s(1) by auto
    ultimately have "concat (vs @ es) \<in> rx_lang (RRep r (lo - 1) (map_option (\<lambda>h. h - 1) hi))"
      and "u \<in> rx_lang (rx_deriv c r)" "rx_room lo hi" "w = u @ concat (vs @ es)"
      using IH unfolding rx_lang.simps by blast+
    then show "w \<in> rx_lang (rx_deriv c (RRep r lo hi))" by auto
  qed
qed auto

theorem rx_match_lang: "rx_wf r \<Longrightarrow> rx_match r s \<longleftrightarrow> s \<in> rx_lang r"
  by (induction s arbitrary: r) (simp_all add: rx_nullable_lang rx_deriv_lang rx_wf_deriv)

text \<open>The bytes a pattern can accept at all.\<close>

fun rx_bytes :: "rx \<Rightarrow> char \<Rightarrow> bool" where
  "rx_bytes (RCls P) c = P c"
| "rx_bytes (RSeq r s) c = (rx_bytes r c \<or> rx_bytes s c)"
| "rx_bytes (RAlt r s) c = (rx_bytes r c \<or> rx_bytes s c)"
| "rx_bytes (RRep r lo hi) c = rx_bytes r c"
| "rx_bytes _ c = False"

lemma rx_lang_bytes: "s \<in> rx_lang r \<Longrightarrow> c \<in> set s \<Longrightarrow> rx_bytes r c"
  by (induction r arbitrary: s) fastforce+

lemma rx_match_bytes: "rx_match r s \<Longrightarrow> rx_wf r \<Longrightarrow> \<forall>c \<in> set s. rx_bytes r c"
  using rx_lang_bytes by (auto simp: rx_match_lang)

text \<open>Membership by cutting the text.\<close>

lemma rx_seqI: "take n w \<in> rx_lang r \<Longrightarrow> drop n w \<in> rx_lang s \<Longrightarrow> w \<in> rx_lang (RSeq r s)"
  by simp (metis append_take_drop_id)

lemma rx_lang_rep_cls:
  "w \<in> rx_lang (RRep (RCls P) lo hi) \<longleftrightarrow> list_all P w \<and> lo \<le> length w \<and> (\<forall>h. hi = Some h \<longrightarrow> length w \<le> h)"
proof
  assume "w \<in> rx_lang (RRep (RCls P) lo hi)"
  then obtain us where us: "w = concat us" "\<forall>u \<in> set us. \<exists>c. u = [c] \<and> P c" "lo \<le> length us"
    "\<forall>h. hi = Some h \<longrightarrow> length us \<le> h" by auto
  have "list_all P (concat us) \<and> length (concat us) = length us" using us(2) by (induction us) auto
  with us show "list_all P w \<and> lo \<le> length w \<and> (\<forall>h. hi = Some h \<longrightarrow> length w \<le> h)" by simp
next
  assume w: "list_all P w \<and> lo \<le> length w \<and> (\<forall>h. hi = Some h \<longrightarrow> length w \<le> h)"
  have "concat (map (\<lambda>c. [c]) w) = w" by (induction w) auto
  with w show "w \<in> rx_lang (RRep (RCls P) lo hi)"
    by (auto simp: list_all_iff intro!: exI [of _ "map (\<lambda>c. [c]) w"])
qed

subsection \<open>Spelling patterns\<close>

definition char_between :: "char \<Rightarrow> char \<Rightarrow> char \<Rightarrow> bool" where
  "char_between a b c \<longleftrightarrow> byte_val a \<le> byte_val c \<and> byte_val c \<le> byte_val b"

fun rx_seq :: "rx list \<Rightarrow> rx" where
  "rx_seq [] = REps"
| "rx_seq [r] = r"
| "rx_seq (r # rs) = RSeq r (rx_seq rs)"

definition rx_lit :: "string \<Rightarrow> rx" where
  "rx_lit s = rx_seq (map (\<lambda>c. RCls ((=) c)) s)"

definition rx_plus :: "rx \<Rightarrow> rx" where
  "rx_plus r = RRep r 1 None"

definition rx_opt :: "rx \<Rightarrow> rx" where
  "rx_opt r = RRep r 0 (Some 1)"

end
