(* ===== verification/Kube_Gate.thy ===== *)
theory Kube_Gate
  imports Kube_Policy Go_Regexp Go_Codec Dial_Guard
begin

text \<open>
  The Kubernetes connectors of package \<open>auth\<close>: the gate they share (\<open>k8sgate.go\<close>) over its
  policy cache (\<open>cert_cache.go\<close>), the identifiers of managed clusters (\<open>k8s_identifiers.go\<close>), the
  self-managed connector with its reading of a kubeconfig (\<open>kubernetes.go\<close>) and the managed ones
  (\<open>eks.go\<close>, \<open>gke.go\<close>, \<open>aks.go\<close>). What the cloud SDKs, \<open>client-go\<close> and the resolver answer
  is passed in; \<open>url.Parse\<close> is a parameter.
\<close>

subsection \<open>cert_cache.go\<close>

type_synonym 'a cache_items = "string \<Rightarrow> 'a option"

text \<open>How the wait for a fetch ends: with its result, with the caller's context, with the ceiling.\<close>

datatype ('e, 'a) fetch_end = Fetched "('e, 'a) result" | CallerDone 'e | CeilingReached 'e

text \<open>Other callers may have stored an entry while this one waited.\<close>

definition sync_get ::
    "'a cache_items \<Rightarrow> string \<Rightarrow> 'e option \<Rightarrow> ('a cache_items \<Rightarrow> 'a cache_items) \<Rightarrow> ('e, 'a) fetch_end \<Rightarrow>
     ('e, 'a) result \<times> 'a cache_items" where
  "sync_get items key cancelled meanwhile fetch =
     (case items key of
        Some data \<Rightarrow> (Inr data, items)
      | None \<Rightarrow>
          (case cancelled of
             Some e \<Rightarrow> (Inl e, items)
           | None \<Rightarrow>
               (let items' = meanwhile items in
                case fetch of
                  CallerDone e \<Rightarrow> (Inl e, items')
                | CeilingReached e \<Rightarrow> (Inl e, items')
                | Fetched (Inl e) \<Rightarrow> (Inl e, items')
                | Fetched (Inr data) \<Rightarrow>
                    (Inr data, if items' key = None then items'(key := Some data) else items'))))"

text \<open>What happens around one lookup of a cache.\<close>

record 'a cache_call =
  cc_cancelled :: "kube_error option"
  cc_meanwhile :: "'a cache_items \<Rightarrow> 'a cache_items"
  cc_fetch :: "(kube_error, 'a) fetch_end"

definition bootstrap_get :: "'a cache_items \<Rightarrow> string \<Rightarrow> 'a cache_call \<Rightarrow> (kube_error, 'a) result \<times> 'a cache_items" where
  "bootstrap_get items key c = sync_get items key (cc_cancelled c) (cc_meanwhile c) (cc_fetch c)"

subsection \<open>k8s_clusterrole.go\<close>

definition default_cluster_role :: string where
  "default_cluster_role = ''view''"

definition cluster_roles_base_path :: string where
  "cluster_roles_base_path = ''/apis/rbac.authorization.k8s.io/v1/clusterroles''"

definition cluster_role_path :: "string \<Rightarrow> string" where
  "cluster_role_path role = cluster_roles_base_path @ ''/'' @ path_escape role"

definition cluster_role_fetch_status_error :: "int \<Rightarrow> kube_error option" where
  "cluster_role_fetch_status_error status =
     (if status = 200 then None
      else if status = 401 then Some KubeClusterAccessDenied
      else if status = 403 then Some KubeClusterAccessDenied
      else Some KubeFetchFailed)"

text \<open>\<open>fetchViewPolicy\<close> on the answer: its status and the body as far as it is read.\<close>

definition fetch_view_policy :: "int \<times> string \<Rightarrow> (kube_error, view_policy) result" where
  "fetch_view_policy resp =
     (case cluster_role_fetch_status_error (fst resp) of
        Some e \<Rightarrow> Inl e
      | None \<Rightarrow> and_then (parse_cluster_role_rules (snd resp)) (\<lambda>rules. Inr (Some rules)))"

subsection \<open>k8sgate.go\<close>

record 'a kube_gate =
  kg_validate :: "'a option \<Rightarrow> (kube_error, unit) result"
  kg_cache_key :: "'a option \<Rightarrow> string"
  kg_expected_port :: string

record 'a gate_call =
  gc_view :: view
  gc_args :: "'a option"
  gc_policy :: "view_policy cache_call"

definition resolve_view_policy ::
    "'a kube_gate \<Rightarrow> 'a gate_call \<Rightarrow> view_policy cache_items \<Rightarrow>
     (kube_error, view_policy) result \<times> view_policy cache_items" where
  "resolve_view_policy g c items =
     bootstrap_get items (kg_cache_key g (gc_args c)) (gc_policy c)"

definition kube_authorize_action ::
    "'a kube_gate \<Rightarrow> 'a gate_call \<Rightarrow> view_policy cache_items \<Rightarrow>
     (kube_error, unit) result \<times> view_policy cache_items" where
  "kube_authorize_action g c items =
     (case kg_validate g (gc_args c) of
        Inl e \<Rightarrow> (Inl e, items)
      | Inr _ \<Rightarrow>
          if authorize_request_port (gc_view c) (kg_expected_port g) \<noteq> Inr () then (Inl KubeHostNotAuthorized, items)
          else (case resolve_view_policy g c items of
              (Inl e, items') \<Rightarrow>
                (Inl (if e = KubeClusterAccessDenied then e else KubeResolveFailed), items')
            | (Inr vp, items') \<Rightarrow>
                (kube_authorize
                   (kube_classify (v_method (gc_view c)) (v_path (gc_view c)) (fst (parse_query (v_raw_query (gc_view c))))) vp,
                 items')))"

text \<open>
  \<open>authorizesHost\<close> and \<open>authorizesAddr\<close>: the arguments parsed, then the connector's own
  steps over its cluster cache \<open>s\<close>.
\<close>

definition kube_authorizes_host ::
    "string \<Rightarrow> (kube_error, 'a option) result \<Rightarrow> ('a option \<Rightarrow> (kube_error, unit) result) \<Rightarrow>
     ('a option \<Rightarrow> 's \<Rightarrow> (kube_error, string) result \<times> 's) \<Rightarrow> 's \<Rightarrow> (kube_error, bool) result \<times> 's" where
  "kube_authorizes_host host parsed validate resolve_host s =
     (case parsed of
        Inl e \<Rightarrow> (Inl e, s)
      | Inr args \<Rightarrow>
          (case validate args of
             Inl e \<Rightarrow> (Inl e, s)
           | Inr _ \<Rightarrow>
               (case resolve_host args s of
                  (Inl e, s') \<Rightarrow> (Inl e, s')
                | (Inr cluster_host, s') \<Rightarrow> (Inr (host = cluster_host), s'))))"

definition kube_authorizes_addr ::
    "ip \<Rightarrow> (kube_error, 'a option) result \<Rightarrow> ('a option \<Rightarrow> (kube_error, unit) result) \<Rightarrow>
     (ip \<Rightarrow> 'a option \<Rightarrow> 's \<Rightarrow> (kube_error, bool) result \<times> 's) \<Rightarrow> 's \<Rightarrow> (kube_error, bool) result \<times> 's" where
  "kube_authorizes_addr a parsed validate dial s =
     (case parsed of
        Inl e \<Rightarrow> (Inl e, s)
      | Inr args \<Rightarrow> (case validate args of Inl e \<Rightarrow> (Inl e, s) | Inr _ \<Rightarrow> dial a args s))"

text \<open>A session's calls, one after another.\<close>

fun gate_run ::
    "'a kube_gate \<Rightarrow> 'a gate_call list \<Rightarrow> view_policy cache_items \<Rightarrow>
     (kube_error, unit) result list \<times> view_policy cache_items" where
  "gate_run g [] items = ([], items)"
| "gate_run g (c # cs) items =
     (case kube_authorize_action g c items of
        (r, items') \<Rightarrow> (case gate_run g cs items' of (rs', items'') \<Rightarrow> (r # rs', items'')))"

subsection \<open>k8s_identifiers.go\<close>

definition az :: "char \<Rightarrow> bool" where "az c \<longleftrightarrow> char_between CHR ''a'' CHR ''z'' c"
definition AZ :: "char \<Rightarrow> bool" where "AZ c \<longleftrightarrow> char_between CHR ''A'' CHR ''Z'' c"
definition d09 :: "char \<Rightarrow> bool" where "d09 c \<longleftrightarrow> char_between CHR ''0'' CHR ''9'' c"

definition gcp_project_id :: rx where
  "gcp_project_id = rx_seq
     [RCls az, RRep (RCls (\<lambda>c. az c \<or> d09 c \<or> c = CHR ''-'')) 4 (Some 28), RCls (\<lambda>c. az c \<or> d09 c)]"

definition gcp_project_number :: rx where
  "gcp_project_number = rx_seq [RCls (\<lambda>c. d09 c \<and> c \<noteq> CHR ''0''), RRep (RCls d09) 0 (Some 19)]"

definition gcp_location :: rx where
  "gcp_location = rx_seq [rx_plus (RCls az), rx_lit ''-'', rx_plus (RCls az), rx_plus (RCls d09),
     rx_opt (rx_seq [rx_lit ''-'', RCls az])]"

definition gke_cluster_name :: rx where
  "gke_cluster_name = rx_seq [RCls az,
     rx_opt (rx_seq [RRep (RCls (\<lambda>c. c = CHR ''-'' \<or> az c \<or> d09 c)) 0 (Some 38), RCls (\<lambda>c. az c \<or> d09 c)])]"

definition eks_cluster_name :: rx where
  "eks_cluster_name = rx_seq [RCls (\<lambda>c. d09 c \<or> AZ c \<or> az c),
     RRep (RCls (\<lambda>c. AZ c \<or> az c \<or> d09 c \<or> c = CHR ''_'' \<or> c = CHR ''-'')) 0 (Some 99)]"

definition aws_china_region :: rx where
  "aws_china_region = rx_seq [rx_lit ''cn-'', rx_plus (RCls az), rx_lit ''-'', rx_plus (RCls d09)]"

definition aws_gov_cloud_region :: rx where
  "aws_gov_cloud_region = rx_seq [rx_lit ''us-gov-'', rx_plus (RCls az), rx_lit ''-'', rx_plus (RCls d09)]"

definition aws_standard_region :: rx where
  "aws_standard_region =
     rx_seq [RRep (RCls az) 2 (Some 2), rx_lit ''-'', rx_plus (RCls az), rx_lit ''-'', rx_plus (RCls d09)]"

definition hex_class :: "char \<Rightarrow> bool" where
  "hex_class c \<longleftrightarrow> d09 c \<or> char_between CHR ''a'' CHR ''f'' c \<or> char_between CHR ''A'' CHR ''F'' c"

definition azure_subscription_id :: rx where
  "azure_subscription_id = rx_seq [RRep (RCls hex_class) 8 (Some 8), rx_lit ''-'',
     RRep (rx_seq [RRep (RCls hex_class) 4 (Some 4), rx_lit ''-'']) 3 (Some 3), RRep (RCls hex_class) 12 (Some 12)]"

definition aks_cluster_name :: rx where
  "aks_cluster_name = rx_seq [RCls (\<lambda>c. AZ c \<or> az c \<or> d09 c),
     rx_opt (rx_seq [RRep (RCls (\<lambda>c. AZ c \<or> az c \<or> d09 c \<or> c = CHR ''_'' \<or> c = CHR ''-'')) 0 (Some 61),
                     RCls (\<lambda>c. AZ c \<or> az c \<or> d09 c)])]"

text \<open>
  The one pattern over runes: \<open>word_rune\<close> is membership of \<open>\p{L}\<close> or \<open>\p{Nd}\<close>, of a rune
  given by its bytes. An invalid byte is the rune U+FFFD, in neither class.
\<close>

function runes :: "string \<Rightarrow> string list" where
  "runes [] = []"
| "runes (c # s) =
     (let n = utf8_len (c # s) in if n = 0 then replacement_char # runes s else take n (c # s) # runes (drop n (c # s)))"
  by pat_completeness auto
termination by (relation "measure length") auto

definition rg_rune :: "(string \<Rightarrow> bool) \<Rightarrow> string \<Rightarrow> bool" where
  "rg_rune word_rune r \<longleftrightarrow> word_rune r \<or> r \<in> {''_'', ''('', '')'', ''-''}"

definition azure_resource_group :: "(string \<Rightarrow> bool) \<Rightarrow> string \<Rightarrow> bool" where
  "azure_resource_group word_rune s =
     (let rr = runes s in
      rr \<noteq> [] \<and> length rr \<le> 90 \<and> list_all (\<lambda>r. rg_rune word_rune r \<or> r = ''.'') (butlast rr) \<and>
      rg_rune word_rune (last rr))"

definition check_identifier :: "string \<Rightarrow> rx list \<Rightarrow> (kube_error, unit) result" where
  "check_identifier s accept = (if list_ex (\<lambda>r. rx_match r s) accept then Inr () else Inl KubeInvalidIdentifier)"

definition aws_partition :: "string \<Rightarrow> string" where
  "aws_partition region =
     (if str_contains region ''fips'' then []
      else if rx_match aws_china_region region then ''aws-cn''
      else if rx_match aws_gov_cloud_region region then ''aws-us-gov''
      else if rx_match aws_standard_region region then ''aws''
      else [])"

definition check_eks_region_partition :: "string \<Rightarrow> string \<Rightarrow> (kube_error, unit) result" where
  "check_eks_region_partition requested configured =
     (if requested = [] then Inr ()
      else let want = (if configured \<noteq> [] then aws_partition configured else ''aws'') in
        if want = [] then Inl KubeInvalidIdentifier
        else if aws_partition requested \<noteq> want then Inl KubeInvalidIdentifier
        else Inr ())"

end
