(* ===== verification/Kube_Config.thy ===== *)
theory Kube_Config
  imports Kube_Gate Connectors
begin

text \<open>
  The self-managed connector of \<open>internal/auth/kubernetes.go\<close>: reading the selected context of a
  kubeconfig, the checks that reject it, the cluster resolved from it, and the methods over that
  cluster. The kubeconfig arrives as \<open>client-go\<close> loads it; \<open>url.Parse\<close>, the file reader and
  the resolver are parameters.
\<close>

subsection \<open>The kubeconfig and the parsed server URL\<close>

text \<open>What the checks read of \<open>*url.URL\<close>: its scheme, whether it has userinfo, its \<open>Host\<close>.\<close>

record server_url =
  su_scheme :: string
  su_user :: bool
  su_host :: string

text \<open>\<open>net/url.splitHostPort\<close>, below \<open>Hostname\<close> and \<open>Port\<close>.\<close>

definition valid_optional_port :: "string \<Rightarrow> bool" where
  "valid_optional_port s \<longleftrightarrow> list_all (\<lambda>c. 48 \<le> byte_val c \<and> byte_val c \<le> 57) s"

definition url_split_host :: "string \<Rightarrow> string \<times> string" where
  "url_split_host hp =
     (let (host, port) = (case last_index_char hp CHR '':'' of
            None \<Rightarrow> (hp, [])
          | Some i \<Rightarrow> if valid_optional_port (drop (i + 1) hp) then (take i hp, drop (i + 1) hp) else (hp, []))
      in (if has_prefix host ''['' \<and> has_suffix host '']'' then butlast (tl host) else host, port))"

definition server_hostname :: "server_url \<Rightarrow> string" where
  "server_hostname u = fst (url_split_host (su_host u))"

definition server_port :: "server_url \<Rightarrow> string" where
  "server_port u = snd (url_split_host (su_host u))"

record kube_cluster =
  kc_server :: string
  kc_tls_server_name :: string
  kc_insecure_skip_tls_verify :: bool
  kc_ca_file :: string
  kc_ca_data :: string
  kc_proxy_url :: string

record kube_auth_info =
  ai_cert_file :: string
  ai_cert_data :: string
  ai_key_file :: string
  ai_key_data :: string
  ai_token :: string
  ai_token_file :: string
  ai_impersonate :: string
  ai_impersonate_uid :: string
  ai_impersonate_groups :: "string list"
  ai_impersonate_extra :: "(string \<times> string list) list"
  ai_username :: string
  ai_password :: string
  ai_auth_provider :: bool
  ai_exec :: bool

record kube_config =
  kcfg_current_context :: string
  kcfg_contexts :: "string \<Rightarrow> (string \<times> string) option"  \<comment> \<open>the cluster and the user it names\<close>
  kcfg_clusters :: "string \<Rightarrow> kube_cluster option"
  kcfg_auth_infos :: "string \<Rightarrow> kube_auth_info option"

datatype kube_config_error =
    NoCurrentContext
  | ContextNotFound
  | ClusterNotFound
  | UserNotFound
  | UnsupportedFeature
  | ServerUnparseable
  | ServerNotHttps
  | ServerNoHost
  | ServerUserinfo
  | ServerHost host_error
  | ServerPort
  | NoUsableCredential
  | ReadFailed

subsection \<open>rejectUnsafe\<close>

definition max_tcp_port :: int where
  "max_tcp_port = 65535"

definition itoa :: "int \<Rightarrow> string" where
  "itoa n = (if n < 0 then CHR ''-'' # show_dec (nat (- n)) else show_dec (nat n))"

definition kube_admit_host :: "string \<Rightarrow> (kube_config_error, unit) result" where
  "kube_admit_host host = map_err ServerHost (admit_host host)"

definition valid_cluster_port :: "string \<Rightarrow> (kube_config_error, unit) result" where
  "valid_cluster_port port =
     (if port = [] then Inr ()
      else (case str_atoi port of
          None \<Rightarrow> Inl ServerPort
        | Some n \<Rightarrow> if n < 1 \<or> n > max_tcp_port \<or> itoa n \<noteq> port then Inl ServerPort else Inr ()))"

definition reject_unsafe ::
    "(string \<Rightarrow> server_url option) \<Rightarrow> kube_cluster \<Rightarrow> kube_auth_info \<Rightarrow> (kube_config_error, server_url) result" where
  "reject_unsafe parse_url cl ai =
     (if ai_exec ai then Inl UnsupportedFeature
      else if ai_auth_provider ai then Inl UnsupportedFeature
      else if ai_impersonate ai \<noteq> [] \<or> ai_impersonate_uid ai \<noteq> [] \<or> length (ai_impersonate_groups ai) > 0 \<or>
              length (ai_impersonate_extra ai) > 0 then Inl UnsupportedFeature
      else if ai_username ai \<noteq> [] \<or> ai_password ai \<noteq> [] then Inl UnsupportedFeature
      else if kc_insecure_skip_tls_verify cl then Inl UnsupportedFeature
      else if kc_proxy_url cl \<noteq> [] then Inl UnsupportedFeature
      else (case parse_url (kc_server cl) of
          None \<Rightarrow> Inl ServerUnparseable
        | Some u \<Rightarrow>
            if su_scheme u \<noteq> ''https'' then Inl ServerNotHttps
            else if server_hostname u = [] then Inl ServerNoHost
            else if su_user u then Inl ServerUserinfo
            else and_then (kube_admit_host (server_hostname u)) (\<lambda>_.
                 and_then (valid_cluster_port (server_port u)) (\<lambda>_. Inr u))))"

subsection \<open>extractSelected\<close>

datatype cred_mode = CredBearer | CredMTLS

definition classify_credential :: "kube_auth_info \<Rightarrow> (kube_config_error, cred_mode) result" where
  "classify_credential ai =
     (let has_cert = (length (ai_cert_data ai) > 0 \<or> ai_cert_file ai \<noteq> []);
          has_key = (length (ai_key_data ai) > 0 \<or> ai_key_file ai \<noteq> []);
          has_token = (ai_token ai \<noteq> [] \<or> ai_token_file ai \<noteq> [])
      in if has_cert \<and> has_key then Inr CredMTLS
         else if has_token then Inr CredBearer
         else Inl NoUsableCredential)"

record selected =
  sel_host :: string
  sel_authority :: string
  sel_port :: string
  sel_server_name :: string
  sel_ca_data :: string
  sel_ca_file :: string
  sel_mode :: cred_mode
  sel_token :: string
  sel_token_file :: string
  sel_cert_data :: string
  sel_cert_file :: string
  sel_key_data :: string
  sel_key_file :: string

definition select_context :: "kube_config \<Rightarrow> (kube_config_error, kube_cluster \<times> kube_auth_info) result" where
  "select_context cfg =
     (let name = kcfg_current_context cfg in
      if name = [] then Inl NoCurrentContext
      else (case kcfg_contexts cfg name of
          None \<Rightarrow> Inl ContextNotFound
        | Some (cluster, user) \<Rightarrow>
            (case kcfg_clusters cfg cluster of
               None \<Rightarrow> Inl ClusterNotFound
             | Some cl \<Rightarrow>
                 (case kcfg_auth_infos cfg user of
                    None \<Rightarrow> Inl UserNotFound
                  | Some ai \<Rightarrow> Inr (cl, ai)))))"

record cluster_target =
  ct_host :: string
  ct_authority :: string
  ct_port :: string

definition cluster_target_of :: "server_url \<Rightarrow> cluster_target" where
  "cluster_target_of u =
     (let lowered = to_lower (su_host u);
          authority = (if server_port u = [] then trim_suffix lowered '':'' else lowered)
      in \<lparr>ct_host = to_lower (server_hostname u), ct_authority = authority, ct_port = server_port u\<rparr>)"

definition extract_selected ::
    "(string \<Rightarrow> server_url option) \<Rightarrow> kube_config \<Rightarrow> (kube_config_error, selected) result" where
  "extract_selected parse_url cfg =
     and_then (select_context cfg) (\<lambda>(cl, ai).
     and_then (reject_unsafe parse_url cl ai) (\<lambda>server.
     and_then (classify_credential ai) (\<lambda>mode.
       let target = cluster_target_of server in
       Inr \<lparr>sel_host = ct_host target, sel_authority = ct_authority target, sel_port = ct_port target,
            sel_server_name = kc_tls_server_name cl, sel_ca_data = kc_ca_data cl, sel_ca_file = kc_ca_file cl,
            sel_mode = mode, sel_token = ai_token ai, sel_token_file = ai_token_file ai,
            sel_cert_data = ai_cert_data ai, sel_cert_file = ai_cert_file ai,
            sel_key_data = ai_key_data ai, sel_key_file = ai_key_file ai\<rparr>)))"

subsection \<open>resolveSelected\<close>

record resolved_cluster =
  rc_host :: string
  rc_authority :: string
  rc_port :: string
  rc_server_name :: string
  rc_ca_data :: string
  rc_mode :: cred_mode
  rc_token :: string
  rc_token_file :: string
  rc_client_cert :: string
  rc_client_key :: string

definition materialize :: "string \<Rightarrow> string \<Rightarrow> (string \<Rightarrow> string option) \<Rightarrow> (kube_config_error, string) result" where
  "materialize inline path read_file =
     (if length inline > 0 then Inr (base64_encode inline)
      else if path = [] then Inr []
      else (case read_file path of None \<Rightarrow> Inl ReadFailed | Some raw \<Rightarrow> Inr (base64_encode raw)))"

definition resolve_selected ::
    "selected \<Rightarrow> (string \<Rightarrow> string option) \<Rightarrow> (kube_config_error, resolved_cluster) result" where
  "resolve_selected sel read_file =
     and_then (materialize (sel_ca_data sel) (sel_ca_file sel) read_file) (\<lambda>ca.
       let rc = \<lparr>rc_host = sel_host sel, rc_authority = sel_authority sel, rc_port = sel_port sel,
                 rc_server_name = sel_server_name sel, rc_ca_data = ca, rc_mode = sel_mode sel,
                 rc_token = [], rc_token_file = [], rc_client_cert = [], rc_client_key = []\<rparr> in
       if sel_mode sel = CredMTLS then
         and_then (materialize (sel_cert_data sel) (sel_cert_file sel) read_file) (\<lambda>cert.
         and_then (materialize (sel_key_data sel) (sel_key_file sel) read_file) (\<lambda>key.
           Inr (rc\<lparr>rc_client_cert := cert, rc_client_key := key\<rparr>)))
       else Inr (rc\<lparr>rc_token := sel_token sel, rc_token_file := sel_token_file sel\<rparr>))"

subsection \<open>k8s_tls.go\<close>

record cluster_conn =
  conn_endpoint :: string
  conn_ca_data :: string
  conn_client_cert :: string
  conn_client_key :: string
  conn_server_name :: string

definition kubernetes_cluster_conn :: "resolved_cluster \<Rightarrow> cluster_conn" where
  "kubernetes_cluster_conn c =
     \<lparr>conn_endpoint = ''https://'' @ rc_authority c, conn_ca_data = rc_ca_data c, conn_client_cert = rc_client_cert c,
      conn_client_key = rc_client_key c, conn_server_name = rc_server_name c\<rparr>"

definition bearer_inject :: "string \<Rightarrow> bool \<Rightarrow> http_request \<Rightarrow> http_request" where
  "bearer_inject bearer conditional r =
     (if conditional \<and> bearer = [] then r
      else r\<lparr>req_header := header_set (req_header r) ''Authorization'' (''Bearer '' @ bearer)\<rparr>)"

subsection \<open>The connector\<close>

definition kubernetes_provider_name :: string where
  "kubernetes_provider_name = ''kubernetes''"

definition kubernetes_gate :: "resolved_cluster \<Rightarrow> unit kube_gate" where
  "kubernetes_gate c =
     \<lparr>kg_validate = (\<lambda>_. Inr ()), kg_cache_key = (\<lambda>_. ''self''), kg_expected_port = defaulted_port (rc_port c)\<rparr>"

definition kubernetes_bearer_token ::
    "resolved_cluster \<Rightarrow> (string \<Rightarrow> string option) \<Rightarrow> (kube_config_error, string) result" where
  "kubernetes_bearer_token c read_file =
     (if rc_mode c \<noteq> CredBearer then Inr []
      else if rc_token_file c = [] then Inr (rc_token c)
      else (case read_file (rc_token_file c) of None \<Rightarrow> Inl ReadFailed | Some raw \<Rightarrow> Inr (trim_space raw)))"

definition kubernetes_inject_auth ::
    "resolved_cluster \<Rightarrow> (string \<Rightarrow> string option) \<Rightarrow> http_request \<Rightarrow> (kube_config_error, http_request) result" where
  "kubernetes_inject_auth c read_file req =
     (if rc_mode c = CredMTLS then Inr req
      else and_then (kubernetes_bearer_token c read_file) (\<lambda>token.
        Inr (req\<lparr>req_header := header_set (req_header req) ''Authorization'' (''Bearer '' @ token)\<rparr>)))"

definition kubernetes_authorizes_host :: "resolved_cluster \<Rightarrow> string \<Rightarrow> bool" where
  "kubernetes_authorizes_host c host = (host = rc_host c)"

definition kubernetes_authorizes_dial_ip ::
    "resolved_cluster \<Rightarrow> (string \<Rightarrow> ip list option) \<Rightarrow> ip \<Rightarrow> (kube_error, bool) result" where
  "kubernetes_authorizes_dial_ip c resolver a =
     (if floor_forbidden a then Inr False
      else (case parse_addr (rc_host c) of
          Some want \<Rightarrow> Inr (unmap a = unmap want)
        | None \<Rightarrow>
            (case resolver (rc_host c) of
               None \<Rightarrow> Inl KubeResolveFailed
             | Some addrs \<Rightarrow> Inr (contains_ip addrs a))))"

subsection \<open>Ports\<close>

lemma show_dec_Cons: "n \<ge> 10 \<Longrightarrow> show_dec n = show_dec (n div 10) @ [char_of (48 + n mod 10)]"
  and show_dec_digit: "n < 10 \<Longrightarrow> show_dec n = [char_of (48 + n)]"
  by (simp_all add: show_dec.simps [of n])

lemma dec_number_append:
  "dec_number acc (s @ t) = (case dec_number acc s of None \<Rightarrow> None | Some m \<Rightarrow> dec_number m t)"
  by (induction s arbitrary: acc) (auto split: option.splits)

lemma dec_val_char_of [simp]: "d < 10 \<Longrightarrow> dec_val (char_of (48 + d)) = Some d"
  by (simp add: dec_val_def)

lemma dec_number_show_dec [simp]: "dec_number 0 (show_dec n) = Some n"
proof (induction n rule: show_dec.induct)
  case (1 n)
  show ?case
  proof (cases "n < 10")
    case False
    with 1 show ?thesis by (simp add: show_dec_Cons dec_number_append)
  qed (simp add: show_dec_digit)
qed

lemma show_dec_nonempty [simp]: "show_dec n \<noteq> []"
  by (cases "n < 10") (simp_all add: show_dec_Cons show_dec_digit)

lemma dec_number_unsigned:
  "dec_number acc s = Some n \<Longrightarrow> s \<noteq> [] \<Longrightarrow> hd s \<noteq> CHR ''-'' \<and> hd s \<noteq> CHR ''+''"
  by (cases s) (auto simp: dec_val_def byte_val_def split: option.splits)

lemma str_atoi_show_dec: "n < 2 ^ 63 \<Longrightarrow> str_atoi (show_dec n) = Some (int n)"
proof -
  assume "n < 2 ^ 63"
  then have "int n < 2 ^ 63" by simp
  then show ?thesis
    using dec_number_unsigned [OF dec_number_show_dec show_dec_nonempty, of n] by (simp add: str_atoi_def Let_def)
qed

text \<open>A port the check lets through has one spelling, the decimal one.\<close>

lemma valid_cluster_port_iff:
  "valid_cluster_port p = Inr () \<longleftrightarrow> p = [] \<or> (\<exists>n. 1 \<le> n \<and> n \<le> 65535 \<and> p = show_dec n)"
proof
  assume ok: "valid_cluster_port p = Inr ()"
  show "p = [] \<or> (\<exists>n. 1 \<le> n \<and> n \<le> 65535 \<and> p = show_dec n)"
  proof (cases "p = []")
    case False
    with ok obtain i where i: "str_atoi p = Some i" by (auto simp: valid_cluster_port_def split: option.splits)
    with ok False have "1 \<le> i" "i \<le> max_tcp_port" "itoa i = p"
      by (simp_all add: valid_cluster_port_def split: if_splits)
    then have "1 \<le> nat i" "nat i \<le> 65535" "p = show_dec (nat i)" by (auto simp: itoa_def max_tcp_port_def)
    then show ?thesis by blast
  qed simp
next
  assume "p = [] \<or> (\<exists>n. 1 \<le> n \<and> n \<le> 65535 \<and> p = show_dec n)"
  then show "valid_cluster_port p = Inr ()"
    by (auto simp: valid_cluster_port_def str_atoi_show_dec itoa_def max_tcp_port_def)
qed

subsection \<open>The three spellings of a server\<close>

text \<open>
  The shape \<open>url.Parse\<close> gives a host: a name without a colon or an IPv6 literal in brackets,
  and after it at most one colon with digits.
\<close>

definition strip_brackets :: "string \<Rightarrow> string" where
  "strip_brackets n = (if has_prefix n ''['' \<and> has_suffix n '']'' then butlast (tl n) else n)"

definition host_name_shape :: "string \<Rightarrow> bool" where
  "host_name_shape n \<longleftrightarrow> CHR '':'' \<notin> set n \<or> has_prefix n ''['' \<and> has_suffix n '']''"

definition host_shape :: "string \<Rightarrow> bool" where
  "host_shape h \<longleftrightarrow>
     (\<exists>n p. host_name_shape n \<and> (h = n \<or> h = n @ CHR '':'' # p \<and> valid_optional_port p))"

lemma valid_port_no_colon: "valid_optional_port p \<Longrightarrow> CHR '':'' \<notin> set p"
  by (auto simp: valid_optional_port_def list_all_iff byte_val_def)

lemma url_split_with_port: "valid_optional_port p \<Longrightarrow> url_split_host (n @ CHR '':'' # p) = (strip_brackets n, p)"
  using last_index_char_append [OF valid_port_no_colon, of p n] by (simp add: url_split_host_def strip_brackets_def)

lemma url_split_name:
  assumes "host_name_shape n"
  shows "url_split_host n = (strip_brackets n, [])"
proof (cases "last_index_char n CHR '':''")
  case (Some i)
  then have i: "i < length n" "n ! i = CHR '':''" "CHR '':'' \<in> set n"
    using last_index_char_Some [OF Some] by (auto dest: nth_mem)
  with assms obtain m where m: "n = m @ '']''" by (auto simp: host_name_shape_def has_suffix_iff)
  with i have "i < length m" by (auto simp: nth_append split: if_splits)
  then have "CHR '']'' \<in> set (drop (i + 1) n)" using m by simp
  then have "\<not> valid_optional_port (drop (i + 1) n)"
    by (auto simp: valid_optional_port_def list_all_iff byte_val_def intro!: bexI [of _ "CHR '']''"])
  with Some show ?thesis by (simp add: url_split_host_def strip_brackets_def)
next
  case None
  show ?thesis unfolding url_split_host_def strip_brackets_def None by simp
qed

lemma host_shape_cases:
  assumes "host_shape h"
  obtains (name) "host_name_shape h" "url_split_host h = (strip_brackets h, [])"
    | (port) n p where "host_name_shape n" "h = n @ CHR '':'' # p" "valid_optional_port p"
        "url_split_host h = (strip_brackets n, p)"
  using assms url_split_name url_split_with_port unfolding host_shape_def by blast

text \<open>Lower-casing keeps the shape.\<close>

lemma ascii_lower_brackets [simp]:
  "ascii_lower c = CHR ''['' \<longleftrightarrow> c = CHR ''[''" "ascii_lower c = CHR '']'' \<longleftrightarrow> c = CHR '']''"
  by (rule ascii_lower_eq_other; simp add: byte_val_def)+

lemma has_prefix_char: "has_prefix s [c] \<longleftrightarrow> s \<noteq> [] \<and> hd s = c"
  by (cases s) (auto simp: has_prefix_def)

lemma has_suffix_char: "has_suffix s [c] \<longleftrightarrow> s \<noteq> [] \<and> last s = c"
  by (cases s rule: rev_cases) (auto simp: has_suffix_iff)

lemma strip_brackets_lower: "strip_brackets (map ascii_lower n) = map ascii_lower (strip_brackets n)"
  by (auto simp: strip_brackets_def has_prefix_char has_suffix_char hd_map last_map map_butlast map_tl)

lemma host_name_shape_lower: "host_name_shape (map ascii_lower n) \<longleftrightarrow> host_name_shape n"
proof -
  have "CHR '':'' \<in> set (map ascii_lower n) \<longleftrightarrow> CHR '':'' \<in> set n"
    by (induction n) (auto simp: eq_commute [of "CHR '':''"])
  then show ?thesis by (auto simp: host_name_shape_def has_prefix_char has_suffix_char hd_map last_map)
qed

lemma lower_port: "valid_optional_port p \<Longrightarrow> map ascii_lower p = p"
  by (rule map_idI) (auto simp: valid_optional_port_def list_all_iff ascii_lower_def)

lemma is_ascii_append [simp]: "is_ascii (s @ t) \<longleftrightarrow> is_ascii s \<and> is_ascii t"
  by (auto simp: is_ascii_def)

lemma port_ascii: "valid_optional_port p \<Longrightarrow> is_ascii p"
  by (auto simp: valid_optional_port_def list_all_iff is_ascii_def)

lemma not_high_ascii: "\<not> has_high_byte s \<longleftrightarrow> is_ascii s"
  by (induction s) auto

lemma strip_brackets_ascii: "is_ascii (strip_brackets n) \<longleftrightarrow> is_ascii n"
proof (cases "has_prefix n ''['' \<and> has_suffix n '']''")
  case True
  then obtain m where "n = CHR ''['' # m" "n \<noteq> []" "last n = CHR '']''"
    by (cases n) (auto simp: has_prefix_char has_suffix_char)
  then obtain k where "n = CHR ''['' # k @ '']'' \<or> n = ''[''"
    by (cases m rule: rev_cases) auto
  then show ?thesis using True by (auto simp: strip_brackets_def byte_val_def has_suffix_char)
qed (auto simp: strip_brackets_def)

lemma cluster_target_spellings:
  assumes "host_shape (su_host u)" "is_ascii (server_hostname u)"
  shows "url_split_host (ct_authority (cluster_target_of u)) =
    (ct_host (cluster_target_of u), ct_port (cluster_target_of u))"
  using assms(1)
proof (cases rule: host_shape_cases)
  case name
  then have a: "is_ascii (su_host u)" "server_hostname u = strip_brackets (su_host u)" "server_port u = []"
    using assms(2) by (auto simp: server_hostname_def server_port_def strip_brackets_ascii)
  have "\<not> has_suffix (map ascii_lower (su_host u)) '':''"
    using name(1) by (auto simp: host_name_shape_def has_suffix_char last_map) (metis last_in_set)
  then have t: "trim_suffix (map ascii_lower (su_host u)) '':'' = map ascii_lower (su_host u)"
    by (simp add: trim_suffix_def cut_suffix_def)
  show ?thesis
    using a url_split_name [of "map ascii_lower (su_host u)"] name(1)
    by (simp add: cluster_target_of_def t to_lower_ascii strip_brackets_ascii strip_brackets_lower host_name_shape_lower)
next
  case (port n p)
  then have a: "is_ascii n" "is_ascii (su_host u)" "server_hostname u = strip_brackets n" "server_port u = p"
    using assms(2) port_ascii [of p] by (auto simp: server_hostname_def server_port_def strip_brackets_ascii byte_val_def)
  have l: "to_lower (su_host u) = map ascii_lower n @ CHR '':'' # p"
    using a(2) port(2,3) lower_port [of p] by (simp add: to_lower_ascii ascii_lower_def byte_val_def)
  show ?thesis
  proof (cases "p = []")
    case True
    then show ?thesis
      using a l url_split_name [of "map ascii_lower n"] port(1)
      by (simp add: cluster_target_of_def to_lower_ascii strip_brackets_ascii strip_brackets_lower host_name_shape_lower)
  next
    case False
    then show ?thesis
      using a l url_split_with_port [OF port(3), of "map ascii_lower n"]
      by (simp add: cluster_target_of_def to_lower_ascii strip_brackets_ascii strip_brackets_lower)
  qed
qed

subsection \<open>What the selected cluster is\<close>

lemma reject_unsafe_Inr:
  "reject_unsafe parse_url cl ai = Inr u \<Longrightarrow>
     parse_url (kc_server cl) = Some u \<and> su_scheme u = ''https'' \<and> server_hostname u \<noteq> [] \<and> \<not> su_user u \<and>
     admit_host (server_hostname u) = Inr () \<and> valid_cluster_port (server_port u) = Inr () \<and>
     \<not> ai_exec ai \<and> \<not> ai_auth_provider ai \<and> \<not> kc_insecure_skip_tls_verify cl \<and> kc_proxy_url cl = []"
  by (auto simp: reject_unsafe_def kube_admit_host_def result_elim split: if_splits option.splits)

lemma admit_host_ascii: "admit_host h = Inr () \<Longrightarrow> is_ascii h"
  by (auto simp: admit_host_def not_high_ascii split: if_splits)

lemma extract_selected_Inr:
  assumes "extract_selected parse_url cfg = Inr sel"
  obtains cl ai u where "select_context cfg = Inr (cl, ai)" "reject_unsafe parse_url cl ai = Inr u"
    "sel_host sel = ct_host (cluster_target_of u)" "sel_authority sel = ct_authority (cluster_target_of u)"
    "sel_port sel = ct_port (cluster_target_of u)" "classify_credential ai = Inr (sel_mode sel)"
  using assms that by (auto simp: extract_selected_def result_elim Let_def)

text \<open>
  The three spellings of a selected cluster agree: the authority shown to the model and
  dialed for the bootstrap reads back as the very host the gate pins and the very port it
  compares, and that port has one spelling, the decimal number between 1 and 65535.
\<close>

theorem selected_spellings_agree:
  assumes "extract_selected parse_url cfg = Inr sel"
    and "\<forall>s u. parse_url s = Some u \<longrightarrow> host_shape (su_host u)"
  shows "url_split_host (sel_authority sel) = (sel_host sel, sel_port sel) \<and>
    (sel_port sel = [] \<or> (\<exists>n. 1 \<le> n \<and> n \<le> 65535 \<and> sel_port sel = show_dec n))"
proof -
  obtain cl ai u where u: "reject_unsafe parse_url cl ai = Inr u"
    "sel_host sel = ct_host (cluster_target_of u)" "sel_authority sel = ct_authority (cluster_target_of u)"
    "sel_port sel = ct_port (cluster_target_of u)"
    using extract_selected_Inr [OF assms(1)] by metis
  note r = reject_unsafe_Inr [OF u(1)]
  with assms(2) have "host_shape (su_host u)" by blast
  then have "url_split_host (sel_authority sel) = (sel_host sel, sel_port sel)"
    using cluster_target_spellings admit_host_ascii r u(2-4) by metis
  moreover have "sel_port sel = server_port u" using u(4) by (simp add: cluster_target_of_def Let_def)
  then have "valid_cluster_port (sel_port sel) = Inr ()" using r by simp
  ultimately show ?thesis unfolding valid_cluster_port_iff by blast
qed

definition example_kube_config :: kube_config where
  "example_kube_config =
     \<lparr>kcfg_current_context = ''dev'',
      kcfg_contexts = (\<lambda>n. if n = ''dev'' then Some (''c'', ''u'') else None),
      kcfg_clusters = (\<lambda>n. if n = ''c'' then Some
        \<lparr>kc_server = ''https://KUBE.example:6443'', kc_tls_server_name = [], kc_insecure_skip_tls_verify = False,
         kc_ca_file = [], kc_ca_data = ''ca'', kc_proxy_url = []\<rparr> else None),
      kcfg_auth_infos = (\<lambda>n. if n = ''u'' then Some
        \<lparr>ai_cert_file = [], ai_cert_data = [], ai_key_file = [], ai_key_data = [], ai_token = ''t'', ai_token_file = [],
         ai_impersonate = [], ai_impersonate_uid = [], ai_impersonate_groups = [], ai_impersonate_extra = [],
         ai_username = [], ai_password = [], ai_auth_provider = False, ai_exec = False\<rparr> else None)\<rparr>"

definition example_parse_url :: "string \<Rightarrow> server_url option" where
  "example_parse_url s =
     (if s = ''https://KUBE.example:6443'' then
        Some \<lparr>su_scheme = ''https'', su_user = False, su_host = ''KUBE.example:6443''\<rparr>
      else None)"

lemma example_selected:
  "\<exists>sel. extract_selected example_parse_url example_kube_config = Inr sel \<and> sel_host sel = ''kube.example'' \<and>
     sel_port sel = ''6443'' \<and> sel_mode sel = CredBearer \<and> sel_ca_data sel = ''ca'' \<and> sel_token sel = ''t''"
proof -
  have "''6443'' = show_dec 6443" by (simp add: show_dec.simps char_of_def bit_simps)
  then have p: "valid_cluster_port ''6443'' = Inr ()"
    unfolding valid_cluster_port_iff by (intro disjI2 exI [of _ 6443]) simp
  have h: "url_split_host ''KUBE.example:6443'' = (''KUBE.example'', ''6443'')"
    "admit_host ''KUBE.example'' = Inr ()" "to_lower ''KUBE.example'' = ''kube.example''"
    by code_simp+
  show ?thesis
    by (simp add: extract_selected_def select_context_def example_kube_config_def reject_unsafe_def example_parse_url_def
      server_hostname_def server_port_def h kube_admit_host_def p classify_credential_def cluster_target_of_def Let_def
      del: to_lower.simps)
qed

text \<open>The witness: a server on 6443.\<close>

theorem selected_spellings_agree_witness:
  "\<exists>sel. extract_selected example_parse_url example_kube_config = Inr sel \<and> sel_host sel = ''kube.example'' \<and>
     sel_port sel = ''6443'' \<and> url_split_host (sel_authority sel) = (''kube.example'', ''6443'')"
proof -
  obtain sel where e: "extract_selected example_parse_url example_kube_config = Inr sel"
    "sel_host sel = ''kube.example''" "sel_port sel = ''6443''" using example_selected by blast
  have "host_shape ''KUBE.example:6443''"
    unfolding host_shape_def
    by (rule exI [of _ "''KUBE.example''"], rule exI [of _ "''6443''"])
      (simp add: host_name_shape_def valid_optional_port_def byte_val_def)
  then have "\<forall>s u. example_parse_url s = Some u \<longrightarrow> host_shape (su_host u)"
    by (auto simp: example_parse_url_def split: if_splits)
  with e selected_spellings_agree [OF e(1)] show ?thesis by auto
qed

subsection \<open>Dialing and injection\<close>

lemma kubernetes_dial_Inr:
  "kubernetes_authorizes_dial_ip c resolver a = Inr True \<longleftrightarrow>
     \<not> floor_forbidden a \<and>
     (case parse_addr (rc_host c) of
        Some want \<Rightarrow> unmap a = unmap want
      | None \<Rightarrow> (\<exists>addrs. resolver (rc_host c) = Some addrs \<and> contains_ip addrs a))"
  by (auto simp: kubernetes_authorizes_dial_ip_def split: option.splits)

interpretation kubernetes_dial: dial_policy "kubernetes_authorizes_dial_ip c resolver" for c resolver
  by unfold_locales (simp add: kubernetes_dial_Inr)

text \<open>The token the connector presents; an mTLS cluster presents none.\<close>

definition kubernetes_token :: "resolved_cluster \<Rightarrow> (string \<Rightarrow> string option) \<Rightarrow> string" where
  "kubernetes_token c read_file = (case kubernetes_bearer_token c read_file of Inr t \<Rightarrow> t | Inl _ \<Rightarrow> [])"

lemma kubernetes_inject_bearer:
  "rc_mode c = CredBearer \<Longrightarrow> kubernetes_inject_auth c read_file req = Inr req' \<Longrightarrow>
     req' = req\<lparr>req_header := header_set (req_header req) ''Authorization'' (''Bearer '' @ kubernetes_token c read_file)\<rparr>"
  by (auto simp: kubernetes_inject_auth_def kubernetes_token_def result_elim)

definition with_bearer :: "resolved_cluster \<Rightarrow> resolved_cluster" where
  "with_bearer c = c\<lparr>rc_mode := CredBearer\<rparr>"

interpretation kubernetes_bearer:
  bearer_injector "kubernetes_inject_auth (with_bearer c) read_file" "kubernetes_token (with_bearer c) read_file"
  for c read_file
  by (rule set_bearer_injector) (rule kubernetes_inject_bearer; simp add: with_bearer_def)

subsection \<open>What a resolved cluster carries\<close>

text \<open>
  The well-formed clusters: a nonempty host in lower case, a port that is empty or one decimal
  number of a TCP port, and exactly one kind of credential, the kind the mode names.
\<close>

definition typed_cluster :: "resolved_cluster \<Rightarrow> bool" where
  "typed_cluster c \<longleftrightarrow>
     rc_host c \<noteq> [] \<and> to_lower (rc_host c) = rc_host c \<and> valid_cluster_port (rc_port c) = Inr () \<and>
     (case rc_mode c of
        CredMTLS \<Rightarrow> rc_token c = [] \<and> rc_token_file c = []
      | CredBearer \<Rightarrow> (rc_token c \<noteq> [] \<or> rc_token_file c \<noteq> []) \<and> rc_client_cert c = [] \<and> rc_client_key c = [])"

lemma extract_selected_credential:
  assumes "extract_selected parse_url cfg = Inr sel"
  shows "case sel_mode sel of
      CredMTLS \<Rightarrow> (sel_cert_data sel \<noteq> [] \<or> sel_cert_file sel \<noteq> []) \<and> (sel_key_data sel \<noteq> [] \<or> sel_key_file sel \<noteq> [])
    | CredBearer \<Rightarrow> sel_token sel \<noteq> [] \<or> sel_token_file sel \<noteq> []"
  using assms
  by (auto simp: extract_selected_def result_elim Let_def classify_credential_def split: cred_mode.splits if_splits)

lemma resolve_selected_Inr:
  assumes "resolve_selected sel read_file = Inr c"
  shows "rc_host c = sel_host sel \<and> rc_port c = sel_port sel \<and> rc_mode c = sel_mode sel \<and>
    (case sel_mode sel of
       CredMTLS \<Rightarrow> rc_token c = [] \<and> rc_token_file c = []
     | CredBearer \<Rightarrow> rc_token c = sel_token sel \<and> rc_token_file c = sel_token_file sel \<and>
         rc_client_cert c = [] \<and> rc_client_key c = [])"
  using assms by (cases "sel_mode sel") (auto simp: resolve_selected_def result_elim Let_def)

lemma selected_target_wf:
  assumes "extract_selected parse_url cfg = Inr sel"
  shows "sel_host sel \<noteq> [] \<and> to_lower (sel_host sel) = sel_host sel \<and> valid_cluster_port (sel_port sel) = Inr ()"
proof -
  obtain cl ai u where u: "reject_unsafe parse_url cl ai = Inr u"
    "sel_host sel = ct_host (cluster_target_of u)" "sel_port sel = ct_port (cluster_target_of u)"
    using extract_selected_Inr [OF assms] by metis
  note r = reject_unsafe_Inr [OF u(1)]
  then have "is_ascii (server_hostname u)" using admit_host_ascii by blast
  with r u(2,3) show ?thesis
    using to_lower_idem_ascii [of "server_hostname u"] by (auto simp: cluster_target_of_def Let_def to_lower_ascii)
qed



end
