(* ===== verification/Kube_Clusters.thy ===== *)
theory Kube_Clusters
  imports Kube_Config
begin

text \<open>
  The managed clusters: \<open>eks.go\<close>, \<open>gke.go\<close> and \<open>aks.go\<close> of \<open>internal/auth\<close>, with
  \<open>host.go\<close> and \<open>region.go\<close>. A connector's state is its cluster cache, passed along; what the
  cloud SDKs answer (the described cluster, the presigned URL, the tokens) and what
  \<open>client-go\<close> reads from a kubeconfig is passed in. The locale \<open>kube_keys\<close> is what the gate's
  policy cache relies on a connector for: equal keys name the same cluster.
\<close>

subsection \<open>host.go and region.go\<close>

record cluster_tls =
  tls_host :: string
  tls_ca_data :: string

definition host_from_endpoint :: "(string \<Rightarrow> server_url option) \<Rightarrow> string \<Rightarrow> string" where
  "host_from_endpoint parse_url endpoint0 =
     (let endpoint1 = trim_space endpoint0;
          endpoint = (if \<not> str_contains endpoint1 ''://'' then ''https://'' @ endpoint1 else endpoint1)
      in (case parse_url endpoint of None \<Rightarrow> [] | Some u \<Rightarrow> to_lower (server_hostname u)))"

definition default_region :: string where
  "default_region = ''us-east-1''"

fun resolve_region :: "string list \<Rightarrow> string" where
  "resolve_region [] = default_region"
| "resolve_region (v # vs) = (if v \<noteq> [] then v else resolve_region vs)"

text \<open>Parsing the arguments of a connector: \<open>authreq.Parse\<close> with its struct's decoder.\<close>

definition kube_parse :: "(string \<Rightarrow> json \<Rightarrow> 'a \<Rightarrow> 'a option) \<Rightarrow> 'a \<Rightarrow> provider_args \<Rightarrow> (kube_error, 'a option) result" where
  "kube_parse member zero pa =
     map_err (\<lambda>_. KubeBadArguments)
       (parse_args (\<lambda>b. Option.bind (map_option fst (parse_doc b)) (\<lambda>j. decode_struct member j zero)) pa)"

text \<open>\<open>errors.Join\<close>: no error when none of them is one.\<close>

fun errors_join :: "(kube_error, unit) result list \<Rightarrow> (kube_error, unit) result" where
  "errors_join [] = Inr ()"
| "errors_join (r # rs) = (case r of Inl e \<Rightarrow> Inl e | Inr _ \<Rightarrow> errors_join rs)"

subsection \<open>eks.go\<close>

definition eks_provider_name :: string where
  "eks_provider_name = ''eks''"

record eks_args =
  eks_cluster_name_arg :: string
  eks_region :: string

definition decode_eks_member :: "string \<Rightarrow> json \<Rightarrow> eks_args \<Rightarrow> eks_args option" where
  "decode_eks_member k v a =
     (if equal_fold k ''cluster_name'' then
        map_option (\<lambda>x. a\<lparr>eks_cluster_name_arg := x\<rparr>) (decode_text v (eks_cluster_name_arg a))
      else if equal_fold k ''region'' then map_option (\<lambda>x. a\<lparr>eks_region := x\<rparr>) (decode_text v (eks_region a))
      else Some a)"

definition eks_parse :: "provider_args \<Rightarrow> (kube_error, eks_args option) result" where
  "eks_parse = kube_parse decode_eks_member \<lparr>eks_cluster_name_arg = [], eks_region = []\<rparr>"

definition eks_validate :: "eks_args option \<Rightarrow> (kube_error, unit) result" where
  "eks_validate args =
     (case args of
        None \<Rightarrow> Inl KubeArgsMissing
      | Some a \<Rightarrow>
          if eks_cluster_name_arg a = [] then Inl KubeArgsMissing
          else if eks_region a \<noteq> [] \<and> aws_partition (eks_region a) = [] then Inl KubeInvalidIdentifier
          else check_identifier (eks_cluster_name_arg a) [eks_cluster_name])"

text \<open>The provider is known by the region its AWS configuration names.\<close>

definition eks_validate_args :: "string \<Rightarrow> eks_args option \<Rightarrow> (kube_error, unit) result" where
  "eks_validate_args cfg_region args =
     (case eks_validate args of
        Inl e \<Rightarrow> Inl e
      | Inr _ \<Rightarrow> check_eks_region_partition (eks_region (the args)) cfg_region)"

definition eks_cache_key :: "string \<Rightarrow> eks_args option \<Rightarrow> string" where
  "eks_cache_key cfg_region args =
     resolve_region [eks_region (the args), cfg_region] @ ''/'' @ eks_cluster_name_arg (the args)"

definition eks_gate :: "string \<Rightarrow> eks_args kube_gate" where
  "eks_gate cfg_region =
     \<lparr>kg_validate = eks_validate_args cfg_region, kg_cache_key = eks_cache_key cfg_region,
      kg_expected_port = https_port\<rparr>"

definition eks_bearer_token :: "string \<Rightarrow> string" where
  "eks_bearer_token presign_url = ''k8s-aws-v1.'' @ base64_raw_url presign_url"

definition eks_cluster_conn :: "string \<Rightarrow> string \<Rightarrow> cluster_conn" where
  "eks_cluster_conn host ca_data =
     \<lparr>conn_endpoint = ''https://'' @ host, conn_ca_data = ca_data, conn_client_cert = [], conn_client_key = [],
      conn_server_name = []\<rparr>"

text \<open>\<open>presign\<close> signs for a region and a cluster name.\<close>

definition eks_inject_auth ::
    "string \<Rightarrow> (kube_error, unit) result \<Rightarrow> (string \<Rightarrow> string \<Rightarrow> (kube_error, string) result) \<Rightarrow>
     (kube_error, eks_args option) result \<Rightarrow> http_request \<Rightarrow> (kube_error, http_request) result" where
  "eks_inject_auth cfg_region credentials presign parsed req =
     and_then parsed (\<lambda>args.
     and_then (eks_validate_args cfg_region args) (\<lambda>_.
       let region = resolve_region [eks_region (the args), cfg_region] in
       and_then (map_err (\<lambda>_. KubeCredentialFailed) credentials) (\<lambda>_.
       and_then (map_err (\<lambda>_. KubeCredentialFailed) (presign region (eks_cluster_name_arg (the args)))) (\<lambda>url.
         Inr (req\<lparr>req_header :=
           header_set (req_header req) ''Authorization'' (''Bearer '' @ eks_bearer_token url)\<rparr>)))))"

definition eks_resolve_cluster ::
    "string \<Rightarrow> cluster_tls cache_call \<Rightarrow> eks_args option \<Rightarrow> cluster_tls cache_items \<Rightarrow>
     (kube_error, cluster_tls) result \<times> cluster_tls cache_items" where
  "eks_resolve_cluster cfg_region call args s = bootstrap_get s (eks_cache_key cfg_region args) call"

text \<open>What \<open>DescribeCluster\<close> answers: no cluster, or its CA data and its endpoint.\<close>

record described_cluster =
  dc_ca_data :: "string option"
  dc_endpoint :: "string option"

definition default_eks_describe_cluster ::
    "(string \<Rightarrow> server_url option) \<Rightarrow> (kube_error, described_cluster option) result \<Rightarrow> (kube_error, cluster_tls) result" where
  "default_eks_describe_cluster parse_url answer =
     and_then (map_err (\<lambda>_. KubeFetchFailed) answer) (\<lambda>out.
       case out of
         None \<Rightarrow> Inl KubeFetchFailed
       | Some c \<Rightarrow>
           (case dc_ca_data c of
              None \<Rightarrow> Inl KubeFetchFailed
            | Some ca \<Rightarrow>
                if dc_endpoint c = None \<or> dc_endpoint c = Some [] then Inl KubeFetchFailed
                else Inr \<lparr>tls_host = host_from_endpoint parse_url (the (dc_endpoint c)), tls_ca_data = ca\<rparr>))"

definition eks_ca_cert_data ::
    "string \<Rightarrow> cluster_tls cache_call \<Rightarrow> (kube_error, eks_args option) result \<Rightarrow> cluster_tls cache_items \<Rightarrow>
     (kube_error, string) result \<times> cluster_tls cache_items" where
  "eks_ca_cert_data cfg_region call parsed s =
     (case parsed of
        Inl e \<Rightarrow> (Inl e, s)
      | Inr args \<Rightarrow>
          if eks_validate_args cfg_region args \<noteq> Inr () then (Inr [], s)
          else (case eks_resolve_cluster cfg_region call args s of
              (Inl e, s') \<Rightarrow> (Inl e, s')
            | (Inr ct, s') \<Rightarrow> (Inr (tls_ca_data ct), s')))"

definition eks_resolve_host ::
    "string \<Rightarrow> cluster_tls cache_call \<Rightarrow> eks_args option \<Rightarrow> cluster_tls cache_items \<Rightarrow>
     (kube_error, string) result \<times> cluster_tls cache_items" where
  "eks_resolve_host cfg_region call args s =
     (case eks_resolve_cluster cfg_region call args s of
        (Inl e, s') \<Rightarrow> (Inl e, s')
      | (Inr ct, s') \<Rightarrow> (Inr (tls_host ct), s'))"

definition eks_authorizes_host ::
    "string \<Rightarrow> cluster_tls cache_call \<Rightarrow> string \<Rightarrow> (kube_error, eks_args option) result \<Rightarrow> cluster_tls cache_items \<Rightarrow>
     (kube_error, bool) result \<times> cluster_tls cache_items" where
  "eks_authorizes_host cfg_region call host parsed s =
     kube_authorizes_host host parsed (eks_validate_args cfg_region) (eks_resolve_host cfg_region call) s"

definition eks_authorizes_dial_ip ::
    "string \<Rightarrow> cluster_tls cache_call \<Rightarrow> (string \<Rightarrow> ip list option) \<Rightarrow> ip \<Rightarrow> eks_args option \<Rightarrow> cluster_tls cache_items \<Rightarrow>
     (kube_error, bool) result \<times> cluster_tls cache_items" where
  "eks_authorizes_dial_ip cfg_region call resolver a args s =
     (if floor_forbidden a then (Inr False, s)
      else (case eks_resolve_cluster cfg_region call args s of
          (Inl e, s') \<Rightarrow> (Inl e, s')
        | (Inr ct, s') \<Rightarrow>
            (case resolver (tls_host ct) of
               None \<Rightarrow> (Inl KubeResolveFailed, s')
             | Some addrs \<Rightarrow> (Inr (contains_ip addrs a), s'))))"

definition eks_authorizes_addr ::
    "string \<Rightarrow> cluster_tls cache_call \<Rightarrow> (string \<Rightarrow> ip list option) \<Rightarrow> ip \<Rightarrow> (kube_error, eks_args option) result \<Rightarrow>
     cluster_tls cache_items \<Rightarrow> (kube_error, bool) result \<times> cluster_tls cache_items" where
  "eks_authorizes_addr cfg_region call resolver a parsed s =
     kube_authorizes_addr a parsed (eks_validate_args cfg_region) (eks_authorizes_dial_ip cfg_region call resolver) s"

subsection \<open>gke.go\<close>

definition gke_provider_name :: string where
  "gke_provider_name = ''gke''"

record gke_args =
  gke_cluster_name_arg :: string
  gke_location :: string
  gke_project :: string

definition decode_gke_member :: "string \<Rightarrow> json \<Rightarrow> gke_args \<Rightarrow> gke_args option" where
  "decode_gke_member k v a =
     (if equal_fold k ''cluster_name'' then
        map_option (\<lambda>x. a\<lparr>gke_cluster_name_arg := x\<rparr>) (decode_text v (gke_cluster_name_arg a))
      else if equal_fold k ''location'' then map_option (\<lambda>x. a\<lparr>gke_location := x\<rparr>) (decode_text v (gke_location a))
      else if equal_fold k ''project'' then map_option (\<lambda>x. a\<lparr>gke_project := x\<rparr>) (decode_text v (gke_project a))
      else Some a)"

definition gke_parse :: "provider_args \<Rightarrow> (kube_error, gke_args option) result" where
  "gke_parse = kube_parse decode_gke_member \<lparr>gke_cluster_name_arg = [], gke_location = [], gke_project = []\<rparr>"

definition gke_validate :: "gke_args option \<Rightarrow> (kube_error, unit) result" where
  "gke_validate args =
     (case args of
        None \<Rightarrow> Inl KubeArgsMissing
      | Some a \<Rightarrow>
          if gke_cluster_name_arg a = [] \<or> gke_location a = [] \<or> gke_project a = [] then Inl KubeArgsMissing
          else errors_join
            [check_identifier (gke_project a) [gcp_project_id, gcp_project_number],
             check_identifier (gke_location a) [gcp_location],
             check_identifier (gke_cluster_name_arg a) [gke_cluster_name]])"

definition gke_cache_key :: "gke_args option \<Rightarrow> string" where
  "gke_cache_key args =
     gke_project (the args) @ ''/'' @ gke_location (the args) @ ''/'' @ gke_cluster_name_arg (the args)"

definition gke_gate :: "gke_args kube_gate" where
  "gke_gate = \<lparr>kg_validate = gke_validate, kg_cache_key = gke_cache_key, kg_expected_port = https_port\<rparr>"

definition gke_cluster_conn :: "string \<Rightarrow> string \<Rightarrow> cluster_conn" where
  "gke_cluster_conn host ca_data =
     \<lparr>conn_endpoint = ''https://'' @ host, conn_ca_data = ca_data, conn_client_cert = [], conn_client_key = [],
      conn_server_name = []\<rparr>"

definition gke_inject_auth :: "(kube_error, string) result \<Rightarrow> http_request \<Rightarrow> (kube_error, http_request) result" where
  "gke_inject_auth token req =
     and_then (map_err (\<lambda>_. KubeCredentialFailed) token) (\<lambda>t.
       Inr (req\<lparr>req_header := header_set (req_header req) ''Authorization'' (''Bearer '' @ t)\<rparr>))"

definition gke_resolve_cluster ::
    "cluster_tls cache_call \<Rightarrow> gke_args option \<Rightarrow> cluster_tls cache_items \<Rightarrow>
     (kube_error, cluster_tls) result \<times> cluster_tls cache_items" where
  "gke_resolve_cluster call args s = bootstrap_get s (gke_cache_key args) call"

definition gke_resource_name :: "string \<Rightarrow> string \<Rightarrow> string \<Rightarrow> string" where
  "gke_resource_name project location cluster_name =
     ''projects/'' @ project @ ''/locations/'' @ location @ ''/clusters/'' @ cluster_name"

text \<open>The answer for the cluster of that name: its CA, when it has master credentials, and its endpoint.\<close>

definition default_gke_get_cluster ::
    "(string \<Rightarrow> server_url option) \<Rightarrow> (string \<Rightarrow> (kube_error, string option \<times> string) result) \<Rightarrow>
     string \<Rightarrow> string \<Rightarrow> string \<Rightarrow> (kube_error, cluster_tls) result" where
  "default_gke_get_cluster parse_url clusters_get project location cluster_name =
     and_then (map_err (\<lambda>_. KubeFetchFailed) (clusters_get (gke_resource_name project location cluster_name)))
       (\<lambda>(ca, endpoint).
         if ca = None \<or> ca = Some [] then Inl KubeFetchFailed
         else if endpoint = [] then Inl KubeFetchFailed
         else Inr \<lparr>tls_host = host_from_endpoint parse_url endpoint, tls_ca_data = the ca\<rparr>)"

definition gke_ca_cert_data ::
    "cluster_tls cache_call \<Rightarrow> (kube_error, gke_args option) result \<Rightarrow> cluster_tls cache_items \<Rightarrow>
     (kube_error, string) result \<times> cluster_tls cache_items" where
  "gke_ca_cert_data call parsed s =
     (case parsed of
        Inl e \<Rightarrow> (Inl e, s)
      | Inr args \<Rightarrow>
          if gke_validate args \<noteq> Inr () then (Inr [], s)
          else (case gke_resolve_cluster call args s of
              (Inl e, s') \<Rightarrow> (Inl e, s')
            | (Inr ct, s') \<Rightarrow> (Inr (tls_ca_data ct), s')))"

definition gke_resolve_host ::
    "cluster_tls cache_call \<Rightarrow> gke_args option \<Rightarrow> cluster_tls cache_items \<Rightarrow>
     (kube_error, string) result \<times> cluster_tls cache_items" where
  "gke_resolve_host call args s =
     (case gke_resolve_cluster call args s of
        (Inl e, s') \<Rightarrow> (Inl e, s')
      | (Inr ct, s') \<Rightarrow> (Inr (tls_host ct), s'))"

definition gke_authorizes_host ::
    "cluster_tls cache_call \<Rightarrow> string \<Rightarrow> (kube_error, gke_args option) result \<Rightarrow> cluster_tls cache_items \<Rightarrow>
     (kube_error, bool) result \<times> cluster_tls cache_items" where
  "gke_authorizes_host call host parsed s = kube_authorizes_host host parsed gke_validate (gke_resolve_host call) s"

definition gke_authorizes_dial_ip ::
    "cluster_tls cache_call \<Rightarrow> ip \<Rightarrow> gke_args option \<Rightarrow> cluster_tls cache_items \<Rightarrow>
     (kube_error, bool) result \<times> cluster_tls cache_items" where
  "gke_authorizes_dial_ip call a args s =
     (if floor_forbidden a then (Inr False, s)
      else (case gke_resolve_cluster call args s of
          (Inl e, s') \<Rightarrow> (Inl e, s')
        | (Inr ct, s') \<Rightarrow>
            (case parse_addr (tls_host ct) of
               None \<Rightarrow> (Inl KubeResolveFailed, s')
             | Some want \<Rightarrow> (Inr (unmap a = unmap want), s'))))"

definition gke_authorizes_addr ::
    "cluster_tls cache_call \<Rightarrow> ip \<Rightarrow> (kube_error, gke_args option) result \<Rightarrow> cluster_tls cache_items \<Rightarrow>
     (kube_error, bool) result \<times> cluster_tls cache_items" where
  "gke_authorizes_addr call a parsed s = kube_authorizes_addr a parsed gke_validate (gke_authorizes_dial_ip call) s"

subsection \<open>aks.go\<close>

definition aks_provider_name :: string where
  "aks_provider_name = ''aks''"

record aks_args =
  aks_cluster_name_arg :: string
  aks_resource_group :: string
  aks_subscription_id :: string

definition decode_aks_member :: "string \<Rightarrow> json \<Rightarrow> aks_args \<Rightarrow> aks_args option" where
  "decode_aks_member k v a =
     (if equal_fold k ''cluster_name'' then
        map_option (\<lambda>x. a\<lparr>aks_cluster_name_arg := x\<rparr>) (decode_text v (aks_cluster_name_arg a))
      else if equal_fold k ''resource_group'' then
        map_option (\<lambda>x. a\<lparr>aks_resource_group := x\<rparr>) (decode_text v (aks_resource_group a))
      else if equal_fold k ''subscription_id'' then
        map_option (\<lambda>x. a\<lparr>aks_subscription_id := x\<rparr>) (decode_text v (aks_subscription_id a))
      else Some a)"

definition aks_parse :: "provider_args \<Rightarrow> (kube_error, aks_args option) result" where
  "aks_parse = kube_parse decode_aks_member
     \<lparr>aks_cluster_name_arg = [], aks_resource_group = [], aks_subscription_id = []\<rparr>"

definition aks_validate :: "(string \<Rightarrow> bool) \<Rightarrow> aks_args option \<Rightarrow> (kube_error, unit) result" where
  "aks_validate word_rune args =
     (case args of
        None \<Rightarrow> Inl KubeArgsMissing
      | Some a \<Rightarrow>
          if aks_cluster_name_arg a = [] \<or> aks_resource_group a = [] \<or> aks_subscription_id a = [] then Inl KubeArgsMissing
          else errors_join
            [check_identifier (aks_subscription_id a) [azure_subscription_id],
             if azure_resource_group word_rune (aks_resource_group a) then Inr () else Inl KubeInvalidIdentifier,
             check_identifier (aks_cluster_name_arg a) [aks_cluster_name]])"

definition aks_cache_key :: "aks_args option \<Rightarrow> string" where
  "aks_cache_key args =
     aks_subscription_id (the args) @ ''/'' @ aks_resource_group (the args) @ ''/'' @ aks_cluster_name_arg (the args)"

definition aks_gate :: "(string \<Rightarrow> bool) \<Rightarrow> aks_args kube_gate" where
  "aks_gate word_rune =
     \<lparr>kg_validate = aks_validate word_rune, kg_cache_key = aks_cache_key, kg_expected_port = https_port\<rparr>"

text \<open>What the connector reads of the \<open>rest.Config\<close> that \<open>client-go\<close> makes of a kubeconfig.\<close>

record rest_config =
  rest_host :: string
  rest_bearer_token :: string
  rest_ca_data :: string
  rest_cert_data :: string
  rest_key_data :: string

definition aks_cluster_tls_material :: "rest_config \<Rightarrow> string \<times> string \<times> string" where
  "aks_cluster_tls_material cfg =
     (let ca = (if length (rest_ca_data cfg) > 0 then base64_encode (rest_ca_data cfg) else []);
          both = (length (rest_cert_data cfg) > 0 \<and> length (rest_key_data cfg) > 0)
      in (ca, if both then base64_encode (rest_cert_data cfg) else [],
          if both then base64_encode (rest_key_data cfg) else []))"

definition aks_needs_aad_token :: "string \<Rightarrow> string \<Rightarrow> bool" where
  "aks_needs_aad_token bearer client_cert \<longleftrightarrow> bearer = [] \<and> client_cert = []"

definition aks_cluster_conn ::
    "(string \<Rightarrow> server_url option) \<Rightarrow> string \<Rightarrow> string \<Rightarrow> string \<Rightarrow> string \<Rightarrow> cluster_conn" where
  "aks_cluster_conn parse_url cfg_host ca_data client_cert client_key =
     \<lparr>conn_endpoint = ''https://'' @ host_from_endpoint parse_url cfg_host, conn_ca_data = ca_data,
      conn_client_cert = client_cert, conn_client_key = client_key, conn_server_name = []\<rparr>"

text \<open>The fetch below the cache: the first kubeconfig listed, read by \<open>client-go\<close>.\<close>

definition aks_fetch_cluster_config ::
    "(kube_error, string list) result \<Rightarrow> (string \<Rightarrow> rest_config option) \<Rightarrow> (kube_error, rest_config) result" where
  "aks_fetch_cluster_config kubeconfigs rest_config_from =
     and_then (map_err (\<lambda>_. KubeFetchFailed) kubeconfigs) (\<lambda>ks.
       if length ks = 0 \<or> length (hd ks) = 0 then Inl KubeFetchFailed
       else (case rest_config_from (hd ks) of None \<Rightarrow> Inl KubeFetchFailed | Some cfg \<Rightarrow> Inr cfg))"

definition aks_get_cluster_config ::
    "(string \<Rightarrow> bool) \<Rightarrow> rest_config cache_call \<Rightarrow> aks_args option \<Rightarrow> rest_config cache_items \<Rightarrow>
     (kube_error, rest_config) result \<times> rest_config cache_items" where
  "aks_get_cluster_config word_rune call args s =
     (case aks_validate word_rune args of
        Inl e \<Rightarrow> (Inl e, s)
      | Inr _ \<Rightarrow> bootstrap_get s (aks_cache_key args) call)"

definition aks_aad_fallback :: "(kube_error, string) result \<Rightarrow> http_request \<Rightarrow> (kube_error, http_request) result" where
  "aks_aad_fallback aad req =
     and_then (map_err (\<lambda>_. KubeCredentialFailed) aad) (\<lambda>t.
       Inr (req\<lparr>req_header := header_set (req_header req) ''Authorization'' (''Bearer '' @ t)\<rparr>))"

definition aks_inject_auth ::
    "(string \<Rightarrow> bool) \<Rightarrow> rest_config cache_call \<Rightarrow> (kube_error, string) result \<Rightarrow> (kube_error, aks_args option) result \<Rightarrow>
     http_request \<Rightarrow> rest_config cache_items \<Rightarrow> (kube_error, http_request) result \<times> rest_config cache_items" where
  "aks_inject_auth word_rune call aad parsed req s =
     (case parsed of
        Inl e \<Rightarrow> (Inl e, s)
      | Inr args \<Rightarrow>
          if args = None \<or> aks_cluster_name_arg (the args) = [] then (Inl KubeArgsMissing, s)
          else if aks_resource_group (the args) \<noteq> [] \<and> aks_subscription_id (the args) \<noteq> [] then
            (case aks_get_cluster_config word_rune call args s of
               (Inl e, s') \<Rightarrow> (Inl e, s')
             | (Inr cfg, s') \<Rightarrow>
                 if rest_bearer_token cfg \<noteq> [] then
                   (Inr (req\<lparr>req_header :=
                      header_set (req_header req) ''Authorization'' (''Bearer '' @ rest_bearer_token cfg)\<rparr>), s')
                 else if length (rest_cert_data cfg) > 0 \<and> length (rest_key_data cfg) > 0 then (Inr req, s')
                 else (aks_aad_fallback aad req, s'))
          else (aks_aad_fallback aad req, s))"

definition aks_ca_cert_data ::
    "(string \<Rightarrow> bool) \<Rightarrow> rest_config cache_call \<Rightarrow> (kube_error, aks_args option) result \<Rightarrow> rest_config cache_items \<Rightarrow>
     (kube_error, string) result \<times> rest_config cache_items" where
  "aks_ca_cert_data word_rune call parsed s =
     (case parsed of
        Inl e \<Rightarrow> (Inl e, s)
      | Inr args \<Rightarrow>
          if aks_validate word_rune args \<noteq> Inr () then (Inr [], s)
          else (case aks_get_cluster_config word_rune call args s of
              (Inl e, s') \<Rightarrow> (Inl e, s')
            | (Inr cfg, s') \<Rightarrow>
                (Inr (if length (rest_ca_data cfg) = 0 then [] else base64_encode (rest_ca_data cfg)), s')))"

definition aks_client_cert_data ::
    "(string \<Rightarrow> bool) \<Rightarrow> rest_config cache_call \<Rightarrow> (kube_error, aks_args option) result \<Rightarrow> rest_config cache_items \<Rightarrow>
     (kube_error, string \<times> string) result \<times> rest_config cache_items" where
  "aks_client_cert_data word_rune call parsed s =
     (case parsed of
        Inl e \<Rightarrow> (Inl e, s)
      | Inr args \<Rightarrow>
          if aks_validate word_rune args \<noteq> Inr () then (Inr ([], []), s)
          else (case aks_get_cluster_config word_rune call args s of
              (Inl e, s') \<Rightarrow> (Inl e, s')
            | (Inr cfg, s') \<Rightarrow>
                if length (rest_cert_data cfg) = 0 \<or> length (rest_key_data cfg) = 0 then (Inr ([], []), s')
                else (Inr (base64_encode (rest_cert_data cfg), base64_encode (rest_key_data cfg)), s')))"

definition aks_resolve_host ::
    "(string \<Rightarrow> server_url option) \<Rightarrow> (string \<Rightarrow> bool) \<Rightarrow> rest_config cache_call \<Rightarrow> aks_args option \<Rightarrow>
     rest_config cache_items \<Rightarrow> (kube_error, string) result \<times> rest_config cache_items" where
  "aks_resolve_host parse_url word_rune call args s =
     (case aks_get_cluster_config word_rune call args s of
        (Inl e, s') \<Rightarrow> (Inl e, s')
      | (Inr cfg, s') \<Rightarrow> (Inr (host_from_endpoint parse_url (rest_host cfg)), s'))"

definition aks_authorizes_host ::
    "(string \<Rightarrow> server_url option) \<Rightarrow> (string \<Rightarrow> bool) \<Rightarrow> rest_config cache_call \<Rightarrow> string \<Rightarrow>
     (kube_error, aks_args option) result \<Rightarrow> rest_config cache_items \<Rightarrow> (kube_error, bool) result \<times> rest_config cache_items" where
  "aks_authorizes_host parse_url word_rune call host parsed s =
     kube_authorizes_host host parsed (aks_validate word_rune) (aks_resolve_host parse_url word_rune call) s"

definition aks_authorizes_dial_ip ::
    "(string \<Rightarrow> server_url option) \<Rightarrow> (string \<Rightarrow> bool) \<Rightarrow> rest_config cache_call \<Rightarrow> (string \<Rightarrow> ip list option) \<Rightarrow> ip \<Rightarrow>
     aks_args option \<Rightarrow> rest_config cache_items \<Rightarrow> (kube_error, bool) result \<times> rest_config cache_items" where
  "aks_authorizes_dial_ip parse_url word_rune call resolver a args s =
     (if floor_forbidden a then (Inr False, s)
      else (case aks_get_cluster_config word_rune call args s of
          (Inl e, s') \<Rightarrow> (Inl e, s')
        | (Inr cfg, s') \<Rightarrow>
            (case resolver (host_from_endpoint parse_url (rest_host cfg)) of
               None \<Rightarrow> (Inl KubeResolveFailed, s')
             | Some addrs \<Rightarrow> (Inr (contains_ip addrs a), s'))))"

definition aks_authorizes_addr ::
    "(string \<Rightarrow> server_url option) \<Rightarrow> (string \<Rightarrow> bool) \<Rightarrow> rest_config cache_call \<Rightarrow> (string \<Rightarrow> ip list option) \<Rightarrow> ip \<Rightarrow>
     (kube_error, aks_args option) result \<Rightarrow> rest_config cache_items \<Rightarrow> (kube_error, bool) result \<times> rest_config cache_items" where
  "aks_authorizes_addr parse_url word_rune call resolver a parsed s =
     kube_authorizes_addr a parsed (aks_validate word_rune) (aks_authorizes_dial_ip parse_url word_rune call resolver) s"

end
