(* ===== verification/Kube_Session.thy ===== *)
theory Kube_Session
  imports Kube_Clusters
begin

text \<open>
  What the Kubernetes connectors promise over a session of many calls: a request is judged under
  the role of the very cluster it goes to, a cluster's identifiers name one cluster, the token's
  region stays in the configured partition, and no dial goes below the address floor. The
  connectors are also given as entries of the registry.
\<close>

subsection \<open>The contract of the policy cache\<close>

text \<open>
  A call is honest about the roles when what it fetches is the role its own cluster serves and
  what the other callers store meanwhile is too.
\<close>

definition own_role :: "'a kube_gate \<Rightarrow> ('a option \<Rightarrow> 't) \<Rightarrow> ('t \<Rightarrow> view_policy) \<Rightarrow> view_policy cache_items \<Rightarrow> bool" where
  "own_role g target roles items \<longleftrightarrow>
     (\<forall>k vp a. items k = Some vp \<longrightarrow> kg_validate g a = Inr () \<longrightarrow> kg_cache_key g a = k \<longrightarrow> vp = roles (target a))"

definition role_call :: "'a kube_gate \<Rightarrow> ('a option \<Rightarrow> 't) \<Rightarrow> ('t \<Rightarrow> view_policy) \<Rightarrow> 'a gate_call \<Rightarrow> bool" where
  "role_call g target roles c \<longleftrightarrow>
     (\<forall>vp. cc_fetch (gc_policy c) = Fetched (Inr vp) \<longrightarrow> vp = roles (target (gc_args c))) \<and>
     (\<forall>items. own_role g target roles items \<longrightarrow> own_role g target roles (cc_meanwhile (gc_policy c) items))"

text \<open>What an admitted call is admitted by.\<close>

definition admitted_under :: "'a kube_gate \<Rightarrow> view_policy \<Rightarrow> 'a gate_call \<Rightarrow> bool" where
  "admitted_under g vp c \<longleftrightarrow>
     kg_validate g (gc_args c) = Inr () \<and> authorize_request_port (gc_view c) (kg_expected_port g) = Inr () \<and>
     kube_authorize
       (kube_classify (v_method (gc_view c)) (v_path (gc_view c)) (fst (parse_query (v_raw_query (gc_view c))))) vp = Inr ()"

lemma sync_get_Inr:
  "sync_get items key cancelled meanwhile fetch = (Inr x, items') \<Longrightarrow>
     items key = Some x \<and> items' = items \<or>
     fetch = Fetched (Inr x) \<and>
       items' = (if meanwhile items key = None then (meanwhile items)(key := Some x) else meanwhile items)"
  by (auto simp: sync_get_def Let_def split: option.splits fetch_end.splits sum.splits if_splits)

lemma sync_get_Inl:
  "sync_get items key cancelled meanwhile fetch = (Inl e, items') \<Longrightarrow> items' = items \<or> items' = meanwhile items"
  by (auto simp: sync_get_def Let_def split: option.splits fetch_end.splits sum.splits if_splits)

locale kube_keys =
  fixes g :: "'a kube_gate" and target :: "'a option \<Rightarrow> 't"
  assumes key_names_cluster: "kg_validate g a = Inr () \<Longrightarrow> kg_validate g b = Inr () \<Longrightarrow>
    kg_cache_key g a = kg_cache_key g b \<Longrightarrow> target a = target b"
begin

lemma resolve_own_role:
  assumes "own_role g target roles items" "role_call g target roles c" "kg_validate g (gc_args c) = Inr ()"
    and "resolve_view_policy g c items = (r, items')"
  shows "own_role g target roles items' \<and> (\<forall>vp. r = Inr vp \<longrightarrow> vp = roles (target (gc_args c)))"
proof (cases r)
  case (Inl e)
  with assms(4) have "items' = items \<or> items' = cc_meanwhile (gc_policy c) items"
    by (auto simp: resolve_view_policy_def bootstrap_get_def dest: sync_get_Inl)
  with assms(1,2) Inl show ?thesis by (auto simp: role_call_def)
next
  case (Inr vp)
  let ?k = "kg_cache_key g (gc_args c)"
  let ?m = "cc_meanwhile (gc_policy c) items"
  from assms(4) Inr have "items ?k = Some vp \<and> items' = items \<or>
      cc_fetch (gc_policy c) = Fetched (Inr vp) \<and> items' = (if ?m ?k = None then ?m(?k := Some vp) else ?m)"
    unfolding resolve_view_policy_def bootstrap_get_def by (blast dest: sync_get_Inr)
  then show ?thesis
  proof
    assume "items ?k = Some vp \<and> items' = items"
    with assms(1,3) Inr show ?thesis by (auto simp: own_role_def)
  next
    assume f: "cc_fetch (gc_policy c) = Fetched (Inr vp) \<and> items' = (if ?m ?k = None then ?m(?k := Some vp) else ?m)"
    with assms(2) have vp: "vp = roles (target (gc_args c))" by (simp add: role_call_def)
    have m: "own_role g target roles ?m" using assms(1,2) by (simp add: role_call_def)
    have "own_role g target roles (?m(?k := Some vp))"
      using m vp key_names_cluster [OF assms(3)] by (auto simp: own_role_def)
    with f m vp Inr show ?thesis by auto
  qed
qed

lemma authorize_own_role:
  assumes "own_role g target roles items" "role_call g target roles c" "kube_authorize_action g c items = (r, items')"
  shows "own_role g target roles items' \<and>
    (r = Inr () \<longrightarrow> admitted_under g (roles (target (gc_args c))) c)"
proof (cases "kg_validate g (gc_args c) = Inr () \<and> authorize_request_port (gc_view c) (kg_expected_port g) = Inr ()")
  case True
  obtain rp itp where p: "resolve_view_policy g c items = (rp, itp)" by fastforce
  note o = resolve_own_role [OF assms(1,2) _ p]
  show ?thesis
  proof (cases rp)
    case (Inl e)
    then show ?thesis using assms(3) o True p by (auto simp: kube_authorize_action_def)
  next
    case (Inr vp)
    then show ?thesis using assms(3) o True p by (auto simp: kube_authorize_action_def admitted_under_def)
  qed
next
  case False
  then show ?thesis using assms(1,3)
    by (cases "kg_validate g (gc_args c)") (auto simp: kube_authorize_action_def)
qed

lemma run_own_role:
  assumes "own_role g target roles items" "list_all (role_call g target roles) calls"
  shows "list_all2 (\<lambda>c r. r = Inr () \<longrightarrow> admitted_under g (roles (target (gc_args c))) c) calls (fst (gate_run g calls items))"
  using assms
proof (induction calls arbitrary: items)
  case (Cons c cs)
  obtain r items' where a: "kube_authorize_action g c items = (r, items')" by fastforce
  have o: "own_role g target roles items' \<and> (r = Inr () \<longrightarrow> admitted_under g (roles (target (gc_args c))) c)"
    by (rule authorize_own_role [OF Cons.prems(1) _ a]) (use Cons.prems(2) in simp)
  have "list_all (role_call g target roles) cs" using Cons.prems(2) by simp
  from Cons.IH [OF conjunct1 [OF o] this] conjunct2 [OF o] a show ?case
    by (cases "gate_run g cs items'") simp
qed simp

end

subsection \<open>Keys name clusters\<close>

lemma char_class_bytes [simp]:
  "az c \<Longrightarrow> c \<noteq> CHR ''/''" "AZ c \<Longrightarrow> c \<noteq> CHR ''/''" "d09 c \<Longrightarrow> c \<noteq> CHR ''/''"
  by (auto simp: az_def AZ_def d09_def char_between_def byte_val_def)

lemmas identifier_defs = gcp_project_id_def gcp_project_number_def gcp_location_def gke_cluster_name_def eks_cluster_name_def
  azure_subscription_id_def aks_cluster_name_def aws_china_region_def aws_gov_cloud_region_def aws_standard_region_def

lemmas rx_forms = rx_lit_def rx_plus_def rx_opt_def

text \<open>The bytes of an accepted identifier.\<close>

definition ident_byte :: "char \<Rightarrow> bool" where
  "ident_byte c \<longleftrightarrow> az c \<or> AZ c \<or> d09 c \<or> c = CHR ''-'' \<or> c = CHR ''_''"

lemma char_class_ident [simp]: "az c \<Longrightarrow> ident_byte c" "AZ c \<Longrightarrow> ident_byte c" "d09 c \<Longrightarrow> ident_byte c"
  "ident_byte CHR ''-''" "ident_byte CHR ''_''"
  by (simp_all add: ident_byte_def)

lemma letter_ident [simp]:
  "ident_byte CHR ''c''" "ident_byte CHR ''n''" "ident_byte CHR ''u''" "ident_byte CHR ''s''" "ident_byte CHR ''g''"
  "ident_byte CHR ''o''" "ident_byte CHR ''v''"
  by (simp_all add: ident_byte_def az_def char_between_def byte_val_def)

lemma hex_class_ident [simp]: "hex_class c \<Longrightarrow> ident_byte c"
  by (auto simp: hex_class_def ident_byte_def az_def AZ_def d09_def char_between_def byte_val_def)

lemma check_identifier_Inr: "check_identifier s accept = Inr () \<longleftrightarrow> (\<exists>r \<in> set accept. rx_match r s)"
  by (auto simp: check_identifier_def list_ex_iff)

lemma ident_bytes:
  assumes "rx_match r s" "rx_wf r" "\<And>c. rx_bytes r c \<Longrightarrow> ident_byte c"
  shows "list_all ident_byte s"
  using rx_match_bytes [OF assms(1,2)] assms(3) by (auto simp: list_all_iff)

lemma identifiers_wf [simp]:
  "rx_wf gcp_project_id" "rx_wf gcp_project_number" "rx_wf gcp_location" "rx_wf gke_cluster_name"
  "rx_wf eks_cluster_name" "rx_wf azure_subscription_id" "rx_wf aks_cluster_name"
  "rx_wf aws_china_region" "rx_wf aws_gov_cloud_region" "rx_wf aws_standard_region"
  by (simp_all add: identifier_defs rx_forms)

lemma identifiers_bytes:
  "rx_bytes gcp_project_id c \<Longrightarrow> ident_byte c" "rx_bytes gcp_project_number c \<Longrightarrow> ident_byte c"
  "rx_bytes gcp_location c \<Longrightarrow> ident_byte c" "rx_bytes gke_cluster_name c \<Longrightarrow> ident_byte c"
  "rx_bytes eks_cluster_name c \<Longrightarrow> ident_byte c" "rx_bytes azure_subscription_id c \<Longrightarrow> ident_byte c"
  "rx_bytes aks_cluster_name c \<Longrightarrow> ident_byte c" "rx_bytes aws_china_region c \<Longrightarrow> ident_byte c"
  "rx_bytes aws_gov_cloud_region c \<Longrightarrow> ident_byte c" "rx_bytes aws_standard_region c \<Longrightarrow> ident_byte c"
  by (auto simp: identifier_defs rx_forms)

lemma ident_no_slash: "list_all ident_byte s \<Longrightarrow> CHR ''/'' \<notin> set s"
  by (auto simp: list_all_iff ident_byte_def az_def AZ_def d09_def char_between_def byte_val_def)

lemma ident_no_dot: "list_all ident_byte s \<Longrightarrow> CHR ''.'' \<notin> set s"
  by (auto simp: list_all_iff ident_byte_def az_def AZ_def d09_def char_between_def byte_val_def)

lemma cut_at_slash:
  "CHR ''/'' \<notin> set p \<Longrightarrow> CHR ''/'' \<notin> set p' \<Longrightarrow> p @ ''/'' @ s = p' @ ''/'' @ s' \<Longrightarrow> p = p' \<and> s = s'"
proof (induction p arbitrary: p')
  case Nil
  then show ?case by (cases p') auto
next
  case (Cons c p)
  then show ?case by (cases p') auto
qed

lemma cut_at_last_slash:
  assumes "CHR ''/'' \<notin> set n" "CHR ''/'' \<notin> set n'" "s @ ''/'' @ n = s' @ ''/'' @ n'"
  shows "s = s' \<and> n = n'"
proof -
  have "rev n @ ''/'' @ rev s = rev n' @ ''/'' @ rev s'" using arg_cong [OF assms(3), of rev] by simp
  with cut_at_slash [of "rev n" "rev n'" "rev s" "rev s'"] assms(1,2) show ?thesis by simp
qed

text \<open>What the connectors accept, and the cluster they name by it.\<close>

lemma errors_join_Inr: "errors_join rs = Inr () \<longleftrightarrow> list_all (\<lambda>r. r = Inr ()) rs"
  by (induction rs) (auto split: sum.splits)

lemma eks_accepted:
  assumes "eks_validate_args cfg args = Inr ()"
  obtains a where "args = Some a" "eks_cluster_name_arg a \<noteq> []" "list_all ident_byte (eks_cluster_name_arg a)"
    "eks_region a \<noteq> [] \<Longrightarrow> aws_partition (eks_region a) \<noteq> []" "check_eks_region_partition (eks_region a) cfg = Inr ()"
proof -
  from assms obtain a where a: "args = Some a" and v: "eks_validate (Some a) = Inr ()"
    and c: "check_eks_region_partition (eks_region a) cfg = Inr ()"
    by (auto simp: eks_validate_args_def eks_validate_def split: option.splits sum.splits if_splits)
  have "eks_cluster_name_arg a \<noteq> []" "eks_region a \<noteq> [] \<Longrightarrow> aws_partition (eks_region a) \<noteq> []"
    and m: "rx_match eks_cluster_name (eks_cluster_name_arg a)"
    using v by (auto simp: eks_validate_def check_identifier_Inr split: if_splits)
  with that [OF a] c ident_bytes [OF m] identifiers_bytes show thesis by simp
qed

lemma gke_accepted:
  assumes "gke_validate args = Inr ()"
  obtains a where "args = Some a" "gke_project a \<noteq> []" "gke_location a \<noteq> []" "gke_cluster_name_arg a \<noteq> []"
    "list_all ident_byte (gke_project a)" "list_all ident_byte (gke_location a)" "list_all ident_byte (gke_cluster_name_arg a)"
proof -
  from assms obtain a where a: "args = Some a" "gke_project a \<noteq> []" "gke_location a \<noteq> []" "gke_cluster_name_arg a \<noteq> []"
    and m: "rx_match gcp_project_id (gke_project a) \<or> rx_match gcp_project_number (gke_project a)"
      "rx_match gcp_location (gke_location a)" "rx_match gke_cluster_name (gke_cluster_name_arg a)"
    by (auto simp: gke_validate_def errors_join_Inr check_identifier_Inr simp del: errors_join.simps
      split: option.splits if_splits)
  from m have "list_all ident_byte (gke_project a)" "list_all ident_byte (gke_location a)"
    "list_all ident_byte (gke_cluster_name_arg a)"
    by (auto intro: ident_bytes identifiers_bytes)
  with that a show thesis by blast
qed

lemma aks_accepted:
  assumes "aks_validate word_rune args = Inr ()"
  obtains a where "args = Some a" "list_all ident_byte (aks_subscription_id a)" "list_all ident_byte (aks_cluster_name_arg a)"
    "azure_resource_group word_rune (aks_resource_group a)"
proof -
  from assms obtain a where a: "args = Some a" "azure_resource_group word_rune (aks_resource_group a)"
    and m: "rx_match azure_subscription_id (aks_subscription_id a)" "rx_match aks_cluster_name (aks_cluster_name_arg a)"
    by (auto simp: aks_validate_def errors_join_Inr check_identifier_Inr simp del: errors_join.simps
      split: option.splits if_splits)
  from m have "list_all ident_byte (aks_subscription_id a)" "list_all ident_byte (aks_cluster_name_arg a)"
    by (auto intro: ident_bytes identifiers_bytes)
  with that a show thesis by blast
qed

definition eks_target :: "string \<Rightarrow> eks_args option \<Rightarrow> string \<times> string" where
  "eks_target cfg_region args =
     (resolve_region [eks_region (the args), cfg_region], eks_cluster_name_arg (the args))"

definition gke_target :: "gke_args option \<Rightarrow> string \<times> string \<times> string" where
  "gke_target args = (gke_project (the args), gke_location (the args), gke_cluster_name_arg (the args))"

definition aks_target :: "aks_args option \<Rightarrow> string \<times> string \<times> string" where
  "aks_target args = (aks_subscription_id (the args), aks_resource_group (the args), aks_cluster_name_arg (the args))"

interpretation self_keys: kube_keys "kubernetes_gate c" "\<lambda>_. ()" for c
  by unfold_locales simp

interpretation eks_keys: kube_keys "eks_gate cfg" "eks_target cfg" for cfg
proof
  fix a b assume v: "kg_validate (eks_gate cfg) a = Inr ()" "kg_validate (eks_gate cfg) b = Inr ()"
    and k: "kg_cache_key (eks_gate cfg) a = kg_cache_key (eks_gate cfg) b"
  from v obtain x y where xy: "a = Some x" "b = Some y"
    "CHR ''/'' \<notin> set (eks_cluster_name_arg x)" "CHR ''/'' \<notin> set (eks_cluster_name_arg y)"
    by (auto simp: eks_gate_def elim!: eks_accepted dest!: ident_no_slash)
  have "resolve_region [eks_region x, cfg] @ ''/'' @ eks_cluster_name_arg x =
      resolve_region [eks_region y, cfg] @ ''/'' @ eks_cluster_name_arg y"
    using k xy(1,2) by (simp add: eks_gate_def eks_cache_key_def del: resolve_region.simps)
  from cut_at_last_slash [OF xy(3,4) this] xy(1,2) show "eks_target cfg a = eks_target cfg b"
    by (simp add: eks_target_def)
qed

interpretation gke_keys: kube_keys gke_gate gke_target
proof
  fix a b assume v: "kg_validate gke_gate a = Inr ()" "kg_validate gke_gate b = Inr ()"
    and k: "kg_cache_key gke_gate a = kg_cache_key gke_gate b"
  from v obtain x y where xy: "a = Some x" "b = Some y"
    "CHR ''/'' \<notin> set (gke_project x)" "CHR ''/'' \<notin> set (gke_project y)"
    "CHR ''/'' \<notin> set (gke_location x)" "CHR ''/'' \<notin> set (gke_location y)"
    by (auto simp: gke_gate_def elim!: gke_accepted dest!: ident_no_slash)
  have e: "gke_project x @ ''/'' @ gke_location x @ ''/'' @ gke_cluster_name_arg x =
      gke_project y @ ''/'' @ gke_location y @ ''/'' @ gke_cluster_name_arg y"
    using k xy(1,2) by (simp add: gke_gate_def gke_cache_key_def)
  from cut_at_slash [OF xy(3,4) e] have "gke_project x = gke_project y"
    and e': "gke_location x @ ''/'' @ gke_cluster_name_arg x = gke_location y @ ''/'' @ gke_cluster_name_arg y" by auto
  with cut_at_slash [OF xy(5,6) e'] xy(1,2) show "gke_target a = gke_target b" by (simp add: gke_target_def)
qed

interpretation aks_keys: kube_keys "aks_gate word_rune" aks_target for word_rune
proof
  fix a b assume v: "kg_validate (aks_gate word_rune) a = Inr ()" "kg_validate (aks_gate word_rune) b = Inr ()"
    and k: "kg_cache_key (aks_gate word_rune) a = kg_cache_key (aks_gate word_rune) b"
  from v obtain x y where xy: "a = Some x" "b = Some y"
    "CHR ''/'' \<notin> set (aks_subscription_id x)" "CHR ''/'' \<notin> set (aks_subscription_id y)"
    "CHR ''/'' \<notin> set (aks_cluster_name_arg x)" "CHR ''/'' \<notin> set (aks_cluster_name_arg y)"
    by (auto simp: aks_gate_def elim!: aks_accepted dest!: ident_no_slash)
  have e: "aks_subscription_id x @ ''/'' @ aks_resource_group x @ ''/'' @ aks_cluster_name_arg x =
      aks_subscription_id y @ ''/'' @ aks_resource_group y @ ''/'' @ aks_cluster_name_arg y"
    using k xy(1,2) by (simp add: aks_gate_def aks_cache_key_def)
  from cut_at_slash [OF xy(3,4) e] have "aks_subscription_id x = aks_subscription_id y"
    and e': "aks_resource_group x @ ''/'' @ aks_cluster_name_arg x = aks_resource_group y @ ''/'' @ aks_cluster_name_arg y"
    by auto
  with cut_at_last_slash [OF xy(5,6) e'] xy(1,2) show "aks_target a = aks_target b" by (simp add: aks_target_def)
qed

subsection \<open>A session is judged under the right roles\<close>

text \<open>From an empty cache, every admitted call is one its own cluster's role admits.\<close>

definition own_role_session :: "'a kube_gate \<Rightarrow> ('a option \<Rightarrow> 't) \<Rightarrow> ('t \<Rightarrow> view_policy) \<Rightarrow> 'a gate_call list \<Rightarrow> bool" where
  "own_role_session g target roles calls \<longleftrightarrow>
     list_all2 (\<lambda>c r. r = Inr () \<longrightarrow> admitted_under g (roles (target (gc_args c))) c) calls
       (fst (gate_run g calls Map.empty))"

lemma own_role_empty: "own_role g target roles Map.empty"
  by (simp add: own_role_def)

text \<open>
  C6. The policy cache never judges a request by another cluster's role: in any sequence of calls
  whose fetches answer with the role the asked cluster serves, however other callers fill the
  cache meanwhile and however fetches fail, every request the gate lets through is on the gate's
  port, has accepted arguments, and is allowed by the role of the very cluster those arguments name.
\<close>

theorem kube_session_own_role:
  "(list_all (role_call (eks_gate cfg) (eks_target cfg) eks_roles) eks_calls \<longrightarrow>
      own_role_session (eks_gate cfg) (eks_target cfg) eks_roles eks_calls) \<and>
   (list_all (role_call gke_gate gke_target gke_roles) gke_calls \<longrightarrow>
      own_role_session gke_gate gke_target gke_roles gke_calls) \<and>
   (list_all (role_call (aks_gate word_rune) aks_target aks_roles) aks_calls \<longrightarrow>
      own_role_session (aks_gate word_rune) aks_target aks_roles aks_calls) \<and>
   (list_all (role_call (kubernetes_gate c) (\<lambda>_. ()) self_roles) self_calls \<longrightarrow>
      own_role_session (kubernetes_gate c) (\<lambda>_. ()) self_roles self_calls)"
  unfolding own_role_session_def
  by (intro conjI impI) (rule eks_keys.run_own_role gke_keys.run_own_role aks_keys.run_own_role
    self_keys.run_own_role; simp only: own_role_empty)+

text \<open>The witness: pods are listed in an EKS cluster, then a deletion is refused.\<close>

definition example_eks_call :: "string \<Rightarrow> eks_args gate_call" where
  "example_eks_call m =
     \<lparr>gc_view = example_view\<lparr>v_method := m, v_path := ''/api/v1/pods'', v_raw_query := [], v_port := []\<rparr>,
      gc_args = Some \<lparr>eks_cluster_name_arg = ''prod'', eks_region = []\<rparr>,
      gc_policy = \<lparr>cc_cancelled = None, cc_meanwhile = (\<lambda>items. items), cc_fetch = Fetched (Inr (Some view_rules))\<rparr>\<rparr>"

lemma example_eks_run:
  "map is_ok (fst (gate_run (eks_gate ''us-east-1'') [example_eks_call ''GET'', example_eks_call ''DELETE''] Map.empty)) =
     [True, False]"
  by code_simp

theorem kube_session_own_role_witness:
  "own_role_session (eks_gate ''us-east-1'') (eks_target ''us-east-1'') (\<lambda>_. Some view_rules)
     [example_eks_call ''GET'', example_eks_call ''DELETE''] \<and>
   map is_ok (fst (gate_run (eks_gate ''us-east-1'') [example_eks_call ''GET'', example_eks_call ''DELETE''] Map.empty)) =
     [True, False]"
proof -
  have "list_all (role_call (eks_gate ''us-east-1'') (eks_target ''us-east-1'') (\<lambda>_. Some view_rules))
      [example_eks_call ''GET'', example_eks_call ''DELETE'']"
    by (simp add: role_call_def example_eks_call_def)
  with kube_session_own_role example_eks_run show ?thesis by blast
qed

subsection \<open>The names the cloud APIs are asked for\<close>

text \<open>
  The arguments of a GKE call name one cluster and nothing else: the resource name sent to
  the Container API splits at its slashes into exactly the project, the location and the cluster
  the model gave, and none of them is empty or a dot segment.
\<close>

theorem gke_names_its_cluster:
  assumes "gke_validate (Some a) = Inr ()"
  shows "split_on CHR ''/'' (gke_resource_name (gke_project a) (gke_location a) (gke_cluster_name_arg a)) =
      [''projects'', gke_project a, ''locations'', gke_location a, ''clusters'', gke_cluster_name_arg a] \<and>
    (\<forall>s \<in> {gke_project a, gke_location a, gke_cluster_name_arg a}. s \<notin> {[], ''.'', ''..''} \<and> list_all ident_byte s)"
proof -
  have i: "list_all ident_byte (gke_project a)" "list_all ident_byte (gke_location a)"
      "list_all ident_byte (gke_cluster_name_arg a)" "gke_project a \<noteq> []" "gke_location a \<noteq> []"
      "gke_cluster_name_arg a \<noteq> []"
    using assms by (auto elim!: gke_accepted)
  note n = i(1-3) [THEN ident_no_slash]
  have "split_on CHR ''/'' (gke_resource_name (gke_project a) (gke_location a) (gke_cluster_name_arg a)) =
      [''projects'', gke_project a, ''locations'', gke_location a, ''clusters'', gke_cluster_name_arg a]"
    using split_on_join [of "[''projects'', gke_project a, ''locations'', gke_location a, ''clusters'', gke_cluster_name_arg a]" "CHR ''/''"]
      n by (simp add: gke_resource_name_def)
  moreover have "s \<notin> {[], ''.'', ''..''} \<and> list_all ident_byte s" if "s \<noteq> []" "list_all ident_byte s" for s
    using that ident_no_dot [OF that(2)] by auto
  ultimately show ?thesis using i(1-3) i(4-6) by (intro conjI ballI) auto
qed

lemma example_gke_accepted:
  "gke_validate (Some \<lparr>gke_cluster_name_arg = ''web'', gke_location = ''us-east1'', gke_project = ''42''\<rparr>) = Inr ()"
proof -
  have "rx_match gcp_project_number ''42''" "rx_match gcp_location ''us-east1''" "rx_match gke_cluster_name ''web''"
    by code_simp+
  then show ?thesis by (simp add: gke_validate_def check_identifier_def)
qed

theorem gke_names_its_cluster_witness:
  "gke_validate (Some \<lparr>gke_cluster_name_arg = ''web'', gke_location = ''us-east1'', gke_project = ''42''\<rparr>) = Inr () \<and>
   split_on CHR ''/'' (gke_resource_name ''42'' ''us-east1'' ''web'') =
      [''projects'', ''42'', ''locations'', ''us-east1'', ''clusters'', ''web'']"
  using gke_names_its_cluster [OF example_gke_accepted] example_gke_accepted by simp

text \<open>The region an EKS token is signed for is one of the configured partition.\<close>

lemma aws_default_partition: "aws_partition default_region = ''aws''"
  by code_simp

lemma eks_region_partition:
  assumes "eks_validate_args cfg (Some a) = Inr ()" "eks_region a \<noteq> []"
  shows "aws_partition (eks_region a) = aws_partition (resolve_region [cfg]) \<and> aws_partition (eks_region a) \<noteq> []"
  using assms(2) aws_default_partition
  by (auto intro: eks_accepted [OF assms(1)] simp: check_eks_region_partition_def Let_def split: if_splits)

subsection \<open>The connectors in the registry\<close>

text \<open>The state a connector's methods read while one request is judged, and what they are answered.\<close>

record 'c kube_moment =
  km_policies :: "view_policy cache_items"
  km_policy :: "view_policy cache_call"
  km_clusters :: "'c cache_items"
  km_cluster :: "'c cache_call"
  km_resolver :: "string \<Rightarrow> ip list option"

definition kube_action ::
    "'a kube_gate \<Rightarrow> 'c kube_moment \<Rightarrow> (provider_args \<Rightarrow> (kube_error, 'a option) result) \<Rightarrow> view \<Rightarrow> provider_args \<Rightarrow>
     (kube_error, unit) result" where
  "kube_action g m parse v pa =
     and_then (parse pa) (\<lambda>args.
       fst (kube_authorize_action g \<lparr>gc_view = v, gc_args = args, gc_policy = km_policy m\<rparr> (km_policies m)))"

definition eks_connector ::
    "string \<Rightarrow> cluster_tls kube_moment \<Rightarrow> (kube_error, unit) result \<Rightarrow> (string \<Rightarrow> string \<Rightarrow> (kube_error, string) result) \<Rightarrow>
     kube_error provider" where
  "eks_connector cfg m credentials presign =
     \<lparr>p_name = eks_provider_name,
      p_inject_auth = (\<lambda>req pa. eks_inject_auth cfg credentials presign (eks_parse pa) req),
      p_authorizes_host = (\<lambda>host pa. fst (eks_authorizes_host cfg (km_cluster m) host (eks_parse pa) (km_clusters m))),
      p_authorize_action = Some (kube_action (eks_gate cfg) m eks_parse),
      p_authorizes_addr = Some (\<lambda>a pa.
        fst (eks_authorizes_addr cfg (km_cluster m) (km_resolver m) a (eks_parse pa) (km_clusters m))),
      p_ca_cert = Some (\<lambda>pa. fst (eks_ca_cert_data cfg (km_cluster m) (eks_parse pa) (km_clusters m))),
      p_client_cert = None, p_server_name = None, p_audit_response = None, p_hint = None\<rparr>"

definition gke_connector :: "cluster_tls kube_moment \<Rightarrow> (kube_error, string) result \<Rightarrow> kube_error provider" where
  "gke_connector m token =
     \<lparr>p_name = gke_provider_name,
      p_inject_auth = (\<lambda>req _. gke_inject_auth token req),
      p_authorizes_host = (\<lambda>host pa. fst (gke_authorizes_host (km_cluster m) host (gke_parse pa) (km_clusters m))),
      p_authorize_action = Some (kube_action gke_gate m gke_parse),
      p_authorizes_addr = Some (\<lambda>a pa. fst (gke_authorizes_addr (km_cluster m) a (gke_parse pa) (km_clusters m))),
      p_ca_cert = Some (\<lambda>pa. fst (gke_ca_cert_data (km_cluster m) (gke_parse pa) (km_clusters m))),
      p_client_cert = None, p_server_name = None, p_audit_response = None, p_hint = None\<rparr>"

definition aks_connector ::
    "(string \<Rightarrow> server_url option) \<Rightarrow> (string \<Rightarrow> bool) \<Rightarrow> rest_config kube_moment \<Rightarrow> (kube_error, string) result \<Rightarrow>
     kube_error provider" where
  "aks_connector parse_url word_rune m aad =
     \<lparr>p_name = aks_provider_name,
      p_inject_auth = (\<lambda>req pa. fst (aks_inject_auth word_rune (km_cluster m) aad (aks_parse pa) req (km_clusters m))),
      p_authorizes_host = (\<lambda>host pa.
        fst (aks_authorizes_host parse_url word_rune (km_cluster m) host (aks_parse pa) (km_clusters m))),
      p_authorize_action = Some (kube_action (aks_gate word_rune) m aks_parse),
      p_authorizes_addr = Some (\<lambda>a pa.
        fst (aks_authorizes_addr parse_url word_rune (km_cluster m) (km_resolver m) a (aks_parse pa) (km_clusters m))),
      p_ca_cert = Some (\<lambda>pa. fst (aks_ca_cert_data word_rune (km_cluster m) (aks_parse pa) (km_clusters m))),
      p_client_cert = Some (\<lambda>pa. fst (aks_client_cert_data word_rune (km_cluster m) (aks_parse pa) (km_clusters m))),
      p_server_name = None, p_audit_response = None, p_hint = None\<rparr>"

text \<open>The self-managed connector has no arguments to decode but must find them decodable.\<close>

definition kubernetes_connector ::
    "resolved_cluster \<Rightarrow> unit kube_moment \<Rightarrow> (string \<Rightarrow> string option) \<Rightarrow> kube_error provider" where
  "kubernetes_connector c m read_file =
     \<lparr>p_name = kubernetes_provider_name,
      p_inject_auth = (\<lambda>req _. map_err (\<lambda>_. KubeCredentialFailed) (kubernetes_inject_auth c read_file req)),
      p_authorizes_host = (\<lambda>host _. Inr (kubernetes_authorizes_host c host)),
      p_authorize_action = Some (kube_action (kubernetes_gate c) m (kube_parse (\<lambda>_ _. Some) ())),
      p_authorizes_addr = Some (\<lambda>a _. kubernetes_authorizes_dial_ip c (km_resolver m) a),
      p_ca_cert = Some (\<lambda>_. Inr (rc_ca_data c)),
      p_client_cert = Some (\<lambda>_. Inr (rc_client_cert c, rc_client_key c)),
      p_server_name = Some (\<lambda>_. Inr (rc_server_name c)),
      p_audit_response = None, p_hint = None\<rparr>"

text \<open>No connector's dial check goes below the floor.\<close>

lemma kube_authorizes_addr_Inr:
  "fst (kube_authorizes_addr a parsed validate dial s) = Inr True \<Longrightarrow>
     \<exists>args. parsed = Inr args \<and> validate args = Inr () \<and> fst (dial a args s) = Inr True"
  by (auto simp: kube_authorizes_addr_def split: sum.splits)

interpretation eks_dial: dial_policy "\<lambda>a. fst (eks_authorizes_addr cfg call resolver a parsed s)" for cfg call resolver parsed s
  by unfold_locales
    (auto simp: eks_authorizes_addr_def eks_authorizes_dial_ip_def dest!: kube_authorizes_addr_Inr split: if_splits)

interpretation gke_dial: dial_policy "\<lambda>a. fst (gke_authorizes_addr call a parsed s)" for call parsed s
  by unfold_locales
    (auto simp: gke_authorizes_addr_def gke_authorizes_dial_ip_def dest!: kube_authorizes_addr_Inr split: if_splits)

interpretation aks_dial: dial_policy "\<lambda>a. fst (aks_authorizes_addr parse_url word_rune call resolver a parsed s)"
  for parse_url word_rune call resolver parsed s
  by unfold_locales
    (auto simp: aks_authorizes_addr_def aks_authorizes_dial_ip_def dest!: kube_authorizes_addr_Inr split: if_splits)

lemma kube_addr_floors:
  "addr_floor_kept (eks_connector cfg m credentials presign)"
  "addr_floor_kept (gke_connector m' token)"
  "addr_floor_kept (aks_connector parse_url word_rune m'' aad)"
  "addr_floor_kept (kubernetes_connector c m3 read_file)"
  using eks_dial.keeps_floor gke_dial.keeps_floor aks_dial.keeps_floor kubernetes_dial.keeps_floor
  by (auto simp: addr_floor_kept_def eks_connector_def gke_connector_def aks_connector_def kubernetes_connector_def dial_policy_def)

text \<open>
  C27. A Kubernetes request is dialed only where its connector pins it: whatever cluster the model
  names and whatever the resolver and the cloud APIs answer, the address the guard lets through is
  above the floor (not link-local, loopback, unspecified or cloud metadata, in any embedded
  form), and for GKE it is the very address the Container API gave for that cluster.
\<close>

theorem kube_dials_pinned:
  assumes "dial_guard name [eks_connector cfg m credentials presign, gke_connector m' token,
      aks_connector parse_url word_rune m'' aad, kubernetes_connector c m3 read_file] raw_args address = Inr ()"
  shows "\<exists>a. dial_address address = Some a \<and> \<not> floor_forbidden a \<and>
    (equal_fold gke_provider_name name \<longrightarrow>
       (\<exists>args ct want. gke_parse (new_provider_args raw_args gke_provider_name) = Inr args \<and> gke_validate args = Inr () \<and>
          fst (gke_resolve_cluster (km_cluster m') args (km_clusters m')) = Inr ct \<and>
          parse_addr (tls_host ct) = Some want \<and> unmap a = unmap want))"
proof -
  let ?ps = "[eks_connector cfg m credentials presign, gke_connector m' token,
      aks_connector parse_url word_rune m'' aad, kubernetes_connector c m3 read_file]"
  obtain a where a: "dial_address address = Some a" "\<not> floor_forbidden a"
    using guard_above_floor [OF _ assms] kube_addr_floors by auto
  have ok: "authorize_addr name a ?ps raw_args = Inr ()" using assms a(1) by (simp add: dial_guard_Inr)
  have "\<exists>args ct want. gke_parse (new_provider_args raw_args gke_provider_name) = Inr args \<and> gke_validate args = Inr () \<and>
          fst (gke_resolve_cluster (km_cluster m') args (km_clusters m')) = Inr ct \<and>
          parse_addr (tls_host ct) = Some want \<and> unmap a = unmap want"
    if n: "equal_fold gke_provider_name name"
  proof -
    have "\<not> equal_fold eks_provider_name gke_provider_name" by code_simp
    then have "\<not> equal_fold eks_provider_name name" using n equal_fold_trans equal_fold_sym by blast
    with n have "find_provider ?ps name = Inr (gke_connector m' token)"
      by (simp add: eks_connector_def gke_connector_def)
    with ok have "fst (gke_authorizes_addr (km_cluster m') a (gke_parse (new_provider_args raw_args gke_provider_name))
        (km_clusters m')) = Inr True"
      by (auto simp: authorize_addr_Inr gke_connector_def)
    then obtain args where p: "gke_parse (new_provider_args raw_args gke_provider_name) = Inr args" "gke_validate args = Inr ()"
      and d: "fst (gke_authorizes_dial_ip (km_cluster m') a args (km_clusters m')) = Inr True"
      unfolding gke_authorizes_addr_def by (blast dest: kube_authorizes_addr_Inr)
    from d have "\<exists>ct want. fst (gke_resolve_cluster (km_cluster m') args (km_clusters m')) = Inr ct \<and>
        parse_addr (tls_host ct) = Some want \<and> unmap a = unmap want"
      by (auto simp: gke_authorizes_dial_ip_def split: if_splits prod.splits sum.splits option.splits)
    with p show ?thesis by blast
  qed
  with a show ?thesis by blast
qed

text \<open>The witness: a known GKE cluster is dialed at its address.\<close>

definition example_gke_args :: string where
  "example_gke_args =
     ''{\"gke_auth\":{\"cluster_name\":\"web\",\"location\":\"us-east1\",\"project\":\"42\"}}''"

definition example_moment :: "'c kube_moment" where
  "example_moment =
     \<lparr>km_policies = Map.empty,
      km_policy = \<lparr>cc_cancelled = None, cc_meanwhile = (\<lambda>items. items), cc_fetch = CallerDone KubeResolveFailed\<rparr>,
      km_clusters = Map.empty,
      km_cluster = \<lparr>cc_cancelled = None, cc_meanwhile = (\<lambda>items. items), cc_fetch = CallerDone KubeResolveFailed\<rparr>,
      km_resolver = (\<lambda>_. None)\<rparr>"

definition example_gke_moment :: "cluster_tls kube_moment" where
  "example_gke_moment = example_moment\<lparr>km_clusters := [''42/us-east1/web'' \<mapsto> \<lparr>tls_host = ''34.71.1.2'', tls_ca_data = []\<rparr>]\<rparr>"

definition example_self :: resolved_cluster where
  "example_self =
     \<lparr>rc_host = ''kube.example'', rc_authority = ''kube.example'', rc_port = [], rc_server_name = [], rc_ca_data = [],
      rc_mode = CredBearer, rc_token = [], rc_token_file = [], rc_client_cert = [], rc_client_key = []\<rparr>"

definition example_kube_registry :: "kube_error provider list" where
  "example_kube_registry =
     [eks_connector [] example_moment (Inr ()) (\<lambda>_ _. Inr []), gke_connector example_gke_moment (Inr []),
      aks_connector (\<lambda>_. None) (\<lambda>_. False) example_moment (Inr []),
      kubernetes_connector example_self example_moment (\<lambda>_. None)]"

lemma example_gke_parse:
  "gke_parse (new_provider_args example_gke_args gke_provider_name) =
     Inr (Some \<lparr>gke_cluster_name_arg = ''web'', gke_location = ''us-east1'', gke_project = ''42''\<rparr>)"
proof -
  have "(case gke_parse (new_provider_args example_gke_args gke_provider_name) of
     Inr (Some a) \<Rightarrow> (gke_cluster_name_arg a, gke_location a, gke_project a) = (''web'', ''us-east1'', ''42'') | _ \<Rightarrow> False)"
    by code_simp
  then show ?thesis by (auto split: sum.splits option.splits)
qed

lemma example_gke_dial: "dial_guard ''gke'' example_kube_registry example_gke_args ''34.71.1.2:443'' = Inr ()"
proof -
  have a: "dial_address ''34.71.1.2:443'' = Some (V4 (quad 34 71 1 2))" "parse_addr ''34.71.1.2'' = Some (V4 (quad 34 71 1 2))"
    "\<not> floor_forbidden (V4 (quad 34 71 1 2))" "\<not> equal_fold eks_provider_name ''gke''" "equal_fold gke_provider_name ''gke''"
    by code_simp+
  have f: "find_provider example_kube_registry ''gke'' = Inr (gke_connector example_gke_moment (Inr []))"
    using a(4,5) by (simp add: example_kube_registry_def eks_connector_def gke_connector_def)
  have r: "gke_resolve_cluster (km_cluster example_gke_moment)
      (Some \<lparr>gke_cluster_name_arg = ''web'', gke_location = ''us-east1'', gke_project = ''42''\<rparr>) (km_clusters example_gke_moment) =
      (Inr \<lparr>tls_host = ''34.71.1.2'', tls_ca_data = []\<rparr>, km_clusters example_gke_moment)"
    by (simp add: gke_resolve_cluster_def bootstrap_get_def sync_get_def gke_cache_key_def example_gke_moment_def)
  have "fst (gke_authorizes_addr (km_cluster example_gke_moment) (V4 (quad 34 71 1 2))
      (gke_parse (new_provider_args example_gke_args gke_provider_name)) (km_clusters example_gke_moment)) = Inr True"
    unfolding example_gke_parse gke_authorizes_addr_def kube_authorizes_addr_def gke_authorizes_dial_ip_def
    using a(2,3) by (simp add: example_gke_accepted r)
  with f have "authorize_addr ''gke'' (V4 (quad 34 71 1 2)) example_kube_registry example_gke_args = Inr ()"
    by (simp add: authorize_addr_Inr gke_connector_def)
  with a(1) show ?thesis by (simp add: dial_guard_Inr)
qed

theorem kube_dials_pinned_witness:
  "dial_guard ''gke'' example_kube_registry example_gke_args ''34.71.1.2:443'' = Inr () \<and>
   (\<exists>a. dial_address ''34.71.1.2:443'' = Some a \<and> \<not> floor_forbidden a)"
  using kube_dials_pinned [OF example_gke_dial [unfolded example_kube_registry_def]] example_gke_dial by blast

end
