(* ===== verification/Aws_Model.thy ===== *)
theory Aws_Model
  imports Json_Decode "HOL-Library.Multiset" "HOL-Library.Char_ord" "HOL-Library.List_Lexorder"
begin

text \<open>
  The service metadata of the AWS gate, package \<open>auth/aws\<close>: Smithy models (\<open>smithy.go\<close>),
  the archive they come from (\<open>archive.go\<close>), the Service Reference documents
  (\<open>serviceref.go\<close>) and the IAM dataset (\<open>iamdataset.go\<close>). A Go map is the list of its
  entries, its order the order one run iterates in. Unpacking the archive, its digest and the
  files around it are passed in.
\<close>

subsection \<open>smithy.go\<close>

datatype aws_protocol =
    ProtocolUnknown
  | ProtocolRestXML
  | ProtocolRestJSON1
  | ProtocolAWSJSON10
  | ProtocolAWSJSON11
  | ProtocolAWSQuery
  | ProtocolEC2Query

record aws_operation =
  op_http_method :: string
  op_uri_template :: string
  op_required_query :: "string list"
  op_required_header :: "string list"

record service_model =
  sm_dir :: string
  sm_sdk_id :: string
  sm_arn_namespace :: string
  sm_endpoint_prefix :: string
  sm_signing_name :: string
  sm_namespace_shadowed :: bool
  sm_protocol :: aws_protocol
  sm_operations :: "(string \<times> aws_operation) list"

type_synonym traits = "(string \<times> json) list"

record smithy_doc =
  sd_smithy :: string
  sd_shapes :: "(string \<times> json) list"

record smithy_shape =
  ss_type :: string
  ss_traits :: traits
  ss_input_target :: string
  ss_members :: "(string \<times> traits) list"

definition decode_doc_member :: "string \<Rightarrow> json \<Rightarrow> smithy_doc \<Rightarrow> smithy_doc option" where
  "decode_doc_member k v d =
     (if equal_fold k ''smithy'' then map_option (\<lambda>x. d\<lparr>sd_smithy := x\<rparr>) (decode_text v (sd_smithy d))
      else if equal_fold k ''shapes'' then map_option (\<lambda>x. d\<lparr>sd_shapes := x\<rparr>) (decode_map Some v (sd_shapes d))
      else Some d)"

definition decode_traits_member :: "string \<Rightarrow> json \<Rightarrow> traits \<Rightarrow> traits option" where
  "decode_traits_member k v t = (if equal_fold k ''traits'' then decode_map Some v t else Some t)"

definition decode_target_member :: "string \<Rightarrow> json \<Rightarrow> string \<Rightarrow> string option" where
  "decode_target_member k v t = (if equal_fold k ''target'' then decode_text v t else Some t)"

definition decode_shape_member :: "string \<Rightarrow> json \<Rightarrow> smithy_shape \<Rightarrow> smithy_shape option" where
  "decode_shape_member k v sh =
     (if equal_fold k ''type'' then map_option (\<lambda>x. sh\<lparr>ss_type := x\<rparr>) (decode_text v (ss_type sh))
      else if equal_fold k ''traits'' then map_option (\<lambda>x. sh\<lparr>ss_traits := x\<rparr>) (decode_map Some v (ss_traits sh))
      else if equal_fold k ''input'' then
        map_option (\<lambda>x. sh\<lparr>ss_input_target := x\<rparr>) (decode_struct decode_target_member v (ss_input_target sh))
      else if equal_fold k ''members'' then
        map_option (\<lambda>x. sh\<lparr>ss_members := x\<rparr>)
          (decode_map (\<lambda>j. decode_struct decode_traits_member j []) v (ss_members sh))
      else Some sh)"

definition decode_shape :: "json \<Rightarrow> smithy_shape option" where
  "decode_shape j =
     decode_struct decode_shape_member j \<lparr>ss_type = [], ss_traits = [], ss_input_target = [], ss_members = []\<rparr>"

definition decode_smithy_doc :: "string \<Rightarrow> smithy_doc option" where
  "decode_smithy_doc raw = unmarshal_into (\<lambda>j. decode_struct decode_doc_member j \<lparr>sd_smithy = [], sd_shapes = []\<rparr>) raw"

record aws_api_service =
  svc_sdk_id :: string
  svc_arn_namespace :: string
  svc_endpoint_prefix :: string

definition decode_service_member :: "string \<Rightarrow> json \<Rightarrow> aws_api_service \<Rightarrow> aws_api_service option" where
  "decode_service_member k v s =
     (if equal_fold k ''sdkId'' then map_option (\<lambda>x. s\<lparr>svc_sdk_id := x\<rparr>) (decode_text v (svc_sdk_id s))
      else if equal_fold k ''arnNamespace'' then
        map_option (\<lambda>x. s\<lparr>svc_arn_namespace := x\<rparr>) (decode_text v (svc_arn_namespace s))
      else if equal_fold k ''endpointPrefix'' then
        map_option (\<lambda>x. s\<lparr>svc_endpoint_prefix := x\<rparr>) (decode_text v (svc_endpoint_prefix s))
      else Some s)"

definition decode_api_service :: "json \<Rightarrow> aws_api_service option" where
  "decode_api_service j =
     decode_struct decode_service_member j \<lparr>svc_sdk_id = [], svc_arn_namespace = [], svc_endpoint_prefix = []\<rparr>"

text \<open>\<open>traitName\<close>: a string trait, or the empty string.\<close>

definition trait_name :: "json option \<Rightarrow> string" where
  "trait_name raw = (case raw of Some (JStr s) \<Rightarrow> s | _ \<Rightarrow> [])"

text \<open>An absent input shape decodes to no members.\<close>

definition input_members :: "smithy_doc \<Rightarrow> string \<Rightarrow> (string \<times> traits) list" where
  "input_members doc target =
     (case Option.bind (map_of (sd_shapes doc) target) decode_shape of Some sh \<Rightarrow> ss_members sh | None \<Rightarrow> [])"

definition member_discriminator :: "string \<Rightarrow> traits \<Rightarrow> string list" where
  "member_discriminator trait m =
     (if map_of m ''smithy.api#required'' = None then []
      else let name = trait_name (map_of m trait) in if name \<noteq> [] then [name] else [])"

definition input_discriminators :: "smithy_doc \<Rightarrow> string \<Rightarrow> string list \<times> string list" where
  "input_discriminators doc target =
     (let ms = map snd (input_members doc target) in
      (concat (map (member_discriminator ''smithy.api#httpQuery'') ms),
       concat (map (member_discriminator ''smithy.api#httpHeader'') ms)))"

text \<open>The endpoint ruleset decoded into an \<open>any\<close>: repeated members replaced, no overflowing number.\<close>

fun any_decodes :: "json \<Rightarrow> bool" where
  "any_decodes (JNum t) = (case parse_number t of Some ((overflow, _), _) \<Rightarrow> \<not> overflow | None \<Rightarrow> True)"
| "any_decodes (JArr js) = list_all any_decodes js"
| "any_decodes (JObj kvs) = list_all (\<lambda>kv. any_decodes (snd kv)) kvs"
| "any_decodes _ = True"

fun put_all :: "(string \<times> 'a) list \<Rightarrow> (string \<times> 'a) list \<Rightarrow> (string \<times> 'a) list" where
  "put_all [] m = m"
| "put_all ((k, v) # kvs) m = put_all kvs (map_put k v m)"

fun norm_any :: "json \<Rightarrow> json" where
  "norm_any (JArr js) = JArr (map norm_any js)"
| "norm_any (JObj kvs) = JObj (put_all (map (\<lambda>kv. (fst kv, norm_any (snd kv))) kvs) [])"
| "norm_any j = j"

fun collect_urls :: "json \<Rightarrow> string list" where
  "collect_urls (JObj kvs) =
     concat (map (\<lambda>kv. (if fst kv = ''url'' then (case snd kv of JStr s \<Rightarrow> [s] | _ \<Rightarrow> []) else []) @ collect_urls (snd kv)) kvs)"
| "collect_urls (JArr js) = concat (map collect_urls js)"
| "collect_urls _ = []"

definition url_candidate :: "string \<Rightarrow> string option" where
  "url_candidate u =
     (if \<not> has_prefix u ''https://'' then None
      else let host0 = drop (length ''https://'') u;
               host = (case str_index host0 ''/'' of Some i \<Rightarrow> take i host0 | None \<Rightarrow> host0);
               (cand, _, ok) = str_cut host ''.{''
        in if \<not> ok then None
           else if cand = [] \<or> str_contains cand ''{'' \<or> str_contains (to_lower cand) ''fips'' then None
           else Some cand)"

fun best_prefix :: "string list \<Rightarrow> string \<Rightarrow> string" where
  "best_prefix [] best = best"
| "best_prefix (u # us) best =
     (case url_candidate u of
        None \<Rightarrow> best_prefix us best
      | Some cand \<Rightarrow>
          best_prefix us
            (if best = [] \<or> length cand < length best \<or> (length cand = length best \<and> cand < best) then cand else best))"

definition prefix_from_ruleset :: "json \<Rightarrow> string" where
  "prefix_from_ruleset raw = (if any_decodes raw then best_prefix (collect_urls (norm_any raw)) [] else [])"

definition extract_endpoint_prefix :: "traits \<Rightarrow> string" where
  "extract_endpoint_prefix ts =
     (case Option.bind (map_of ts ''aws.api#service'') decode_api_service of
        Some svc \<Rightarrow>
          if svc_endpoint_prefix svc \<noteq> [] then svc_endpoint_prefix svc
          else (case map_of ts ''smithy.rules#endpointRuleSet'' of Some raw \<Rightarrow> prefix_from_ruleset raw | None \<Rightarrow> [])
      | None \<Rightarrow> (case map_of ts ''smithy.rules#endpointRuleSet'' of Some raw \<Rightarrow> prefix_from_ruleset raw | None \<Rightarrow> []))"

definition decode_name_member :: "string \<Rightarrow> json \<Rightarrow> string \<Rightarrow> string option" where
  "decode_name_member k v n = (if equal_fold k ''name'' then decode_text v n else Some n)"

definition extract_signing_name :: "traits \<Rightarrow> string" where
  "extract_signing_name ts =
     (case Option.bind (map_of ts ''aws.auth#sigv4'') (\<lambda>j. decode_struct decode_name_member j []) of
        Some n \<Rightarrow> n | None \<Rightarrow> [])"

definition has_trait :: "traits \<Rightarrow> string \<Rightarrow> bool" where
  "has_trait ts k \<longleftrightarrow> map_of ts k \<noteq> None"

definition detect_protocol :: "traits \<Rightarrow> aws_protocol" where
  "detect_protocol ts =
     (if has_trait ts ''aws.protocols#restXml'' then ProtocolRestXML
      else if has_trait ts ''aws.protocols#restJson1'' then ProtocolRestJSON1
      else if has_trait ts ''aws.protocols#awsJson1_0'' then ProtocolAWSJSON10
      else if has_trait ts ''aws.protocols#awsJson1_1'' then ProtocolAWSJSON11
      else if has_trait ts ''aws.protocols#awsQuery'' then ProtocolAWSQuery
      else if has_trait ts ''aws.protocols#ec2Query'' then ProtocolEC2Query
      else ProtocolUnknown)"

definition short_name :: "string \<Rightarrow> string" where
  "short_name fq = (case last_index_char fq CHR ''#'' of Some i \<Rightarrow> drop (i + 1) fq | None \<Rightarrow> fq)"

definition decode_service :: "traits \<Rightarrow> service_model \<Rightarrow> service_model option" where
  "decode_service ts sm =
     (let named = (case map_of ts ''aws.api#service'' of
            None \<Rightarrow> Some sm
          | Some raw \<Rightarrow>
              map_option (\<lambda>svc. sm\<lparr>sm_arn_namespace := svc_arn_namespace svc, sm_sdk_id := svc_sdk_id svc\<rparr>)
                (decode_api_service raw))
      in map_option (\<lambda>sm1.
           let prefix = extract_endpoint_prefix ts; signing = extract_signing_name ts in
           sm1\<lparr>sm_endpoint_prefix := prefix, sm_signing_name := (if signing = [] then prefix else signing),
               sm_protocol := detect_protocol ts\<rparr>) named)"

definition decode_http_member :: "string \<Rightarrow> json \<Rightarrow> string \<times> string \<Rightarrow> (string \<times> string) option" where
  "decode_http_member k v h =
     (if equal_fold k ''method'' then map_option (\<lambda>x. (x, snd h)) (decode_text v (fst h))
      else if equal_fold k ''uri'' then map_option (\<lambda>x. (fst h, x)) (decode_text v (snd h))
      else Some h)"

definition decode_operation :: "smithy_doc \<Rightarrow> smithy_shape \<Rightarrow> aws_operation option" where
  "decode_operation doc sh =
     map_option (\<lambda>(m, uri).
         let (rq, rh) = input_discriminators doc (ss_input_target sh) in
         \<lparr>op_http_method = m, op_uri_template = uri, op_required_query = rq, op_required_header = rh\<rparr>)
       (case map_of (ss_traits sh) ''smithy.api#http'' of
          None \<Rightarrow> Some ([], [])
        | Some raw \<Rightarrow> decode_struct decode_http_member raw ([], []))"

definition service_shape_type :: string where
  "service_shape_type = ''service''"

text \<open>The shapes one after another; the flag is \<open>sawSvc\<close>.\<close>

fun parse_shapes :: "smithy_doc \<Rightarrow> (string \<times> json) list \<Rightarrow> service_model \<Rightarrow> bool \<Rightarrow> (service_model \<times> bool) option" where
  "parse_shapes doc [] sm saw = Some (sm, saw)"
| "parse_shapes doc ((fq, raw) # shapes) sm saw =
     (case decode_shape raw of
        None \<Rightarrow> None
      | Some sh \<Rightarrow>
          if ss_type sh = service_shape_type then
            (case decode_service (ss_traits sh) sm of None \<Rightarrow> None | Some sm' \<Rightarrow> parse_shapes doc shapes sm' True)
          else if ss_type sh = ''operation'' then
            (case decode_operation doc sh of
               None \<Rightarrow> None
             | Some op1 \<Rightarrow>
                 parse_shapes doc shapes (sm\<lparr>sm_operations := map_put (short_name fq) op1 (sm_operations sm)\<rparr>) saw)
          else parse_shapes doc shapes sm saw)"

definition parse_model :: "string \<Rightarrow> service_model option" where
  "parse_model raw =
     (case decode_smithy_doc raw of
        None \<Rightarrow> None
      | Some doc \<Rightarrow>
          if \<not> has_prefix (sd_smithy doc) ''2.'' then None
          else (case parse_shapes doc (sd_shapes doc)
                   \<lparr>sm_dir = [], sm_sdk_id = [], sm_arn_namespace = [], sm_endpoint_prefix = [], sm_signing_name = [],
                    sm_namespace_shadowed = False, sm_protocol = ProtocolUnknown, sm_operations = []\<rparr> False of
              None \<Rightarrow> None
            | Some (sm, saw) \<Rightarrow>
                if \<not> saw then None
                else if sm_protocol sm = ProtocolUnknown then None
                else if sm_endpoint_prefix sm = [] then None
                else Some sm))"

subsection \<open>serviceref.go\<close>

record sr_operation =
  sr_authorized_actions :: "string list"
  sr_sdk_names :: "string list"

record service_ref_model =
  sr_service :: string
  sr_operations :: "(string \<times> sr_operation) list"

record sr_raw_operation =
  sro_name :: string
  sro_actions :: "(string \<times> string) slice"  \<comment> \<open>name and service\<close>
  sro_sdk :: "string slice"

definition decode_action_member :: "string \<Rightarrow> json \<Rightarrow> string \<times> string \<Rightarrow> (string \<times> string) option" where
  "decode_action_member k v a =
     (if equal_fold k ''Name'' then map_option (\<lambda>x. (x, snd a)) (decode_text v (fst a))
      else if equal_fold k ''Service'' then map_option (\<lambda>x. (fst a, x)) (decode_text v (snd a))
      else Some a)"

definition decode_sr_operation_member :: "string \<Rightarrow> json \<Rightarrow> sr_raw_operation \<Rightarrow> sr_raw_operation option" where
  "decode_sr_operation_member k v r =
     (if equal_fold k ''Name'' then map_option (\<lambda>x. r\<lparr>sro_name := x\<rparr>) (decode_text v (sro_name r))
      else if equal_fold k ''AuthorizedActions'' then
        map_option (\<lambda>x. r\<lparr>sro_actions := x\<rparr>)
          (decode_slice (decode_struct decode_action_member) ([], []) v (sro_actions r))
      else if equal_fold k ''SDK'' then
        map_option (\<lambda>x. r\<lparr>sro_sdk := x\<rparr>) (decode_slice (decode_struct decode_name_member) [] v (sro_sdk r))
      else Some r)"

definition decode_sr_doc_member ::
    "string \<Rightarrow> json \<Rightarrow> string \<times> sr_raw_operation slice \<Rightarrow> (string \<times> sr_raw_operation slice) option" where
  "decode_sr_doc_member k v d =
     (if equal_fold k ''Name'' then map_option (\<lambda>x. (x, snd d)) (decode_text v (fst d))
      else if equal_fold k ''Operations'' then
        map_option (\<lambda>x. (fst d, x))
          (decode_slice (decode_struct decode_sr_operation_member)
             \<lparr>sro_name = [], sro_actions = ([], 0), sro_sdk = ([], 0)\<rparr> v (snd d))
      else Some d)"

definition sr_operation_of :: "sr_raw_operation \<Rightarrow> sr_operation" where
  "sr_operation_of r =
     \<lparr>sr_authorized_actions =
        foldl append_new [] (map (\<lambda>(name, service). service @ '':'' @ name) (slice_elems (sro_actions r))),
      sr_sdk_names = slice_elems (sro_sdk r)\<rparr>"

definition parse_service_ref :: "string \<Rightarrow> service_ref_model option" where
  "parse_service_ref raw =
     (case unmarshal_into (\<lambda>j. decode_struct decode_sr_doc_member j ([], ([], 0))) raw of
        None \<Rightarrow> None
      | Some (name, ops) \<Rightarrow>
          if name = [] then None
          else Some \<lparr>sr_service = name,
            sr_operations = put_all (map (\<lambda>r. (sro_name r, sr_operation_of r)) (slice_elems ops)) []\<rparr>)"

subsection \<open>iamdataset.go\<close>

record iam_dataset =
  ds_method_map :: "(string \<times> string list) list"
  ds_fold :: "(string \<times> string) list"
  ds_norm_fold :: "(string \<times> string list) list"
  ds_prefix :: "(string \<times> string list) list"

text \<open>Reading a missing key of a map of slices gives the nil slice.\<close>

definition get_list :: "(string \<times> 'a list) list \<Rightarrow> string \<Rightarrow> 'a list" where
  "get_list m k = (case map_of m k of Some xs \<Rightarrow> xs | None \<Rightarrow> [])"

definition normalize_sdk_id :: "string \<Rightarrow> string" where
  "normalize_sdk_id s =
     filter (\<lambda>c. (97 \<le> byte_val c \<and> byte_val c \<le> 122) \<or> (48 \<le> byte_val c \<and> byte_val c \<le> 57)) (to_lower s)"

type_synonym dataset_doc = "(string \<times> string list) list \<times> (string \<times> string) list"

definition decode_iam_action_member :: "string \<Rightarrow> json \<Rightarrow> string \<Rightarrow> string option" where
  "decode_iam_action_member k v a = (if equal_fold k ''action'' then decode_text v a else Some a)"

definition decode_dataset_member :: "string \<Rightarrow> json \<Rightarrow> dataset_doc \<Rightarrow> dataset_doc option" where
  "decode_dataset_member k v d =
     (if equal_fold k ''sdk_method_iam_mappings'' then
        map_option (\<lambda>x. (x, snd d))
          (decode_map (\<lambda>j. map_option slice_elems (decode_slice (decode_struct decode_iam_action_member) [] j ([], 0))) v (fst d))
      else if equal_fold k ''sdk_service_mappings'' then
        map_option (\<lambda>x. (fst d, x)) (decode_map (\<lambda>j. decode_text j []) v (snd d))
      else Some d)"

definition index_method :: "string \<times> string list \<Rightarrow> iam_dataset \<Rightarrow> iam_dataset" where
  "index_method e d =
     (let (key, acts) = e; d1 = d\<lparr>ds_method_map := map_put key acts (ds_method_map d)\<rparr>;
          (sdk_id, _, ok) = str_cut key ''.'' in
      if \<not> ok then d1
      else let n = normalize_sdk_id sdk_id; old = get_list (ds_norm_fold d1) n in
        d1\<lparr>ds_fold := map_put (to_lower sdk_id) sdk_id (ds_fold d1),
           ds_norm_fold := (if sdk_id \<in> set old then ds_norm_fold d1 else map_put n (old @ [sdk_id]) (ds_norm_fold d1))\<rparr>)"

definition index_service :: "string \<times> string \<Rightarrow> iam_dataset \<Rightarrow> iam_dataset" where
  "index_service e d =
     (let (sdk_id, pfx) = e in d\<lparr>ds_prefix := map_put pfx (get_list (ds_prefix d) pfx @ [sdk_id]) (ds_prefix d)\<rparr>)"

text \<open>The indexes built from the decoded maps, in the order they are iterated.\<close>

definition index_dataset :: "dataset_doc \<Rightarrow> iam_dataset option" where
  "index_dataset doc =
     (if length (fst doc) = 0 then None
      else Some (fold index_service (snd doc) (fold index_method (fst doc)
        \<lparr>ds_method_map = [], ds_fold = [], ds_norm_fold = [], ds_prefix = []\<rparr>)))"

definition parse_iam_dataset :: "string \<Rightarrow> iam_dataset option" where
  "parse_iam_dataset raw =
     Option.bind (unmarshal_into (\<lambda>j. decode_struct decode_dataset_member j ([], [])) raw) index_dataset"

fun first_hit :: "(string \<times> string list) list \<Rightarrow> string list \<Rightarrow> string \<Rightarrow> string list option" where
  "first_hit m [] op1 = None"
| "first_hit m (sdk # sdks) op1 = (case map_of m (sdk @ ''.'' @ op1) of Some acts \<Rightarrow> Some acts | None \<Rightarrow> first_hit m sdks op1)"

definition dataset_lookup :: "iam_dataset \<Rightarrow> string \<Rightarrow> string list \<Rightarrow> string \<Rightarrow> string list" where
  "dataset_lookup d service boto_names op1 =
     (let names = (if length boto_names = 0 then [service] else boto_names) in
      case first_hit (ds_method_map d) (List.map_filter (map_of (ds_fold d)) names) op1 of
        Some acts \<Rightarrow> acts
      | None \<Rightarrow>
          (case first_hit (ds_method_map d) (concat (map (get_list (ds_prefix d)) names)) op1 of
             Some acts \<Rightarrow> acts | None \<Rightarrow> []))"

definition dataset_lookup_sdk_id :: "iam_dataset \<Rightarrow> string \<Rightarrow> string \<Rightarrow> string list" where
  "dataset_lookup_sdk_id d sdk_id op1 =
     foldl append_new []
       (concat (map (\<lambda>i. get_list (ds_method_map d) (i @ ''.'' @ op1)) (sort (get_list (ds_norm_fold d) (normalize_sdk_id sdk_id)))))"

subsection \<open>What the indexes hold\<close>

definition dataset_ids :: "(string \<times> string list) list \<Rightarrow> string \<Rightarrow> string set" where
  "dataset_ids kvs n = {i. \<exists>e rest. e \<in> set kvs \<and> str_cut (fst e) ''.'' = (i, rest, True) \<and> normalize_sdk_id i = n}"

lemma get_list_put: "get_list (map_put k v m) k' = (if k' = k then v else get_list m k')"
  by (simp add: get_list_def map_of_map_put)

lemma index_method_norm:
  "set (get_list (ds_norm_fold (index_method e d)) n) = set (get_list (ds_norm_fold d) n) \<union> dataset_ids [e] n"
  "distinct (get_list (ds_norm_fold d) n) \<Longrightarrow> distinct (get_list (ds_norm_fold (index_method e d)) n)"
  by (cases e; cases "str_cut (fst e) ''.''"; auto simp: index_method_def dataset_ids_def Let_def get_list_put)+

lemma index_method_map: "ds_method_map (index_method e d) = map_put (fst e) (snd e) (ds_method_map d)"
  by (cases e) (simp add: index_method_def Let_def split: prod.splits)

lemma dataset_ids_Cons: "dataset_ids (e # kvs) n = dataset_ids [e] n \<union> dataset_ids kvs n"
  by (cases e) (auto simp: dataset_ids_def)

lemma fold_index_method:
  "set (get_list (ds_norm_fold (fold index_method kvs d)) n) = set (get_list (ds_norm_fold d) n) \<union> dataset_ids kvs n"
  "distinct (get_list (ds_norm_fold d) n) \<Longrightarrow> distinct (get_list (ds_norm_fold (fold index_method kvs d)) n)"
  "distinct (map fst kvs) \<Longrightarrow>
     map_of (ds_method_map (fold index_method kvs d)) k =
       (case map_of kvs k of Some v \<Rightarrow> Some v | None \<Rightarrow> map_of (ds_method_map d) k)"
proof (induction kvs arbitrary: d)
  case Nil
  { case 1 show ?case by (simp add: dataset_ids_def) }
  { case 2 then show ?case by simp }
  { case 3 show ?case by simp }
next
  case (Cons e kvs)
  { case 1 show ?case
      using Cons.IH(1) [of "index_method e d"] index_method_norm(1) [of e d n] dataset_ids_Cons [of e kvs n] by auto }
  { case 2 then show ?case using Cons.IH(2) index_method_norm(2) by simp }
  { case 3
    then have k: "map_of kvs (fst e) = None" by (simp add: map_of_eq_None_iff)
    show ?case using Cons.IH(3) [of "index_method e d"] 3 k
      by (cases e) (auto simp: index_method_map map_of_map_put split: option.splits) }
qed

lemma fold_index_service:
  "ds_method_map (fold index_service svcs d) = ds_method_map d"
  "ds_norm_fold (fold index_service svcs d) = ds_norm_fold d"
  by (induction svcs arbitrary: d) (auto simp: index_service_def split: prod.splits)

lemma dataset_lookup_sdk_id_eq:
  assumes "index_dataset (kvs, svcs) = Some d" "distinct (map fst kvs)"
  shows "dataset_lookup_sdk_id d sdk op1 =
    foldl append_new [] (concat (map (\<lambda>i. get_list kvs (i @ ''.'' @ op1))
      (sorted_list_of_set (dataset_ids kvs (normalize_sdk_id sdk)))))"
proof -
  let ?n = "normalize_sdk_id sdk"
  let ?d0 = "\<lparr>ds_method_map = [], ds_fold = [], ds_norm_fold = [], ds_prefix = []\<rparr>"
  have d: "d = fold index_service svcs (fold index_method kvs ?d0)" using assms(1) by (simp add: index_dataset_def split: if_splits)
  have m: "get_list (ds_method_map d) k = get_list kvs k" for k
    using fold_index_method(3) [OF assms(2), of ?d0 k]
    unfolding get_list_def d fold_index_service(1) by (simp split: option.splits)
  have s: "set (get_list (ds_norm_fold d) ?n) = dataset_ids kvs ?n"
    using fold_index_method(1) [of kvs ?d0 ?n] unfolding d fold_index_service(2) by (simp add: get_list_def)
  have "distinct (get_list (ds_norm_fold d) ?n)"
    unfolding d fold_index_service(2) by (rule fold_index_method(2)) (simp add: get_list_def)
  then have "sort (get_list (ds_norm_fold d) ?n) = sorted_list_of_set (dataset_ids kvs ?n)"
    using s sorted_list_of_set_sort_remdups [of "get_list (ds_norm_fold d) ?n"] by (simp add: distinct_remdups_id)
  with m show ?thesis by (simp add: dataset_lookup_sdk_id_def)
qed

text \<open>
  Which actions the IAM dataset gives for an SDK id does not depend on the order in which Go
  iterates the decoded maps: any two orders of the same document's entries answer alike. This is
  the tier a service whose IAM namespace belongs to another one is authorized by.
\<close>

theorem sdk_id_lookup_order_free:
  assumes "index_dataset (kvs, svcs) = Some d" "index_dataset (kvs', svcs') = Some d'"
    and "mset kvs = mset kvs'" "distinct (map fst kvs)"
  shows "dataset_lookup_sdk_id d sdk op1 = dataset_lookup_sdk_id d' sdk op1"
proof -
  have s: "set kvs = set kvs'" using assms(3) by (rule mset_eq_setD)
  have ds: "distinct (map fst kvs')" using assms(3,4) by (metis mset_map mset_eq_imp_distinct_iff)
  have "map_of kvs = map_of kvs'" using map_of_inject_set [OF assms(4) ds] s by blast
  then have "get_list kvs = get_list kvs'" by (simp add: get_list_def fun_eq_iff)
  moreover have "dataset_ids kvs n = dataset_ids kvs' n" for n by (simp add: dataset_ids_def s)
  ultimately show ?thesis
    unfolding dataset_lookup_sdk_id_eq [OF assms(1,4)] dataset_lookup_sdk_id_eq [OF assms(2) ds] by simp
qed

text \<open>The witness, with two spellings of one SDK id.\<close>

definition example_mappings :: "(string \<times> string list) list" where
  "example_mappings = [(''IoT.ListThings'', [''iot:ListThings'']), (''Iot.ListThings'', [''iot:SearchIndex''])]"

theorem sdk_id_lookup_order_free_witness:
  "\<exists>d d'. index_dataset (example_mappings, []) = Some d \<and> index_dataset (rev example_mappings, []) = Some d' \<and>
     dataset_lookup_sdk_id d ''IoT'' ''ListThings'' = dataset_lookup_sdk_id d' ''IoT'' ''ListThings'' \<and>
     dataset_lookup_sdk_id d ''IoT'' ''ListThings'' = [''iot:ListThings'', ''iot:SearchIndex'']"
proof -
  obtain d d' where d: "index_dataset (example_mappings, []) = Some d" "index_dataset (rev example_mappings, []) = Some d'"
    by (simp add: index_dataset_def example_mappings_def)
  have "map_option (\<lambda>d. dataset_lookup_sdk_id d ''IoT'' ''ListThings'') (index_dataset (example_mappings, [])) =
      Some [''iot:ListThings'', ''iot:SearchIndex'']" by code_simp
  then have v: "dataset_lookup_sdk_id d ''IoT'' ''ListThings'' = [''iot:ListThings'', ''iot:SearchIndex'']"
    unfolding d(1) option.map by (rule option.inject [THEN iffD1])
  have "mset example_mappings = mset (rev example_mappings)" "distinct (map fst example_mappings)"
    by (simp_all add: example_mappings_def)
  from sdk_id_lookup_order_free [OF d this, of "''IoT''" "''ListThings''"] v d show ?thesis by (intro exI conjI)
qed


end
