(* ===== verification/Aws_Host.thy ===== *)
theory Aws_Host
  imports Host_Admission
begin

text \<open>
  \<open>network.go\<close> of package \<open>auth/aws\<close>: which service, region and partition a host belongs to, and
  whether it agrees with what the model claims. \<open>to_ascii\<close> stands for \<open>idna.Lookup.ToASCII\<close>.
\<close>

record parsed_host =
  ph_service :: string
  ph_region :: string
  ph_partition :: string
  ph_bucket_in_host :: bool

datatype aws_host_error = HostPattern | HostClaimMismatch

definition partition_standard :: string where "partition_standard = ''aws''"
definition partition_china :: string where "partition_china = ''aws-cn''"
definition partition_gov_cloud :: string where "partition_gov_cloud = ''aws-us-gov''"
definition s3_global_region :: string where "s3_global_region = ''us-east-1''"
definition china_global_region :: string where "china_global_region = ''cn-north-1''"
definition gov_cloud_global_region :: string where "gov_cloud_global_region = ''us-gov-west-1''"
definition s3_global_host :: string where "s3_global_host = ''s3.amazonaws.com''"
definition s3_control_prefix :: string where "s3_control_prefix = ''s3-control''"
definition std_suffix :: string where "std_suffix = ''.amazonaws.com''"

definition plain_host :: "string \<Rightarrow> string \<Rightarrow> parsed_host" where
  "plain_host service region =
     \<lparr>ph_service = service, ph_region = region, ph_partition = [], ph_bucket_in_host = False\<rparr>"

definition canonical_global_region :: "parsed_host \<Rightarrow> string" where
  "canonical_global_region p =
     (if ph_partition p = partition_china then china_global_region
      else if ph_partition p = partition_gov_cloud then gov_cloud_global_region
      else s3_global_region)"

definition is_vpc_endpoint :: "string \<Rightarrow> bool" where
  "is_vpc_endpoint host = has_prefix host ''vpce-''"

definition is_aws_account_id :: "string \<Rightarrow> bool" where
  "is_aws_account_id s \<longleftrightarrow> length s = 12 \<and> list_all (\<lambda>c. 48 \<le> byte_val c \<and> byte_val c \<le> 57) s"

definition has_account_suffix :: "string \<Rightarrow> bool" where
  "has_account_suffix label =
     (case last_index_char label CHR ''-'' of
        None \<Rightarrow> False
      | Some i \<Rightarrow> if i = 0 then False else is_aws_account_id (drop (i + 1) label))"

text \<open>The two loops of \<open>matchAccountScopedS3\<close>: the first suffix that cuts, the first prefix that does.\<close>

fun first_cut_suffix :: "string \<Rightarrow> string list \<Rightarrow> string option" where
  "first_cut_suffix s [] = None"
| "first_cut_suffix s (x # xs) = (case cut_suffix s x of Some b \<Rightarrow> Some b | None \<Rightarrow> first_cut_suffix s xs)"

fun scoped_region :: "string \<Rightarrow> string list \<Rightarrow> string option" where
  "scoped_region body [] = None"
| "scoped_region body (p # ps) =
     (case cut_prefix body p of
        None \<Rightarrow> scoped_region body ps
      | Some after \<Rightarrow>
          (case cut_prefix after ''.'' of
             None \<Rightarrow> None
           | Some region0 \<Rightarrow>
               let region = trim_prefix region0 ''dualstack.'' in
               if region = [] \<or> str_contains region ''.'' then None else Some region))"

definition match_account_scoped_s3 :: "string \<Rightarrow> string \<Rightarrow> (string \<Rightarrow> bool) \<Rightarrow> string option" where
  "match_account_scoped_s3 host infix_name leading_ok =
     (let (leading, rest, ok) = str_cut host ''.'' in
      if \<not> ok \<or> \<not> leading_ok leading then None
      else (case first_cut_suffix rest [''.amazonaws.com.cn'', ''.amazonaws.com''] of
          None \<Rightarrow> None
        | Some body \<Rightarrow> scoped_region body [infix_name @ ''-fips'', infix_name]))"

definition try_s3_control :: "string \<Rightarrow> parsed_host option" where
  "try_s3_control host =
     map_option (\<lambda>region. plain_host s3_control_prefix region)
       (match_account_scoped_s3 host s3_control_prefix is_aws_account_id)"

definition try_s3_access_point :: "string \<Rightarrow> parsed_host option" where
  "try_s3_access_point host =
     map_option (\<lambda>region. (plain_host ''s3'' region)\<lparr>ph_bucket_in_host := True\<rparr>)
       (match_account_scoped_s3 host ''s3-accesspoint'' has_account_suffix)"

definition partition_for_suffix :: "string \<Rightarrow> string" where
  "partition_for_suffix suffix =
     (if suffix = ''.amazonaws.com.cn'' then partition_china
      else if suffix = ''.us-gov.amazonaws.com'' then partition_gov_cloud
      else partition_standard)"

definition parse_standard_partition :: "string \<Rightarrow> string \<Rightarrow> (aws_host_error, parsed_host) result" where
  "parse_standard_partition host suffix =
     (let body = trim_prefix (trim_suffix host suffix) ''.'' in
      if body = [] then Inl HostPattern
      else let part = partition_for_suffix suffix; parts = split_on CHR ''.'' body in
        if length parts = 1 then Inr ((plain_host (parts ! 0) [])\<lparr>ph_partition := part\<rparr>)
        else Inr ((plain_host (join ''.'' (butlast parts)) (last parts))\<lparr>ph_partition := part\<rparr>))"

definition try_s3_patterns :: "string \<Rightarrow> parsed_host option" where
  "try_s3_patterns host =
     (case cut_suffix host std_suffix of
        Some body \<Rightarrow>
          if has_prefix body ''s3-'' \<and> \<not> str_contains body ''.'' then Some (plain_host ''s3'' (trim_prefix body ''s3-''))
          else if host = s3_global_host then Some (plain_host ''s3'' s3_global_region)
          else (let regional = trim_suffix (trim_prefix host ''s3.'') std_suffix in
            if has_prefix host ''s3.'' \<and> regional \<noteq> [] \<and> \<not> str_contains regional ''.'' then Some (plain_host ''s3'' regional)
            else if has_suffix host ''.s3.amazonaws.com'' then
              Some ((plain_host ''s3'' s3_global_region)\<lparr>ph_bucket_in_host := True\<rparr>)
            else (case str_cut host ''.s3.'' of (_, after, ok) \<Rightarrow>
              if \<not> ok then None
              else (case cut_suffix after std_suffix of
                  None \<Rightarrow> None
                | Some region \<Rightarrow>
                    if region \<noteq> [] \<and> \<not> str_contains region ''.'' then
                      Some ((plain_host ''s3'' region)\<lparr>ph_bucket_in_host := True\<rparr>)
                    else None)))
      | None \<Rightarrow> None)"

definition try_lambda_url :: "string \<Rightarrow> parsed_host option" where
  "try_lambda_url host =
     (case cut_suffix host ''.on.aws'' of
        None \<Rightarrow> None
      | Some body \<Rightarrow>
          (case str_cut body ''.lambda-url.'' of (_, region, ok) \<Rightarrow>
            if \<not> ok \<or> region = [] \<or> str_contains region ''.'' then None else Some (plain_host ''lambda'' region)))"

definition try_dualstack_api_aws :: "string \<Rightarrow> parsed_host option" where
  "try_dualstack_api_aws host =
     (case cut_suffix host ''.api.aws'' of
        None \<Rightarrow> None
      | Some body \<Rightarrow>
          let parts = split_on CHR ''.'' body in
          if length parts \<noteq> 2 then None else Some (plain_host (parts ! 0) (parts ! 1)))"

definition try_s3_dualstack :: "string \<Rightarrow> parsed_host option" where
  "try_s3_dualstack host =
     (case cut_prefix host ''s3.dualstack.'' of
        None \<Rightarrow> None
      | Some after \<Rightarrow>
          (case cut_suffix after std_suffix of
             None \<Rightarrow> None
           | Some region \<Rightarrow> if region = [] \<or> str_contains region ''.'' then None else Some (plain_host ''s3'' region)))"

definition try_infix_service :: "string \<Rightarrow> string \<Rightarrow> string \<Rightarrow> parsed_host option" where
  "try_infix_service host marker svc =
     (case str_cut host marker of (_, after, ok) \<Rightarrow>
       if \<not> ok then None
       else (case cut_suffix after std_suffix of
           None \<Rightarrow> None
         | Some region \<Rightarrow> if region = [] \<or> str_contains region ''.'' then None else Some (plain_host svc region)))"

definition try_open_search :: "string \<Rightarrow> parsed_host option" where
  "try_open_search host =
     (case cut_suffix host ''.es.amazonaws.com'' of
        None \<Rightarrow> None
      | Some body \<Rightarrow>
          (case last_index_char body CHR ''.'' of
             None \<Rightarrow> None
           | Some i \<Rightarrow>
               if i = 0 then None
               else let region = drop (i + 1) body in
                 if region = [] \<or> str_contains region ''.'' then None else Some (plain_host ''es'' region)))"

definition try_fips :: "string \<Rightarrow> parsed_host option" where
  "try_fips host =
     (case cut_suffix host std_suffix of
        None \<Rightarrow> None
      | Some body \<Rightarrow>
          (case str_cut body ''-fips'' of (svc, rest, ok) \<Rightarrow>
            if \<not> ok \<or> svc = [] then None
            else if rest = [] then Some (plain_host svc [])
            else if has_prefix rest ''.'' then
              (let region = drop 1 rest in
               if region \<noteq> [] \<and> \<not> str_contains region ''.'' then Some (plain_host svc region) else None)
            else None))"

text \<open>The patterns of the standard partition, in the order they are tried.\<close>

fun first_pattern :: "(string \<Rightarrow> parsed_host option) list \<Rightarrow> string \<Rightarrow> parsed_host option" where
  "first_pattern [] host = None"
| "first_pattern (f # fs) host = (case f host of Some p \<Rightarrow> Some p | None \<Rightarrow> first_pattern fs host)"

definition host_patterns :: "(string \<Rightarrow> parsed_host option) list" where
  "host_patterns =
     [try_s3_patterns, try_lambda_url, try_dualstack_api_aws, try_s3_dualstack,
      \<lambda>host. try_infix_service host ''.execute-api.'' ''execute-api'', try_open_search,
      \<lambda>host. try_infix_service host ''.iot.'' ''iotdata'', try_fips]"

definition parse_host_name :: "string \<Rightarrow> (aws_host_error, parsed_host) result" where
  "parse_host_name host =
     (if host = ''localhost'' then Inl HostPattern
      else if is_vpc_endpoint host then Inl HostPattern
      else (case first_pattern [try_s3_control, try_s3_access_point] host of
          Some p \<Rightarrow> Inr p
        | None \<Rightarrow>
            if has_suffix host ''.amazonaws.com.cn'' then parse_standard_partition host ''.amazonaws.com.cn''
            else if has_suffix host ''.us-gov.amazonaws.com'' then parse_standard_partition host ''.us-gov.amazonaws.com''
            else (case first_pattern host_patterns host of
                Some p \<Rightarrow> Inr p
              | None \<Rightarrow>
                  if has_suffix host std_suffix then parse_standard_partition host std_suffix else Inl HostPattern)))"

definition aws_parse_host :: "(string \<Rightarrow> string option) \<Rightarrow> string \<Rightarrow> (aws_host_error, parsed_host) result" where
  "aws_parse_host to_ascii host =
     (if host = [] then Inl HostPattern
      else if is_ip_literal host then Inl HostPattern
      else (case normalize_host to_ascii host of None \<Rightarrow> Inl HostPattern | Some h \<Rightarrow> parse_host_name h))"

definition dehyphen_lower :: "string \<Rightarrow> string" where
  "dehyphen_lower s = filter (\<lambda>c. c \<noteq> CHR ''-'') (to_lower s)"

definition service_claim_equal :: "string \<Rightarrow> string \<Rightarrow> bool" where
  "service_claim_equal host claim \<longleftrightarrow> dehyphen_lower host = dehyphen_lower claim"

definition aws_verify :: "parsed_host \<Rightarrow> string \<Rightarrow> string \<Rightarrow> (aws_host_error, unit) result" where
  "aws_verify p claimed_service claimed_region =
     (if \<not> service_claim_equal (ph_service p) claimed_service then Inl HostClaimMismatch
      else if claimed_region = [] then Inr ()
      else if ph_region p = [] then
        (if to_lower claimed_region \<in>
              {[], ''aws-global'', s3_global_region, gov_cloud_global_region, china_global_region} then Inr ()
         else Inl HostClaimMismatch)
      else if \<not> equal_fold (ph_region p) claimed_region then Inl HostClaimMismatch
      else Inr ())"

subsection \<open>Only hosts of AWS\<close>

text \<open>The zones every accepted host lies in.\<close>

definition aws_zones :: "string list" where
  "aws_zones = [''.amazonaws.com'', ''.amazonaws.com.cn'', ''.on.aws'', ''.api.aws'']"

definition in_aws_zone :: "string \<Rightarrow> bool" where
  "in_aws_zone host \<longleftrightarrow> list_ex (has_suffix host) aws_zones"

lemma cut_suffix_has: "cut_suffix s p = Some r \<Longrightarrow> has_suffix s p"
  by (auto simp: cut_suffix_def split: if_splits)

lemma str_cut_suffix: "str_cut s m = (a, b, True) \<Longrightarrow> has_suffix b p \<Longrightarrow> has_suffix s p"
proof -
  assume c: "str_cut s m = (a, b, True)" and "has_suffix b p"
  from c have "s = a @ m @ b" by (auto simp: dest: str_cut_found)
  with \<open>has_suffix b p\<close> show ?thesis by (auto simp: has_suffix_iff)
qed

lemma cut_prefix_suffix: "cut_prefix s p = Some r \<Longrightarrow> has_suffix r q \<Longrightarrow> has_suffix s q"
proof -
  assume "cut_prefix s p = Some r" and q: "has_suffix r q"
  then have "s = take (length p) s @ r" by (auto simp: cut_prefix_def split: if_splits)
  with q show "has_suffix s q" by (metis append_assoc has_suffix_iff)
qed

lemma suffix_trans: "has_suffix s p \<Longrightarrow> has_suffix p q \<Longrightarrow> has_suffix s q"
  by (auto simp: has_suffix_iff)

lemma first_cut_suffix_Some: "first_cut_suffix s xs = Some b \<Longrightarrow> \<exists>x \<in> set xs. has_suffix s x"
  by (induction xs) (auto split: option.splits dest: cut_suffix_has)

lemma zone_std: "has_suffix host ''.amazonaws.com'' \<Longrightarrow> in_aws_zone host"
  and zone_china: "has_suffix host ''.amazonaws.com.cn'' \<Longrightarrow> in_aws_zone host"
  and zone_on: "has_suffix host ''.on.aws'' \<Longrightarrow> in_aws_zone host"
  and zone_api: "has_suffix host ''.api.aws'' \<Longrightarrow> in_aws_zone host"
  by (simp_all add: in_aws_zone_def aws_zones_def)

lemma scoped_zone: "match_account_scoped_s3 host i ok = Some r \<Longrightarrow> in_aws_zone host"
  by (auto simp: match_account_scoped_s3_def simp del: first_cut_suffix.simps scoped_region.simps
      split: prod.splits if_splits option.splits dest!: first_cut_suffix_Some)
    (blast intro: zone_std zone_china str_cut_suffix)+

lemma pattern_zones:
  "try_s3_patterns host = Some p \<Longrightarrow> in_aws_zone host"
  "try_lambda_url host = Some p \<Longrightarrow> in_aws_zone host"
  "try_dualstack_api_aws host = Some p \<Longrightarrow> in_aws_zone host"
  "try_s3_dualstack host = Some p \<Longrightarrow> in_aws_zone host"
  "try_infix_service host m svc = Some p \<Longrightarrow> in_aws_zone host"
  "try_open_search host = Some p \<Longrightarrow> in_aws_zone host"
  "try_fips host = Some p \<Longrightarrow> in_aws_zone host"
proof -
  show "try_s3_patterns host = Some p \<Longrightarrow> in_aws_zone host"
    by (auto simp: try_s3_patterns_def std_suffix_def split: option.splits dest: cut_suffix_has intro: zone_std)
  show "try_lambda_url host = Some p \<Longrightarrow> in_aws_zone host"
    by (auto simp: try_lambda_url_def split: option.splits dest: cut_suffix_has intro: zone_on)
  show "try_dualstack_api_aws host = Some p \<Longrightarrow> in_aws_zone host"
    by (auto simp: try_dualstack_api_aws_def split: option.splits dest: cut_suffix_has intro: zone_api)
  show "try_s3_dualstack host = Some p \<Longrightarrow> in_aws_zone host"
    by (auto simp: try_s3_dualstack_def std_suffix_def split: option.splits if_splits
        dest!: cut_suffix_has intro: zone_std cut_prefix_suffix)
  show "try_infix_service host m svc = Some p \<Longrightarrow> in_aws_zone host"
    by (auto simp: try_infix_service_def std_suffix_def split: prod.splits option.splits if_splits
        dest!: cut_suffix_has intro!: zone_std intro: str_cut_suffix)
  show "try_open_search host = Some p \<Longrightarrow> in_aws_zone host"
    using suffix_trans [of host "''.es.amazonaws.com''" "''.amazonaws.com''"]
    by (auto simp: try_open_search_def has_suffix_def split: option.splits dest!: cut_suffix_has intro!: zone_std)
  show "try_fips host = Some p \<Longrightarrow> in_aws_zone host"
    by (auto simp: try_fips_def std_suffix_def split: option.splits dest!: cut_suffix_has intro!: zone_std)
qed

lemma first_pattern_Some: "first_pattern fs host = Some p \<Longrightarrow> \<exists>f \<in> set fs. f host = Some p"
  by (induction fs) (auto split: option.splits)

lemma parse_host_name_zone:
  assumes "parse_host_name host = Inr p"
  shows "in_aws_zone host"
proof -
  have a: "in_aws_zone host" if "first_pattern [try_s3_control, try_s3_access_point] host = Some q" for q
    using first_pattern_Some [OF that] by (auto simp: try_s3_control_def try_s3_access_point_def dest: scoped_zone)
  have b: "in_aws_zone host" if "first_pattern host_patterns host = Some q" for q
    using first_pattern_Some [OF that] pattern_zones unfolding host_patterns_def by auto
  have c: "in_aws_zone host" if "has_suffix host ''.us-gov.amazonaws.com''"
    by (rule zone_std [OF suffix_trans [OF that]]) (simp add: has_suffix_def)
  show ?thesis
  proof (cases "first_pattern [try_s3_control, try_s3_access_point] host")
    case None
    with assms b c zone_std zone_china show ?thesis
      by (auto simp: parse_host_name_def std_suffix_def simp del: first_pattern.simps split: if_splits option.splits)
  qed (rule a)
qed

end
