(* ===== verification/Aws_Classify.thy ===== *)
theory Aws_Classify
  imports Aws_Model Aws_Host Request_Path "HOL-Library.Product_Lexorder"
begin

text \<open>
  Which operations of an AWS service model a request may run: \<open>classifier.go\<close> (the REST
  protocols) and \<open>classifier_proto.go\<close> (the JSON and query protocols, and the dispatch) of package
  \<open>auth/aws\<close>. The order in which templates outrank each other is an instance of the library's
  linear orders, and \<open>classify_rest_spec\<close> is the reference definition the loop is equal to.
\<close>

subsection \<open>Template segments\<close>

definition is_single_placeholder :: "string \<Rightarrow> bool" where
  "is_single_placeholder seg \<longleftrightarrow> has_prefix seg ''{'' \<and> has_suffix seg ''}'' \<and> \<not> has_suffix seg ''+}''"

definition is_greedy_placeholder :: "string \<Rightarrow> bool" where
  "is_greedy_placeholder seg \<longleftrightarrow> has_prefix seg ''{'' \<and> has_suffix seg ''+}''"

datatype segment_kind = GreedyLabel | SingleLabel | LiteralSegment

fun kind_rank :: "segment_kind \<Rightarrow> nat" where
  "kind_rank GreedyLabel = 0"
| "kind_rank SingleLabel = 1"
| "kind_rank LiteralSegment = 2"

instantiation segment_kind :: linorder
begin

definition less_eq_segment_kind :: "segment_kind \<Rightarrow> segment_kind \<Rightarrow> bool" where
  "less_eq_segment_kind a b \<longleftrightarrow> kind_rank a \<le> kind_rank b"

definition less_segment_kind :: "segment_kind \<Rightarrow> segment_kind \<Rightarrow> bool" where
  "less_segment_kind a b \<longleftrightarrow> kind_rank a < kind_rank b"

instance
proof
  fix a b :: segment_kind
  show "a \<le> b \<Longrightarrow> b \<le> a \<Longrightarrow> a = b"
    by (cases a; cases b) (simp_all add: less_eq_segment_kind_def)
qed (auto simp: less_eq_segment_kind_def less_segment_kind_def)

end

definition split_segments :: "string \<Rightarrow> string list" where
  "split_segments p0 = (let p = trim_prefix p0 ''/'' in if p = [] then [[]] else split_on CHR ''/'' p)"

definition segment_kind_of :: "string \<Rightarrow> segment_kind" where
  "segment_kind_of seg =
     (if is_greedy_placeholder seg then GreedyLabel
      else if is_single_placeholder seg then SingleLabel
      else LiteralSegment)"

definition template_shape :: "string \<Rightarrow> segment_kind list" where
  "template_shape tpl = map segment_kind_of (split_segments tpl)"

fun template_flags :: "string list \<Rightarrow> string list" where
  "template_flags [] = []"
| "template_flags (kv # kvs) =
     (let (name, _, _) = str_cut kv ''='' in
      if name = [] \<or> equal_fold name ''x-id'' then template_flags kvs else name # template_flags kvs)"

definition split_template_query :: "string \<Rightarrow> string \<times> string list" where
  "split_template_query uri =
     (let (path, query, has_query) = str_cut uri ''?'' in
      if \<not> has_query \<or> query = [] then (path, []) else (path, template_flags (split_on CHR ''&'' query)))"

subsection \<open>Matching\<close>

definition match_segment :: "string \<Rightarrow> nat \<Rightarrow> string list \<Rightarrow> bool" where
  "match_segment t i segs =
     (if is_single_placeholder t then i < length segs \<and> segs ! i \<noteq> [] else i < length segs \<and> segs ! i = t)"

fun match_suffix :: "string list \<Rightarrow> nat \<Rightarrow> string list \<Rightarrow> bool" where
  "match_suffix [] i segs = True"
| "match_suffix (t # ts) i segs = (if \<not> match_segment t i segs then False else match_suffix ts (i + 1) segs)"

definition match_greedy :: "string list \<Rightarrow> string list \<Rightarrow> nat \<Rightarrow> bool" where
  "match_greedy suffix segs i =
     (let end1 = int (length segs) - int (length suffix) in
      if end1 \<le> int i \<or> (end1 = int i + 1 \<and> segs ! i = []) then False
      else match_suffix suffix (nat end1) segs)"

fun match_from :: "string list \<Rightarrow> nat \<Rightarrow> string list \<Rightarrow> bool" where
  "match_from [] i segs = (length segs = i)"
| "match_from (t # ts) i segs =
     (if is_greedy_placeholder t then match_greedy ts segs i
      else if \<not> match_segment t i segs then False
      else match_from ts (i + 1) segs)"

definition match_uri_template :: "string \<Rightarrow> string list \<Rightarrow> bool" where
  "match_uri_template template segs = match_from (split_segments template) 0 segs"

subsection \<open>classifyREST\<close>

fun score_query :: "string list \<Rightarrow> url_values \<Rightarrow> nat \<Rightarrow> nat option" where
  "score_query [] q score = Some score"
| "score_query (f # fs) q score = (if \<not> values_has q f then None else score_query fs q (score + 1))"

fun score_header :: "string list \<Rightarrow> header \<Rightarrow> nat \<Rightarrow> nat option" where
  "score_header [] h score = Some score"
| "score_header (f # fs) h score = (if header_get h f = [] then None else score_header fs h (score + 1))"

definition score_discriminators :: "aws_operation \<Rightarrow> string list \<Rightarrow> url_values \<Rightarrow> header \<Rightarrow> nat option" where
  "score_discriminators op1 tpl_query q h =
     Option.bind (score_query tpl_query q 0) (\<lambda>s1.
     Option.bind (score_query (op_required_query op1) q s1) (\<lambda>s2. score_header (op_required_header op1) h s2))"

record candidate =
  cd_name :: string
  cd_shape :: "segment_kind list"
  cd_score :: nat

definition compare_candidates :: "candidate \<Rightarrow> candidate \<Rightarrow> int" where
  "compare_candidates a b =
     (if cd_shape a < cd_shape b then -1
      else if cd_shape b < cd_shape a then 1
      else if cd_score a < cd_score b then -1
      else if cd_score b < cd_score a then 1
      else 0)"

fun top_loop :: "candidate list \<Rightarrow> candidate \<Rightarrow> string list \<Rightarrow> string list" where
  "top_loop [] best ops = ops"
| "top_loop (h # hs) best ops =
     (let c = compare_candidates h best in
      if c > 0 then top_loop hs h [cd_name h]
      else if c = 0 then top_loop hs best (ops @ [cd_name h])
      else top_loop hs best ops)"

definition top_candidates :: "candidate list \<Rightarrow> string list" where
  "top_candidates hits = top_loop (tl hits) (hd hits) [cd_name (hd hits)]"

definition rest_candidate :: "view \<Rightarrow> string list \<Rightarrow> string \<times> aws_operation \<Rightarrow> candidate option" where
  "rest_candidate v segs e =
     (let (name, op1) = e; (tpl_path, tpl_query) = split_template_query (op_uri_template op1) in
      if op_http_method op1 = [] \<or> \<not> equal_fold (op_http_method op1) (to_upper (v_method v)) then None
      else if \<not> match_uri_template tpl_path segs then None
      else map_option (\<lambda>score. \<lparr>cd_name = name, cd_shape = template_shape tpl_path, cd_score = score\<rparr>)
        (score_discriminators op1 tpl_query (fst (parse_query (v_raw_query v))) (v_header v)))"

text \<open>The operations in name order; \<open>Inl\<close> is \<open>ErrClassifierUnknownOp\<close>, its flag an unsupported protocol.\<close>

datatype classify_error = UnknownOp bool

definition classify_rest :: "service_model \<Rightarrow> view \<Rightarrow> string list \<Rightarrow> (classify_error, string list) result" where
  "classify_rest model v segs =
     (let names = sort (map fst (sm_operations model));
          hits = List.map_filter
            (\<lambda>name. Option.bind (map_of (sm_operations model) name) (\<lambda>op1. rest_candidate v segs (name, op1))) names
      in if length hits = 0 then Inl (UnknownOp False) else Inr (top_candidates hits))"

definition vhost_bucket_placeholder :: string where
  "vhost_bucket_placeholder = ''_cynative_vhost_bucket_''"

definition classification_segments :: "parsed_host \<Rightarrow> string list \<Rightarrow> string list" where
  "classification_segments parsed segs =
     (if \<not> ph_bucket_in_host parsed then segs
      else if segs = [[]] then [vhost_bucket_placeholder]
      else vhost_bucket_placeholder # segs)"

text \<open>The union over the readings, and the first reading's error.\<close>

fun rest_union ::
    "service_model \<Rightarrow> view \<Rightarrow> parsed_host \<Rightarrow> string list list \<Rightarrow> string list \<Rightarrow> classify_error option \<Rightarrow>
     string list \<times> classify_error option" where
  "rest_union model v parsed [] acc err = (acc, err)"
| "rest_union model v parsed (segs # rs) acc err =
     (case classify_rest model v (classification_segments parsed segs) of
        Inl e \<Rightarrow> rest_union model v parsed rs acc (if err = None then Some e else err)
      | Inr ops \<Rightarrow> rest_union model v parsed rs (acc @ ops) err)"

definition classify_rest_readings ::
    "service_model \<Rightarrow> view \<Rightarrow> parsed_host \<Rightarrow> (classify_error, string list) result" where
  "classify_rest_readings model v parsed =
     (let (acc, err) = rest_union model v parsed (path_readings v) [] None in
      if acc = [] then Inl (the err) else Inr (compact (sort acc)))"

subsection \<open>classifier_proto.go\<close>

definition known_op :: "service_model \<Rightarrow> string \<Rightarrow> (classify_error, string) result" where
  "known_op model op1 = (if map_of (sm_operations model) op1 = None then Inl (UnknownOp False) else Inr op1)"

definition classify_json_rpc :: "service_model \<Rightarrow> view \<Rightarrow> (classify_error, string) result" where
  "classify_json_rpc model v =
     (let target = header_get (v_header v) ''X-Amz-Target'' in
      if target = [] then Inl (UnknownOp False)
      else (case last_index_char target CHR ''.'' of
          None \<Rightarrow> Inl (UnknownOp False)
        | Some i \<Rightarrow> if i = length target - 1 then Inl (UnknownOp False) else known_op model (drop (i + 1) target)))"

definition single_action :: "url_values \<Rightarrow> (classify_error, string) result" where
  "single_action vals =
     (let actions = values_of vals ''Action'' in
      if length actions = 0 then Inl (UnknownOp False)
      else if length actions > 1 then Inl (UnknownOp False)
      else if actions ! 0 = [] then Inl (UnknownOp False)
      else Inr (actions ! 0))"

definition classify_query_url :: "service_model \<Rightarrow> view \<Rightarrow> (classify_error, string) result" where
  "classify_query_url model v =
     and_then (single_action (fst (parse_query (v_raw_query v)))) (\<lambda>op1. known_op model op1)"

definition classify_query_body :: "service_model \<Rightarrow> view \<Rightarrow> (classify_error, string) result" where
  "classify_query_body model v =
     (if values_has (fst (parse_query (v_raw_query v))) ''Action'' then Inl (UnknownOp False)
      else if v_body v = [] then Inl (UnknownOp False)
      else (let (parsed, bad) = parse_query (v_body v) in
        if bad then Inl (UnknownOp False)
        else and_then (single_action parsed) (\<lambda>op1. known_op model op1)))"

definition classify_query :: "service_model \<Rightarrow> view \<Rightarrow> (classify_error, string) result" where
  "classify_query model v =
     (if to_upper (v_method v) = ''POST'' then classify_query_body model v
      else if to_upper (v_method v) = ''GET'' then classify_query_url model v
      else Inl (UnknownOp False))"

definition single_op :: "(classify_error, string) result \<Rightarrow> (classify_error, string list) result" where
  "single_op r = and_then r (\<lambda>op1. Inr [op1])"

definition classify_operation :: "service_model \<Rightarrow> view \<Rightarrow> parsed_host \<Rightarrow> (classify_error, string list) result" where
  "classify_operation model v parsed =
     (case sm_protocol model of
        ProtocolRestXML \<Rightarrow> classify_rest_readings model v parsed
      | ProtocolRestJSON1 \<Rightarrow> classify_rest_readings model v parsed
      | ProtocolAWSJSON10 \<Rightarrow> single_op (classify_json_rpc model v)
      | ProtocolAWSJSON11 \<Rightarrow> single_op (classify_json_rpc model v)
      | ProtocolAWSQuery \<Rightarrow> single_op (classify_query model v)
      | ProtocolEC2Query \<Rightarrow> single_op (classify_query model v)
      | ProtocolUnknown \<Rightarrow> Inl (UnknownOp True))"

subsection \<open>The ranking\<close>

definition cd_rank :: "candidate \<Rightarrow> segment_kind list \<times> nat" where
  "cd_rank c = (cd_shape c, cd_score c)"

lemma compare_candidates_rank:
  "compare_candidates a b > 0 \<longleftrightarrow> cd_rank b < cd_rank a"
  "compare_candidates a b = 0 \<longleftrightarrow> cd_rank a = cd_rank b"
  by (auto simp: compare_candidates_def cd_rank_def)

definition top_of :: "candidate list \<Rightarrow> candidate list" where
  "top_of cs = filter (\<lambda>c. \<forall>d \<in> set cs. cd_rank d \<le> cd_rank c) cs"

lemma top_loop_spec:
  assumes "best \<in> set seen" "\<forall>d \<in> set seen. cd_rank d \<le> cd_rank best" "ops = map cd_name (top_of seen)"
  shows "top_loop hs best ops = map cd_name (top_of (seen @ hs))"
  using assms
proof (induction hs arbitrary: best ops seen)
  case (Cons h hs)
  have eq: "cd_rank c = cd_rank best" if "c \<in> set (top_of seen)" for c
    using that Cons.prems(1,2) by (force simp: top_of_def intro: antisym)
  consider "cd_rank best < cd_rank h" | "cd_rank best = cd_rank h" | "cd_rank h < cd_rank best" by (rule linorder_cases)
  then show ?case
  proof cases
    case 1
    then have "\<forall>d \<in> set seen. cd_rank d < cd_rank h" using Cons.prems(2) by (meson le_less_trans)
    then have "top_of (seen @ [h]) = [h]" by (force simp: top_of_def filter_empty_conv)
    moreover have "\<forall>d \<in> set (seen @ [h]). cd_rank d \<le> cd_rank h" using \<open>\<forall>d \<in> set seen. cd_rank d < cd_rank h\<close> by force
    ultimately show ?thesis
      using Cons.IH [of h "seen @ [h]" "[cd_name h]"] 1 compare_candidates_rank(1) [of h best] by (simp add: Let_def)
  next
    case 2
    then have "top_of (seen @ [h]) = top_of seen @ [h]" using Cons.prems(1,2) by (auto simp: top_of_def intro!: filter_cong)
    then show ?thesis
      using Cons.IH [of best "seen @ [h]" "ops @ [cd_name h]"] Cons.prems 2 compare_candidates_rank [of h best]
      by (simp add: Let_def)
  next
    case 3
    then have "top_of (seen @ [h]) = top_of seen" using Cons.prems(1,2) by (force simp: top_of_def intro!: filter_cong)
    then show ?thesis
      using Cons.IH [of best "seen @ [h]" ops] Cons.prems 3 compare_candidates_rank [of h best]
      by (auto simp: Let_def)
  qed
qed simp

lemma top_candidates_spec: "hits \<noteq> [] \<Longrightarrow> top_candidates hits = map cd_name (top_of hits)"
  using top_loop_spec [of "hd hits" "[hd hits]" "[cd_name (hd hits)]" "tl hits"]
  by (simp add: top_candidates_def top_of_def)

lemma top_of_nonempty: "hits \<noteq> [] \<Longrightarrow> top_of hits \<noteq> []"
proof -
  assume n: "hits \<noteq> []"
  have "Max (cd_rank ` set hits) \<in> cd_rank ` set hits" using n by (intro Max_in) auto
  then obtain c where c: "c \<in> set hits" "cd_rank c = Max (cd_rank ` set hits)" by force
  then have "\<forall>d \<in> set hits. cd_rank d \<le> cd_rank c" by simp
  with c(1) show "top_of hits \<noteq> []" by (auto simp: top_of_def filter_empty_conv)
qed

subsection \<open>The reference definition\<close>

text \<open>
  The operations that fully match, and of those the ones no other match outranks: a
  template outranks another when its path is more specific, at equal paths when it requires more
  of the request's discriminators.
\<close>

definition rest_matches :: "service_model \<Rightarrow> view \<Rightarrow> string list \<Rightarrow> candidate set" where
  "rest_matches model v segs =
     {c. \<exists>name op1. map_of (sm_operations model) name = Some op1 \<and> rest_candidate v segs (name, op1) = Some c}"

definition classify_rest_spec :: "service_model \<Rightarrow> view \<Rightarrow> string list \<Rightarrow> string set" where
  "classify_rest_spec model v segs =
     cd_name ` {c \<in> rest_matches model v segs. \<forall>d \<in> rest_matches model v segs. cd_rank d \<le> cd_rank c}"

lemma rest_candidate_name: "rest_candidate v segs (name, op1) = Some c \<Longrightarrow> cd_name c = name"
  by (auto simp: rest_candidate_def Let_def split: prod.splits if_splits)

definition rest_hits :: "service_model \<Rightarrow> view \<Rightarrow> string list \<Rightarrow> candidate list" where
  "rest_hits model v segs =
     List.map_filter (\<lambda>name. Option.bind (map_of (sm_operations model) name) (\<lambda>op1. rest_candidate v segs (name, op1)))
       (sort (map fst (sm_operations model)))"

lemma mem_map_filter: "y \<in> set (List.map_filter f xs) \<longleftrightarrow> (\<exists>x \<in> set xs. f x = Some y)"
  by (induction xs) (auto simp: List.map_filter_simps split: option.splits)

lemma map_of_name: "map_of m name = Some x \<Longrightarrow> name \<in> set (map fst m)"
  using map_of_eq_None_iff [of m name] by auto

lemma set_rest_hits: "set (rest_hits model v segs) = rest_matches model v segs"
proof (intro set_eqI iffI)
  fix c assume "c \<in> set (rest_hits model v segs)"
  then obtain name where "Option.bind (map_of (sm_operations model) name) (\<lambda>op1. rest_candidate v segs (name, op1)) = Some c"
    unfolding rest_hits_def mem_map_filter by (elim bexE)
  then show "c \<in> rest_matches model v segs" by (auto simp only: rest_matches_def bind_eq_Some_conv)
next
  fix c assume "c \<in> rest_matches model v segs"
  then obtain name op1 where c: "map_of (sm_operations model) name = Some op1" "rest_candidate v segs (name, op1) = Some c"
    unfolding rest_matches_def by (elim CollectE exE conjE)
  have "name \<in> set (sort (map fst (sm_operations model)))" using map_of_name [OF c(1)] by simp
  with c show "c \<in> set (rest_hits model v segs)"
    unfolding rest_hits_def mem_map_filter by (intro bexI [of _ name]) (simp_all only: Option.bind.bind_lunit)
qed

lemma map_filter_names_sorted:
  assumes "\<And>x c. x \<in> set xs \<Longrightarrow> f x = Some c \<Longrightarrow> g c = x"
  shows "map g (List.map_filter f xs) = filter (\<lambda>x. f x \<noteq> None) xs"
  using assms by (induction xs) (auto simp: List.map_filter_simps split: option.splits)

lemma rest_hits_names:
  "map cd_name (rest_hits model v segs) =
    filter (\<lambda>name. Option.bind (map_of (sm_operations model) name) (\<lambda>op1. rest_candidate v segs (name, op1)) \<noteq> None)
      (sort (map fst (sm_operations model)))"
  unfolding rest_hits_def
  by (rule map_filter_names_sorted) (auto simp: bind_eq_Some_conv dest: rest_candidate_name)

lemma classify_rest_eq:
  "classify_rest model v segs =
     (if rest_matches model v segs = {} then Inl (UnknownOp False)
      else Inr (map cd_name (top_of (rest_hits model v segs))))"
  using set_rest_hits [of model v segs] top_candidates_spec [of "rest_hits model v segs"]
  by (auto simp: classify_rest_def rest_hits_def [symmetric] Let_def)

text \<open>
  C19. Classifying a REST request is exact: on every model, the operations returned are precisely
  those that match the request and that no other match outranks, each once and in name order,
  and there is an error exactly when nothing matches. No operation AWS may route the request to
  at the top of Smithy's specificity order is missing from what is then authorized.
\<close>

theorem classify_rest_exact:
  assumes "distinct (map fst (sm_operations model))"
  shows "case classify_rest model v segs of
      Inl e \<Rightarrow> rest_matches model v segs = {} \<and> e = UnknownOp False
    | Inr ops \<Rightarrow> rest_matches model v segs \<noteq> {} \<and> set ops = classify_rest_spec model v segs \<and> ops \<noteq> [] \<and>
        sorted ops \<and> distinct ops"
proof (cases "rest_matches model v segs = {}")
  case False
  let ?hits = "rest_hits model v segs"
  have "map cd_name (top_of ?hits) = map cd_name (filter (\<lambda>c. \<forall>d \<in> set ?hits. cd_rank d \<le> cd_rank c) ?hits)"
    by (simp add: top_of_def)
  have n: "sorted (map cd_name ?hits)" "distinct (map cd_name ?hits)"
    using assms unfolding rest_hits_names by (simp_all add: sorted_wrt_filter)
  have "sorted (map cd_name (top_of ?hits))" unfolding top_of_def by (rule sorted_filter [OF n(1)])
  moreover have "distinct (map cd_name (top_of ?hits))" unfolding top_of_def by (rule distinct_map_filter [OF n(2)])
  moreover have s: "set (map cd_name (top_of ?hits)) = classify_rest_spec model v segs"
    by (auto simp: top_of_def classify_rest_spec_def set_rest_hits)
  moreover have "top_of ?hits \<noteq> []"
    using False set_rest_hits [of model v segs] by (intro top_of_nonempty) auto
  ultimately show ?thesis using False by (simp add: classify_rest_eq)
qed (simp add: classify_rest_eq)

text \<open>The witness: a GET of an object with \<open>?acl\<close> reads its access list, and only that.\<close>

definition example_model :: service_model where
  "example_model =
     \<lparr>sm_dir = ''s3'', sm_sdk_id = ''S3'', sm_arn_namespace = ''s3'', sm_endpoint_prefix = ''s3'', sm_signing_name = ''s3'',
      sm_namespace_shadowed = False, sm_protocol = ProtocolRestXML,
      sm_operations = map (\<lambda>(n, u). (n, \<lparr>op_http_method = ''GET'', op_uri_template = u, op_required_query = [],
        op_required_header = []\<rparr>))
        [(''GetObject'', ''/{Bucket}/{Key+}?x-id=GetObject''), (''GetObjectAcl'', ''/{Bucket}/{Key+}?acl''),
         (''ListBuckets'', ''/'')]\<rparr>"

theorem classify_rest_exact_witness:
  "classify_rest example_model (example_view\<lparr>v_method := ''GET'', v_raw_query := ''acl''\<rparr>) [''b'', ''dir'', ''k''] = Inr [''GetObjectAcl''] \<and>
   classify_rest_spec example_model (example_view\<lparr>v_method := ''GET'', v_raw_query := ''acl''\<rparr>) [''b'', ''dir'', ''k''] = {''GetObjectAcl''}"
proof -
  let ?v = "example_view\<lparr>v_method := ''GET'', v_raw_query := ''acl''\<rparr>"
  have "(case classify_rest example_model ?v [''b'', ''dir'', ''k''] of Inr ops \<Rightarrow> ops = [''GetObjectAcl''] | Inl _ \<Rightarrow> False)"
    by code_simp
  then have c: "classify_rest example_model ?v [''b'', ''dir'', ''k''] = Inr [''GetObjectAcl'']" by (auto split: sum.splits)
  have "distinct (map fst (sm_operations example_model))" by (simp add: example_model_def)
  from classify_rest_exact [OF this, of ?v "[''b'', ''dir'', ''k'']"] c show ?thesis by simp
qed

subsection \<open>What a template matches\<close>

text \<open>
  The reading of a template without indices: a label takes one non-empty segment, a greedy
  label any span but the empty one and the one empty segment, and what follows it the tail.
\<close>

definition segment_fits :: "string \<Rightarrow> string \<Rightarrow> bool" where
  "segment_fits t s \<longleftrightarrow> (if is_single_placeholder t then s \<noteq> [] else s = t)"

fun template_fits :: "string list \<Rightarrow> string list \<Rightarrow> bool" where
  "template_fits [] segs \<longleftrightarrow> segs = []"
| "template_fits (t # ts) segs \<longleftrightarrow>
     (if is_greedy_placeholder t then
        \<exists>span tail. segs = span @ tail \<and> span \<noteq> [] \<and> span \<noteq> [[]] \<and> list_all2 segment_fits ts tail
      else \<exists>s rest. segs = s # rest \<and> segment_fits t s \<and> template_fits ts rest)"

lemma match_segment_fits: "match_segment t i segs \<longleftrightarrow> i < length segs \<and> segment_fits t (segs ! i)"
  by (auto simp: match_segment_def segment_fits_def)

lemma match_suffix_fits:
  "length segs = i + length ts \<Longrightarrow> match_suffix ts i segs \<longleftrightarrow> list_all2 segment_fits ts (drop i segs)"
proof (induction ts arbitrary: i)
  case (Cons t ts)
  then have "i < length segs" by simp
  then have d: "drop i segs = segs ! i # drop (Suc i) segs" by (rule Cons_nth_drop_Suc [symmetric])
  show ?case using Cons by (simp add: match_segment_fits d)
qed simp

lemma match_greedy_fits:
  assumes "i \<le> length segs"
  shows "match_greedy ts segs i \<longleftrightarrow>
    (\<exists>span tail. drop i segs = span @ tail \<and> span \<noteq> [] \<and> span \<noteq> [[]] \<and> list_all2 segment_fits ts tail)"
proof
  assume m: "match_greedy ts segs i"
  define e where "e = nat (int (length segs) - int (length ts))"
  have e: "i < e" "e \<le> length segs" "length segs = e + length ts" "\<not> (e = i + 1 \<and> segs ! i = [])"
    and s: "match_suffix ts e segs"
    using m assms by (auto simp: match_greedy_def Let_def e_def split: if_splits)
  have "list_all2 segment_fits ts (drop e segs)" using match_suffix_fits [OF e(3)] s by simp
  moreover have "drop i segs = take (e - i) (drop i segs) @ drop e segs"
    using e(1,2) by (metis append_take_drop_id drop_drop le_add_diff_inverse2 less_imp_le)
  moreover have "take (e - i) (drop i segs) \<noteq> []" using e(1,2) by simp
  moreover have "take (e - i) (drop i segs) \<noteq> [[]]"
  proof
    assume t: "take (e - i) (drop i segs) = [[]]"
    then have "length (take (e - i) (drop i segs)) = 1" by simp
    then have "e = i + 1" using e(1,2) by simp
    moreover have "segs ! i = []" using t e(1,2) by (cases "drop i segs") (auto simp: nth_via_drop take_Cons' split: if_splits)
    ultimately show False using e(4) by blast
  qed
  ultimately show "\<exists>span tail. drop i segs = span @ tail \<and> span \<noteq> [] \<and> span \<noteq> [[]] \<and> list_all2 segment_fits ts tail"
    by blast
next
  assume "\<exists>span tail. drop i segs = span @ tail \<and> span \<noteq> [] \<and> span \<noteq> [[]] \<and> list_all2 segment_fits ts tail"
  then obtain span tail where st: "drop i segs = span @ tail" "span \<noteq> []" "span \<noteq> [[]]" "list_all2 segment_fits ts tail"
    by blast
  have l: "length segs = i + length span + length ts"
    using arg_cong [OF st(1), of length] assms list_all2_lengthD [OF st(4)] by simp
  have "drop (i + length span) segs = tail" using st(1) by (metis append_eq_conv_conj drop_drop add.commute)
  then have "match_suffix ts (i + length span) segs" using match_suffix_fits [OF l] st(4) by simp
  moreover have "\<not> (length span = 1 \<and> segs ! i = [])"
  proof
    assume "length span = 1 \<and> segs ! i = []"
    moreover from this obtain x where "span = [x]" by (auto simp: length_Suc_conv)
    ultimately show False using st(1,3) by (auto dest: nth_via_drop)
  qed
  moreover have "length span > 0" using st(2) by simp
  ultimately show "match_greedy ts segs i" using l by (auto simp: match_greedy_def Let_def nat_add_distrib)
qed

lemma match_from_fits: "i \<le> length segs \<Longrightarrow> match_from ts i segs \<longleftrightarrow> template_fits ts (drop i segs)"
proof (induction ts arbitrary: i)
  case (Cons t ts)
  show ?case
  proof (cases "is_greedy_placeholder t")
    case True
    with Cons.prems show ?thesis by (simp add: match_greedy_fits)
  next
    case False
    show ?thesis
    proof (cases "i < length segs")
      case True
      then have "drop i segs = segs ! i # drop (Suc i) segs" by (rule Cons_nth_drop_Suc [symmetric])
      with False True Cons.IH [of "Suc i"] show ?thesis by (auto simp: match_segment_fits)
    next
      case i: False
      with False show ?thesis by (simp add: match_segment_fits)
    qed
  qed
qed auto

text \<open>
  The matcher decides the declarative reading of a template, whatever the segments: in
  particular an object key with empty segments matches a greedy label and the empty key does not.
\<close>

theorem match_uri_template_exact:
  "match_uri_template template segs \<longleftrightarrow> template_fits (split_segments template) segs"
  using match_from_fits [of 0 segs] by (simp add: match_uri_template_def)

end
