(* ===== verification/Aws_Gate.thy ===== *)
theory Aws_Gate
  imports Aws_Classify Connectors
begin

text \<open>
  The action gate of the AWS connector: the IAM actions of an operation (\<open>actions.go\<close>), the policy
  decision and its cache (\<open>policy.go\<close>, \<open>policy_eval.go\<close>), the composed gate (\<open>provider.go\<close>) and the
  connector above it (\<open>auth/aws.go\<close>). The model archive, the Service Reference and the IAM simulator
  answer through parameters; the decision cache is a map whose \<open>Add\<close> may evict.
\<close>

datatype aws_error =
    AwsBadArguments
  | AwsAuthRequired
  | AwsHostError aws_host_error
  | AwsModelError
  | AwsActionUnresolved
  | AwsUnmatched string  \<comment> \<open>the \<open>UnmatchedRequestError\<close> for a service\<close>
  | AwsPolicyDenied
  | AwsPolicyEvalFailed
  | AwsSigningNameUnresolved
  | AwsNotReady
  | AwsWrongPort
  | AwsCredentials
  | AwsSigning

subsection \<open>actions.go\<close>

datatype action_source = SourceNone | SourceServiceRef | SourceIAMDataset | SourceDerived | SourcePermissionless

definition permissionless_ops :: "string list" where
  "permissionless_ops = [''sts:GetCallerIdentity'']"

fun dedupe_non_empty :: "string list \<Rightarrow> string list \<Rightarrow> string list" where
  "dedupe_non_empty [] out = out"
| "dedupe_non_empty (s # ss) out =
     (if s = [] then dedupe_non_empty ss out
      else if s \<in> set out then dedupe_non_empty ss out
      else dedupe_non_empty ss (out @ [s]))"

record action_ports =
  ap_service_ref :: "string \<Rightarrow> service_ref_model option"
  ap_dataset :: "iam_dataset option"

definition registry_lookup :: "action_ports \<Rightarrow> string \<Rightarrow> string list \<Rightarrow> string \<Rightarrow> string list" where
  "registry_lookup ap service sdk_names op1 =
     (case ap_dataset ap of None \<Rightarrow> [] | Some d \<Rightarrow> dataset_lookup d service sdk_names op1)"

definition registry_lookup_sdk_id :: "action_ports \<Rightarrow> string \<Rightarrow> string \<Rightarrow> string list" where
  "registry_lookup_sdk_id ap sdk_id op1 =
     (case ap_dataset ap of None \<Rightarrow> [] | Some d \<Rightarrow> dataset_lookup_sdk_id d sdk_id op1)"

text \<open>The Service Reference tier: the actions found, and the SDK names of the last document that had the operation.\<close>

fun service_ref_tier :: "action_ports \<Rightarrow> string list \<Rightarrow> string \<Rightarrow> string list \<Rightarrow> string list \<times> string list" where
  "service_ref_tier ap [] op1 sdk_names = ([], sdk_names)"
| "service_ref_tier ap (key # keys) op1 sdk_names =
     (case Option.bind (ap_service_ref ap key) (\<lambda>m. map_of (sr_operations m) op1) of
        None \<Rightarrow> service_ref_tier ap keys op1 sdk_names
      | Some srop \<Rightarrow>
          if length (sr_authorized_actions srop) > 0 then (sr_authorized_actions srop, sr_sdk_names srop)
          else service_ref_tier ap keys op1 (sr_sdk_names srop))"

fun dataset_tier :: "action_ports \<Rightarrow> string list \<Rightarrow> string list \<Rightarrow> string \<Rightarrow> string list" where
  "dataset_tier ap [] sdk_names op1 = []"
| "dataset_tier ap (key # keys) sdk_names op1 =
     (let acts = registry_lookup ap key sdk_names op1 in
      if length acts > 0 then acts else dataset_tier ap keys sdk_names op1)"

definition resolve_standard :: "action_ports \<Rightarrow> service_model \<Rightarrow> string \<Rightarrow> string list \<times> action_source" where
  "resolve_standard ap model op1 =
     (let keys = dedupe_non_empty [sm_arn_namespace model, sm_dir model, sm_endpoint_prefix model] [];
          (acts, sdk_names) = service_ref_tier ap keys op1 [] in
      if length acts > 0 then (acts, SourceServiceRef)
      else let acts2 = dataset_tier ap keys sdk_names op1 in
        if length acts2 > 0 then (acts2, SourceIAMDataset)
        else if sm_arn_namespace model \<noteq> [] then ([sm_arn_namespace model @ '':'' @ op1], SourceDerived)
        else ([], SourceNone))"

definition resolve_shadowed :: "action_ports \<Rightarrow> service_model \<Rightarrow> string \<Rightarrow> string list \<times> action_source" where
  "resolve_shadowed ap model op1 =
     (let (acts, _) = service_ref_tier ap (dedupe_non_empty [sm_dir model, sm_endpoint_prefix model] []) op1 [] in
      if length acts > 0 then (acts, SourceServiceRef)
      else let acts2 = registry_lookup_sdk_id ap (sm_sdk_id model) op1 in
        if length acts2 > 0 then (acts2, SourceIAMDataset) else ([], SourceNone))"

definition resolve_actions :: "action_ports \<Rightarrow> service_model \<Rightarrow> string \<Rightarrow> string list \<times> action_source" where
  "resolve_actions ap model op1 =
     (if list_ex (\<lambda>key. to_lower key @ '':'' @ op1 \<in> set permissionless_ops)
           (dedupe_non_empty [sm_arn_namespace model, sm_dir model, sm_endpoint_prefix model] []) then
        ([], SourcePermissionless)
      else if sm_namespace_shadowed model then resolve_shadowed ap model op1
      else resolve_standard ap model op1)"

subsection \<open>policy.go\<close>

text \<open>What the two IAM calls answer: the default version, then the document of a version.\<close>

definition fetch_policy_document ::
    "(unit, string option) result \<Rightarrow> (string \<Rightarrow> (unit, string option) result) \<Rightarrow> (string \<times> string) option" where
  "fetch_policy_document get_policy get_version =
     (case get_policy of
        Inl _ \<Rightarrow> None
      | Inr None \<Rightarrow> None
      | Inr (Some version) \<Rightarrow>
          (case get_version version of
             Inl _ \<Rightarrow> None
           | Inr None \<Rightarrow> None
           | Inr (Some raw) \<Rightarrow> map_option (\<lambda>doc. (doc, version)) (query_unescape raw)))"

subsection \<open>policy_eval.go\<close>

type_synonym decision_cache = "string \<Rightarrow> bool option"

text \<open>\<open>simulate\<close> answers with the decisions of the evaluation results.\<close>

record policy_evaluator =
  pe_version :: string
  pe_simulate :: "string \<Rightarrow> (unit, string list) result"
  pe_add :: "string \<Rightarrow> bool \<Rightarrow> decision_cache \<Rightarrow> decision_cache"

definition decision_key :: "policy_evaluator \<Rightarrow> string \<Rightarrow> string" where
  "decision_key e action = pe_version e @ ''|'' @ action"

fun allowed_all ::
    "policy_evaluator \<Rightarrow> string list \<Rightarrow> decision_cache \<Rightarrow> (aws_error, bool) result \<times> decision_cache" where
  "allowed_all e [] cache = (Inr True, cache)"
| "allowed_all e (action # actions) cache =
     (case cache (decision_key e action) of
        Some v \<Rightarrow> if \<not> v then (Inr False, cache) else allowed_all e actions cache
      | None \<Rightarrow>
          (case pe_simulate e action of
             Inl _ \<Rightarrow> (Inl AwsPolicyEvalFailed, cache)
           | Inr results \<Rightarrow>
               if length results = 0 then (Inl AwsPolicyEvalFailed, cache)
               else let allowed = (results ! 0 = ''allowed''); cache' = pe_add e (decision_key e action) allowed cache in
                 if \<not> allowed then (Inr False, cache') else allowed_all e actions cache'))"

subsection \<open>provider.go\<close>

record aws_gate =
  ag_to_ascii :: "string \<Rightarrow> string option"
  ag_models :: "string \<Rightarrow> (aws_error, service_model list) result"
  ag_ports :: action_ports
  ag_evaluator :: policy_evaluator

fun required_actions :: "aws_gate \<Rightarrow> service_model \<Rightarrow> string list \<Rightarrow> string list \<Rightarrow> (aws_error, string list) result" where
  "required_actions g model [] out = Inr out"
| "required_actions g model (op1 # ops) out =
     (let (actions, src) = resolve_actions (ag_ports g) model op1 in
      if src = SourcePermissionless then required_actions g model ops out
      else if src = SourceNone \<or> length actions = 0 then Inl AwsActionUnresolved
      else required_actions g model ops (out @ actions))"

text \<open>The candidates one after another: what is required, how many matched, whether one is unsupported.\<close>

fun candidates_loop ::
    "aws_gate \<Rightarrow> view \<Rightarrow> parsed_host \<Rightarrow> service_model list \<Rightarrow> string list \<Rightarrow> nat \<Rightarrow> bool \<Rightarrow>
     (aws_error, string list \<times> nat \<times> bool) result" where
  "candidates_loop g v parsed [] required matched unsupported = Inr (required, matched, unsupported)"
| "candidates_loop g v parsed (model # models) required matched unsupported =
     (if \<not> equal_fold (sm_endpoint_prefix model) (ph_service parsed) then
        candidates_loop g v parsed models required matched unsupported
      else (case classify_operation model v parsed of
          Inl (UnknownOp u) \<Rightarrow> candidates_loop g v parsed models required matched (unsupported \<or> u)
        | Inr ops \<Rightarrow>
            (case required_actions g model ops [] of
               Inl e \<Rightarrow> Inl e
             | Inr actions \<Rightarrow>
                 candidates_loop g v parsed models (foldl append_new required actions) (matched + 1) unsupported)))"

text \<open>\<open>block\<close> is the parsed \<open>aws_auth\<close> block, of which only the presence counts.\<close>

definition authorize_aws ::
    "aws_gate \<Rightarrow> view \<Rightarrow> (unit, 'a option) result \<Rightarrow> decision_cache \<Rightarrow> (aws_error, unit) result \<times> decision_cache" where
  "authorize_aws g v block cache =
     (case block of
        Inl _ \<Rightarrow> (Inl AwsBadArguments, cache)
      | Inr None \<Rightarrow> (Inl AwsAuthRequired, cache)
      | Inr (Some _) \<Rightarrow>
          (case aws_parse_host (ag_to_ascii g) (v_hostname v) of
             Inl e \<Rightarrow> (Inl (AwsHostError e), cache)
           | Inr parsed \<Rightarrow>
               (case ag_models g (ph_service parsed) of
                  Inl e \<Rightarrow> (Inl e, cache)
                | Inr models \<Rightarrow>
                    (case candidates_loop g v parsed models [] 0 False of
                       Inl e \<Rightarrow> (Inl e, cache)
                     | Inr (required, matched, unsupported) \<Rightarrow>
                         if matched = 0 then
                           (Inl (if unsupported then AwsActionUnresolved else AwsUnmatched (ph_service parsed)), cache)
                         else (case allowed_all (ag_evaluator g) required cache of
                             (Inl e, cache') \<Rightarrow> (Inl e, cache')
                           | (Inr allowed, cache') \<Rightarrow>
                               (if \<not> allowed then Inl AwsPolicyDenied else Inr (), cache'))))))"

fun signing_loop :: "string \<Rightarrow> service_model list \<Rightarrow> string \<Rightarrow> (aws_error, string) result" where
  "signing_loop service [] name = (if name = [] then Inl AwsSigningNameUnresolved else Inr name)"
| "signing_loop service (model # models) name =
     (if \<not> equal_fold (sm_endpoint_prefix model) service then signing_loop service models name
      else if name = [] then signing_loop service models (sm_signing_name model)
      else if \<not> equal_fold name (sm_signing_name model) then Inl AwsSigningNameUnresolved
      else signing_loop service models name)"

definition resolve_signing_name :: "aws_gate \<Rightarrow> string \<Rightarrow> (aws_error, string) result" where
  "resolve_signing_name g host =
     (case aws_parse_host (ag_to_ascii g) (to_lower host) of
        Inl e \<Rightarrow> Inl (AwsHostError e)
      | Inr parsed \<Rightarrow> and_then (ag_models g (ph_service parsed)) (\<lambda>models. signing_loop (ph_service parsed) models []))"

subsection \<open>auth/aws.go\<close>

definition aws_provider_name :: string where
  "aws_provider_name = ''aws''"

definition empty_payload_sha256 :: string where
  "empty_payload_sha256 = ''e3b0c44298fc1c149afbf4c8996fb92427ae41e4649b934ca495991b7852b855''"

record aws_args =
  aa_service :: string
  aa_region :: string

definition aws_validate :: "aws_args option \<Rightarrow> (aws_error, unit) result" where
  "aws_validate a = (if a = None \<or> aa_service (the a) = [] then Inl AwsBadArguments else Inr ())"

text \<open>
  The connector: the region of its configuration, what the deferred initialization made of
  the gate (\<open>None\<close> when it failed), the credentials, the digest and the signature.
\<close>

record aws_provider =
  awp_to_ascii :: "string \<Rightarrow> string option"
  awp_region :: string
  awp_gate :: "aws_gate option"
  awp_credentials :: "(unit, string) result"
  awp_sha256_hex :: "string \<Rightarrow> string"
  awp_sign :: "string \<Rightarrow> http_request \<Rightarrow> string \<Rightarrow> string \<Rightarrow> string \<Rightarrow> (unit, http_request) result"

definition resolve_signing_name_ready :: "aws_provider \<Rightarrow> string \<Rightarrow> (aws_error, string) result" where
  "resolve_signing_name_ready p host = (case awp_gate p of None \<Rightarrow> Inl AwsNotReady | Some g \<Rightarrow> resolve_signing_name g host)"

definition canonical_signing_name :: "aws_provider \<Rightarrow> string \<Rightarrow> string \<Rightarrow> string" where
  "canonical_signing_name p host claimed =
     (case resolve_signing_name_ready p host of Inl _ \<Rightarrow> claimed | Inr resolved \<Rightarrow> resolved)"

fun first_region :: "string list \<Rightarrow> string" where
  "first_region [] = ''us-east-1''"
| "first_region (v # vs) = (if v \<noteq> [] then v else first_region vs)"

definition signing_region :: "aws_provider \<Rightarrow> aws_args \<Rightarrow> string \<Rightarrow> string" where
  "signing_region p args host =
     (case aws_parse_host (awp_to_ascii p) (to_lower host) of
        Inl _ \<Rightarrow> first_region [aa_region args, awp_region p]
      | Inr ph \<Rightarrow> if ph_region ph \<noteq> [] then ph_region ph else canonical_global_region ph)"

definition payload_hash :: "aws_provider \<Rightarrow> string option \<Rightarrow> string" where
  "payload_hash p body = (case body of None \<Rightarrow> empty_payload_sha256 | Some b \<Rightarrow> awp_sha256_hex p b)"

definition aws_inject_auth ::
    "aws_provider \<Rightarrow> (unit, aws_args option) result \<Rightarrow> string option \<Rightarrow> http_request \<Rightarrow> (aws_error, http_request) result" where
  "aws_inject_auth p parsed body req =
     (if awp_gate p = None then Inl AwsNotReady
      else and_then (map_err (\<lambda>_. AwsBadArguments) parsed) (\<lambda>args.
        and_then (aws_validate args) (\<lambda>_.
          let service = canonical_signing_name p (url_hostname req) (aa_service (the args)) in
          and_then (map_err (\<lambda>_. AwsCredentials) (awp_credentials p)) (\<lambda>creds.
            let region = signing_region p (the args) (url_hostname req); hash = payload_hash p body;
                req1 = req\<lparr>req_header := header_set (req_header req) ''X-Amz-Content-Sha256'' hash\<rparr>
            in map_err (\<lambda>_. AwsSigning) (awp_sign p creds req1 hash service region)))))"

definition aws_authorize_action ::
    "aws_provider \<Rightarrow> view \<Rightarrow> (unit, 'a option) result \<Rightarrow> decision_cache \<Rightarrow> (aws_error, unit) result \<times> decision_cache" where
  "aws_authorize_action p v block cache =
     (if authorize_request_port v https_port \<noteq> Inr () then (Inl AwsWrongPort, cache)
      else (case awp_gate p of None \<Rightarrow> (Inl AwsNotReady, cache) | Some g \<Rightarrow> authorize_aws g v block cache))"

definition aws_authorizes_host ::
    "aws_provider \<Rightarrow> string \<Rightarrow> (unit, aws_args option) result \<Rightarrow> (aws_error, bool) result" where
  "aws_authorizes_host p host parsed =
     and_then (map_err (\<lambda>_. AwsBadArguments) parsed) (\<lambda>args.
     and_then (aws_validate args) (\<lambda>_.
     and_then (map_err AwsHostError (aws_parse_host (awp_to_ascii p) host)) (\<lambda>ph.
       let claim = aa_service (the args); region = aa_region (the args) in
       case aws_verify ph claim region of
         Inr _ \<Rightarrow> Inr True
       | Inl verify_err \<Rightarrow>
           if equal_fold claim (ph_service ph) then Inl (AwsHostError verify_err)
           else (case resolve_signing_name_ready p host of
               Inl _ \<Rightarrow> Inl (AwsHostError verify_err)
             | Inr signing_name \<Rightarrow>
                 (case aws_verify (plain_host signing_name (ph_region ph)) claim region of
                    Inl alias_err \<Rightarrow> Inl (AwsHostError alias_err)
                  | Inr _ \<Rightarrow> Inr True)))))"

subsection \<open>The decision cache\<close>

text \<open>What the policy says of an action, asked afresh.\<close>

definition policy_allows :: "policy_evaluator \<Rightarrow> string \<Rightarrow> bool" where
  "policy_allows e action = (case pe_simulate e action of Inl _ \<Rightarrow> False | Inr results \<Rightarrow> results \<noteq> [] \<and> results ! 0 = ''allowed'')"

text \<open>The cache's \<open>Add\<close> may drop entries but invents none; the cache holds the policy's own answers.\<close>

definition add_ok :: "policy_evaluator \<Rightarrow> bool" where
  "add_ok e \<longleftrightarrow> (\<forall>k v c k' x. pe_add e k v c k' = Some x \<longrightarrow> k' = k \<and> x = v \<or> c k' = Some x)"

definition decisions_ok :: "policy_evaluator \<Rightarrow> decision_cache \<Rightarrow> bool" where
  "decisions_ok e cache \<longleftrightarrow> (\<forall>a v. cache (decision_key e a) = Some v \<longrightarrow> v = policy_allows e a)"

lemma decision_key_inject [simp]: "decision_key e a = decision_key e b \<longleftrightarrow> a = b"
  by (simp add: decision_key_def)

lemma allowed_all_spec:
  assumes "add_ok e" "decisions_ok e cache" "allowed_all e actions cache = (r, cache')"
  shows "decisions_ok e cache' \<and> (r = Inr True \<longleftrightarrow> (\<forall>a \<in> set actions. policy_allows e a))"
  using assms(2,3)
proof (induction actions arbitrary: cache)
  case (Cons a as)
  show ?case
  proof (cases "cache (decision_key e a)")
    case (Some v)
    with Cons.prems(1) have "v = policy_allows e a" by (simp add: decisions_ok_def)
    with Some Cons show ?thesis by (auto split: if_splits)
  next
    case None
    show ?thesis
    proof (cases "pe_simulate e a")
      case (Inl x)
      with None Cons.prems show ?thesis by (auto simp: policy_allows_def)
    next
      case (Inr results)
      show ?thesis
      proof (cases "results = []")
        case True
        with None Inr Cons.prems show ?thesis by (auto simp: policy_allows_def)
      next
        case False
        then have p: "(results ! 0 = ''allowed'') = policy_allows e a" using Inr by (simp add: policy_allows_def)
        let ?c = "pe_add e (decision_key e a) (policy_allows e a) cache"
        have ok: "decisions_ok e ?c"
          using assms(1) Cons.prems(1) unfolding add_ok_def decisions_ok_def by (metis decision_key_inject)
        with None Inr False p Cons.prems(2) Cons.IH [OF ok] show ?thesis
          by (cases "policy_allows e a") (auto simp: Let_def)
      qed
    qed
  qed
qed auto

subsection \<open>The gate\<close>

text \<open>What an operation needs of the policy.\<close>

definition op_authorized :: "aws_gate \<Rightarrow> service_model \<Rightarrow> string \<Rightarrow> bool" where
  "op_authorized g model op1 \<longleftrightarrow>
     (let (actions, src) = resolve_actions (ag_ports g) model op1 in
      src = SourcePermissionless \<or>
      src \<noteq> SourceNone \<and> actions \<noteq> [] \<and> (\<forall>a \<in> set actions. policy_allows (ag_evaluator g) a))"

lemma required_actions_Inr:
  "required_actions g model ops out = Inr acts \<Longrightarrow>
     set out \<subseteq> set acts \<and>
     (\<forall>op1 \<in> set ops. snd (resolve_actions (ag_ports g) model op1) = SourcePermissionless \<or>
        snd (resolve_actions (ag_ports g) model op1) \<noteq> SourceNone \<and> fst (resolve_actions (ag_ports g) model op1) \<noteq> [] \<and>
        set (fst (resolve_actions (ag_ports g) model op1)) \<subseteq> set acts)"
proof (induction ops arbitrary: out)
  case (Cons op1 ops)
  obtain actions src where r: "resolve_actions (ag_ports g) model op1 = (actions, src)" by fastforce
  show ?case
  proof (cases "src = SourcePermissionless")
    case True
    with Cons r show ?thesis by auto
  next
    case False
    with Cons.prems r have "src \<noteq> SourceNone" "actions \<noteq> []" "required_actions g model ops (out @ actions) = Inr acts"
      by (auto split: if_splits)
    with Cons.IH [of "out @ actions"] r show ?thesis by auto
  qed
qed simp

definition serves :: "parsed_host \<Rightarrow> service_model \<Rightarrow> bool" where
  "serves parsed model \<longleftrightarrow> equal_fold (sm_endpoint_prefix model) (ph_service parsed)"

lemma candidates_loop_Inr:
  "candidates_loop g v parsed models required matched unsupported = Inr (required', matched', unsupported') \<Longrightarrow>
     set required \<subseteq> set required' \<and>
     (matched' > matched \<longleftrightarrow> (\<exists>model \<in> set models. serves parsed model \<and> (\<exists>ops. classify_operation model v parsed = Inr ops))) \<and>
     (\<forall>model \<in> set models. \<forall>ops. serves parsed model \<longrightarrow> classify_operation model v parsed = Inr ops \<longrightarrow>
        (\<exists>acts. required_actions g model ops [] = Inr acts \<and> set acts \<subseteq> set required')) \<and> matched \<le> matched'"
proof (induction models arbitrary: required matched unsupported)
  case (Cons model models)
  show ?case
  proof (cases "serves parsed model")
    case False
    with Cons.prems have "candidates_loop g v parsed models required matched unsupported = Inr (required', matched', unsupported')"
      by (simp add: serves_def)
    from Cons.IH [OF this] False show ?thesis by auto
  next
    case True
    show ?thesis
    proof (cases "classify_operation model v parsed")
      case (Inl e)
      obtain u where u: "e = UnknownOp u" by (cases e)
      with True Inl Cons.prems have
        "candidates_loop g v parsed models required matched (unsupported \<or> u) = Inr (required', matched', unsupported')"
        by (simp add: serves_def)
      from Cons.IH [OF this] Inl show ?thesis by auto
    next
      case (Inr ops)
      with True Cons.prems obtain acts where a: "required_actions g model ops [] = Inr acts"
        "candidates_loop g v parsed models (foldl append_new required acts) (matched + 1) unsupported =
           Inr (required', matched', unsupported')"
        by (auto simp: serves_def split: sum.splits)
      from Cons.IH [OF a(2)] have i: "set required \<union> set acts \<subseteq> set required'" "matched + 1 \<le> matched'"
        and rest: "\<forall>model \<in> set models. \<forall>ops. serves parsed model \<longrightarrow> classify_operation model v parsed = Inr ops \<longrightarrow>
          (\<exists>acts. required_actions g model ops [] = Inr acts \<and> set acts \<subseteq> set required')"
        by (auto simp: set_foldl_append_new)
      with True Inr a(1) show ?thesis by auto
    qed
  qed
qed auto

text \<open>The operations a request may run under a model, whichever reading of its path the service takes.\<close>

definition may_run :: "service_model \<Rightarrow> view \<Rightarrow> parsed_host \<Rightarrow> string set" where
  "may_run model v parsed =
     (if sm_protocol model \<in> {ProtocolRestXML, ProtocolRestJSON1} then
        (\<Union>segs \<in> set (path_readings v). classify_rest_spec model v (classification_segments parsed segs))
      else (case classify_operation model v parsed of Inr ops \<Rightarrow> set ops | Inl _ \<Rightarrow> {}))"

lemma rest_union_spec:
  assumes "distinct (map fst (sm_operations model))" "rest_union model v parsed rs acc err = (acc', err')"
  shows "set acc' = set acc \<union> (\<Union>segs \<in> set rs. classify_rest_spec model v (classification_segments parsed segs))"
  using assms(2)
proof (induction rs arbitrary: acc err)
  case (Cons segs rs)
  let ?s = "classification_segments parsed segs"
  note e = classify_rest_exact [OF assms(1), of v ?s]
  show ?case
  proof (cases "classify_rest model v ?s")
    case (Inl x)
    with e have "classify_rest_spec model v ?s = {}" by (simp add: classify_rest_spec_def)
    with Inl Cons show ?thesis by simp
  next
    case (Inr ops)
    with e have "set ops = classify_rest_spec model v ?s" by simp
    with Inr Cons show ?thesis by auto
  qed
qed simp

lemma may_run_classified:
  assumes "distinct (map fst (sm_operations model))" "op1 \<in> may_run model v parsed"
  shows "\<exists>ops. classify_operation model v parsed = Inr ops \<and> op1 \<in> set ops"
proof (cases "sm_protocol model \<in> {ProtocolRestXML, ProtocolRestJSON1}")
  case True
  obtain acc err where r: "rest_union model v parsed (path_readings v) [] None = (acc, err)" by fastforce
  have "op1 \<in> set acc" using rest_union_spec [OF assms(1) r] assms(2) True by (simp add: may_run_def)
  then have "classify_rest_readings model v parsed = Inr (compact (sort acc)) \<and> op1 \<in> set (compact (sort acc))"
    using r by (auto simp: classify_rest_readings_def simp del: set_compact) (auto simp: set_compact)
  with True show ?thesis by (auto simp: classify_operation_def)
next
  case False
  with assms(2) show ?thesis by (auto simp: may_run_def split: sum.splits)
qed

definition models_ok :: "aws_gate \<Rightarrow> bool" where
  "models_ok g \<longleftrightarrow> (\<forall>service models. ag_models g service = Inr models \<longrightarrow>
     (\<forall>model \<in> set models. distinct (map fst (sm_operations model))))"

text \<open>
  C5. The AWS gate authorizes everything a request may run: when it lets a request through, some
  model answers on the host's service and can run it, and for every model that answers there,
  every operation the request may be routed to under any reading of its path is either the
  pinned permissionless one or resolves to actions each of which the policy allows. Neither a tie,
  nor a prefix shared by two services, nor an entry in the decision cache lets one slip by.
\<close>

theorem aws_gate_authorizes_all:
  assumes "authorize_aws g v block cache = (Inr (), cache')"
    and "add_ok (ag_evaluator g)" "decisions_ok (ag_evaluator g) cache" "models_ok g"
  shows "\<exists>parsed models. aws_parse_host (ag_to_ascii g) (v_hostname v) = Inr parsed \<and>
    ag_models g (ph_service parsed) = Inr models \<and>
    (\<exists>model \<in> set models. serves parsed model \<and> is_ok (classify_operation model v parsed)) \<and>
    (\<forall>model \<in> set models. serves parsed model \<longrightarrow> (\<forall>op1 \<in> may_run model v parsed. op_authorized g model op1)) \<and>
    decisions_ok (ag_evaluator g) cache'"
proof -
  from assms(1) obtain parsed models required matched unsupported where
    h: "aws_parse_host (ag_to_ascii g) (v_hostname v) = Inr parsed" and m: "ag_models g (ph_service parsed) = Inr models"
    and c: "candidates_loop g v parsed models [] 0 False = Inr (required, matched, unsupported)" "matched \<noteq> 0"
    and a: "allowed_all (ag_evaluator g) required cache = (Inr True, cache')"
    by (auto simp: authorize_aws_def split: sum.splits option.splits prod.splits if_splits)
  note l = candidates_loop_Inr [OF c(1)] and s = allowed_all_spec [OF assms(2,3) a]
  have auth: "op_authorized g model op1"
    if model: "model \<in> set models" "serves parsed model" and op1: "op1 \<in> may_run model v parsed" for model op1
  proof -
    have "distinct (map fst (sm_operations model))" using assms(4) m model(1) by (auto simp: models_ok_def)
    from may_run_classified [OF this op1] obtain ops where o: "classify_operation model v parsed = Inr ops" "op1 \<in> set ops"
      by blast
    with l model obtain acts where r: "required_actions g model ops [] = Inr acts" "set acts \<subseteq> set required" by blast
    show ?thesis
      using required_actions_Inr [OF r(1)] o(2) r(2) s
      by (cases "resolve_actions (ag_ports g) model op1") (fastforce simp: op_authorized_def)
  qed
  have "\<exists>model \<in> set models. serves parsed model \<and> is_ok (classify_operation model v parsed)"
    using l c(2) by fastforce
  with h m auth s show ?thesis by blast
qed

text \<open>Of the operations, one needs no permission, and only of the service that owns it.\<close>

lemma permissionless_is_sts:
  "snd (resolve_actions ap model op1) = SourcePermissionless \<Longrightarrow>
     \<exists>key \<in> {sm_arn_namespace model, sm_dir model, sm_endpoint_prefix model}. to_lower key @ '':'' @ op1 = ''sts:GetCallerIdentity''"
  by (auto simp: resolve_actions_def resolve_shadowed_def resolve_standard_def Let_def permissionless_ops_def list_ex_iff
    split: if_splits prod.splits)

subsection \<open>Hosts and signing\<close>

text \<open>
  C25. The credential stays with AWS: a host the connector admits is, once normalized, in one of
  AWS's own zones, and a regional host is signed for its own region whatever region the model
  names, a global one for the canonical region of its partition.
\<close>

theorem aws_host_confined:
  assumes "aws_authorizes_host p (to_lower raw_host) parsed = Inr True"
  shows "\<exists>h ph. normalize_host (awp_to_ascii p) (to_lower raw_host) = Some h \<and> parse_host_name h = Inr ph \<and> in_aws_zone h \<and>
    (\<forall>args. signing_region p args raw_host = (if ph_region ph \<noteq> [] then ph_region ph else canonical_global_region ph))"
proof -
  from assms obtain args ph where ph: "aws_parse_host (awp_to_ascii p) (to_lower raw_host) = Inr ph"
    by (auto simp: aws_authorizes_host_def result_elim)
  then obtain h where h: "normalize_host (awp_to_ascii p) (to_lower raw_host) = Some h" "parse_host_name h = Inr ph"
    by (auto simp: aws_parse_host_def split: if_splits option.splits)
  with parse_host_name_zone [OF h(2)] ph show ?thesis by (auto simp: signing_region_def)
qed

lemma classify_rest_other_host:
  "classify_rest model (v\<lparr>v_hostname := h\<rparr>) segs = classify_rest model v segs"
proof -
  have "rest_candidate (v\<lparr>v_hostname := h\<rparr>) = rest_candidate v" by (intro ext) (simp add: rest_candidate_def split: prod.splits)
  then show ?thesis by (simp add: classify_rest_def)
qed

lemma rest_union_other_host:
  assumes "ph_bucket_in_host a = ph_bucket_in_host b"
  shows "rest_union model (v\<lparr>v_hostname := h\<rparr>) a rs acc err = rest_union model v b rs acc err"
proof -
  have "classification_segments a = classification_segments b" using assms by (simp add: classification_segments_def fun_eq_iff)
  then show ?thesis
    by (induction rs arbitrary: acc err) (auto simp: classify_rest_other_host split: sum.splits)
qed

lemma classify_operation_other_host:
  "ph_bucket_in_host a = ph_bucket_in_host b \<Longrightarrow>
     classify_operation model (v\<lparr>v_hostname := h\<rparr>) a = classify_operation model v b"
  using rest_union_other_host [where a = a and b = b and model = model and v = v and h = h]
  by (simp add: classify_operation_def classify_rest_readings_def path_readings_def classify_json_rpc_def
    classify_query_def classify_query_body_def classify_query_url_def split: aws_protocol.splits)

lemma candidates_loop_other_host:
  "ph_bucket_in_host a = ph_bucket_in_host b \<Longrightarrow> ph_service a = ph_service b \<Longrightarrow>
     candidates_loop g (v\<lparr>v_hostname := h\<rparr>) a models required matched unsupported =
     candidates_loop g v b models required matched unsupported"
  by (induction models arbitrary: required matched unsupported)
    (auto simp: classify_operation_other_host split: sum.splits classify_error.splits)


subsection \<open>Witnesses\<close>

text \<open>A gate over one model, under a policy that allows listing functions and nothing else.\<close>

definition lambda_model :: service_model where
  "lambda_model =
     \<lparr>sm_dir = ''lambda'', sm_sdk_id = ''Lambda'', sm_arn_namespace = ''lambda'', sm_endpoint_prefix = ''lambda'',
      sm_signing_name = ''lambda'', sm_namespace_shadowed = False, sm_protocol = ProtocolRestJSON1,
      sm_operations =
        [(''Invoke'', \<lparr>op_http_method = ''POST'', op_uri_template = ''/i/{F}'', op_required_query = [], op_required_header = []\<rparr>),
         (''List'', \<lparr>op_http_method = ''GET'', op_uri_template = ''/f'', op_required_query = [], op_required_header = []\<rparr>)]\<rparr>"

definition example_aws_gate :: aws_gate where
  "example_aws_gate =
     \<lparr>ag_to_ascii = Some, ag_models = (\<lambda>s. if s = ''lambda'' then Inr [lambda_model] else Inl AwsModelError),
      ag_ports = \<lparr>ap_service_ref = (\<lambda>_. None), ap_dataset = None\<rparr>,
      ag_evaluator = \<lparr>pe_version = ''v1'', pe_simulate = (\<lambda>a. Inr [if a = ''lambda:List'' then ''allowed'' else ''implicitDeny'']),
        pe_add = (\<lambda>k v c. c(k \<mapsto> v))\<rparr>\<rparr>"

definition lambda_view :: "string \<Rightarrow> string \<Rightarrow> view" where
  "lambda_view m path = example_view\<lparr>v_method := m, v_path := path, v_escaped_path := path, v_raw_query := []\<rparr>"

lemma example_gate_ok: "add_ok (ag_evaluator example_aws_gate)" "decisions_ok (ag_evaluator example_aws_gate) Map.empty"
  "models_ok example_aws_gate" "ag_to_ascii example_aws_gate = Some"
  by (auto simp: add_ok_def decisions_ok_def models_ok_def example_aws_gate_def lambda_model_def)

lemma example_lists:
  "authorize_aws example_aws_gate ((lambda_view ''GET'' ''/f'')\<lparr>v_hostname := ''lambda.us-east-1.amazonaws.com''\<rparr>) (Inr (Some ())) Map.empty =
     (Inr (), [''v1|lambda:List'' \<mapsto> True])"
proof -
  let ?v = "(lambda_view ''GET'' ''/f'')\<lparr>v_hostname := ''lambda.us-east-1.amazonaws.com''\<rparr>"
  let ?b = "(plain_host ''lambda'' ''us-east-1'')\<lparr>ph_partition := partition_standard\<rparr>"
  have "(case aws_parse_host Some ''lambda.us-east-1.amazonaws.com'' of Inr p \<Rightarrow> p = ?b | _ \<Rightarrow> False)"
    "(case classify_operation lambda_model ?v ?b of Inr ops \<Rightarrow> ops = [''List''] | _ \<Rightarrow> False)"
    by code_simp+
  then have p: "aws_parse_host Some ''lambda.us-east-1.amazonaws.com'' = Inr ?b"
    and c: "classify_operation lambda_model ?v ?b = Inr [''List'']" by (auto split: sum.splits)
  have "\<not> list_ex (\<lambda>key. to_lower key @ '':'' @ ''List'' \<in> set permissionless_ops)
      (dedupe_non_empty [sm_arn_namespace lambda_model, sm_dir lambda_model, sm_endpoint_prefix lambda_model] [])"
    by code_simp
  then have r: "required_actions example_aws_gate lambda_model [''List''] [] = Inr [''lambda:List'']"
    by (simp add: resolve_actions_def resolve_standard_def example_aws_gate_def lambda_model_def registry_lookup_def Let_def)
  have e: "equal_fold (sm_endpoint_prefix lambda_model) (ph_service ?b)" by (simp add: lambda_model_def plain_host_def)
  have "candidates_loop example_aws_gate ?v ?b [lambda_model] [] 0 False = Inr ([''lambda:List''], 1, False)"
    using c r e by (simp add: append_new_def)
  then show ?thesis
    using p by (simp add: authorize_aws_def example_aws_gate_def plain_host_def decision_key_def)
qed

theorem aws_gate_authorizes_all_witness:
  "\<exists>parsed models cache'. aws_parse_host Some ''lambda.us-east-1.amazonaws.com'' = Inr parsed \<and>
     ag_models example_aws_gate (ph_service parsed) = Inr models \<and>
     (\<exists>model \<in> set models. serves parsed model) \<and> decisions_ok (ag_evaluator example_aws_gate) cache'"
  using aws_gate_authorizes_all [OF example_lists example_gate_ok(1-3)] example_gate_ok(4) by force


definition example_aws_provider :: aws_provider where
  "example_aws_provider =
     \<lparr>awp_to_ascii = Some, awp_region = [], awp_gate = Some example_aws_gate, awp_credentials = Inr [],
      awp_sha256_hex = (\<lambda>_. []), awp_sign = (\<lambda>_ req _ _ _. Inr req)\<rparr>"

lemma example_host_admitted:
  "aws_authorizes_host example_aws_provider (to_lower ''LAMBDA.eu-west-1.amazonaws.com'')
     (Inr (Some \<lparr>aa_service = ''lambda'', aa_region = []\<rparr>)) = Inr True"
proof -
  have "(case aws_authorizes_host example_aws_provider (to_lower ''LAMBDA.eu-west-1.amazonaws.com'')
      (Inr (Some \<lparr>aa_service = ''lambda'', aa_region = []\<rparr>)) of Inr b \<Rightarrow> b | _ \<Rightarrow> False)" by code_simp
  then show ?thesis by (auto split: sum.splits simp del: to_lower.simps)
qed

theorem aws_host_confined_witness:
  "\<exists>h ph. normalize_host Some (to_lower ''LAMBDA.eu-west-1.amazonaws.com'') = Some h \<and> parse_host_name h = Inr ph \<and> in_aws_zone h"
  using aws_host_confined [OF example_host_admitted]
  by (simp add: example_aws_provider_def del: to_lower.simps) blast

end
