(* ===== verification/Aws_Scope.thy ===== *)
theory Aws_Scope
  imports Go_Strings
begin

text \<open>
  Credential scoping, \<open>federation.go\<close> of package \<open>auth/aws\<close>: which callers are re-scoped by
  assuming their own role under the policy, and the credential provider that does it and degrades,
  once and for good, when AWS definitively denies it. Parsing and printing ARNs, STS and the base
  credentials are passed in.
\<close>

record aws_arn =
  arn_partition :: string
  arn_service :: string
  arn_region :: string
  arn_account :: string
  arn_resource :: string

datatype cred_scope_mode = CredScopeDisabled | CredScopeAssumeRole

record cred_scope_decision =
  csd_mode :: cred_scope_mode
  csd_role_arn :: string
  csd_reason :: string

definition reason_assume_role_unavailable :: string where
  "reason_assume_role_unavailable = ''assume_role_unavailable''"

definition reason_unrecognized_arn :: string where
  "reason_unrecognized_arn = ''unrecognized_arn''"

definition scope_disabled :: "string \<Rightarrow> cred_scope_decision" where
  "scope_disabled reason = \<lparr>csd_mode = CredScopeDisabled, csd_role_arn = [], csd_reason = reason\<rparr>"

definition decode_assumed_role :: "(aws_arn \<Rightarrow> string) \<Rightarrow> aws_arn \<Rightarrow> cred_scope_decision" where
  "decode_assumed_role print_arn parsed =
     (let role_and_session = trim_prefix (arn_resource parsed) ''assumed-role/'';
          (role, _, sep_found) = str_cut role_and_session ''/'' in
      if \<not> sep_found \<or> role = [] then scope_disabled reason_unrecognized_arn
      else \<lparr>csd_mode = CredScopeAssumeRole,
            csd_role_arn = print_arn \<lparr>arn_partition = arn_partition parsed, arn_service = ''iam'', arn_region = [],
              arn_account = arn_account parsed, arn_resource = ''role/'' @ role\<rparr>,
            csd_reason = []\<rparr>)"

definition detect_cred_scope ::
    "(string \<Rightarrow> aws_arn option) \<Rightarrow> (aws_arn \<Rightarrow> string) \<Rightarrow> string \<Rightarrow> cred_scope_decision" where
  "detect_cred_scope parse_arn print_arn caller =
     (case parse_arn caller of
        None \<Rightarrow> scope_disabled reason_unrecognized_arn
      | Some a \<Rightarrow>
          if arn_service a = ''iam'' \<and> (arn_resource a = ''root'' \<or> has_prefix (arn_resource a) ''user/'') then
            scope_disabled []
          else if arn_service a = ''sts'' \<and> has_prefix (arn_resource a) ''assumed-role/'' then
            decode_assumed_role print_arn a
          else if arn_service a = ''sts'' \<and> has_prefix (arn_resource a) ''federated-user/'' then
            scope_disabled ''unsupported_credential_type:federated-user''
          else scope_disabled reason_unrecognized_arn)"

subsection \<open>The scoped provider\<close>

record aws_creds =
  cr_access_key :: string
  cr_secret :: string
  cr_session :: string
  cr_source :: string
  cr_expires :: "int option"

text \<open>What STS answers: keys, or an error with the API's code when it has one.\<close>

record sts_creds =
  sts_access_key :: "string option"
  sts_secret :: "string option"
  sts_session :: "string option"
  sts_expiration :: "int option"

definition to_string :: "string option \<Rightarrow> string" where
  "to_string s = (case s of None \<Rightarrow> [] | Some t \<Rightarrow> t)"

definition creds_from_sts :: "sts_creds \<Rightarrow> aws_creds" where
  "creds_from_sts c =
     \<lparr>cr_access_key = to_string (sts_access_key c), cr_secret = to_string (sts_secret c),
      cr_session = to_string (sts_session c), cr_source = ''cynative-scoped'', cr_expires = sts_expiration c\<rparr>"

definition is_access_denied :: "string option \<Rightarrow> bool" where
  "is_access_denied code = (code = Some ''AccessDenied'' \<or> code = Some ''AccessDeniedException'')"

text \<open>\<open>sp_err_out\<close> is whether a writer is armed; the notices written and the once flag are the state.\<close>

record scoped_provider =
  sp_mode :: cred_scope_mode
  sp_err_out :: bool

record scope_state =
  sst_degraded :: bool
  sst_once :: bool
  sst_notices :: nat

datatype creds_error = StsError "string option" | BaseError

definition scoped_retrieve ::
    "scoped_provider \<Rightarrow> (string option, sts_creds) sum \<Rightarrow> aws_creds option \<Rightarrow> scope_state \<Rightarrow>
     (creds_error, aws_creds) sum \<times> scope_state" where
  "scoped_retrieve p assume_role base st =
     (let base_result = (case base of None \<Rightarrow> Inl BaseError | Some c \<Rightarrow> Inr c);
          mode = (if sst_degraded st then CredScopeDisabled else sp_mode p) in
      case mode of
        CredScopeAssumeRole \<Rightarrow>
          (case assume_role of
             Inr out \<Rightarrow> (Inr (creds_from_sts out), st)
           | Inl code \<Rightarrow>
               if \<not> is_access_denied code then (Inl (StsError code), st)
               else (base_result,
                 st\<lparr>sst_degraded := True, sst_once := True,
                    sst_notices := (if \<not> sst_once st \<and> sp_err_out p then sst_notices st + 1 else sst_notices st)\<rparr>))
      | CredScopeDisabled \<Rightarrow> (base_result, st))"

definition fresh_scope :: scope_state where
  "fresh_scope = \<lparr>sst_degraded = False, sst_once = False, sst_notices = 0\<rparr>"

record scope_result =
  scr_mode :: cred_scope_mode
  scr_reason :: string
  scr_verified :: bool

text \<open>\<open>ResolveScope\<close> gives the result, the provider with its writer armed or not, and its state.\<close>

definition resolve_scope ::
    "cred_scope_decision \<Rightarrow> (string option, sts_creds) sum \<Rightarrow> aws_creds option \<Rightarrow>
     scope_result \<times> scoped_provider \<times> scope_state" where
  "resolve_scope decision assume_role base =
     (let silent = \<lparr>sp_mode = csd_mode decision, sp_err_out = False\<rparr> in
      if csd_mode decision = CredScopeDisabled then
        (\<lparr>scr_mode = CredScopeDisabled, scr_reason = csd_reason decision, scr_verified = False\<rparr>, silent, fresh_scope)
      else (case scoped_retrieve silent assume_role base fresh_scope of (r, st) \<Rightarrow>
        if sst_degraded st then
          (\<lparr>scr_mode = CredScopeDisabled, scr_reason = reason_assume_role_unavailable, scr_verified = False\<rparr>, silent, st)
        else (\<lparr>scr_mode = csd_mode decision, scr_reason = [], scr_verified = (case r of Inl _ \<Rightarrow> False | Inr _ \<Rightarrow> True)\<rparr>,
              silent\<lparr>sp_err_out := True\<rparr>, st)))"

subsection \<open>Base credentials only after a denial\<close>

type_synonym scope_answer = "(string option, sts_creds) sum \<times> aws_creds option"

fun scope_run :: "scoped_provider \<Rightarrow> scope_answer list \<Rightarrow> scope_state \<Rightarrow> (creds_error, aws_creds) sum list \<times> scope_state" where
  "scope_run p [] st = ([], st)"
| "scope_run p ((a, b) # as) st =
     (case scoped_retrieve p a b st of (r, st') \<Rightarrow> (case scope_run p as st' of (rs, st'') \<Rightarrow> (r # rs, st'')))"

fun denied_answer :: "scope_answer \<Rightarrow> bool" where
  "denied_answer (Inl code, _) = is_access_denied code"
| "denied_answer _ = False"

lemma scoped_retrieve_degraded:
  assumes "sp_mode p = CredScopeAssumeRole" "scoped_retrieve p a b st = (r, st')"
  shows "sst_degraded st' = (sst_degraded st \<or> denied_answer (a, b))"
    and "r = Inr c \<Longrightarrow> \<not> sst_degraded st' \<Longrightarrow> cr_source c = ''cynative-scoped''"
  using assms by (cases a; auto simp: scoped_retrieve_def Let_def creds_from_sts_def split: if_splits)+

definition notice_ok :: "scope_state \<Rightarrow> bool" where
  "notice_ok st \<longleftrightarrow> sst_once st = sst_degraded st \<and> sst_notices st \<le> (if sst_once st then 1 else 0)"

lemma scoped_retrieve_notice:
  "notice_ok st \<Longrightarrow> scoped_retrieve p a b st = (r, st') \<Longrightarrow> notice_ok st'"
  by (cases a) (auto simp: scoped_retrieve_def notice_ok_def Let_def split: if_splits cred_scope_mode.splits)

lemma scope_run_spec:
  assumes "sp_mode p = CredScopeAssumeRole" "notice_ok st" "scope_run p answers st = (rs, st')"
  shows "length rs = length answers \<and> notice_ok st' \<and>
    (\<forall>i < length rs. \<forall>c. rs ! i = Inr c \<longrightarrow> cr_source c \<noteq> ''cynative-scoped'' \<longrightarrow>
       sst_degraded st \<or> (\<exists>j \<le> i. denied_answer (answers ! j)))"
  using assms(2,3)
proof (induction answers arbitrary: st rs)
  case (Cons ab answers)
  obtain a b where ab: "ab = (a, b)" by (cases ab)
  obtain r st1 where r: "scoped_retrieve p a b st = (r, st1)" by fastforce
  obtain rs1 where rs: "scope_run p answers st1 = (rs1, st')" "rs = r # rs1"
    using Cons.prems(2) r ab by (auto split: prod.splits)
  note ih = Cons.IH [OF scoped_retrieve_notice [OF Cons.prems(1) r] rs(1)]
  note d = scoped_retrieve_degraded [OF assms(1) r]
  have "sst_degraded st \<or> (\<exists>j \<le> i. denied_answer ((ab # answers) ! j))"
    if i: "i < length rs" "rs ! i = Inr c" "cr_source c \<noteq> ''cynative-scoped''" for i c
  proof (cases i)
    case 0
    with i rs(2) have "sst_degraded st1" using d(2) by auto
    with d(1) ab 0 show ?thesis by auto
  next
    case (Suc k)
    with i rs(2) ih have "sst_degraded st1 \<or> (\<exists>j \<le> k. denied_answer (answers ! j))" by auto
    then show ?thesis
    proof
      assume "sst_degraded st1"
      with d(1) ab have "sst_degraded st \<or> denied_answer ((ab # answers) ! 0)" by simp
      then show ?thesis by blast
    next
      assume "\<exists>j \<le> k. denied_answer (answers ! j)"
      then obtain j where "j \<le> k" "denied_answer ((ab # answers) ! Suc j)" by auto
      with Suc show ?thesis by (metis Suc_le_mono)
    qed
  qed
  with ih rs(2) show ?case by auto
qed simp


text \<open>The witness: a throttled call, a denial, then base credentials.\<close>

definition example_base :: aws_creds where
  "example_base = \<lparr>cr_access_key = ''AK'', cr_secret = [], cr_session = [], cr_source = ''env'', cr_expires = None\<rparr>"

definition example_answers :: "scope_answer list" where
  "example_answers = [(Inl (Some ''Throttling''), Some example_base), (Inl (Some ''AccessDenied''), Some example_base)]"


end
