(* ===== verification/Aws_Archive.thy ===== *)
theory Aws_Archive
  imports Aws_Model
begin

text \<open>
  \<open>archive.go\<close> of package \<open>auth/aws\<close>: the index of the model archive and the models served from
  it. Unpacking the tarball, its SHA-256 and the files of the cache are passed in; a tarball is the
  entries its reader yields and whether the reader then ends cleanly.
\<close>

record archive_entry =
  ae_dir :: string
  ae_version :: string

record archive_index =
  ai_prefixes :: "(string \<times> archive_entry list) list"
  ai_sha256 :: string

datatype archive_error = SmithyUnavailable | UnsupportedService

definition parse_model_path :: "string \<Rightarrow> (string \<times> string) option" where
  "parse_model_path path =
     (if \<not> has_suffix path ''.json'' then None
      else let parts = split_on CHR ''/'' path in
        if length parts \<noteq> 5 \<or> parts ! 0 \<noteq> ''models'' \<or> parts ! 2 \<noteq> ''service'' then None
        else Some (parts ! 1, parts ! 3))"

definition parse_archive_path :: "string \<Rightarrow> (string \<times> string) option" where
  "parse_archive_path name = (case str_index name ''models/'' of None \<Rightarrow> None | Some i \<Rightarrow> parse_model_path (drop i name))"

text \<open>The first service shape's prefix; a shape that does not decode is skipped.\<close>

fun first_service_prefix :: "(string \<times> json) list \<Rightarrow> string" where
  "first_service_prefix [] = []"
| "first_service_prefix ((_, raw) # shapes) =
     (case decode_shape raw of
        None \<Rightarrow> first_service_prefix shapes
      | Some sh \<Rightarrow> if ss_type sh = service_shape_type then extract_endpoint_prefix (ss_traits sh) else first_service_prefix shapes)"

definition endpoint_prefix_of :: "string \<Rightarrow> string" where
  "endpoint_prefix_of raw = (case decode_smithy_doc raw of None \<Rightarrow> [] | Some doc \<Rightarrow> first_service_prefix (sd_shapes doc))"

record tar_entry =
  te_name :: string
  te_regular :: bool
  te_data :: "string option"  \<comment> \<open>None when reading it fails\<close>

type_synonym untarred = "(tar_entry list \<times> bool) option"  \<comment> \<open>None when it is no gzip stream\<close>

type_synonym winners = "(string \<times> string \<times> string) list"  \<comment> \<open>directory, version, prefix\<close>

fun latest_models :: "tar_entry list \<Rightarrow> winners \<Rightarrow> (archive_error, winners) result" where
  "latest_models [] latest = Inr latest"
| "latest_models (e # es) latest =
     (if \<not> te_regular e then latest_models es latest
      else (case parse_archive_path (te_name e) of
          None \<Rightarrow> latest_models es latest
        | Some (dir, version) \<Rightarrow>
            if (case map_of latest dir of Some (v, _) \<Rightarrow> version \<le> v | None \<Rightarrow> False) then latest_models es latest
            else (case te_data e of
                None \<Rightarrow> Inl SmithyUnavailable
              | Some raw \<Rightarrow> latest_models es (map_put dir (version, endpoint_prefix_of raw) latest))))"

fun index_winners :: "winners \<Rightarrow> (string \<times> archive_entry list) list \<Rightarrow> (string \<times> archive_entry list) list" where
  "index_winners [] prefixes = prefixes"
| "index_winners ((dir, version, prefix) # ws) prefixes =
     (if prefix = [] then index_winners ws prefixes
      else index_winners ws
        (map_put prefix (get_list prefixes prefix @ [\<lparr>ae_dir = dir, ae_version = version\<rparr>]) prefixes))"

definition build_index :: "untarred \<Rightarrow> string \<Rightarrow> (archive_error, archive_index) result" where
  "build_index tar sha =
     (case tar of
        None \<Rightarrow> Inl SmithyUnavailable
      | Some (entries, clean) \<Rightarrow>
          (case latest_models entries [] of
             Inl e \<Rightarrow> Inl e
           | Inr latest \<Rightarrow>
               if \<not> clean then Inl SmithyUnavailable
               else if length latest = 0 then Inl SmithyUnavailable
               else Inr \<lparr>ai_prefixes = index_winners latest [], ai_sha256 = sha\<rparr>))"

fun find_model :: "tar_entry list \<Rightarrow> string \<Rightarrow> string \<Rightarrow> string option option" where
  "find_model [] dir version = None"
| "find_model (e # es) dir version =
     (if te_regular e \<and> parse_archive_path (te_name e) = Some (dir, version) then Some (te_data e)
      else find_model es dir version)"

definition extract_model :: "untarred \<Rightarrow> string \<Rightarrow> string \<Rightarrow> (archive_error, string) result" where
  "extract_model tar dir version =
     (case tar of
        None \<Rightarrow> Inl SmithyUnavailable
      | Some (entries, _) \<Rightarrow> (case find_model entries dir version of Some (Some b) \<Rightarrow> Inr b | _ \<Rightarrow> Inl SmithyUnavailable))"

definition namespace_shadowed :: "archive_index \<Rightarrow> service_model \<Rightarrow> bool" where
  "namespace_shadowed idx m =
     (if sm_arn_namespace m = [] then False
      else list_ex (\<lambda>e. ae_dir e \<noteq> sm_dir m) (get_list (ai_prefixes idx) (sm_arn_namespace m)))"

subsection \<open>The archive's state\<close>

record model_archive =
  ma_index :: "archive_index option"
  ma_raw :: string
  ma_memo :: "string \<Rightarrow> service_model option"

record archive_env =
  env_bytes :: "string option"  \<comment> \<open>the byte cache's answer\<close>
  env_sha256 :: "string \<Rightarrow> string"
  env_untar :: "string \<Rightarrow> untarred"
  env_index_file :: "string option"

definition decode_entry_member :: "string \<Rightarrow> json \<Rightarrow> archive_entry \<Rightarrow> archive_entry option" where
  "decode_entry_member k v e =
     (if equal_fold k ''dir'' then map_option (\<lambda>x. e\<lparr>ae_dir := x\<rparr>) (decode_text v (ae_dir e))
      else if equal_fold k ''version'' then map_option (\<lambda>x. e\<lparr>ae_version := x\<rparr>) (decode_text v (ae_version e))
      else Some e)"

definition decode_index_member :: "string \<Rightarrow> json \<Rightarrow> archive_index \<Rightarrow> archive_index option" where
  "decode_index_member k v i =
     (if equal_fold k ''prefixes'' then
        map_option (\<lambda>x. i\<lparr>ai_prefixes := x\<rparr>)
          (decode_map (\<lambda>j. map_option slice_elems
             (decode_slice (decode_struct decode_entry_member) \<lparr>ae_dir = [], ae_version = []\<rparr> j ([], 0))) v (ai_prefixes i))
      else if equal_fold k ''sha256'' then map_option (\<lambda>x. i\<lparr>ai_sha256 := x\<rparr>) (decode_text v (ai_sha256 i))
      else Some i)"

definition try_load_index :: "archive_env \<Rightarrow> string \<Rightarrow> archive_index option" where
  "try_load_index env sha =
     (case Option.bind (env_index_file env)
             (unmarshal_into (\<lambda>j. decode_struct decode_index_member j \<lparr>ai_prefixes = [], ai_sha256 = []\<rparr>)) of
        None \<Rightarrow> None
      | Some idx \<Rightarrow> if ai_sha256 idx \<noteq> sha \<or> length (ai_prefixes idx) = 0 then None else Some idx)"

definition use_archive :: "archive_env \<Rightarrow> string \<Rightarrow> model_archive \<Rightarrow> (archive_error, archive_index) result \<times> model_archive" where
  "use_archive env raw a =
     (let sha = env_sha256 env raw in
      case try_load_index env sha of
        Some idx \<Rightarrow> (Inr idx, a\<lparr>ma_raw := raw, ma_index := Some idx\<rparr>)
      | None \<Rightarrow>
          (case build_index (env_untar env raw) sha of
             Inl e \<Rightarrow> (Inl e, a)
           | Inr idx \<Rightarrow> (Inr idx, a\<lparr>ma_raw := raw, ma_index := Some idx\<rparr>)))"

definition archive_load :: "archive_env \<Rightarrow> model_archive \<Rightarrow> (archive_error, archive_index) result \<times> model_archive" where
  "archive_load env a =
     (case ma_index a of
        Some idx \<Rightarrow> (Inr idx, a)
      | None \<Rightarrow> (case env_bytes env of None \<Rightarrow> (Inl SmithyUnavailable, a) | Some raw \<Rightarrow> use_archive env raw a))"

text \<open>The model of a directory, without the memo.\<close>

definition model_fresh :: "archive_env \<Rightarrow> string \<Rightarrow> archive_index \<Rightarrow> string \<Rightarrow> string \<Rightarrow> (archive_error, service_model) result" where
  "model_fresh env raw idx dir version =
     and_then (extract_model (env_untar env raw) dir version) (\<lambda>b.
       case parse_model b of
         None \<Rightarrow> Inl SmithyUnavailable
       | Some m0 \<Rightarrow>
           let m = m0\<lparr>sm_dir := dir\<rparr> in Inr (m\<lparr>sm_namespace_shadowed := namespace_shadowed idx m\<rparr>))"

definition model_for ::
    "archive_env \<Rightarrow> archive_index \<Rightarrow> string \<Rightarrow> string \<Rightarrow> model_archive \<Rightarrow> (archive_error, service_model) result \<times> model_archive" where
  "model_for env idx dir version a =
     (case ma_memo a dir of
        Some m \<Rightarrow> (Inr m, a)
      | None \<Rightarrow>
          (case model_fresh env (ma_raw a) idx dir version of
             Inl e \<Rightarrow> (Inl e, a)
           | Inr m \<Rightarrow> (Inr m, a\<lparr>ma_memo := (ma_memo a)(dir := Some m)\<rparr>)))"

fun models_of ::
    "archive_env \<Rightarrow> archive_index \<Rightarrow> archive_entry list \<Rightarrow> model_archive \<Rightarrow> (archive_error, service_model list) result \<times> model_archive" where
  "models_of env idx [] a = (Inr [], a)"
| "models_of env idx (e # es) a =
     (case model_for env idx (ae_dir e) (ae_version e) a of
        (Inl err, a') \<Rightarrow> (Inl err, a')
      | (Inr m, a') \<Rightarrow>
          (case models_of env idx es a' of
             (Inl err, a'') \<Rightarrow> (Inl err, a'')
           | (Inr ms, a'') \<Rightarrow> (Inr (m # ms), a'')))"

definition archive_resolve ::
    "archive_env \<Rightarrow> string \<Rightarrow> model_archive \<Rightarrow> (archive_error, service_model list) result \<times> model_archive" where
  "archive_resolve env prefix a =
     (case archive_load env a of
        (Inl e, a') \<Rightarrow> (Inl e, a')
      | (Inr idx, a') \<Rightarrow>
          let entries = get_list (ai_prefixes idx) prefix in
          if length entries = 0 then (Inl UnsupportedService, a') else models_of env idx entries a')"

fun entry_of_dir :: "(string \<times> archive_entry list) list \<Rightarrow> string \<Rightarrow> archive_entry option" where
  "entry_of_dir [] dir = None"
| "entry_of_dir ((_, es) # rest) dir =
     (case List.find (\<lambda>e. ae_dir e = dir) es of Some e \<Rightarrow> Some e | None \<Rightarrow> entry_of_dir rest dir)"

definition raw_model ::
    "archive_env \<Rightarrow> string \<Rightarrow> model_archive \<Rightarrow> (archive_error, string \<times> string) result \<times> model_archive" where
  "raw_model env dir a =
     (case archive_load env a of
        (Inl e, a') \<Rightarrow> (Inl e, a')
      | (Inr idx, a') \<Rightarrow>
          (case entry_of_dir (ai_prefixes idx) dir of
             None \<Rightarrow> (Inl UnsupportedService, a')
           | Some e \<Rightarrow>
               (and_then (extract_model (env_untar env (ma_raw a')) (ae_dir e) (ae_version e)) (\<lambda>raw. Inr (raw, ai_sha256 idx)), a')))"

subsection \<open>The memo is transparent\<close>

text \<open>
  One directory has one version in an index, so a memo keyed by directory may stand in for
  parsing again. The contract the resolver's caller relies on: every answer is the fresh one.
\<close>

definition one_version :: "archive_index \<Rightarrow> bool" where
  "one_version idx \<longleftrightarrow>
     (\<forall>es \<in> snd ` set (ai_prefixes idx). \<forall>es' \<in> snd ` set (ai_prefixes idx). \<forall>e \<in> set es. \<forall>e' \<in> set es'.
        ae_dir e = ae_dir e' \<longrightarrow> ae_version e = ae_version e')"

definition memo_ok :: "archive_env \<Rightarrow> model_archive \<Rightarrow> bool" where
  "memo_ok env a \<longleftrightarrow>
     (case ma_index a of
        None \<Rightarrow> ma_memo a = Map.empty
      | Some idx \<Rightarrow> one_version idx \<and>
          (\<forall>dir m. ma_memo a dir = Some m \<longrightarrow>
             (\<forall>es \<in> snd ` set (ai_prefixes idx). \<forall>e \<in> set es. ae_dir e = dir \<longrightarrow>
                model_fresh env (ma_raw a) idx dir (ae_version e) = Inr m)))"

fun fresh_models :: "archive_env \<Rightarrow> string \<Rightarrow> archive_index \<Rightarrow> archive_entry list \<Rightarrow> (archive_error, service_model list) result" where
  "fresh_models env raw idx [] = Inr []"
| "fresh_models env raw idx (e # es) =
     and_then (model_fresh env raw idx (ae_dir e) (ae_version e)) (\<lambda>m.
       and_then (fresh_models env raw idx es) (\<lambda>ms. Inr (m # ms)))"

lemma model_for_memo:
  assumes "memo_ok env a" "ma_index a = Some idx" "e \<in> set es" "es \<in> snd ` set (ai_prefixes idx)"
    and "model_for env idx (ae_dir e) (ae_version e) a = (r, a')"
  shows "memo_ok env a' \<and> ma_index a' = Some idx \<and> ma_raw a' = ma_raw a \<and>
    r = model_fresh env (ma_raw a) idx (ae_dir e) (ae_version e)"
proof (cases "ma_memo a (ae_dir e)")
  case (Some m)
  with assms have "model_fresh env (ma_raw a) idx (ae_dir e) (ae_version e) = Inr m" by (auto simp: memo_ok_def)
  with Some assms show ?thesis by (auto simp: model_for_def)
next
  case None
  show ?thesis
  proof (cases "model_fresh env (ma_raw a) idx (ae_dir e) (ae_version e)")
    case (Inl x)
    with None assms show ?thesis by (auto simp: model_for_def)
  next
    case (Inr m)
    then have a': "a' = a\<lparr>ma_memo := (ma_memo a)(ae_dir e := Some m)\<rparr>" "r = Inr m"
      using None assms(5) by (auto simp: model_for_def)
    have ok: "one_version idx" "\<And>d x es' e'. ma_memo a d = Some x \<Longrightarrow> es' \<in> snd ` set (ai_prefixes idx) \<Longrightarrow> e' \<in> set es' \<Longrightarrow>
        ae_dir e' = d \<Longrightarrow> model_fresh env (ma_raw a) idx d (ae_version e') = Inr x"
      using assms(1,2) unfolding memo_ok_def by (simp_all del: image_iff, blast)
    have v: "ae_version e' = ae_version e" if "es' \<in> snd ` set (ai_prefixes idx)" "e' \<in> set es'" "ae_dir e' = ae_dir e" for es' e'
      using ok(1) [unfolded one_version_def, rule_format, OF that(1) assms(4) that(2) assms(3) that(3)] .
    have "model_fresh env (ma_raw a) idx d (ae_version e') = Inr x"
      if "((ma_memo a)(ae_dir e := Some m)) d = Some x" "es' \<in> snd ` set (ai_prefixes idx)" "e' \<in> set es'" "ae_dir e' = d" for d x es' e'
    proof (cases "d = ae_dir e")
      case True
      with that Inr v [OF that(2,3)] show ?thesis by simp
    next
      case False
      with that ok(2) [of d x es' e'] show ?thesis by simp
    qed
    with ok(1) assms(2) have "memo_ok env a'" unfolding memo_ok_def a' by (simp del: image_iff fun_upd_apply)
    with a' assms(2) Inr show ?thesis by simp
  qed
qed

lemma models_of_memo:
  assumes "es' \<in> snd ` set (ai_prefixes idx)" "set es \<subseteq> set es'"
    and "memo_ok env a" "ma_index a = Some idx" "models_of env idx es a = (r, a')"
  shows "memo_ok env a' \<and> ma_index a' = Some idx \<and> r = fresh_models env (ma_raw a) idx es"
  using assms(2-5)
proof (induction es arbitrary: a r a')
  case (Cons e es)
  obtain r1 a1 where m: "model_for env idx (ae_dir e) (ae_version e) a = (r1, a1)" by fastforce
  have "e \<in> set es'" using Cons.prems(1) by simp
  note k = model_for_memo [OF Cons.prems(2,3) this assms(1) m]
  show ?case
  proof (cases r1)
    case (Inl x)
    with k have "model_fresh env (ma_raw a) idx (ae_dir e) (ae_version e) = Inl x" by simp
    with Cons.prems(4) m k Inl show ?thesis by simp
  next
    case (Inr model)
    obtain r2 a2 where ms: "models_of env idx es a1 = (r2, a2)" by fastforce
    have "set es \<subseteq> set es'" using Cons.prems(1) by simp
    moreover have "memo_ok env a1" "ma_index a1 = Some idx" and raw: "ma_raw a1 = ma_raw a" using k by simp_all
    ultimately have "memo_ok env a2" "ma_index a2 = Some idx" "r2 = fresh_models env (ma_raw a) idx es"
      using Cons.IH [OF _ _ _ ms] raw by simp_all
    moreover have "model_fresh env (ma_raw a) idx (ae_dir e) (ae_version e) = Inr model" using k Inr by simp
    moreover have "a' = a2 \<and> r = and_then r2 (\<lambda>ms. Inr (model # ms))" using Cons.prems(4) m ms Inr by (cases r2) auto
    ultimately show ?thesis by simp
  qed
qed simp

text \<open>
  Serving models from the memo changes no answer: from any state reached by resolving, the
  models of a loaded archive's prefix are those parsed afresh from the archive, and the
  state stays one of that kind.
\<close>

theorem archive_resolve_fresh:
  assumes "memo_ok env a" "ma_index a = Some idx" "archive_resolve env prefix a = (r, a')"
  shows "memo_ok env a' \<and> ma_index a' = Some idx \<and>
    r = (case get_list (ai_prefixes idx) prefix of
           [] \<Rightarrow> Inl UnsupportedService
         | entries \<Rightarrow> fresh_models env (ma_raw a) idx entries)"
proof (cases "get_list (ai_prefixes idx) prefix")
  case Nil
  with assms show ?thesis by (auto simp: archive_resolve_def archive_load_def)
next
  case (Cons e es)
  then have m: "models_of env idx (e # es) a = (r, a')" using assms(2,3) by (simp add: archive_resolve_def archive_load_def)
  from Cons have "map_of (ai_prefixes idx) prefix = Some (e # es)" by (auto simp: get_list_def split: option.splits)
  then have "e # es \<in> snd ` set (ai_prefixes idx)" by (force dest: map_of_SomeD)
  from models_of_memo [OF this subset_refl assms(1,2) m] Cons show ?thesis by simp
qed

lemma archive_resolve_fresh_witness:
  "\<exists>env a idx r a'. memo_ok env a \<and> ma_index a = Some idx \<and> archive_resolve env ''s3'' a = (r, a') \<and> r = Inl SmithyUnavailable \<and>
     fresh_models env (ma_raw a) idx [\<lparr>ae_dir = ''s3'', ae_version = ''1''\<rparr>] = r"
proof -
  let ?idx = "\<lparr>ai_prefixes = [(''s3'', [\<lparr>ae_dir = ''s3'', ae_version = ''1''\<rparr>])], ai_sha256 = ''x''\<rparr>"
  let ?a = "\<lparr>ma_index = Some ?idx, ma_raw = ''raw'', ma_memo = Map.empty\<rparr>"
  let ?env = "\<lparr>env_bytes = None, env_sha256 = (\<lambda>_. ''x''), env_untar = (\<lambda>_. Some ([], True)), env_index_file = None\<rparr>"
  have ok: "memo_ok ?env ?a" "ma_index ?a = Some ?idx" by (simp_all add: memo_ok_def one_version_def)
  have "archive_resolve ?env ''s3'' ?a = (Inl SmithyUnavailable, ?a)"
    by (simp add: archive_resolve_def archive_load_def get_list_def model_for_def model_fresh_def extract_model_def)
  with archive_resolve_fresh [OF ok this] ok show ?thesis
    by (intro exI [of _ ?env] exI [of _ ?a] exI [of _ ?idx]) (simp add: get_list_def)
qed

text \<open>The index the archive builds gives each directory one version, so loading it starts such a state.\<close>

lemma index_winners_entries:
  "(\<exists>es \<in> snd ` set (index_winners ws prefixes). e \<in> set es) \<Longrightarrow>
     (\<exists>es \<in> snd ` set prefixes. e \<in> set es) \<or> (\<exists>prefix. (ae_dir e, ae_version e, prefix) \<in> set ws)"
proof (induction ws prefixes rule: index_winners.induct)
  case (2 dir version prefix ws prefixes)
  let ?new = "map_put prefix (get_list prefixes prefix @ [\<lparr>ae_dir = dir, ae_version = version\<rparr>]) prefixes"
  have put: "x \<in> snd ` set (map_put k v m) \<Longrightarrow> x = v \<or> x \<in> snd ` set m" for x k v and m :: "(string \<times> archive_entry list) list"
    by (induction k v m rule: map_put.induct) (auto simp: image_iff split: if_splits)
  have old: "get_list prefixes prefix = [] \<or> get_list prefixes prefix \<in> snd ` set prefixes"
    by (force simp: get_list_def split: option.splits dest: map_of_SomeD)
  show ?case
  proof (cases "prefix = []")
    case True
    with 2 show ?thesis by auto
  next
    case False
    with 2 have "(\<exists>es \<in> snd ` set ?new. e \<in> set es) \<or> (\<exists>p. (ae_dir e, ae_version e, p) \<in> set ws)" by simp
    then show ?thesis
    proof
      assume "\<exists>es \<in> snd ` set ?new. e \<in> set es"
      then obtain es where "es \<in> snd ` set ?new" and e: "e \<in> set es" by blast
      with put have "es = get_list prefixes prefix @ [\<lparr>ae_dir = dir, ae_version = version\<rparr>] \<or> es \<in> snd ` set prefixes" by blast
      then consider "es \<in> snd ` set prefixes" | "e \<in> set (get_list prefixes prefix)" | "e = \<lparr>ae_dir = dir, ae_version = version\<rparr>"
        using e by auto
      then show ?thesis
      proof cases
        case 1
        with e show ?thesis by blast
      next
        case 2
        with old have "get_list prefixes prefix \<in> snd ` set prefixes" by auto
        with 2 show ?thesis by blast
      qed auto
    qed auto
  qed
qed simp

lemma latest_models_distinct:
  "latest_models es latest = Inr ws \<Longrightarrow> distinct (map fst latest) \<Longrightarrow> distinct (map fst ws)"
  by (induction es latest rule: latest_models.induct) (auto split: if_splits option.splits prod.splits simp: distinct_map_put)

lemma build_index_one_version:
  assumes "build_index tar sha = Inr idx"
  shows "one_version idx"
proof -
  from assms obtain entries ws where l: "latest_models entries [] = Inr ws" and i: "ai_prefixes idx = index_winners ws []"
    by (auto simp: build_index_def split: option.splits prod.splits sum.splits if_splits)
  have d: "distinct (map fst ws)" using latest_models_distinct [OF l] by simp
  have "\<exists>prefix. (ae_dir e, ae_version e, prefix) \<in> set ws" if "es \<in> snd ` set (ai_prefixes idx)" "e \<in> set es" for es e
    using index_winners_entries [of ws "[]" e] that i by auto
  then show ?thesis unfolding one_version_def using d by (metis eq_key_imp_eq_value prod.inject)
qed

lemma load_built_index:
  assumes "ma_index a = None" "ma_memo a = Map.empty" "try_load_index env sha = None" "sha = env_sha256 env raw"
    and "env_bytes env = Some raw" "archive_load env a = (Inr idx, a')"
  shows "memo_ok env a' \<and> ma_index a' = Some idx"
  using assms build_index_one_version
  by (auto simp: archive_load_def use_archive_def memo_ok_def Let_def split: sum.splits)

end
