(* ===== verification/Gcp_Catalog.thy ===== *)
theory Gcp_Catalog
  imports Gcp_Classify Json_Decode Host_Admission
begin

text \<open>
  \<open>catalog.go\<close> of package \<open>auth/gcp\<close>: the Discovery documents as they are read, merged by service
  and looked up, and \<open>network.go\<close>: the service a host belongs to. A Go map is the list of its entries
  in iteration order.
\<close>

datatype gcp_error =
    GcpHostPattern
  | GcpHostClaimMismatch
  | GcpCatalogUnavailable
  | GcpUnknownOp
  | GcpUnmatchedRequest string
  | GcpPermissionUnresolved
  | GcpPermissionDenied
  | GcpRoleFetchFailed
  | GcpRoleDisabled
  | GcpInvalidRoleRef
  | GcpProjectUnresolved
  | GcpStorageXMLHost
  | GcpBadArguments
  | GcpServiceRequired
  | GcpWrongPort
  | GcpNotReady
  | GcpTokenFailed

subsection \<open>network.go\<close>

definition www_compound_sentinel :: string where
  "www_compound_sentinel = CHR 0x00 # ''www-compound''"

definition www_googleapis_host :: string where
  "www_googleapis_host = ''www.googleapis.com''"

definition googleapis_suffix :: string where
  "googleapis_suffix = ''.googleapis.com''"

definition storage_service :: string where
  "storage_service = ''storage''"

record gcp_host =
  gh_service :: string
  gh_location :: string

definition with_service :: "gcp_host \<Rightarrow> string \<Rightarrow> gcp_host" where
  "with_service p svc = p\<lparr>gh_service := svc\<rparr>"

definition is_location_label :: "string \<Rightarrow> bool" where
  "is_location_label loc \<longleftrightarrow> loc \<noteq> [] \<and> \<not> str_contains loc ''.''"

definition is_storage_json_host :: "string \<Rightarrow> bool" where
  "is_storage_json_host host =
     (let body = trim_suffix host googleapis_suffix in
      if body = storage_service \<or> body = storage_service @ ''.mtls'' then True
      else (case cut_suffix body (''-'' @ storage_service) of
          Some loc \<Rightarrow> is_location_label loc
        | None \<Rightarrow>
            (case cut_prefix body (storage_service @ ''.'') of
               None \<Rightarrow> False
             | Some loc \<Rightarrow> (case cut_suffix loc ''.rep'' of None \<Rightarrow> False | Some l \<Rightarrow> is_location_label l))))"

definition reject_host :: "string \<Rightarrow> bool" where
  "reject_host host =
     (if host = ''localhost'' \<or> host = ''metadata.google.internal'' then True
      else if is_ip_literal host then True
      else if host = ''private.googleapis.com'' \<or> host = ''restricted.googleapis.com'' then True
      else if has_suffix host ''.p.rep.googleapis.com'' then True
      else if list_ex (has_suffix host) [''.run.app'', ''.appspot.com'', ''.cloudfunctions.net'', ''.pkg.dev'', ''.gcr.io''] then True
      else host \<noteq> www_googleapis_host \<and> \<not> has_suffix host googleapis_suffix)"

definition plain_gcp_host :: "string \<Rightarrow> string \<Rightarrow> gcp_host" where
  "plain_gcp_host svc loc = \<lparr>gh_service = svc, gh_location = loc\<rparr>"

definition legacy_locational :: "string \<Rightarrow> gcp_host option" where
  "legacy_locational body =
     (case last_index_char body CHR ''-'' of
        None \<Rightarrow> None
      | Some i \<Rightarrow>
          if i = 0 then None
          else (let svc = drop (i + 1) body; loc = take i body in
            if svc \<noteq> [] \<and> \<not> str_contains svc ''.'' \<and> \<not> str_contains loc ''.'' then Some (plain_gcp_host svc loc) else None))"

text \<open>The branches of \<open>dispatchHost\<close> behind the mutual-TLS one.\<close>

definition dispatch_rest :: "string \<Rightarrow> (gcp_error, gcp_host) result" where
  "dispatch_rest body =
     (case cut_suffix body ''.rep'' of
        Some rest \<Rightarrow>
          (let (svc, loc, found) = str_cut rest ''.'' in
           if found \<and> svc \<noteq> [] \<and> loc \<noteq> [] \<and> \<not> str_contains loc ''.'' then Inr (plain_gcp_host svc loc) else Inl GcpHostPattern)
      | None \<Rightarrow>
          if has_suffix body (''.'' @ storage_service) \<or> body = storage_service then Inr (plain_gcp_host storage_service [])
          else (case legacy_locational body of
              Some p \<Rightarrow> Inr p
            | None \<Rightarrow> if \<not> str_contains body ''.'' then Inr (plain_gcp_host body []) else Inl GcpHostPattern))"

definition dispatch_host :: "string \<Rightarrow> (gcp_error, gcp_host) result" where
  "dispatch_host host =
     (if host = www_googleapis_host then Inr (plain_gcp_host www_compound_sentinel [])
      else let body = trim_suffix host googleapis_suffix in
        if body = host \<or> body = [] then Inl GcpHostPattern
        else (case cut_suffix body ''.mtls'' of
            Some svc \<Rightarrow> if svc \<noteq> [] \<and> \<not> str_contains svc ''.'' then Inr (plain_gcp_host svc []) else dispatch_rest body
          | None \<Rightarrow> dispatch_rest body))"

definition gcp_parse_host :: "(string \<Rightarrow> string option) \<Rightarrow> string \<Rightarrow> (gcp_error, gcp_host) result" where
  "gcp_parse_host to_ascii host =
     (if host = [] then Inl GcpHostPattern
      else (case normalize_host to_ascii host of
          None \<Rightarrow> Inl GcpHostPattern
        | Some norm \<Rightarrow> if reject_host norm then Inl GcpHostPattern else dispatch_host norm))"

definition gcp_verify :: "gcp_host \<Rightarrow> string \<Rightarrow> string \<Rightarrow> (gcp_error, unit) result" where
  "gcp_verify p claimed_service claimed_location =
     (if gh_service p = [] \<or> claimed_service = [] then Inl GcpHostClaimMismatch
      else if \<not> equal_fold (gh_service p) claimed_service then Inl GcpHostClaimMismatch
      else if claimed_location = [] then Inr ()
      else if gh_location p = [] then
        (if to_lower claimed_location = [] \<or> to_lower claimed_location = ''global'' then Inr () else Inl GcpHostClaimMismatch)
      else if \<not> equal_fold (gh_location p) claimed_location then Inl GcpHostClaimMismatch
      else Inr ())"

subsection \<open>catalog.go: the documents\<close>

record method_doc =
  mdoc_id :: string
  mdoc_http_method :: string
  mdoc_flat_path :: string
  mdoc_path :: string

definition decode_method_member :: "string \<Rightarrow> json \<Rightarrow> method_doc \<Rightarrow> method_doc option" where
  "decode_method_member k v m =
     (if equal_fold k ''id'' then map_option (\<lambda>x. m\<lparr>mdoc_id := x\<rparr>) (decode_text v (mdoc_id m))
      else if equal_fold k ''httpMethod'' then map_option (\<lambda>x. m\<lparr>mdoc_http_method := x\<rparr>) (decode_text v (mdoc_http_method m))
      else if equal_fold k ''flatPath'' then map_option (\<lambda>x. m\<lparr>mdoc_flat_path := x\<rparr>) (decode_text v (mdoc_flat_path m))
      else if equal_fold k ''path'' then map_option (\<lambda>x. m\<lparr>mdoc_path := x\<rparr>) (decode_text v (mdoc_path m))
      else Some m)"

definition decode_method_doc :: "json \<Rightarrow> method_doc option" where
  "decode_method_doc j =
     decode_struct decode_method_member j \<lparr>mdoc_id = [], mdoc_http_method = [], mdoc_flat_path = [], mdoc_path = []\<rparr>"

record rest_endpoint =
  re_location :: string
  re_endpoint :: string

definition decode_endpoint_member :: "string \<Rightarrow> json \<Rightarrow> rest_endpoint \<Rightarrow> rest_endpoint option" where
  "decode_endpoint_member k v e =
     (if equal_fold k ''location'' then map_option (\<lambda>x. e\<lparr>re_location := x\<rparr>) (decode_text v (re_location e))
      else if equal_fold k ''endpointUrl'' then map_option (\<lambda>x. e\<lparr>re_endpoint := x\<rparr>) (decode_text v (re_endpoint e))
      else Some e)"

record rest_doc =
  rd_root_url :: string
  rd_mtls_root_url :: string
  rd_service_path :: string
  rd_endpoints :: "rest_endpoint slice"
  rd_methods :: "(string \<times> method_doc) list"
  rd_resources :: "(string \<times> json) list"

definition decode_rest_member :: "string \<Rightarrow> json \<Rightarrow> rest_doc \<Rightarrow> rest_doc option" where
  "decode_rest_member k v d =
     (if equal_fold k ''rootUrl'' then map_option (\<lambda>x. d\<lparr>rd_root_url := x\<rparr>) (decode_text v (rd_root_url d))
      else if equal_fold k ''mtlsRootUrl'' then map_option (\<lambda>x. d\<lparr>rd_mtls_root_url := x\<rparr>) (decode_text v (rd_mtls_root_url d))
      else if equal_fold k ''servicePath'' then map_option (\<lambda>x. d\<lparr>rd_service_path := x\<rparr>) (decode_text v (rd_service_path d))
      else if equal_fold k ''endpoints'' then
        map_option (\<lambda>x. d\<lparr>rd_endpoints := x\<rparr>)
          (decode_slice (decode_struct decode_endpoint_member) \<lparr>re_location = [], re_endpoint = []\<rparr> v (rd_endpoints d))
      else if equal_fold k ''methods'' then
        map_option (\<lambda>x. d\<lparr>rd_methods := x\<rparr>) (decode_map decode_method_doc v (rd_methods d))
      else if equal_fold k ''resources'' then map_option (\<lambda>x. d\<lparr>rd_resources := x\<rparr>) (decode_map Some v (rd_resources d))
      else Some d)"

definition zero_rest_doc :: rest_doc where
  "zero_rest_doc = \<lparr>rd_root_url = [], rd_mtls_root_url = [], rd_service_path = [], rd_endpoints = ([], 0), rd_methods = [],
     rd_resources = []\<rparr>"

definition decode_rest_doc :: "json \<Rightarrow> rest_doc option" where
  "decode_rest_doc j = decode_struct decode_rest_member j zero_rest_doc"

definition descriptor_of :: "string \<Rightarrow> method_doc \<Rightarrow> method_descriptor" where
  "descriptor_of service_path m =
     \<lparr>md_id = mdoc_id m, md_http_method = mdoc_http_method m, md_flat_path = mdoc_flat_path m,
      md_service_path = service_path, md_path = mdoc_path m\<rparr>"

text \<open>The resources below a document are smaller than it.\<close>

lemma snd_map_put: "(a, x) \<in> set (map_put k v m) \<Longrightarrow> x = v \<or> (a, x) \<in> set m"
  by (induction m) (auto split: if_splits)

lemma decode_entries_raw:
  "decode_entries Some kvs m = Some m' \<Longrightarrow> (a, x) \<in> set m' \<Longrightarrow> x \<in> snd ` set m \<or> x \<in> snd ` set kvs"
proof (induction kvs arbitrary: m)
  case (Cons kv kvs)
  obtain k j where kv: "kv = (k, j)" by (cases kv)
  from Cons.IH [of "map_put k j m"] Cons.prems have "x \<in> snd ` set (map_put k j m) \<or> x \<in> snd ` set kvs"
    by (simp add: kv)
  then show ?case using snd_map_put [of _ x k j m] by (force simp: kv)
qed force

lemma json_member_size: "(a, x) \<in> set kvs \<Longrightarrow> size x < size (JObj kvs)"
  by (induction kvs) auto

lemma decode_rest_smaller:
  assumes "decode_members decode_rest_member kvs d = Some d'" "\<forall>j \<in> snd ` set (rd_resources d). size j < n"
    and "\<forall>j \<in> snd ` set kvs. size j < n"
  shows "\<forall>j \<in> snd ` set (rd_resources d'). size j < n"
  using assms
proof (induction decode_rest_member kvs d rule: decode_members.induct)
  case (2 k v kvs d)
  from "2.prems"(1) obtain d1 where d1: "decode_rest_member k v d = Some d1" and r: "decode_members decode_rest_member kvs d1 = Some d'"
    by (auto split: option.splits)
  have "\<forall>j \<in> snd ` set (rd_resources d1). size j < n"
  proof (cases "rd_resources d1 = rd_resources d")
    case False
    with d1 have "decode_map Some v (rd_resources d) = Some (rd_resources d1)"
      by (auto simp: decode_rest_member_def split: if_splits)
    moreover have "size v < n" using "2.prems"(3) by simp
    ultimately show ?thesis using "2.prems"(2)
      by (cases v) (fastforce dest: decode_entries_raw json_member_size)+
  qed (use "2.prems"(2) in simp)
  with 2(1) [OF d1 r] "2.prems"(3) show ?case by simp
qed simp

lemma decode_rest_doc_smaller:
  assumes "decode_rest_doc j = Some d" "e \<in> set (rd_resources d)"
  shows "size (snd e) < size j"
proof (cases j)
  case (JObj kvs)
  from assms(1) have "decode_members decode_rest_member kvs zero_rest_doc = Some d" by (simp add: decode_rest_doc_def JObj)
  from decode_rest_smaller [OF this, of "size j"] assms(2) json_member_size [where kvs = kvs] show ?thesis
    by (force simp: zero_rest_doc_def JObj simp del: json.size)
qed (use assms in \<open>auto simp: decode_rest_doc_def zero_rest_doc_def\<close>)

fun entries_size :: "(string \<times> json) list \<Rightarrow> nat" where
  "entries_size [] = 0"
| "entries_size (e # es) = max (Suc (size (snd e))) (entries_size es)"

lemma entries_size_less: "(\<And>e. e \<in> set es \<Longrightarrow> size (snd e) < n) \<Longrightarrow> entries_size es \<le> n"
  by (induction es) (auto simp: Suc_le_eq)

function resource_methods :: "string \<Rightarrow> (string \<times> json) list \<Rightarrow> method_descriptor list" where
  "resource_methods service_path [] = []"
| "resource_methods service_path ((k, raw) # rest) =
     (case decode_rest_doc raw of
        None \<Rightarrow> resource_methods service_path rest
      | Some r \<Rightarrow>
          map (descriptor_of service_path \<circ> snd) (rd_methods r) @
          resource_methods service_path (rd_resources r) @
          resource_methods service_path rest)"
  by pat_completeness auto


termination
proof (relation "measures [\<lambda>(sp, rs). entries_size rs, \<lambda>(sp, rs). length rs]")
  fix sp k raw rest r
  assume "decode_rest_doc raw = Some r"
  then have "entries_size (rd_resources r) \<le> size raw" using decode_rest_doc_smaller entries_size_less by blast
  then show "((sp, rd_resources r), sp, (k, raw) # rest) \<in> measures [\<lambda>(sp, rs). entries_size rs, \<lambda>(sp, rs). length rs]" by auto
qed auto

record service_doc =
  svd_root_url :: string
  svd_mtls_root_url :: string
  svd_service_path :: string
  svd_endpoints :: "string list"
  svd_methods :: method_index

definition put_methods :: "method_descriptor list \<Rightarrow> method_index \<Rightarrow> method_index" where
  "put_methods mds idx = foldl (\<lambda>out md. map_put (md_id md) md out) idx mds"

definition service_doc_from :: "rest_doc \<Rightarrow> service_doc" where
  "service_doc_from doc =
     (let mds = map (descriptor_of (rd_service_path doc) \<circ> snd) (rd_methods doc) @
            resource_methods (rd_service_path doc) (rd_resources doc)
      in \<lparr>svd_root_url = rd_root_url doc, svd_mtls_root_url = rd_mtls_root_url doc, svd_service_path = rd_service_path doc,
          svd_endpoints = map (host_of \<circ> re_endpoint) (slice_elems (rd_endpoints doc)), svd_methods = put_methods mds []\<rparr>)"

subsection \<open>catalog.go: merging\<close>

definition method_signature :: "method_descriptor \<Rightarrow> string" where
  "method_signature md = to_upper (md_http_method md) @ '' '' @ effective_template md"

definition disambiguated_key :: "method_descriptor \<Rightarrow> string" where
  "disambiguated_key md = md_id md @ CHR 0x00 # method_signature md"

definition merge_method :: "method_index \<Rightarrow> string \<times> method_descriptor \<Rightarrow> method_index" where
  "merge_method merged e =
     (case map_of merged (fst e) of
        Some existing \<Rightarrow>
          if method_signature existing \<noteq> method_signature (snd e) then map_put (disambiguated_key (snd e)) (snd e) merged
          else map_put (fst e) (snd e) merged
      | None \<Rightarrow> map_put (fst e) (snd e) merged)"

definition merge_service_docs :: "service_doc \<Rightarrow> service_doc \<Rightarrow> service_doc" where
  "merge_service_docs a b =
     a\<lparr>svd_methods := foldl merge_method (svd_methods a) (svd_methods b), svd_endpoints := svd_endpoints a @ svd_endpoints b\<rparr>"

type_synonym discovery_data = "(string \<times> service_doc) list"

definition service_short_name :: "string \<Rightarrow> string \<Rightarrow> string" where
  "service_short_name root_url dir_name =
     (let h = host_of root_url; short = trim_suffix h googleapis_suffix in
      if has_suffix h googleapis_suffix \<and> \<not> str_contains short ''.'' \<and> short \<noteq> ''www'' \<and> short \<noteq> [] then short else dir_name)"

record fetched_doc =
  fd_name :: string
  fd_doc :: rest_doc
  fd_ok :: bool

definition add_doc :: "discovery_data \<Rightarrow> fetched_doc \<Rightarrow> discovery_data" where
  "add_doc out r =
     (if \<not> fd_ok r then out
      else let svc = service_short_name (rd_root_url (fd_doc r)) (fd_name r); sd = service_doc_from (fd_doc r) in
        case map_of out svc of
          Some existing \<Rightarrow> map_put svc (merge_service_docs existing sd) out
        | None \<Rightarrow> map_put svc sd out)"

definition assemble_catalog :: "fetched_doc list \<Rightarrow> (gcp_error, discovery_data) result" where
  "assemble_catalog docs =
     (let out = foldl add_doc [] docs in if length out = 0 then Inl GcpCatalogUnavailable else Inr out)"

subsection \<open>catalog.go: lookups\<close>

text \<open>What fetching the catalog gives: \<open>None\<close> when it is unavailable.\<close>

definition index_hosts :: "string \<Rightarrow> string list \<Rightarrow> (string \<times> string) list \<Rightarrow> (string \<times> string) list" where
  "index_hosts svc raws idx =
     foldl (\<lambda>acc raw. let h = host_of raw in if h \<noteq> [] \<and> h \<noteq> www_googleapis_host then map_put h svc acc else acc) idx raws"

definition host_to_service :: "discovery_data \<Rightarrow> (string \<times> string) list" where
  "host_to_service d =
     foldl (\<lambda>idx (svc, doc).
        foldl (\<lambda>acc ep. map_put (to_lower ep) svc acc)
          (index_hosts svc [svd_root_url doc, svd_mtls_root_url doc] idx) (svd_endpoints doc)) [] d"

definition gcp_resolve_service :: "discovery_data option \<Rightarrow> gcp_host \<Rightarrow> string \<Rightarrow> (gcp_error, string) result" where
  "gcp_resolve_service fetched parsed host =
     (case fetched of
        None \<Rightarrow> Inl GcpCatalogUnavailable
      | Some data \<Rightarrow>
          if gh_service parsed = www_compound_sentinel then Inl GcpHostPattern
          else if map_of data (gh_service parsed) \<noteq> None then Inr (gh_service parsed)
          else (case map_of (host_to_service data) (host_of host) of Some svc \<Rightarrow> Inr svc | None \<Rightarrow> Inl GcpHostPattern))"

text \<open>
  The longest service path that is a whole-segment prefix. \<open>sort.Slice\<close> is not stable: which of
  equally long paths comes first is open, here the one iterated first.
\<close>

definition www_entries :: "discovery_data \<Rightarrow> (string \<times> string) list" where
  "www_entries data =
     sort_key (\<lambda>e. - int (length (snd e)))
       (map (\<lambda>(svc, doc). (svc, trim_prefix (svd_service_path doc) ''/''))
         (filter (\<lambda>(svc, doc). svd_service_path doc \<noteq> []) data))"

definition segment_path :: "string \<Rightarrow> string" where
  "segment_path p = (if has_suffix p ''/'' then p else p @ ''/'')"

definition resolve_www_service :: "discovery_data option \<Rightarrow> string \<Rightarrow> string option" where
  "resolve_www_service fetched req_path =
     (case fetched of
        None \<Rightarrow> None
      | Some data \<Rightarrow>
          (let clean = trim_prefix req_path ''/'' in
           map_option fst (List.find (\<lambda>e. has_prefix (clean @ ''/'') (segment_path (snd e))) (www_entries data))))"

definition gcp_method_index :: "discovery_data option \<Rightarrow> string \<Rightarrow> (gcp_error, method_index) result" where
  "gcp_method_index fetched service =
     (case fetched of
        None \<Rightarrow> Inl GcpCatalogUnavailable
      | Some data \<Rightarrow> (case map_of data service of None \<Rightarrow> Inl GcpUnknownOp | Some doc \<Rightarrow> Inr (svd_methods doc)))"

definition peek_method_index :: "discovery_data option \<Rightarrow> string \<Rightarrow> method_index option" where
  "peek_method_index loaded service = Option.bind loaded (\<lambda>data. map_option svd_methods (map_of data service))"

subsection \<open>Merging keeps every operation\<close>

text \<open>
  An operation is a method id with its request signature. The index holds an operation under its id
  or, when a sibling version has that id, under a key no id can be.
\<close>

definition has_operation :: "method_index \<Rightarrow> method_descriptor \<Rightarrow> bool" where
  "has_operation idx md \<longleftrightarrow>
     (\<exists>k md'. map_of idx k = Some md' \<and> md_id md' = md_id md \<and> method_signature md' = method_signature md)"

definition index_ok :: "method_index \<Rightarrow> bool" where
  "index_ok idx \<longleftrightarrow> (\<forall>k md. map_of idx k = Some md \<longrightarrow>
     (k = md_id md \<or> k = disambiguated_key md) \<and> CHR 0x00 \<notin> set (md_id md))"

text \<open>An index as one document gives it.\<close>

definition plain_index :: "method_index \<Rightarrow> bool" where
  "plain_index idx \<longleftrightarrow> (\<forall>(k, md) \<in> set idx. k = md_id md \<and> CHR 0x00 \<notin> set (md_id md))"

lemma disambiguated_inject:
  assumes "disambiguated_key a = disambiguated_key b" "CHR 0x00 \<notin> set (md_id a)" "CHR 0x00 \<notin> set (md_id b)"
  shows "md_id a = md_id b \<and> method_signature a = method_signature b"
proof -
  have "split_on CHR 0x00 (disambiguated_key x) = md_id x # split_on CHR 0x00 (method_signature x)"
    if "CHR 0x00 \<notin> set (md_id x)" for x
    using that by (simp add: disambiguated_key_def split_on_append)
  from this [OF assms(2)] this [OF assms(3)] assms(1) show ?thesis by (simp add: split_on_inject)
qed

lemma disambiguated_nul: "CHR 0x00 \<in> set (disambiguated_key md)"
  by (simp add: disambiguated_key_def)

lemma index_ok_key:
  "index_ok idx \<Longrightarrow> map_of idx k = Some md \<Longrightarrow> CHR 0x00 \<notin> set k \<Longrightarrow> k = md_id md"
  using disambiguated_nul by (auto simp: index_ok_def)

text \<open>The entry a put replaces is the same operation, so nothing is lost.\<close>

lemma put_keeps:
  assumes "\<And>old. map_of idx k = Some old \<Longrightarrow> md_id old = md_id new \<and> method_signature old = method_signature new"
    and "has_operation idx md"
  shows "has_operation (map_put k new idx) md"
proof -
  from assms(2) obtain k' md' where m: "map_of idx k' = Some md'" "md_id md' = md_id md" "method_signature md' = method_signature md"
    by (auto simp: has_operation_def)
  show ?thesis
  proof (cases "k' = k")
    case True
    with m assms(1) [of md'] have "map_of (map_put k new idx) k = Some new \<and> md_id new = md_id md \<and>
        method_signature new = method_signature md" by (simp add: map_of_map_put)
    then show ?thesis unfolding has_operation_def by blast
  next
    case False
    with m have "map_of (map_put k new idx) k' = Some md'" by (simp add: map_of_map_put)
    with m show ?thesis unfolding has_operation_def by blast
  qed
qed

lemma put_has: "has_operation (map_put k new idx) new"
  unfolding has_operation_def by (rule exI [of _ k]) (simp add: map_of_map_put)

lemma merge_method_keeps:
  assumes ok: "index_ok idx" and e: "fst e = md_id (snd e)" "CHR 0x00 \<notin> set (md_id (snd e))"
  shows "index_ok (merge_method idx e) \<and> has_operation (merge_method idx e) (snd e) \<and>
    (\<forall>md. has_operation idx md \<longrightarrow> has_operation (merge_method idx e) md)"
proof -
  let ?new = "snd e"
  consider (clash) old where "map_of idx (fst e) = Some old" "method_signature old \<noteq> method_signature ?new"
      "merge_method idx e = map_put (disambiguated_key ?new) ?new idx"
    | (plain) "merge_method idx e = map_put (fst e) ?new idx"
      "\<And>old. map_of idx (fst e) = Some old \<Longrightarrow> method_signature old = method_signature ?new"
    by (cases "map_of idx (fst e)") (auto simp: merge_method_def split: if_splits)
  then show ?thesis
  proof cases
    case clash
    have "md_id old = md_id ?new \<and> method_signature old = method_signature ?new"
      if old: "map_of idx (disambiguated_key ?new) = Some old" for old
    proof -
      have n: "CHR 0x00 \<notin> set (md_id old)" and "disambiguated_key ?new = md_id old \<or> disambiguated_key ?new = disambiguated_key old"
        using ok old by (auto simp: index_ok_def)
      then have "disambiguated_key old = disambiguated_key ?new" using disambiguated_nul by metis
      from disambiguated_inject [OF this n e(2)] show ?thesis .
    qed
    then have "\<forall>md. has_operation idx md \<longrightarrow> has_operation (merge_method idx e) md"
      unfolding clash(3) by (blast intro: put_keeps)
    moreover have "index_ok (merge_method idx e)"
      using ok e(2) unfolding clash(3) index_ok_def map_of_map_put by simp
    ultimately show ?thesis unfolding clash(3) using put_has by blast
  next
    case plain
    have "md_id old = md_id ?new \<and> method_signature old = method_signature ?new" if old: "map_of idx (fst e) = Some old" for old
      using index_ok_key [OF ok old] e plain(2) [OF old] by simp
    then have "\<forall>md. has_operation idx md \<longrightarrow> has_operation (merge_method idx e) md"
      unfolding plain(1) by (blast intro: put_keeps)
    moreover have "index_ok (merge_method idx e)"
      using ok e unfolding plain(1) index_ok_def map_of_map_put by simp
    ultimately show ?thesis unfolding plain(1) using put_has by blast
  qed
qed

lemma merge_methods_keep:
  "index_ok idx \<Longrightarrow> plain_index es \<Longrightarrow>
     index_ok (foldl merge_method idx es) \<and> (\<forall>e \<in> set es. has_operation (foldl merge_method idx es) (snd e)) \<and>
     (\<forall>md. has_operation idx md \<longrightarrow> has_operation (foldl merge_method idx es) md)"
proof (induction es arbitrary: idx)
  case (Cons e es)
  from Cons.prems(2) have "fst e = md_id (snd e)" "CHR 0x00 \<notin> set (md_id (snd e))" "plain_index es"
    by (auto simp: plain_index_def)
  with merge_method_keeps [OF Cons.prems(1)] Cons.IH [of "merge_method idx e"] show ?case by auto
qed simp

lemma plain_index_has: "plain_index idx \<Longrightarrow> distinct (map fst idx) \<Longrightarrow> e \<in> set idx \<Longrightarrow> has_operation idx (snd e)"
  by (auto simp: has_operation_def intro!: exI [of _ "fst e"] exI [of _ "snd e"] map_of_is_SomeI)

lemma plain_index_ok: "plain_index idx \<Longrightarrow> index_ok idx"
  by (auto simp: plain_index_def index_ok_def dest: map_of_SomeD)

lemma distinct_put_methods: "distinct (map fst idx) \<Longrightarrow> distinct (map fst (put_methods mds idx))"
  unfolding put_methods_def by (induction mds arbitrary: idx) (auto simp: distinct_map_put)

definition catalog_ok :: "discovery_data \<Rightarrow> bool" where
  "catalog_ok data \<longleftrightarrow> (\<forall>svc doc. map_of data svc = Some doc \<longrightarrow> index_ok (svd_methods doc))"

definition catalog_has :: "discovery_data \<Rightarrow> string \<Rightarrow> method_descriptor \<Rightarrow> bool" where
  "catalog_has data svc md \<longleftrightarrow> (\<exists>doc. map_of data svc = Some doc \<and> has_operation (svd_methods doc) md)"

definition doc_service :: "fetched_doc \<Rightarrow> string" where
  "doc_service r = service_short_name (rd_root_url (fd_doc r)) (fd_name r)"

definition doc_methods :: "fetched_doc \<Rightarrow> method_index" where
  "doc_methods r = svd_methods (service_doc_from (fd_doc r))"

lemma add_doc_keeps:
  assumes "catalog_ok data" "fd_ok r \<Longrightarrow> plain_index (doc_methods r)"
  shows "catalog_ok (add_doc data r) \<and> (fd_ok r \<longrightarrow> (\<forall>e \<in> set (doc_methods r). catalog_has (add_doc data r) (doc_service r) (snd e))) \<and>
    (\<forall>svc md. catalog_has data svc md \<longrightarrow> catalog_has (add_doc data r) svc md)"
proof (cases "fd_ok r")
  case True
  let ?sd = "service_doc_from (fd_doc r)"
  have p: "plain_index (svd_methods ?sd)" using assms(2) True by (simp add: doc_methods_def)
  have d: "distinct (map fst (svd_methods ?sd))" by (simp add: service_doc_from_def Let_def distinct_put_methods)
  show ?thesis
  proof (cases "map_of data (doc_service r)")
    case None
    then have a: "add_doc data r = map_put (doc_service r) ?sd data" using True by (simp add: add_doc_def doc_service_def Let_def)
    show ?thesis
      using assms(1) plain_index_ok [OF p] plain_index_has [OF p d] None
      unfolding a catalog_ok_def catalog_has_def by (auto simp: map_of_map_put doc_methods_def)
  next
    case (Some old)
    then have a: "add_doc data r = map_put (doc_service r) (merge_service_docs old ?sd) data"
      using True by (simp add: add_doc_def doc_service_def Let_def)
    have "index_ok (svd_methods old)" using assms(1) Some by (simp add: catalog_ok_def)
    from merge_methods_keep [OF this p] assms(1) Some show ?thesis
      unfolding a catalog_ok_def catalog_has_def by (auto simp: map_of_map_put doc_methods_def merge_service_docs_def)
  qed
qed (use assms(1) in \<open>simp add: add_doc_def\<close>)

lemma add_docs_keep:
  assumes "catalog_ok data" "\<forall>r \<in> set docs. fd_ok r \<longrightarrow> plain_index (doc_methods r)"
  shows "(\<forall>r \<in> set docs. fd_ok r \<longrightarrow> (\<forall>e \<in> set (doc_methods r). catalog_has (foldl add_doc data docs) (doc_service r) (snd e))) \<and>
    (\<forall>svc md. catalog_has data svc md \<longrightarrow> catalog_has (foldl add_doc data docs) svc md)"
  using assms
proof (induction docs arbitrary: data)
  case (Cons r docs)
  then have "fd_ok r \<Longrightarrow> plain_index (doc_methods r)" by simp
  from add_doc_keeps [OF Cons.prems(1) this] Cons.IH [of "add_doc data r"] Cons.prems(2) show ?case by auto
qed simp

lemma put_methods_plain:
  "e \<in> set (put_methods mds idx) \<Longrightarrow> e \<in> set idx \<or> fst e = md_id (snd e) \<and> snd e \<in> set mds"
  unfolding put_methods_def
proof (induction mds arbitrary: idx)
  case (Cons md mds)
  have "e \<in> set (map_put (md_id md) md idx) \<Longrightarrow> e \<in> set idx \<or> e = (md_id md, md)"
    by (induction idx) (auto split: if_splits)
  with Cons show ?case by fastforce
qed simp

lemma doc_methods_plain:
  "\<forall>(k, md) \<in> set (doc_methods r). CHR 0x00 \<notin> set (md_id md) \<Longrightarrow> plain_index (doc_methods r)"
  by (auto simp: plain_index_def doc_methods_def service_doc_from_def Let_def dest: put_methods_plain)

text \<open>
  C31. Merging the versions of a service loses no operation: every method of every document that was
  fetched, told apart from its namesakes by HTTP method and path, is in the method index of the
  service the document belongs to, provided no method id holds a NUL byte.
\<close>

theorem gcp_merge_keeps_operations:
  assumes "assemble_catalog docs = Inr data" "r \<in> set docs" "fd_ok r" "(k, md) \<in> set (doc_methods r)"
    and "\<forall>r \<in> set docs. \<forall>(k, md) \<in> set (doc_methods r). CHR 0x00 \<notin> set (md_id md)"
  shows "\<exists>idx. gcp_method_index (Some data) (doc_service r) = Inr idx \<and> has_operation idx md"
proof -
  have "data = foldl add_doc [] docs" using assms(1) by (auto simp: assemble_catalog_def Let_def split: if_splits)
  moreover have "catalog_ok []" by (simp add: catalog_ok_def)
  ultimately have "catalog_has data (doc_service r) md"
    using add_docs_keep [of "[]" docs] doc_methods_plain assms(2-5) by fastforce
  then show ?thesis by (auto simp: catalog_has_def gcp_method_index_def)
qed

text \<open>Two versions of one API on \<open>www.googleapis.com\<close>, as the directory lists them.\<close>

definition drive_doc :: "string \<Rightarrow> fetched_doc" where
  "drive_doc version =
     \<lparr>fd_name = ''drive'',
      fd_doc = zero_rest_doc\<lparr>rd_root_url := ''https://www.googleapis.com/'', rd_service_path := ''drive/'' @ version @ ''/'',
        rd_methods := [(''list'', \<lparr>mdoc_id = ''drive.files.list'', mdoc_http_method = ''GET'', mdoc_flat_path = [],
          mdoc_path = ''files''\<rparr>)]\<rparr>,
      fd_ok = True\<rparr>"

lemma drive_ids: "\<forall>r \<in> set [drive_doc ''v2'', drive_doc ''v3'']. \<forall>(k, md) \<in> set (doc_methods r). CHR 0x00 \<notin> set (md_id md)"
  by (simp add: drive_doc_def doc_methods_def service_doc_from_def put_methods_def descriptor_of_def zero_rest_doc_def Let_def)

definition drive_method :: "string \<Rightarrow> method_descriptor" where
  "drive_method version =
     \<lparr>md_id = ''drive.files.list'', md_http_method = ''GET'', md_flat_path = [], md_service_path = ''drive/'' @ version @ ''/'',
      md_path = ''files''\<rparr>"

lemma drive_v3_methods: "doc_methods (drive_doc ''v3'') = [(''drive.files.list'', drive_method ''v3'')]"
  by (simp add: drive_doc_def drive_method_def doc_methods_def service_doc_from_def put_methods_def descriptor_of_def
    zero_rest_doc_def Let_def)

definition drive_catalog :: discovery_data where
  "drive_catalog = foldl add_doc [] [drive_doc ''v2'', drive_doc ''v3'']"

lemma drive_assembled: "assemble_catalog [drive_doc ''v2'', drive_doc ''v3''] = Inr drive_catalog"
proof -
  have "length drive_catalog \<noteq> 0" by code_simp
  then show ?thesis by (simp add: assemble_catalog_def drive_catalog_def Let_def)
qed

theorem gcp_merge_keeps_operations_witness:
  "\<exists>idx. gcp_method_index (Some drive_catalog) (doc_service (drive_doc ''v3'')) = Inr idx \<and> has_operation idx (drive_method ''v3'')"
  by (rule gcp_merge_keeps_operations [OF drive_assembled _ _ _ drive_ids, of _ "''drive.files.list''"])
    (simp_all add: drive_v3_methods, simp add: drive_doc_def)

end
