(* ===== verification/Gcp_Gate.thy ===== *)
theory Gcp_Gate
  imports Gcp_Catalog Connectors
begin

text \<open>
  The action gate of the GCP connector: the IAM permissions of a method (\<open>permissions.go\<close>,
  \<open>iamdataset.go\<close>), the ceiling role (\<open>roleref.go\<close>, \<open>roleeval.go\<close>), the caller's identity
  (\<open>identity.go\<close>), the composed gate (\<open>provider.go\<close>, \<open>lazy.go\<close>) and the connector above it
  (\<open>auth/gcp.go\<close>). The credential files are read by \<open>encoding/json\<close>; IAM, the metadata server and
  the token source answer through parameters.
\<close>

subsection \<open>iamdataset.go\<close>

record gcp_dataset_perm =
  gdp_name :: string
  gdp_methodologies :: "string slice"

definition decode_perm_member :: "string \<Rightarrow> json \<Rightarrow> gcp_dataset_perm \<Rightarrow> gcp_dataset_perm option" where
  "decode_perm_member k v p =
     (if equal_fold k ''name'' then map_option (\<lambda>x. p\<lparr>gdp_name := x\<rparr>) (decode_text v (gdp_name p))
      else if equal_fold k ''discoveryMethodologies'' then
        map_option (\<lambda>x. p\<lparr>gdp_methodologies := x\<rparr>) (decode_slice decode_text [] v (gdp_methodologies p))
      else Some p)"

definition decode_perms_member :: "string \<Rightarrow> json \<Rightarrow> gcp_dataset_perm slice \<Rightarrow> gcp_dataset_perm slice option" where
  "decode_perms_member k v ps =
     (if equal_fold k ''permissions'' then
        decode_slice (decode_struct decode_perm_member) \<lparr>gdp_name = [], gdp_methodologies = ([], 0)\<rparr> v ps
      else Some ps)"

definition decode_methods_member ::
    "string \<Rightarrow> json \<Rightarrow> (string \<times> gcp_dataset_perm slice) list \<Rightarrow> (string \<times> gcp_dataset_perm slice) list option" where
  "decode_methods_member k v ms =
     (if equal_fold k ''methods'' then decode_map (\<lambda>j. decode_struct decode_perms_member j ([], 0)) v ms else Some ms)"

type_synonym gcp_dataset_doc = "(string \<times> (string \<times> gcp_dataset_perm slice) list) list"

definition decode_api_member :: "string \<Rightarrow> json \<Rightarrow> gcp_dataset_doc \<Rightarrow> gcp_dataset_doc option" where
  "decode_api_member k v d =
     (if equal_fold k ''api'' then decode_map (\<lambda>j. decode_struct decode_methods_member j []) v d else Some d)"

definition high_confidence_methodologies :: "string list" where
  "high_confidence_methodologies = [''restcrawliamblockv1'', ''manual'']"

definition any_high_confidence :: "string list \<Rightarrow> bool" where
  "any_high_confidence tags \<longleftrightarrow> list_ex (\<lambda>t. t \<in> set high_confidence_methodologies) tags"

text \<open>The keys of a Go set in ascending order.\<close>

definition sorted_keys :: "string list \<Rightarrow> string list" where
  "sorted_keys xs = sort (remdups xs)"

definition high_confidence_perms :: "gcp_dataset_perm list \<Rightarrow> string list" where
  "high_confidence_perms ps =
     sorted_keys (map gdp_name
       (filter (\<lambda>p. \<not> (gdp_name p = [] \<or> \<not> any_high_confidence (slice_elems (gdp_methodologies p)))) ps))"

type_synonym gcp_dataset = "(string \<times> string list) list"

definition index_gcp_method :: "gcp_dataset \<Rightarrow> string \<times> gcp_dataset_perm slice \<Rightarrow> gcp_dataset" where
  "index_gcp_method d e =
     (let perms = high_confidence_perms (slice_elems (snd e)) in
      if length perms > 0 then map_put (fst e) perms d else d)"

definition gcp_parse_dataset :: "string \<Rightarrow> gcp_dataset option" where
  "gcp_parse_dataset raw =
     (case unmarshal_into (\<lambda>j. decode_struct decode_api_member j []) raw of
        None \<Rightarrow> None
      | Some api \<Rightarrow>
          if length api = 0 then None
          else Some (foldl (\<lambda>d svc. foldl index_gcp_method d (snd svc)) [] api))"

definition gcp_dataset_lookup :: "gcp_dataset \<Rightarrow> string \<Rightarrow> string list" where
  "gcp_dataset_lookup d method_id = (case map_of d method_id of None \<Rightarrow> [] | Some perms \<Rightarrow> perms)"

text \<open>The registry: what its cache holds, \<open>None\<close> when nothing could be loaded.\<close>

definition gcp_registry_lookup :: "gcp_dataset option \<Rightarrow> string \<Rightarrow> string list" where
  "gcp_registry_lookup loaded method_id = (case loaded of None \<Rightarrow> [] | Some d \<Rightarrow> gcp_dataset_lookup d method_id)"

subsection \<open>permissions.go\<close>

datatype permission_source = PermSourceNone | PermSourceResolved | PermSourcePermissionless

definition permissionless_methods :: "string list" where
  "permissionless_methods = [''oauth2.tokeninfo'', ''discovery.apis.getRest'', ''discovery.apis.list'']"

definition read_method_verbs :: "string list" where
  "read_method_verbs = [''get'', ''list'', ''aggregatedList'', ''search'', ''getIamPolicy'']"

definition is_read_method :: "string \<Rightarrow> bool" where
  "is_read_method method_id =
     (case last_index_char method_id CHR ''.'' of
        None \<Rightarrow> False
      | Some i \<Rightarrow> drop (i + 1) method_id \<in> set read_method_verbs)"

definition verb_skew :: "(string \<times> string) list" where
  "verb_skew = [(''insert'', ''create''), (''patch'', ''update''), (''aggregatedList'', ''list'')]"

definition default_prefix_map :: "(string \<times> string) list" where
  "default_prefix_map = [(''cloudresourcemanager'', ''resourcemanager'')]"

definition perm_clusters_get :: string where
  "perm_clusters_get = ''container.clusters.get''"

definition perm_clusters_list :: string where
  "perm_clusters_list = ''container.clusters.list''"

definition method_permission_overrides :: "(string \<times> string list) list" where
  "method_permission_overrides =
     [(''cloudresourcemanager.projects.list'', [''resourcemanager.projects.get'', ''resourcemanager.projects.list'']),
      (''cloudresourcemanager.projects.search'', [''resourcemanager.projects.get'']),
      (''cloudresourcemanager.folders.list'', [''resourcemanager.folders.list'']),
      (''cloudresourcemanager.folders.search'', [''resourcemanager.folders.get'']),
      (''cloudresourcemanager.organizations.search'', [''resourcemanager.organizations.get'']),
      (''container.projects.locations.clusters.get'', [perm_clusters_get]),
      (''container.projects.locations.clusters.list'', [perm_clusters_list]),
      (''container.projects.locations.clusters.nodePools.get'', [perm_clusters_get]),
      (''container.projects.locations.clusters.nodePools.list'', [perm_clusters_get]),
      (''container.projects.locations.operations.get'', [''container.operations.get'']),
      (''container.projects.locations.operations.list'', [''container.operations.list'']),
      (''container.projects.zones.clusters.get'', [perm_clusters_get]),
      (''container.projects.zones.clusters.list'', [perm_clusters_list]),
      (''container.projects.zones.clusters.nodePools.get'', [perm_clusters_get]),
      (''container.projects.zones.clusters.nodePools.list'', [perm_clusters_get]),
      (''container.projects.zones.operations.get'', [''container.operations.get'']),
      (''container.projects.zones.operations.list'', [''container.operations.list'']),
      (''container.projects.locations.getServerConfig'', [perm_clusters_list]),
      (''container.projects.zones.getServerconfig'', [perm_clusters_list]),
      (''container.projects.locations.clusters.checkAutopilotCompatibility'', [perm_clusters_get]),
      (''container.projects.locations.clusters.fetchClusterUpgradeInfo'', [perm_clusters_get]),
      (''container.projects.zones.clusters.fetchClusterUpgradeInfo'', [perm_clusters_get]),
      (''container.projects.locations.clusters.nodePools.fetchNodePoolUpgradeInfo'', [perm_clusters_get]),
      (''container.projects.zones.clusters.nodePools.fetchNodePoolUpgradeInfo'', [perm_clusters_get])]"

definition new_permission_catalog :: "string list \<Rightarrow> string set" where
  "new_permission_catalog perms = set perms"

text \<open>The dataset tier is \<open>None\<close> when none is wired, else what it looks up.\<close>

record perm_resolver =
  pr_cat :: "string set"
  pr_prefix_map :: "(string \<times> string) list"
  pr_dataset :: "(string \<Rightarrow> string list) option"
  pr_overrides :: "(string \<times> string list) list"

definition new_permission_resolver ::
    "string set \<Rightarrow> (string \<times> string) list \<Rightarrow> (string \<Rightarrow> string list) option \<Rightarrow> perm_resolver" where
  "new_permission_resolver cat prefix_map dataset =
     \<lparr>pr_cat = cat, pr_prefix_map = prefix_map, pr_dataset = dataset, pr_overrides = method_permission_overrides\<rparr>"

definition derived_permission :: "(string \<times> string) list \<Rightarrow> string list \<Rightarrow> string" where
  "derived_permission prefix_map parts =
     (let perm_prefix = (case map_of prefix_map (hd parts) of Some p \<Rightarrow> p | None \<Rightarrow> hd parts);
          perm_verb = (case map_of verb_skew (last parts) of Some m \<Rightarrow> m | None \<Rightarrow> last parts)
      in join ''.'' (perm_prefix # butlast (tl parts) @ [perm_verb]))"

definition derive_primary :: "perm_resolver \<Rightarrow> string \<Rightarrow> string option" where
  "derive_primary r method_id =
     (let parts = split_on CHR ''.'' method_id in
      if length parts < 3 then None
      else let perm = derived_permission (pr_prefix_map r) parts in
        if perm \<notin> pr_cat r then None else Some perm)"

definition gcp_resolve :: "perm_resolver \<Rightarrow> string \<Rightarrow> string list \<times> permission_source" where
  "gcp_resolve r method_id =
     (if method_id \<in> set permissionless_methods \<or> has_suffix method_id ''.testIamPermissions'' then
        ([], PermSourcePermissionless)
      else (case map_of (pr_overrides r) method_id of
          Some perms \<Rightarrow> if length perms = 0 then ([], PermSourceNone) else (perms, PermSourceResolved)
        | None \<Rightarrow>
            (let derived = derive_primary r method_id;
                 set1 = (case derived of None \<Rightarrow> [] | Some p \<Rightarrow> [p]);
                 set2 = (case pr_dataset r of
                     None \<Rightarrow> set1
                   | Some lookup \<Rightarrow>
                       if \<not> is_read_method method_id \<or> derived = None then set1 @ lookup method_id else set1)
             in if length set2 = 0 then ([], PermSourceNone) else (sorted_keys set2, PermSourceResolved))))"

subsection \<open>roleref.go, roleeval.go\<close>

datatype role_ref_kind = RoleRefPredefined | RoleRefProjectCustom | RoleRefOrgCustom

definition parse_role_reference :: "string \<Rightarrow> (gcp_error, role_ref_kind) result" where
  "parse_role_reference role =
     (let parts = split_on CHR ''/'' role in
      if length parts = 2 \<and> parts ! 0 = ''roles'' \<and> parts ! 1 \<noteq> [] then Inr RoleRefPredefined
      else if length parts = 4 \<and> parts ! 0 = ''projects'' \<and> parts ! 1 \<noteq> [] \<and> parts ! 2 = ''roles'' \<and> parts ! 3 \<noteq> [] then
        Inr RoleRefProjectCustom
      else if length parts = 4 \<and> parts ! 0 = ''organizations'' \<and> parts ! 1 \<noteq> [] \<and> parts ! 2 = ''roles'' \<and> parts ! 3 \<noteq> [] then
        Inr RoleRefOrgCustom
      else Inl GcpInvalidRoleRef)"

record role_definition =
  rdf_included :: "string list"
  rdf_stage :: string
  rdf_deleted :: bool

definition allowed_all_perms :: "string set \<Rightarrow> string list \<Rightarrow> bool" where
  "allowed_all_perms granted perms \<longleftrightarrow> list_all (\<lambda>p. p \<in> granted) perms"

text \<open>\<open>answer\<close> is what IAM's \<open>GetRole\<close> gives.\<close>

definition fetch_role_permissions :: "(unit, role_definition) result \<Rightarrow> (gcp_error, string set) result" where
  "fetch_role_permissions answer =
     (case answer of
        Inl _ \<Rightarrow> Inl GcpRoleFetchFailed
      | Inr d \<Rightarrow> if rdf_deleted d \<or> rdf_stage d = ''DISABLED'' then Inl GcpRoleDisabled else Inr (set (rdf_included d)))"

subsection \<open>identity.go\<close>

definition decode_one :: "string \<Rightarrow> string \<Rightarrow> json \<Rightarrow> string \<Rightarrow> string option" where
  "decode_one field k v s = (if equal_fold k field then decode_text v s else Some s)"

definition quota_project_id_from_json :: "string \<Rightarrow> string" where
  "quota_project_id_from_json raw =
     (if length raw = 0 then []
      else (case unmarshal_into (\<lambda>j. decode_struct (decode_one ''quota_project_id'') j []) raw of None \<Rightarrow> [] | Some s \<Rightarrow> s))"

definition cred_type_from_json :: "string \<Rightarrow> string" where
  "cred_type_from_json raw =
     (if length raw = 0 then []
      else (case unmarshal_into (\<lambda>j. decode_struct (decode_one ''type'') j []) raw of None \<Rightarrow> [] | Some s \<Rightarrow> s))"

text \<open>The metadata server: whether it is there, the email and the project it gives.\<close>

record metadata_prober =
  mp_on_gce :: bool
  mp_email :: "(unit, string) result"
  mp_project_id :: "(unit, string) result"

definition resolve_identity ::
    "string \<Rightarrow> string \<Rightarrow> metadata_prober \<Rightarrow> (unit, string) result \<Rightarrow> (unit, string \<times> string) result" where
  "resolve_identity cred_json cred_project md tokeninfo =
     (let cred_type = cred_type_from_json cred_json;
          project_id = (if cred_project = [] then quota_project_id_from_json cred_json else cred_project);
          probe = (case tokeninfo of Inl e \<Rightarrow> Inl e | Inr who \<Rightarrow> Inr (who, project_id))
      in if cred_type = [] \<and> mp_on_gce md then
           (case mp_email md of
              Inr email \<Rightarrow>
                Inr (email, if project_id = [] then (case mp_project_id md of Inl _ \<Rightarrow> [] | Inr p \<Rightarrow> p) else project_id)
            | Inl _ \<Rightarrow> probe)
         else probe)"

definition decode_tokeninfo_member :: "string \<Rightarrow> json \<Rightarrow> string \<times> string \<Rightarrow> (string \<times> string) option" where
  "decode_tokeninfo_member k v i =
     (if equal_fold k ''email'' then map_option (\<lambda>x. (x, snd i)) (decode_text v (fst i))
      else if equal_fold k ''sub'' then map_option (\<lambda>x. (fst i, x)) (decode_text v (snd i))
      else Some i)"

definition principal_from_tokeninfo :: "string \<Rightarrow> int \<Rightarrow> string option" where
  "principal_from_tokeninfo body status =
     (if status \<noteq> 200 then None
      else map_option (\<lambda>(email, sub'). if email \<noteq> [] then email else sub')
        (unmarshal_into (\<lambda>j. decode_struct decode_tokeninfo_member j ([], [])) body))"

subsection \<open>provider.go, lazy.go\<close>

record gcp_gate =
  gg_to_ascii :: "string \<Rightarrow> string option"
  gg_catalog :: "discovery_data option"
  gg_perms :: perm_resolver
  gg_granted :: "string set"

definition resolve_request_service :: "gcp_gate \<Rightarrow> view \<Rightarrow> (gcp_error, string \<times> bool) result" where
  "resolve_request_service g v =
     (case gcp_parse_host (gg_to_ascii g) (v_hostname v) of
        Inl e \<Rightarrow> Inl e
      | Inr parsed \<Rightarrow>
          if gh_service parsed = www_compound_sentinel then
            (case resolve_www_service (gg_catalog g) (v_path v) of None \<Rightarrow> Inl GcpHostPattern | Some svc \<Rightarrow> Inr (svc, True))
          else map_sum id (\<lambda>svc. (svc, False)) (gcp_resolve_service (gg_catalog g) parsed (v_hostname v)))"

record gcp_args =
  ga_service :: string
  ga_location :: string

fun gcp_classify_failure :: "string \<Rightarrow> gcp_classify_error \<Rightarrow> gcp_error" where
  "gcp_classify_failure service GcpUnmatched = GcpUnmatchedRequest service"
| "gcp_classify_failure service (GcpAmbiguous n) = GcpUnknownOp"

text \<open>Storage's JSON API routes the path as sent.\<close>

definition classify_for :: "string \<Rightarrow> method_index \<Rightarrow> view \<Rightarrow> (gcp_classify_error, string) result" where
  "classify_for service = (if service = storage_service then gcp_classify_as_sent else gcp_classify_path)"

definition authorize_gcp :: "gcp_gate \<Rightarrow> view \<Rightarrow> (unit, gcp_args option) result \<Rightarrow> (gcp_error, unit) result" where
  "authorize_gcp g v block =
     (case block of
        Inl _ \<Rightarrow> Inl GcpBadArguments
      | Inr args \<Rightarrow>
          if args = None \<or> ga_service (the args) = [] then Inl GcpServiceRequired
          else (case resolve_request_service g v of
              Inl e \<Rightarrow> Inl e
            | Inr (service, is_www) \<Rightarrow>
                if is_www \<and> \<not> equal_fold service (ga_service (the args)) then Inl GcpHostClaimMismatch
                else if service = storage_service \<and> \<not> is_www \<and> \<not> is_storage_json_host (trim_suffix (v_hostname v) ''.'') then
                  Inl GcpStorageXMLHost
                else (case gcp_method_index (gg_catalog g) service of
                    Inl e \<Rightarrow> Inl e
                  | Inr idx \<Rightarrow>
                      (case classify_for service idx v of
                         Inl e \<Rightarrow> Inl (gcp_classify_failure service e)
                       | Inr method_id \<Rightarrow>
                           (let (perms, src) = gcp_resolve (gg_perms g) method_id in
                            if src = PermSourceNone then Inl GcpPermissionUnresolved
                            else if \<not> allowed_all_perms (gg_granted g) perms then Inl GcpPermissionDenied
                            else Inr ())))))"

text \<open>The one-time initialization: identity, role, testable permissions of the caller's project.\<close>

record gcp_lazy_deps =
  ld_to_ascii :: "string \<Rightarrow> string option"
  ld_catalog :: "discovery_data option"
  ld_dataset :: "(string \<Rightarrow> string list) option"
  ld_identity :: "(unit, string \<times> string) result"
  ld_get_role :: "(unit, role_definition) result"
  ld_testable :: "string \<Rightarrow> (unit, string list) result"

definition project_resource_prefix :: string where
  "project_resource_prefix = ''//cloudresourcemanager.googleapis.com/projects/''"

definition gcp_lazy_resolve :: "gcp_lazy_deps \<Rightarrow> (gcp_error, gcp_gate) result" where
  "gcp_lazy_resolve d =
     (case ld_identity d of
        Inl _ \<Rightarrow> Inl GcpNotReady
      | Inr (_, project_id) \<Rightarrow>
          if project_id = [] then Inl GcpProjectUnresolved
          else (case fetch_role_permissions (ld_get_role d) of
              Inl e \<Rightarrow> Inl e
            | Inr granted \<Rightarrow>
                (case ld_testable d (project_resource_prefix @ project_id) of
                   Inl _ \<Rightarrow> Inl GcpNotReady
                 | Inr testable \<Rightarrow>
                     Inr \<lparr>gg_to_ascii = ld_to_ascii d, gg_catalog = ld_catalog d,
                       gg_perms = new_permission_resolver (new_permission_catalog testable) default_prefix_map (ld_dataset d),
                       gg_granted = granted\<rparr>)))"

subsection \<open>auth/gcp.go\<close>

definition gcp_provider_name :: string where
  "gcp_provider_name = ''gcp''"

text \<open>The connector: its catalog, what the deferred initialization made of the gate, the token source.\<close>

record gcp_provider =
  gp_to_ascii :: "string \<Rightarrow> string option"
  gp_catalog :: "discovery_data option"
  gp_gate :: "(gcp_error, gcp_gate) result"
  gp_token :: "(unit, string) result"

definition parse_gcp_args :: "(unit, gcp_args option) result \<Rightarrow> (gcp_error, gcp_args) result" where
  "parse_gcp_args block =
     (case block of
        Inl _ \<Rightarrow> Inl GcpBadArguments
      | Inr args \<Rightarrow> if args = None \<or> ga_service (the args) = [] then Inl GcpServiceRequired else Inr (the args))"

definition gcp_authorizes_host ::
    "gcp_provider \<Rightarrow> string \<Rightarrow> (unit, gcp_args option) result \<Rightarrow> (gcp_error, bool) result" where
  "gcp_authorizes_host p host block =
     and_then (parse_gcp_args block) (\<lambda>args.
     and_then (gcp_parse_host (gp_to_ascii p) host) (\<lambda>parsed.
       if gh_service parsed = www_compound_sentinel then Inr True
       else and_then (gcp_resolve_service (gp_catalog p) parsed (to_lower host)) (\<lambda>svc.
         map_sum id (\<lambda>_. True) (gcp_verify (with_service parsed svc) (ga_service args) (ga_location args)))))"

definition gcp_authorize_action ::
    "gcp_provider \<Rightarrow> view \<Rightarrow> (unit, gcp_args option) result \<Rightarrow> (gcp_error, unit) result" where
  "gcp_authorize_action p v block =
     (if authorize_request_port v https_port \<noteq> Inr () then Inl GcpWrongPort
      else and_then (gp_gate p) (\<lambda>g. authorize_gcp g v block))"

definition gcp_inject_auth :: "gcp_provider \<Rightarrow> http_request \<Rightarrow> (gcp_error, http_request) result" where
  "gcp_inject_auth p req =
     and_then (gp_gate p) (\<lambda>_.
       case gp_token p of
         Inl _ \<Rightarrow> Inl GcpTokenFailed
       | Inr token \<Rightarrow> Inr (req\<lparr>req_header := header_set (req_header req) ''Authorization'' (''Bearer '' @ token)\<rparr>))"

subsection \<open>What a read-only role lets through\<close>

text \<open>A permission to read: its last segment is one of the verbs reads are granted by.\<close>

definition read_permission :: "string \<Rightarrow> bool" where
  "read_permission p \<longleftrightarrow> last (split_on CHR ''.'' p) \<in> {''get'', ''list'', ''search'', ''getIamPolicy''}"

lemma split_on_derived:
  assumes parts: "parts = split_on CHR ''.'' method_id" "length parts \<ge> 3"
  shows "last (split_on CHR ''.'' (derived_permission default_prefix_map parts)) =
    (case map_of verb_skew (last parts) of Some m \<Rightarrow> m | None \<Rightarrow> last parts)"
proof -
  obtain x xs where x: "parts = x # xs" "xs \<noteq> []" using parts(2) by (cases parts; cases "tl parts") auto
  have dots: "\<forall>y \<in> set parts. CHR ''.'' \<notin> set y" using split_on_no_sep parts(1) by blast
  let ?p = "case map_of default_prefix_map (hd parts) of Some p \<Rightarrow> p | None \<Rightarrow> hd parts"
  let ?v = "case map_of verb_skew (last parts) of Some m \<Rightarrow> m | None \<Rightarrow> last parts"
  have "CHR ''.'' \<notin> set ?p" using dots x by (simp add: default_prefix_map_def)
  moreover have "CHR ''.'' \<notin> set ?v" using dots last_in_set [of parts] x by (simp add: verb_skew_def)
  moreover have "\<forall>y \<in> set (butlast (tl parts)). CHR ''.'' \<notin> set y" using dots x by (auto dest: in_set_butlastD)
  ultimately have "split_on CHR ''.'' (join [CHR ''.''] (?p # butlast (tl parts) @ [?v])) = ?p # butlast (tl parts) @ [?v]"
    by (intro split_on_join) auto
  then show ?thesis unfolding derived_permission_def Let_def by (subst \<open>split_on _ _ = _\<close>) simp
qed


lemma read_method_last:
  assumes "length (split_on CHR ''.'' method_id) \<ge> 2"
  shows "is_read_method method_id \<longleftrightarrow> last (split_on CHR ''.'' method_id) \<in> set read_method_verbs"
proof -
  define parts where "parts = split_on CHR ''.'' method_id"
  have b: "butlast parts \<noteq> []" using assms unfolding parts_def by (cases "split_on CHR ''.'' method_id" rule: rev_cases) auto
  have m: "method_id = join ''.'' (butlast parts) @ ''.'' @ last parts"
    using join_snoc [OF b, of "''.''" "last parts"] join_split_on [of "CHR ''.''" method_id]
    unfolding parts_def by (simp add: append_butlast_last_id)
  have dot: "CHR ''.'' \<notin> set (last parts)" using split_on_no_sep last_in_set [of parts] unfolding parts_def by (metis split_on_not_Nil)
  have "last_index_char (xs @ CHR ''.'' # last parts) CHR ''.'' = Some (length xs)" for xs
  proof (induction xs)
    case Nil
    have "last_index_char (last parts) CHR ''.'' = None" using dot by simp
    then show ?case by (simp del: last_index_char_None)
  qed simp
  then have "last_index_char method_id CHR ''.'' = Some (length (join ''.'' (butlast parts)))" by (subst m) simp
  moreover have "drop (Suc (length (join ''.'' (butlast parts)))) method_id = last parts" by (subst m) simp
  ultimately show ?thesis by (simp add: is_read_method_def parts_def)
qed

definition readings_for :: "string \<Rightarrow> view \<Rightarrow> string list list" where
  "readings_for service v = (if service = storage_service then wire_readings v else path_readings v)"

lemma classify_for_one:
  "classify_for service idx v = Inr m \<Longrightarrow> gcp_may_run idx (to_upper (v_method v)) (readings_for service v) = {m}"
  by (auto simp: classify_for_def readings_for_def gcp_classify_as_sent_def gcp_classify_path_def dest!: gcp_classify_one split: if_splits)

text \<open>Why a method is let through: it is pinned, its verb reads, or the dataset speaks for it.\<close>

definition pinned_method :: "string \<Rightarrow> bool" where
  "pinned_method m \<longleftrightarrow> m \<in> set permissionless_methods \<or> has_suffix m ''.testIamPermissions'' \<or>
     m \<in> fst ` set method_permission_overrides"

definition dataset_reads :: "(string \<Rightarrow> string list) option \<Rightarrow> string set \<Rightarrow> string \<Rightarrow> bool" where
  "dataset_reads dataset granted m \<longleftrightarrow>
     (\<exists>lookup. dataset = Some lookup \<and> lookup m \<noteq> [] \<and> (\<forall>p \<in> set (lookup m). p \<in> granted \<and> read_permission p))"

lemma derived_read:
  assumes "derive_primary r m = Some p" "pr_prefix_map r = default_prefix_map" "read_permission p"
  shows "is_read_method m"
proof -
  let ?parts = "split_on CHR ''.'' m"
  from assms(1,2) have l: "length ?parts \<ge> 3" and p: "p = derived_permission default_prefix_map ?parts"
    by (auto simp: derive_primary_def Let_def split: if_splits)
  have "(case map_of verb_skew (last ?parts) of Some v \<Rightarrow> v | None \<Rightarrow> last ?parts) \<in> {''get'', ''list'', ''search'', ''getIamPolicy''}"
    using assms(3) split_on_derived [OF refl l] unfolding p read_permission_def by simp
  then have "last ?parts \<in> set read_method_verbs" by (auto simp: verb_skew_def read_method_verbs_def split: if_splits)
  with read_method_last [of m] l show ?thesis by simp
qed

lemma resolved_reads:
  assumes r: "gcp_resolve (new_permission_resolver cat default_prefix_map dataset) m = (perms, src)" "src \<noteq> PermSourceNone"
    and g: "allowed_all_perms granted perms" "\<forall>p \<in> granted. read_permission p"
  shows "pinned_method m \<or> is_read_method m \<or> dataset_reads dataset granted m"
proof (rule ccontr)
  let ?r = "new_permission_resolver cat default_prefix_map dataset"
  assume n: "\<not> ?thesis"
  then have pin: "m \<notin> set permissionless_methods" "\<not> has_suffix m ''.testIamPermissions''" "map_of (pr_overrides ?r) m = None"
    by (auto simp: pinned_method_def new_permission_resolver_def map_of_eq_None_iff)
  have "\<forall>p. derive_primary ?r m = Some p \<longrightarrow> \<not> read_permission p"
    using derived_read [of ?r m] n by (auto simp: new_permission_resolver_def)
  with r pin g have none: "derive_primary ?r m = None"
    by (auto simp: gcp_resolve_def Let_def allowed_all_perms_def list_all_iff sorted_keys_def set_insort_key split: option.splits if_splits)
  with r pin g n show False
    by (auto simp: gcp_resolve_def Let_def allowed_all_perms_def list_all_iff sorted_keys_def new_permission_resolver_def
      dataset_reads_def split: option.splits if_splits)
qed

lemma lazy_gate:
  "gcp_lazy_resolve d = Inr g \<Longrightarrow>
     \<exists>role testable. ld_get_role d = Inr role \<and> gg_granted g = set (rdf_included role) \<and> \<not> rdf_deleted role \<and>
       rdf_stage role \<noteq> ''DISABLED'' \<and>
       gg_perms g = new_permission_resolver (new_permission_catalog testable) default_prefix_map (ld_dataset d)"
  by (auto simp: gcp_lazy_resolve_def fetch_role_permissions_def split: sum.splits if_splits) blast

lemma authorize_gcp_Inr:
  "authorize_gcp g v block = Inr () \<longleftrightarrow>
     (\<exists>args service is_www idx m. block = Inr (Some args) \<and> ga_service args \<noteq> [] \<and>
        resolve_request_service g v = Inr (service, is_www) \<and> (is_www \<longrightarrow> equal_fold service (ga_service args)) \<and>
        \<not> (service = storage_service \<and> \<not> is_www \<and> \<not> is_storage_json_host (trim_suffix (v_hostname v) ''.'')) \<and>
        gcp_method_index (gg_catalog g) service = Inr idx \<and> classify_for service idx v = Inr m \<and>
        snd (gcp_resolve (gg_perms g) m) \<noteq> PermSourceNone \<and> allowed_all_perms (gg_granted g) (fst (gcp_resolve (gg_perms g) m)))"
  unfolding authorize_gcp_def Let_def
  by (cases block) (auto split: sum.splits if_splits prod.splits option.splits)

text \<open>
  C8. Under a read-only role the GCP gate runs reads. When the role the gate was built on is
  live and grants nothing but read permissions, a request it lets through can run exactly one
  method of the service its host names, whichever way its path is read, and that method needs no
  permission, is one of the pinned reads, has a read verb, or is one whose permissions the
  dataset lists in full, all of them reads the role grants.
\<close>

theorem gcp_gate_read_only:
  assumes "gcp_lazy_resolve d = Inr g" "authorize_gcp g v block = Inr ()"
    and "\<forall>role p. ld_get_role d = Inr role \<longrightarrow> p \<in> set (rdf_included role) \<longrightarrow> read_permission p"
  shows "\<exists>service is_www idx m role. resolve_request_service g v = Inr (service, is_www) \<and>
    gcp_method_index (gg_catalog g) service = Inr idx \<and>
    gcp_may_run idx (to_upper (v_method v)) (readings_for service v) = {m} \<and>
    ld_get_role d = Inr role \<and> \<not> rdf_deleted role \<and> rdf_stage role \<noteq> ''DISABLED'' \<and>
    set (fst (gcp_resolve (gg_perms g) m)) \<subseteq> set (rdf_included role) \<and>
    (pinned_method m \<or> is_read_method m \<or> dataset_reads (ld_dataset d) (set (rdf_included role)) m)"
proof -
  from lazy_gate [OF assms(1)] obtain role testable where role: "ld_get_role d = Inr role" "gg_granted g = set (rdf_included role)"
    "\<not> rdf_deleted role" "rdf_stage role \<noteq> ''DISABLED''"
    and res: "gg_perms g = new_permission_resolver (new_permission_catalog testable) default_prefix_map (ld_dataset d)" by blast
  from assms(2) obtain service is_www idx m where a: "resolve_request_service g v = Inr (service, is_www)"
    "gcp_method_index (gg_catalog g) service = Inr idx" "classify_for service idx v = Inr m"
    and p: "snd (gcp_resolve (gg_perms g) m) \<noteq> PermSourceNone" "allowed_all_perms (gg_granted g) (fst (gcp_resolve (gg_perms g) m))"
    by (auto simp: authorize_gcp_Inr)
  have "pinned_method m \<or> is_read_method m \<or> dataset_reads (ld_dataset d) (set (rdf_included role)) m"
    using resolved_reads [of "new_permission_catalog testable" "ld_dataset d" m] p assms(3) role(1,2) res
    by (cases "gcp_resolve (gg_perms g) m") auto
  moreover have "set (fst (gcp_resolve (gg_perms g) m)) \<subseteq> set (rdf_included role)"
    using p(2) role(2) by (auto simp: allowed_all_perms_def list_all_iff)
  ultimately show ?thesis using a classify_for_one [OF a(3)] role by blast
qed

subsection \<open>The claim and the host\<close>

lemma map_sum_InrD: "map_sum id f r = Inr b \<Longrightarrow> \<exists>a. r = Inr a \<and> b = f a"
  by (cases r) auto

text \<open>The gate and the connector of one provider share the catalog.\<close>

definition gcp_wired :: "gcp_provider \<Rightarrow> bool" where
  "gcp_wired p \<longleftrightarrow> (\<forall>g. gp_gate p = Inr g \<longrightarrow> gg_catalog g = gp_catalog p \<and> gg_to_ascii g = gp_to_ascii p)"

lemma reject_host_zone: "\<not> reject_host h \<Longrightarrow> h = www_googleapis_host \<or> has_suffix h googleapis_suffix"
  by (auto simp: reject_host_def split: if_splits)

lemma gcp_host_zone:
  "gcp_parse_host to_ascii host = Inr p \<Longrightarrow>
     \<exists>h. normalize_host to_ascii host = Some h \<and> \<not> reject_host h \<and> dispatch_host h = Inr p"
  by (auto simp: gcp_parse_host_def split: if_splits option.splits)

lemma gcp_verify_claim:
  "gcp_verify p claim location = Inr () \<Longrightarrow> equal_fold (gh_service p) claim"
  by (auto simp: gcp_verify_def split: if_splits)

lemma gcp_authorizes_host_Inr:
  "gcp_authorizes_host p host block = Inr b \<longleftrightarrow> b \<and>
     (\<exists>args parsed. block = Inr (Some args) \<and> ga_service args \<noteq> [] \<and> gcp_parse_host (gp_to_ascii p) host = Inr parsed \<and>
        (gh_service parsed = www_compound_sentinel \<or>
         (\<exists>svc. gcp_resolve_service (gp_catalog p) parsed (to_lower host) = Inr svc \<and>
            gcp_verify (with_service parsed svc) (ga_service args) (ga_location args) = Inr ())))"
proof -
  have m: "map_sum id (\<lambda>_. True) r = Inr b \<longleftrightarrow> b \<and> r = Inr ()" for r :: "(gcp_error, unit) result"
    by (cases r) auto
  have a: "parse_gcp_args block = Inr x \<longleftrightarrow> block = Inr (Some x) \<and> ga_service x \<noteq> []" for x
    by (cases block) (auto simp: parse_gcp_args_def)
  show ?thesis
    unfolding gcp_authorizes_host_def by (auto simp: result_elim m a split: if_splits)
qed

text \<open>
  C24. A GCP request is judged as the service it claims. When the connector admits the host for a
  claim and its gate lets the request through, the service whose methods the request was judged
  against, taken from the host or, on \<open>www.googleapis.com\<close>, from the path, is the claimed one up
  to case; and the host, once normalized, is below \<open>googleapis.com\<close>.
\<close>

theorem gcp_claim_is_judged:
  assumes "gcp_authorizes_host p (v_hostname v) block = Inr True" "gcp_authorize_action p v block = Inr ()"
    and "gcp_wired p" "to_lower (v_hostname v) = v_hostname v"
  shows "\<exists>args g service is_www h. block = Inr (Some args) \<and> gp_gate p = Inr g \<and>
    resolve_request_service g v = Inr (service, is_www) \<and> equal_fold service (ga_service args) \<and>
    normalize_host (gp_to_ascii p) (v_hostname v) = Some h \<and> (h = www_googleapis_host \<or> has_suffix h googleapis_suffix)"
proof -
  from assms(2) obtain g where g: "gp_gate p = Inr g" "authorize_gcp g v block = Inr ()"
    by (auto simp: gcp_authorize_action_def result_elim split: if_splits)
  with assms(3) have w: "gg_catalog g = gp_catalog p" "gg_to_ascii g = gp_to_ascii p" by (auto simp: gcp_wired_def)
  from assms(1) obtain args parsed where h: "block = Inr (Some args)" "gcp_parse_host (gp_to_ascii p) (v_hostname v) = Inr parsed"
    and c: "gh_service parsed = www_compound_sentinel \<or>
      (\<exists>svc. gcp_resolve_service (gp_catalog p) parsed (v_hostname v) = Inr svc \<and>
         gcp_verify (with_service parsed svc) (ga_service args) (ga_location args) = Inr ())"
    unfolding gcp_authorizes_host_Inr assms(4) by blast
  from g(2) h(1) obtain service is_www where s: "resolve_request_service g v = Inr (service, is_www)"
    "is_www \<longrightarrow> equal_fold service (ga_service args)"
    by (auto simp: authorize_gcp_Inr)
  have "equal_fold service (ga_service args)"
  proof (cases is_www)
    case False
    with s(1) h(2) w have r: "gh_service parsed \<noteq> www_compound_sentinel" "gcp_resolve_service (gp_catalog p) parsed (v_hostname v) = Inr service"
      by (auto simp: resolve_request_service_def split: option.splits if_splits sum.splits dest!: map_sum_InrD)
    with c show ?thesis using gcp_verify_claim by (fastforce simp: with_service_def)
  qed (use s(2) in simp)
  moreover obtain n where "normalize_host (gp_to_ascii p) (v_hostname v) = Some n" "\<not> reject_host n"
    using gcp_host_zone [OF h(2)] by blast
  ultimately show ?thesis using g(1) h(1) s(1) reject_host_zone by blast
qed

interpretation gcp_inj: bearer_injector "gcp_inject_auth p" "case gp_token p of Inr t \<Rightarrow> t | Inl _ \<Rightarrow> []" for p
  by (rule set_bearer_injector) (auto simp: gcp_inject_auth_def result_elim split: sum.splits)

subsection \<open>A version of a merged service that no path reaches\<close>

definition gcp_example_view :: "string \<Rightarrow> string \<Rightarrow> string \<Rightarrow> view" where
  "gcp_example_view host m path =
     example_view\<lparr>v_method := m, v_hostname := host, v_path := path, v_escaped_path := path, v_raw_query := []\<rparr>"

definition gcp_example_deps :: "discovery_data \<Rightarrow> string list \<Rightarrow> gcp_lazy_deps" where
  "gcp_example_deps data perms =
     \<lparr>ld_to_ascii = Some, ld_catalog = Some data, ld_dataset = None, ld_identity = Inr ([], ''p1''),
      ld_get_role = Inr \<lparr>rdf_included = perms, rdf_stage = ''GA'', rdf_deleted = False\<rparr>, ld_testable = (\<lambda>_. Inr perms)\<rparr>"

definition gcp_example_gate :: "discovery_data \<Rightarrow> string list \<Rightarrow> gcp_gate" where
  "gcp_example_gate data perms =
     \<lparr>gg_to_ascii = Some, gg_catalog = Some data,
      gg_perms = new_permission_resolver (new_permission_catalog perms) default_prefix_map None, gg_granted = set perms\<rparr>"

lemma gcp_example_lazy: "gcp_lazy_resolve (gcp_example_deps data perms) = Inr (gcp_example_gate data perms)"
  by (simp add: gcp_lazy_resolve_def gcp_example_deps_def gcp_example_gate_def fetch_role_permissions_def)

definition claims :: "string \<Rightarrow> (unit, gcp_args option) result" where
  "claims service = Inr (Some \<lparr>ga_service = service, ga_location = []\<rparr>)"


subsection \<open>Witnesses\<close>

definition compute_catalog :: discovery_data where
  "compute_catalog =
     [(''compute'', \<lparr>svd_root_url = ''https://compute.googleapis.com/'', svd_mtls_root_url = [], svd_service_path = ''compute/v1/'',
        svd_endpoints = [],
        svd_methods = [(''compute.instances.list'', \<lparr>md_id = ''compute.instances.list'', md_http_method = ''GET'',
            md_flat_path = ''projects/{p}/instances'', md_service_path = ''compute/v1/'', md_path = []\<rparr>),
          (''compute.instances.insert'', \<lparr>md_id = ''compute.instances.insert'', md_http_method = ''POST'',
            md_flat_path = ''projects/{p}/instances'', md_service_path = ''compute/v1/'', md_path = []\<rparr>)]\<rparr>)]"

definition compute_view :: view where
  "compute_view = gcp_example_view ''compute.googleapis.com'' ''GET'' ''/compute/v1/projects/x/instances''"

definition compute_provider :: gcp_provider where
  "compute_provider =
     \<lparr>gp_to_ascii = Some, gp_catalog = Some compute_catalog,
      gp_gate = Inr (gcp_example_gate compute_catalog [''compute.instances.list'']), gp_token = Inr ''t''\<rparr>"

lemma compute_allowed:
  "authorize_gcp (gcp_example_gate compute_catalog [''compute.instances.list'']) compute_view (claims ''compute'') = Inr ()"
proof -
  have "(case authorize_gcp (gcp_example_gate compute_catalog [''compute.instances.list'']) compute_view (claims ''compute'') of
      Inr _ \<Rightarrow> True | _ \<Rightarrow> False)" by code_simp
  then show ?thesis by (auto split: sum.splits)
qed

theorem gcp_gate_read_only_witness:
  "\<exists>service is_www m. resolve_request_service (gcp_example_gate compute_catalog [''compute.instances.list'']) compute_view =
     Inr (service, is_www) \<and> (pinned_method m \<or> is_read_method m \<or> dataset_reads None {''compute.instances.list''} m)"
proof -
  have "\<forall>role p. ld_get_role (gcp_example_deps compute_catalog [''compute.instances.list'']) = Inr role \<longrightarrow>
      p \<in> set (rdf_included role) \<longrightarrow> read_permission p"
    by (simp add: gcp_example_deps_def read_permission_def)
  from gcp_gate_read_only [OF gcp_example_lazy compute_allowed this] show ?thesis
    by (auto simp: gcp_example_deps_def)
qed

theorem gcp_claim_is_judged_witness:
  "\<exists>g service is_www. resolve_request_service g compute_view = Inr (service, is_www) \<and> equal_fold service ''compute''"
proof -
  have "(case gcp_authorizes_host compute_provider (v_hostname compute_view) (claims ''compute'') of Inr b \<Rightarrow> b | _ \<Rightarrow> False)"
    "authorize_request_port compute_view https_port = Inr ()" "to_lower (v_hostname compute_view) = v_hostname compute_view"
    by code_simp+
  then have h: "gcp_authorizes_host compute_provider (v_hostname compute_view) (claims ''compute'') = Inr True"
    and l: "to_lower (v_hostname compute_view) = v_hostname compute_view"
    and a: "gcp_authorize_action compute_provider compute_view (claims ''compute'') = Inr ()"
    using compute_allowed by (auto simp: gcp_authorize_action_def compute_provider_def split: sum.splits simp del: to_lower.simps)
  have w: "gcp_wired compute_provider" by (simp add: gcp_wired_def compute_provider_def gcp_example_gate_def)
  from gcp_claim_is_judged [OF h a w l] show ?thesis by (fastforce simp: claims_def)
qed

end
