(* ===== verification/Azure_Catalog.thy ===== *)
theory Azure_Catalog
  imports Json_Decode Host_Admission
begin

text \<open>
  Package \<open>auth/azure\<close>: the clouds (\<open>cloud.go\<close>), the hosts of their control planes (\<open>network.go\<close>) and
  the catalog of provider operations (\<open>catalog.go\<close>), from its JSON on. A Go map is the list of its
  entries in iteration order.
\<close>

datatype azure_error =
    AzureHostPattern
  | AzureHostClaimMismatch
  | AzureCatalogUnavailable
  | AzureActionUnresolved
  | AzureStructuralMiss string
  | AzureActionAmbiguous
  | AzureActionDenied
  | AzureDataPlane
  | AzureGraph
  | AzureRoleFetchFailed
  | AzureModelSuppliedCredential
  | AzureBadArguments
  | AzureServiceRequired
  | AzureWrongPort
  | AzureNotReady
  | AzureTokenFailed

subsection \<open>cloud.go\<close>

record cloud_config =
  cc_name :: string
  cc_arm_endpoint :: string
  cc_scope :: string
  cc_authority_host :: string
  cc_source :: string

definition cloud_public :: string where
  "cloud_public = ''AzureCloud''"

definition cloud_us_gov :: string where
  "cloud_us_gov = ''AzureUSGovernment''"

definition cloud_china :: string where
  "cloud_china = ''AzureChinaCloud''"

definition cloud_table :: "(string \<times> cloud_config) list" where
  "cloud_table =
     [(cloud_public, \<lparr>cc_name = cloud_public, cc_arm_endpoint = ''https://management.azure.com'',
        cc_scope = ''https://management.azure.com/.default'', cc_authority_host = ''https://login.microsoftonline.com/'',
        cc_source = []\<rparr>),
      (cloud_us_gov, \<lparr>cc_name = cloud_us_gov, cc_arm_endpoint = ''https://management.usgovcloudapi.net'',
        cc_scope = ''https://management.usgovcloudapi.net/.default'', cc_authority_host = ''https://login.microsoftonline.us/'',
        cc_source = []\<rparr>),
      (cloud_china, \<lparr>cc_name = cloud_china, cc_arm_endpoint = ''https://management.chinacloudapi.cn'',
        cc_scope = ''https://management.chinacloudapi.cn/.default'', cc_authority_host = ''https://login.chinacloudapi.cn/'',
        cc_source = []\<rparr>)]"

definition canonicalize_cloud_name :: "string \<Rightarrow> string" where
  "canonicalize_cloud_name name =
     (if name = [] then []
      else (case List.find (equal_fold name) (map fst cloud_table) of Some canonical \<Rightarrow> canonical | None \<Rightarrow> name))"

definition cloud_by_name :: "string \<Rightarrow> cloud_config option" where
  "cloud_by_name name = map_of cloud_table (canonicalize_cloud_name name)"

definition authority_host_to_cloud :: "(string \<times> string) list" where
  "authority_host_to_cloud =
     [(''https://login.microsoftonline.com'', cloud_public), (''https://login.microsoftonline.us'', cloud_us_gov),
      (''https://login.chinacloudapi.cn'', cloud_china)]"

definition cloud_from_authority_host :: "string \<Rightarrow> string option" where
  "cloud_from_authority_host host =
     (let h = trim_right_char CHR ''/'' (trim_space host) in
      if h = [] then None else map_of authority_host_to_cloud (to_lower h))"

text \<open>The scan of the CLI's configuration: whether the current section is \<open>[cloud]\<close>.\<close>

fun cli_config_loop :: "string list \<Rightarrow> bool \<Rightarrow> string option" where
  "cli_config_loop [] in_cloud = None"
| "cli_config_loop (raw # raws) in_cloud =
     (let line = trim_space raw in
      if line = [] \<or> has_prefix line ''#'' \<or> has_prefix line '';'' then cli_config_loop raws in_cloud
      else if has_prefix line ''['' \<and> has_suffix line '']'' then
        cli_config_loop raws (equal_fold (trim_space (take (length line - 2) (drop 1 line))) ''cloud'')
      else if \<not> in_cloud then cli_config_loop raws in_cloud
      else let (key, val, found) = str_cut line ''='' in
        if \<not> found \<or> \<not> equal_fold (trim_space key) ''name'' then cli_config_loop raws in_cloud
        else map_option cc_name (cloud_by_name (trim_space val)))"

definition cloud_name_from_cli_config :: "string \<Rightarrow> string option" where
  "cloud_name_from_cli_config ini = cli_config_loop (split_on CHR 0x0A ini) False"

definition sourced :: "string \<Rightarrow> string \<Rightarrow> cloud_config" where
  "sourced name source = (the (map_of cloud_table name))\<lparr>cc_source := source\<rparr>"

definition resolve_cloud_config :: "string \<Rightarrow> string \<Rightarrow> string \<Rightarrow> cloud_config" where
  "resolve_cloud_config configured authority_host cli_ini =
     (let name = canonicalize_cloud_name configured in
      if name \<noteq> [] \<and> name \<noteq> ''auto'' \<and> map_of cloud_table name \<noteq> None then sourced name ''config''
      else (case cloud_from_authority_host authority_host of
          Some n \<Rightarrow> sourced n ''env''
        | None \<Rightarrow>
            (case cloud_name_from_cli_config cli_ini of
               Some n \<Rightarrow> sourced n ''cli''
             | None \<Rightarrow> sourced cloud_public ''default'')))"

subsection \<open>network.go\<close>

record azure_host =
  azh_host :: string
  azh_cloud :: string

definition with_cloud :: "azure_host \<Rightarrow> string \<Rightarrow> azure_host" where
  "with_cloud p cloud = p\<lparr>azh_cloud := cloud\<rparr>"

definition data_plane_suffixes :: "string list" where
  "data_plane_suffixes =
     [''.vault.azure.net'', ''.managedhsm.azure.net'', ''.core.windows.net'', ''.database.windows.net'',
      ''.documents.azure.com'', ''.servicebus.windows.net'', ''.azurecr.io'']"

definition graph_host :: string where
  "graph_host = ''graph.microsoft.com''"

definition arm_control_plane_hosts :: "string list" where
  "arm_control_plane_hosts = [''management.azure.com'', ''management.usgovcloudapi.net'', ''management.chinacloudapi.cn'']"

definition azure_reject_host :: "string \<Rightarrow> bool" where
  "azure_reject_host host =
     (if host = ''localhost'' \<or> has_suffix host ''.local'' then True
      else if is_ip_literal host then True
      else if host = ''metadata'' \<or> has_prefix host ''metadata.'' then True
      else str_contains host ''.privatelink.'' \<or> has_prefix host ''privatelink.'')"

definition classify_host :: "string \<Rightarrow> (azure_error, azure_host) result" where
  "classify_host host =
     (if host = graph_host then Inl AzureGraph
      else if list_ex (has_suffix host) data_plane_suffixes then Inl AzureDataPlane
      else if host \<in> set arm_control_plane_hosts then Inr \<lparr>azh_host = host, azh_cloud = []\<rparr>
      else Inl AzureHostPattern)"

definition azure_parse_host :: "(string \<Rightarrow> string option) \<Rightarrow> string \<Rightarrow> (azure_error, azure_host) result" where
  "azure_parse_host to_ascii host =
     (if host = [] then Inl AzureHostPattern
      else (case normalize_host to_ascii host of
          None \<Rightarrow> Inl AzureHostPattern
        | Some norm \<Rightarrow> if azure_reject_host norm then Inl AzureHostPattern else classify_host norm))"

definition azure_verify :: "azure_host \<Rightarrow> string \<Rightarrow> (azure_error, unit) result" where
  "azure_verify p claimed_cloud =
     (let claim = canonicalize_cloud_name claimed_cloud in
      if claim = [] then Inr ()
      else let resolved = canonicalize_cloud_name (azh_cloud p) in
        if resolved = [] then Inl AzureHostClaimMismatch
        else if \<not> equal_fold resolved claim then Inl AzureHostClaimMismatch
        else Inr ())"

subsection \<open>catalog.go\<close>

record provider_operation =
  po_name :: string
  po_is_data_action :: bool

record provider_ops =
  prv_resource_types :: "string list"
  prv_operations :: "provider_operation list"

record azure_catalog =
  azc_clouds :: "(string \<times> string) list"  \<comment> \<open>by cloud, its \<open>ResourceManager\<close> host\<close>
  azc_providers :: "(string \<times> provider_ops) list"

fun decode_bool :: "json \<Rightarrow> bool \<Rightarrow> bool option" where
  "decode_bool JNull old = Some old"
| "decode_bool (JBool b) old = Some b"
| "decode_bool _ old = None"

definition decode_operation_member :: "string \<Rightarrow> json \<Rightarrow> provider_operation \<Rightarrow> provider_operation option" where
  "decode_operation_member k v o1 =
     (if equal_fold k ''name'' then map_option (\<lambda>x. o1\<lparr>po_name := x\<rparr>) (decode_text v (po_name o1))
      else if equal_fold k ''isDataAction'' then map_option (\<lambda>x. o1\<lparr>po_is_data_action := x\<rparr>) (decode_bool v (po_is_data_action o1))
      else Some o1)"

definition zero_operation :: provider_operation where
  "zero_operation = \<lparr>po_name = [], po_is_data_action = False\<rparr>"

definition decode_operations :: "json \<Rightarrow> provider_operation slice \<Rightarrow> provider_operation slice option" where
  "decode_operations = decode_slice (decode_struct decode_operation_member) zero_operation"

record resource_type_doc =
  rtd_name :: string
  rtd_operations :: "provider_operation slice"

definition decode_resource_type_member :: "string \<Rightarrow> json \<Rightarrow> resource_type_doc \<Rightarrow> resource_type_doc option" where
  "decode_resource_type_member k v t =
     (if equal_fold k ''name'' then map_option (\<lambda>x. t\<lparr>rtd_name := x\<rparr>) (decode_text v (rtd_name t))
      else if equal_fold k ''operations'' then map_option (\<lambda>x. t\<lparr>rtd_operations := x\<rparr>) (decode_operations v (rtd_operations t))
      else Some t)"

record provider_metadata =
  pmd_name :: string
  pmd_resource_types :: "resource_type_doc slice"
  pmd_operations :: "provider_operation slice"

definition decode_metadata_member :: "string \<Rightarrow> json \<Rightarrow> provider_metadata \<Rightarrow> provider_metadata option" where
  "decode_metadata_member k v p =
     (if equal_fold k ''name'' then map_option (\<lambda>x. p\<lparr>pmd_name := x\<rparr>) (decode_text v (pmd_name p))
      else if equal_fold k ''resourceTypes'' then
        map_option (\<lambda>x. p\<lparr>pmd_resource_types := x\<rparr>)
          (decode_slice (decode_struct decode_resource_type_member) \<lparr>rtd_name = [], rtd_operations = ([], 0)\<rparr> v (pmd_resource_types p))
      else if equal_fold k ''operations'' then map_option (\<lambda>x. p\<lparr>pmd_operations := x\<rparr>) (decode_operations v (pmd_operations p))
      else Some p)"

definition decode_all_member :: "string \<Rightarrow> json \<Rightarrow> provider_metadata slice \<Rightarrow> provider_metadata slice option" where
  "decode_all_member k v ps =
     (if equal_fold k ''value'' then
        decode_slice (decode_struct decode_metadata_member)
          \<lparr>pmd_name = [], pmd_resource_types = ([], 0), pmd_operations = ([], 0)\<rparr> v ps
      else Some ps)"

definition decode_provider_ops :: "string \<Rightarrow> provider_metadata list option" where
  "decode_provider_ops body = map_option slice_elems (unmarshal_into (\<lambda>j. decode_struct decode_all_member j ([], 0)) body)"

definition action_landmine :: "string \<Rightarrow> string list \<Rightarrow> provider_operation list \<Rightarrow> string \<Rightarrow> bool" where
  "action_landmine namespace types ops t =
     (let slash = (case last_index_char t CHR ''/'' of None \<Rightarrow> 0 | Some i \<Rightarrow> i);
          parent = take slash t;
          action_op = to_lower (namespace @ ''/'' @ t @ ''/action'')
      in slash > 0 \<and> to_lower parent \<in> set (map to_lower types) \<and> action_op \<in> set (map (\<lambda>o1. to_lower (po_name o1)) ops))"

definition prune_action_verb_types :: "string \<Rightarrow> string list \<Rightarrow> provider_operation list \<Rightarrow> string list" where
  "prune_action_verb_types namespace types ops = filter (\<lambda>t. \<not> action_landmine namespace types ops t) types"

definition flatten_provider_ops :: "provider_metadata \<Rightarrow> provider_ops" where
  "flatten_provider_ops md =
     (let rts = slice_elems (pmd_resource_types md);
          raw_types = map rtd_name rts;
          ops = concat (map (\<lambda>rt. slice_elems (rtd_operations rt)) rts) @ slice_elems (pmd_operations md)
      in \<lparr>prv_resource_types = prune_action_verb_types (pmd_name md) raw_types ops, prv_operations = ops\<rparr>)"

definition collect_provider_ops :: "provider_metadata list \<Rightarrow> (string \<times> provider_ops) list" where
  "collect_provider_ops mds = foldl (\<lambda>out md. map_put (pmd_name md) (flatten_provider_ops md) out) [] mds"

definition parse_cloud_endpoints :: "string \<Rightarrow> (azure_error, string) result" where
  "parse_cloud_endpoints body =
     (if has_prefix (trim_space body) ''['' then Inl AzureCatalogUnavailable
      else (case unmarshal_into (\<lambda>j. decode_struct
            (\<lambda>k v s. if equal_fold k ''resourceManager'' then decode_text v s else Some s) j []) body of
          None \<Rightarrow> Inl AzureCatalogUnavailable
        | Some rm \<Rightarrow> if rm = [] then Inl AzureCatalogUnavailable else Inr (host_of rm)))"

text \<open>\<open>get_endpoints\<close> and \<open>get_provider_ops\<close> are the two fetches.\<close>

fun endpoints_loop ::
    "(string \<Rightarrow> (unit, string) result) \<Rightarrow> (string \<times> string) list \<Rightarrow> (string \<times> string) list \<Rightarrow>
     (azure_error, (string \<times> string) list) result" where
  "endpoints_loop get_endpoints [] out = Inr out"
| "endpoints_loop get_endpoints ((cloud, url) # rest) out =
     (case get_endpoints url of
        Inl _ \<Rightarrow> endpoints_loop get_endpoints rest out
      | Inr body \<Rightarrow>
          (case parse_cloud_endpoints body of
             Inl e \<Rightarrow> Inl e
           | Inr ep \<Rightarrow> endpoints_loop get_endpoints rest (map_put cloud ep out)))"

definition provider_ops_base :: "(string \<times> string) list \<Rightarrow> string" where
  "provider_ops_base clouds = (case clouds of [] \<Rightarrow> [] | e # _ \<Rightarrow> ''https://'' @ snd e)"

definition build_catalog ::
    "(string \<times> string) list \<Rightarrow> (string \<Rightarrow> (unit, string) result) \<Rightarrow> (string \<Rightarrow> (unit, (string \<times> provider_ops) list) result) \<Rightarrow>
     string \<Rightarrow> (azure_error, azure_catalog) result" where
  "build_catalog clouds get_endpoints get_provider_ops base_url =
     (case endpoints_loop get_endpoints clouds [] of
        Inl e \<Rightarrow> Inl e
      | Inr out \<Rightarrow>
          if length out = 0 then Inl AzureCatalogUnavailable
          else (let arm_base = (if base_url = [] then provider_ops_base out else base_url) in
            Inr \<lparr>azc_clouds = out,
              azc_providers = (case get_provider_ops arm_base of Inl _ \<Rightarrow> [] | Inr providers \<Rightarrow> providers)\<rparr>))"

text \<open>The cache's parse hook: a catalog scoped to one cloud holds that cloud and no other.\<close>

definition scoped_catalog :: "string \<Rightarrow> azure_catalog \<Rightarrow> azure_catalog option" where
  "scoped_catalog cloud d =
     (if cloud = [] then Some d
      else if map_of (azc_clouds d) cloud = None \<or> length (azc_clouds d) \<noteq> 1 then None
      else Some d)"

text \<open>The lookups; the catalog is \<open>None\<close> when it cannot be fetched.\<close>

definition resolve_cloud :: "azure_catalog option \<Rightarrow> azure_host \<Rightarrow> (azure_error, azure_host) result" where
  "resolve_cloud fetched p =
     (case fetched of
        None \<Rightarrow> Inl AzureCatalogUnavailable
      | Some data \<Rightarrow>
          (case List.find (\<lambda>e. equal_fold (snd e) (azh_host p)) (azc_clouds data) of
             Some e \<Rightarrow> Inr (with_cloud p (fst e))
           | None \<Rightarrow> Inl AzureHostPattern))"

definition find_provider_ops :: "azure_catalog option \<Rightarrow> string \<Rightarrow> (azure_error, provider_ops) result" where
  "find_provider_ops fetched namespace =
     (case fetched of
        None \<Rightarrow> Inl AzureCatalogUnavailable
      | Some data \<Rightarrow>
          (case List.find (\<lambda>e. equal_fold (fst e) namespace) (azc_providers data) of
             Some e \<Rightarrow> Inr (snd e)
           | None \<Rightarrow> Inl AzureCatalogUnavailable))"

definition resource_types :: "azure_catalog option \<Rightarrow> string \<Rightarrow> (azure_error, string list) result" where
  "resource_types fetched namespace = map_sum id prv_resource_types (find_provider_ops fetched namespace)"

text \<open>The verb an operation registers under a prefix, if it does.\<close>

definition operation_verb :: "string \<Rightarrow> string \<Rightarrow> provider_operation \<Rightarrow> string option" where
  "operation_verb prefix verb_token o1 =
     (case cut_prefix (to_lower (po_name o1)) prefix of
        None \<Rightarrow> None
      | Some rest \<Rightarrow>
          if rest \<noteq> [] \<and> \<not> has_prefix rest ''/'' then None
          else let verb = trim_prefix rest ''/'' in Some (if verb = [] then verb_token else verb))"

text \<open>The verbs in first-seen order, each with its data-plane flag.\<close>

fun lookup_loop :: "string \<Rightarrow> string \<Rightarrow> provider_operation list \<Rightarrow> (string \<times> bool) list \<Rightarrow> (string \<times> bool) list" where
  "lookup_loop prefix verb_token [] acc = acc"
| "lookup_loop prefix verb_token (o1 # ops) acc =
     (case operation_verb prefix verb_token o1 of
        None \<Rightarrow> lookup_loop prefix verb_token ops acc
      | Some verb \<Rightarrow>
          (let old = (case map_of acc verb of None \<Rightarrow> False | Some b \<Rightarrow> b) in
           lookup_loop prefix verb_token ops (map_put verb (old \<or> po_is_data_action o1) acc)))"

definition lookup_operation ::
    "azure_catalog option \<Rightarrow> string \<Rightarrow> string \<Rightarrow> string \<Rightarrow> (azure_error, (string \<times> bool) list) result" where
  "lookup_operation fetched namespace type_path verb_token =
     map_sum id (\<lambda>ops. lookup_loop (to_lower (namespace @ ''/'' @ type_path @ ''/'' @ verb_token)) verb_token (prv_operations ops) [])
       (find_provider_ops fetched namespace)"

end
