(* ===== verification/Azure_Gate.thy ===== *)
theory Azure_Gate
  imports Azure_Catalog Connectors
begin

text \<open>
  The action gate of the Azure connector: the RBAC action of a request (\<open>classifier.go\<close>,
  \<open>actions.go\<close>), the role definition (\<open>roles.go\<close>, \<open>roleeval.go\<close>), the composed gate (\<open>provider.go\<close>,
  \<open>lazy.go\<close>) and the connector above it (\<open>auth/azure.go\<close>).
\<close>

subsection \<open>classifier.go\<close>

record azure_action =
  act_namespace :: string
  act_resource_type :: string
  act_verb :: string
  act_full :: string

definition mk_action :: "string \<Rightarrow> string \<Rightarrow> string \<Rightarrow> azure_action" where
  "mk_action namespace resource_type verb =
     \<lparr>act_namespace = namespace, act_resource_type = resource_type, act_verb = verb,
      act_full = namespace @ ''/'' @ resource_type @ ''/'' @ verb\<rparr>"

definition post_read_allow_list :: "(string \<times> string) list" where
  "post_read_allow_list =
     [(''microsoft.resourcegraph/resources/resources'', ''read''),
      (''microsoft.resourcegraph/resourcechanges/resourcechanges'', ''read''),
      (''microsoft.resourcegraph/resourcechangedetails/resourcechangedetails'', ''read''),
      (''microsoft.resourcegraph/resourceshistory/resourceshistory'', ''read''),
      (''microsoft.operationalinsights/workspaces/query'', ''read''),
      (''microsoft.network/networkwatchers/topology'', ''read''),
      (''microsoft.network/networkwatchers/nexthop'', ''read'')]"

definition poll_segments :: "string list" where
  "poll_segments = [''operations'', ''operationstatuses'', ''operationresults'']"

definition azure_split_path :: "string \<Rightarrow> string list" where
  "azure_split_path p = (let t = trim_char CHR ''/'' p in if t = [] then [] else split_on CHR ''/'' t)"

definition non_canonical_path :: "string \<Rightarrow> string list \<Rightarrow> bool" where
  "non_canonical_path escaped_path segs =
     (if list_ex (\<lambda>s. s = [] \<or> s = ''.'' \<or> s = ''..'') segs then True else str_contains (to_lower escaped_path) ''%2f'')"

text \<open>The index of the last segment \<open>providers\<close>.\<close>

fun last_providers :: "string list \<Rightarrow> nat \<Rightarrow> nat option \<Rightarrow> nat option" where
  "last_providers [] i acc = acc"
| "last_providers (s # segs) i acc = last_providers segs (Suc i) (if equal_fold s ''providers'' then Some i else acc)"

definition resolve_namespace :: "string list \<Rightarrow> (string \<times> string list) option" where
  "resolve_namespace segs =
     (case last_providers segs 0 None of
        None \<Rightarrow> None
      | Some i \<Rightarrow> if i + 2 \<ge> length segs then None else Some (segs ! (i + 1), drop (i + 2) segs))"

definition provider_less_routes :: "(string list \<times> string) list" where
  "provider_less_routes =
     [([''subscriptions''], ''subscriptions''),
      ([''subscriptions'', ''{}''], ''subscriptions''),
      ([''subscriptions'', ''{}'', ''resourcegroups''], ''subscriptions/resourceGroups''),
      ([''subscriptions'', ''{}'', ''resourcegroups'', ''{}''], ''subscriptions/resourceGroups''),
      ([''subscriptions'', ''{}'', ''locations''], ''subscriptions/locations''),
      ([''subscriptions'', ''{}'', ''providers''], ''subscriptions/providers''),
      ([''subscriptions'', ''{}'', ''providers'', ''{}''], ''subscriptions/providers''),
      ([''subscriptions'', ''{}'', ''tagnames''], ''subscriptions/tagNames''),
      ([''subscriptions'', ''{}'', ''resources''], ''subscriptions/resources''),
      ([''subscriptions'', ''{}'', ''resourcegroups'', ''{}'', ''resources''], ''subscriptions/resourceGroups/resources''),
      ([''tenants''], ''tenants''),
      ([''providers''], ''providers''),
      ([''providers'', ''{}''], ''providers'')]"

definition azure_match_template :: "string list \<Rightarrow> string list \<Rightarrow> bool" where
  "azure_match_template template segs \<longleftrightarrow>
     length template = length segs \<and> list_all2 (\<lambda>t s. t = ''{}'' \<or> equal_fold t s) template segs"

definition provider_less_action :: "string \<Rightarrow> string list \<Rightarrow> (azure_error, azure_action) result" where
  "provider_less_action meth segs =
     (if meth \<noteq> ''GET'' then Inl AzureActionUnresolved
      else (case List.find (\<lambda>r. azure_match_template (fst r) segs) provider_less_routes of
          Some r \<Rightarrow> Inr (mk_action ''Microsoft.Resources'' (snd r) ''read'')
        | None \<Rightarrow> Inl (AzureStructuralMiss ''Microsoft.Resources'')))"

text \<open>\<open>isPollShape\<close> of an even index in a slice of length \<open>n\<close>.\<close>

definition is_poll_shape :: "nat \<Rightarrow> nat \<Rightarrow> bool" where
  "is_poll_shape i n \<longleftrightarrow> i + 2 = n \<or> i = 0 \<and> n = 1"

text \<open>The loops over the even positions, with the index reached and the length of the whole slice.\<close>

fun poll_loop :: "string \<Rightarrow> nat \<Rightarrow> nat \<Rightarrow> string list \<Rightarrow> azure_action option" where
  "poll_loop namespace n i [] = None"
| "poll_loop namespace n i (s # rest) =
     (if to_lower s \<in> set poll_segments \<and> is_poll_shape i n then Some (mk_action namespace (to_lower s) ''read'')
      else poll_loop namespace n (i + 2) (tl rest))"

definition poll_action :: "string \<Rightarrow> string \<Rightarrow> string list \<Rightarrow> azure_action option" where
  "poll_action meth namespace rest = (if meth \<noteq> ''GET'' then None else poll_loop namespace (length rest) 0 rest)"

record walk =
  wk_parts :: "string list"
  wk_matched :: string
  wk_trailing :: nat  \<comment> \<open>type segments behind the longest match\<close>
  wk_token :: string

fun walk_loop :: "string list \<Rightarrow> string list \<Rightarrow> walk \<Rightarrow> walk" where
  "walk_loop known [] w = w"
| "walk_loop known (s # rest) w =
     (let parts = wk_parts w @ [s]; cand = join ''/'' parts; hit = to_lower cand \<in> set known in
      walk_loop known (tl rest)
        \<lparr>wk_parts = parts, wk_matched = (if hit then cand else wk_matched w),
         wk_trailing = (if hit then 0 else Suc (wk_trailing w)), wk_token = s\<rparr>)"

definition resolve_resource_type ::
    "azure_catalog option \<Rightarrow> string \<Rightarrow> string \<Rightarrow> string list \<Rightarrow> (azure_error, string \<times> string) result" where
  "resolve_resource_type cat meth namespace rest =
     (case resource_types cat namespace of
        Inl _ \<Rightarrow> Inl AzureCatalogUnavailable
      | Inr types \<Rightarrow>
          (let w = walk_loop (map to_lower types) rest \<lparr>wk_parts = [], wk_matched = [], wk_trailing = 0, wk_token = []\<rparr> in
           if wk_matched w = [] then Inl (AzureStructuralMiss namespace)
           else if wk_trailing w > (if meth = ''POST'' then 1 else 0) then Inl (AzureStructuralMiss namespace)
           else Inr (wk_matched w, wk_token w)))"

fun distinct_verbs :: "string list \<Rightarrow> string list \<Rightarrow> string list" where
  "distinct_verbs [] out = out"
| "distinct_verbs (s # ss) out =
     (if to_lower s \<in> set (map to_lower out) then distinct_verbs ss out else distinct_verbs ss (out @ [s]))"

definition post_action ::
    "azure_catalog option \<Rightarrow> string \<Rightarrow> string \<Rightarrow> string \<Rightarrow> (azure_error, azure_action) result" where
  "post_action cat namespace type_path token =
     (case lookup_operation cat namespace type_path token of
        Inl _ \<Rightarrow> Inl AzureCatalogUnavailable
      | Inr verbs \<Rightarrow>
          if length (distinct_verbs (map fst verbs) []) > 1 then Inl AzureActionAmbiguous
          else (case map_of post_read_allow_list (to_lower (namespace @ ''/'' @ type_path @ ''/'' @ token)) of
              Some verb \<Rightarrow> Inr (mk_action namespace type_path verb)
            | None \<Rightarrow> Inr (mk_action namespace (trim_suffix type_path (''/'' @ token)) (token @ ''/action''))))"

definition verb_action ::
    "azure_catalog option \<Rightarrow> string \<Rightarrow> string \<Rightarrow> string \<Rightarrow> string \<Rightarrow> (azure_error, azure_action) result" where
  "verb_action cat meth namespace type_path token =
     (if meth = ''GET'' then Inr (mk_action namespace type_path ''read'')
      else if meth = ''PUT'' \<or> meth = ''PATCH'' then Inr (mk_action namespace type_path ''write'')
      else if meth = ''DELETE'' then Inr (mk_action namespace type_path ''delete'')
      else if meth = ''POST'' then post_action cat namespace type_path token
      else Inl AzureActionUnresolved)"

definition derive_action :: "azure_catalog option \<Rightarrow> view \<Rightarrow> (azure_error, azure_action) result" where
  "derive_action cat v =
     (let meth = to_upper (v_method v); segs = azure_split_path (v_path v) in
      if non_canonical_path (v_escaped_path v) segs then Inl AzureActionUnresolved
      else (case resolve_namespace segs of
          None \<Rightarrow> provider_less_action meth segs
        | Some (namespace, rest) \<Rightarrow>
            (case poll_action meth namespace rest of
               Some a \<Rightarrow> Inr a
             | None \<Rightarrow>
                 and_then (resolve_resource_type cat meth namespace rest) (\<lambda>(type_path, token).
                   verb_action cat meth namespace type_path token))))"

subsection \<open>actions.go\<close>

definition validate_action :: "azure_catalog option \<Rightarrow> azure_action \<Rightarrow> (azure_error, unit) result" where
  "validate_action cat a =
     (let token = to_lower (act_verb a) in
      case lookup_operation cat (to_lower (act_namespace a)) (to_lower (act_resource_type a)) token of
        Inl _ \<Rightarrow> Inl AzureCatalogUnavailable
      | Inr by_verb \<Rightarrow>
          (case map_of by_verb token of
             None \<Rightarrow> Inl AzureActionUnresolved
           | Some is_data \<Rightarrow> if is_data then Inl AzureDataPlane else Inr ()))"

subsection \<open>roles.go, roleeval.go\<close>

record role_permissions =
  rp_actions :: "string list"
  rp_not_actions :: "string list"

text \<open>A role definition as the SDK gives it: \<open>None\<close> is a nil pointer.\<close>

record permission_block =
  pb_actions :: "string option list"
  pb_not_actions :: "string option list"

record role_properties =
  rpr_role_name :: "string option"
  rpr_permissions :: "permission_block option list"

record role_definition_doc =
  rdd_name :: "string option"
  rdd_properties :: "role_properties option"

definition deref_all :: "string option list \<Rightarrow> string list" where
  "deref_all ps = List.map_filter id ps"

definition flatten_permissions :: "role_properties \<Rightarrow> role_permissions" where
  "flatten_permissions rp =
     (let blocks = List.map_filter id (rpr_permissions rp) in
      \<lparr>rp_actions = concat (map (deref_all \<circ> pb_actions) blocks),
       rp_not_actions = concat (map (deref_all \<circ> pb_not_actions) blocks)\<rparr>)"

definition matches_role :: "string option \<Rightarrow> role_properties \<Rightarrow> string \<Rightarrow> bool" where
  "matches_role name rp want =
     (if (case name of Some n \<Rightarrow> equal_fold n want | None \<Rightarrow> False) then True
      else (case rpr_role_name rp of Some n \<Rightarrow> equal_fold n want | None \<Rightarrow> False))"

fun select_role_permissions :: "role_definition_doc option list \<Rightarrow> string \<Rightarrow> role_permissions option" where
  "select_role_permissions [] want = None"
| "select_role_permissions (r # rs) want =
     (case Option.bind r rdd_properties of
        None \<Rightarrow> select_role_permissions rs want
      | Some rp \<Rightarrow>
          if matches_role (rdd_name (the r)) rp want then Some (flatten_permissions rp) else select_role_permissions rs want)"

fun select_role_id :: "role_definition_doc option list \<Rightarrow> string \<Rightarrow> string option" where
  "select_role_id [] want = None"
| "select_role_id (r # rs) want =
     (case Option.bind r rdd_properties of
        None \<Rightarrow> select_role_id rs want
      | Some rp \<Rightarrow>
          if matches_role (rdd_name (the r)) rp want \<and> rdd_name (the r) \<noteq> None then rdd_name (the r)
          else select_role_id rs want)"

text \<open>
  An action pattern as the regular expression built from it reads: \<open>*\<close> is any text without a line
  feed, all else is literal, both up to case.
\<close>

fun glob :: "string \<Rightarrow> string \<Rightarrow> bool" where
  "glob [] s = (s = [])"
| "glob (p # ps) [] = (p = CHR ''*'' \<and> glob ps [])"
| "glob (p # ps) (c # s) =
     (if p = CHR ''*'' then glob ps (c # s) \<or> c \<noteq> CHR 0x0A \<and> glob (p # ps) s
      else c = p \<and> glob ps s)"

definition match_pattern :: "string \<Rightarrow> string \<Rightarrow> bool" where
  "match_pattern pattern action = glob (fold_case pattern) (fold_case action)"

definition match_any :: "string list \<Rightarrow> string \<Rightarrow> bool" where
  "match_any patterns action \<longleftrightarrow> list_ex (\<lambda>p. match_pattern p action) patterns"

definition role_allowed :: "role_permissions \<Rightarrow> azure_action \<Rightarrow> bool" where
  "role_allowed role a \<longleftrightarrow> match_any (rp_actions role) (act_full a) \<and> \<not> match_any (rp_not_actions role) (act_full a)"

subsection \<open>provider.go, lazy.go\<close>

record azure_gate =
  azg_catalog :: "azure_catalog option"
  azg_role :: role_permissions

record azure_args =
  aza_service :: string
  aza_cloud :: string

definition parse_azure_args :: "(unit, azure_args option) result \<Rightarrow> (azure_error, azure_args) result" where
  "parse_azure_args block =
     (case block of
        Inl _ \<Rightarrow> Inl AzureBadArguments
      | Inr args \<Rightarrow> if args = None \<or> aza_service (the args) = [] then Inl AzureServiceRequired else Inr (the args))"

definition authorize_azure :: "azure_gate \<Rightarrow> view \<Rightarrow> (unit, azure_args option) result \<Rightarrow> (azure_error, unit) result" where
  "authorize_azure g v block =
     and_then (parse_azure_args block) (\<lambda>args.
     and_then (derive_action (azg_catalog g) v) (\<lambda>action.
       if \<not> equal_fold (act_namespace action) (aza_service args) then Inl AzureHostClaimMismatch
       else and_then (validate_action (azg_catalog g) action) (\<lambda>_.
         if \<not> role_allowed (azg_role g) action then Inl AzureActionDenied else Inr ())))"

text \<open>The one-time initialization: the identity probe and the role's permissions.\<close>

definition azure_lazy_resolve ::
    "azure_catalog option \<Rightarrow> (unit, 'i) result \<Rightarrow> (unit, role_permissions) result \<Rightarrow> (azure_error, azure_gate) result" where
  "azure_lazy_resolve cat identity role =
     (case identity of
        Inl _ \<Rightarrow> Inl AzureNotReady
      | Inr _ \<Rightarrow>
          (case role of Inl _ \<Rightarrow> Inl AzureRoleFetchFailed | Inr perms \<Rightarrow> Inr \<lparr>azg_catalog = cat, azg_role = perms\<rparr>))"

subsection \<open>auth/azure.go\<close>

definition azure_provider_name :: string where
  "azure_provider_name = ''azure''"

text \<open>The connector: its catalog, what the deferred initialization made of the gate, the token source.\<close>

record azure_provider =
  azp_to_ascii :: "string \<Rightarrow> string option"
  azp_catalog :: "azure_catalog option"
  azp_scope :: string
  azp_gate :: "(azure_error, azure_gate) result"
  azp_token :: "string \<Rightarrow> (unit, string) result"

definition azure_authorizes_host ::
    "azure_provider \<Rightarrow> string \<Rightarrow> (unit, azure_args option) result \<Rightarrow> (azure_error, bool) result" where
  "azure_authorizes_host p host block =
     and_then (parse_azure_args block) (\<lambda>args.
     and_then (azure_parse_host (azp_to_ascii p) host) (\<lambda>parsed.
     and_then (resolve_cloud (azp_catalog p) parsed) (\<lambda>resolved.
     and_then (azure_verify resolved (aza_cloud args)) (\<lambda>_. Inr True))))"

definition azure_authorize_action ::
    "azure_provider \<Rightarrow> view \<Rightarrow> (unit, azure_args option) result \<Rightarrow> (azure_error, unit) result" where
  "azure_authorize_action p v block =
     (if authorize_request_port v https_port \<noteq> Inr () then Inl AzureWrongPort
      else and_then (azp_gate p) (\<lambda>g. authorize_azure g v block))"

definition reject_model_supplied_sas :: "http_request \<Rightarrow> (azure_error, unit) result" where
  "reject_model_supplied_sas req =
     (if values_has (fst (parse_query (url_raw_query req))) ''sig'' then Inl AzureModelSuppliedCredential else Inr ())"

definition azure_inject_auth :: "azure_provider \<Rightarrow> http_request \<Rightarrow> (azure_error, http_request) result" where
  "azure_inject_auth p req =
     and_then (azp_gate p) (\<lambda>_.
     and_then (reject_model_supplied_sas req) (\<lambda>_.
       case azp_token p (azp_scope p) of
         Inl _ \<Rightarrow> Inl AzureTokenFailed
       | Inr token \<Rightarrow> Inr (req\<lparr>req_header := header_set (req_header req) ''Authorization'' (''Bearer '' @ token)\<rparr>)))"

subsection \<open>Patterns and case folding\<close>

lemma take2_append_ascii:
  assumes "byte_val c < 128"
  shows "take 2 (s @ c # b) = [CHR 0x84, CHR 0xAA] \<longleftrightarrow> take 2 s = [CHR 0x84, CHR 0xAA]"
proof -
  have "c \<noteq> CHR 0x84" "c \<noteq> CHR 0xAA" using assms by (auto simp: byte_val_def)
  then show ?thesis by (cases s; cases "tl s") auto
qed

lemma take1_append_ascii:
  assumes "byte_val c < 128" shows "take 1 (s @ c # b) = [CHR 0xBF] \<longleftrightarrow> take 1 s = [CHR 0xBF]"
proof -
  have "c \<noteq> CHR 0xBF" using assms by (auto simp: byte_val_def)
  then show ?thesis by (cases s) auto
qed

lemma fold_case_append_ascii: "byte_val c < 128 \<Longrightarrow> fold_case (a @ c # b) = fold_case a @ fold_case (c # b)"
proof (induction a rule: fold_case.induct)
  case (2 x s)
  have l: "take 2 s = [CHR 0x84, CHR 0xAA] \<Longrightarrow> drop 2 (s @ c # b) = drop 2 s @ c # b"
    "take 1 s = [CHR 0xBF] \<Longrightarrow> drop 1 (s @ c # b) = drop 1 s @ c # b"
    by (cases s; cases "tl s"; force)+
  show ?case
    using 2 l take2_append_ascii [of c s b] take1_append_ascii [of c s b]
    by (simp only: append_Cons fold_case.simps) auto
qed simp

lemma fold_suffix: "byte_val c < 128 \<Longrightarrow> fold_case (c # lit) = c # lit \<Longrightarrow> fold_case (a @ c # lit) = fold_case a @ c # lit"
  using fold_case_append_ascii [of c a lit] by simp

lemma glob_literal: "CHR ''*'' \<notin> set lit \<Longrightarrow> glob lit s \<longleftrightarrow> s = lit"
proof (induction lit arbitrary: s)
  case Nil
  then show ?case by (cases s) auto
next
  case (Cons c lit)
  then show ?case by (cases s) auto
qed

lemma glob_suffix: "CHR ''*'' \<notin> set lit \<Longrightarrow> glob (pre @ lit) s \<Longrightarrow> has_suffix s lit"
proof (induction pre s rule: glob.induct)
  case (1 s)
  then show ?case using has_suffix_append [of "[]" lit] by (simp add: glob_literal)
next
  case (2 p ps)
  then show ?case by simp
next
  case (3 p ps c s)
  then consider "glob (ps @ lit) (c # s)" "p = CHR ''*''" | "glob ((p # ps) @ lit) s" "p = CHR ''*''" "c \<noteq> CHR 0x0A"
    | "glob (ps @ lit) s" "p \<noteq> CHR ''*''" "c = p"
    by (auto split: if_splits)
  then show ?case
  proof cases
    case 1
    then show ?thesis using 3 by simp
  next
    case 2
    then have "has_suffix s lit" using "3.IH"(2) "3.prems"(1) by simp
    then show ?thesis by (auto simp: has_suffix_iff intro: exI [of _ "c # _"])
  next
    case 3
    then have "has_suffix s lit" using "3.IH"(3) "3.prems"(1) by simp
    then show ?thesis by (auto simp: has_suffix_iff intro: exI [of _ "c # _"])
  qed
qed

text \<open>A pattern that names only reads, as \<open>*/read\<close> of the built-in Reader role.\<close>

definition read_pattern :: "string \<Rightarrow> bool" where
  "read_pattern p \<longleftrightarrow> has_suffix (fold_case p) ''/read''"

lemma read_pattern_match:
  assumes "read_pattern p" "match_pattern p action" shows "has_suffix (fold_case action) ''/read''"
  using assms glob_suffix [of "''/read''"] by (auto simp: read_pattern_def match_pattern_def has_suffix_iff [of "fold_case p"])

lemma read_role_allows:
  assumes "role_allowed role (mk_action namespace resource_type verb)" "\<forall>p \<in> set (rp_actions role). read_pattern p"
  shows "has_suffix (fold_case (namespace @ ''/'' @ resource_type @ ''/'' @ verb)) ''/read''"
  using assms read_pattern_match by (auto simp: role_allowed_def match_any_def list_ex_iff mk_action_def)

lemma not_read_suffix:
  assumes "byte_val c < 128" "fold_case (c # lit) = c # lit" "length lit \<ge> 4" "\<not> has_suffix (c # lit) ''/read''"
  shows "\<not> has_suffix (fold_case (a @ c # lit)) ''/read''"
proof
  assume "has_suffix (fold_case (a @ c # lit)) ''/read''"
  then obtain r where "fold_case a @ c # lit = r @ ''/read''" using fold_suffix [OF assms(1,2)] by (auto simp: has_suffix_iff)
  then have "drop (length (fold_case a @ c # lit) - 5) (fold_case a @ c # lit) = ''/read''" by simp
  moreover have "drop (length (fold_case a @ c # lit) - 5) (fold_case a @ c # lit) = drop (length (c # lit) - 5) (c # lit)"
    using assms(3) by simp
  ultimately have "c # lit = take (length (c # lit) - 5) (c # lit) @ ''/read''" by (metis append_take_drop_id)
  with assms(4) show False by (metis has_suffix_append)
qed

subsection \<open>A reading role lets only reads through\<close>

lemma poll_loop_read: "poll_loop namespace n i rest = Some a \<Longrightarrow> \<exists>ty. a = mk_action namespace ty ''read''"
  by (induction namespace n i rest rule: poll_loop.induct) (auto split: if_splits)

definition post_read :: "string \<Rightarrow> string \<Rightarrow> string \<Rightarrow> bool" where
  "post_read namespace type_path token \<longleftrightarrow>
     map_of post_read_allow_list (to_lower (namespace @ ''/'' @ type_path @ ''/'' @ token)) = Some ''read''"

lemma post_read_verb: "map_of post_read_allow_list k = Some verb \<Longrightarrow> verb = ''read''"
  by (auto simp: post_read_allow_list_def split: if_splits)

inductive derives :: "string \<Rightarrow> azure_action \<Rightarrow> bool" where
  get: "derives ''GET'' (mk_action namespace ty ''read'')"
| put: "meth \<in> {''PUT'', ''PATCH''} \<Longrightarrow> derives meth (mk_action namespace ty ''write'')"
| delete: "derives ''DELETE'' (mk_action namespace ty ''delete'')"
| post_read: "post_read namespace ty token \<Longrightarrow> derives ''POST'' (mk_action namespace ty ''read'')"
| post: "derives ''POST'' (mk_action namespace ty (token @ ''/action''))"

lemma post_action_derives:
  assumes "post_action cat namespace ty token = Inr a" shows "derives ''POST'' a"
proof (cases "map_of post_read_allow_list (to_lower (namespace @ ''/'' @ ty @ ''/'' @ token))")
  case None
  with assms show ?thesis by (auto simp: post_action_def intro!: derives.intros split: if_splits sum.splits)
next
  case (Some verb)
  with post_read_verb have v: "verb = ''read''" by blast
  with Some have "post_read namespace ty token" by (simp add: post_read_def)
  moreover have "a = mk_action namespace ty ''read''"
    using assms Some v by (auto simp: post_action_def split: if_splits sum.splits)
  ultimately show ?thesis by (auto intro: derives.intros)
qed

lemma verb_action_derives: "verb_action cat meth namespace ty token = Inr a \<Longrightarrow> derives meth a"
  by (auto simp: verb_action_def intro: derives.intros post_action_derives split: if_splits)

lemma derive_action_derives:
  assumes "derive_action cat v = Inr a" shows "derives (to_upper (v_method v)) a"
proof -
  let ?m = "to_upper (v_method v)" and ?segs = "azure_split_path (v_path v)"
  show ?thesis
  proof (cases "resolve_namespace ?segs")
    case None
    with assms have "?m = ''GET''" "\<exists>r. a = mk_action ''Microsoft.Resources'' r ''read''"
      by (auto simp: derive_action_def provider_less_action_def Let_def split: if_splits option.splits)
    then show ?thesis by (auto intro: derives.intros)
  next
    case (Some nr)
    obtain namespace rest where nr: "nr = (namespace, rest)" by (cases nr)
    show ?thesis
    proof (cases "poll_action ?m namespace rest")
      case None
      with assms Some nr obtain ty token where "verb_action cat ?m namespace ty token = Inr a"
        by (auto simp: derive_action_def Let_def result_elim split: if_splits)
      then show ?thesis by (rule verb_action_derives)
    next
      case (Some b)
      with assms \<open>resolve_namespace ?segs = Some nr\<close> nr have "b = a" by (auto simp: derive_action_def Let_def split: if_splits)
      with Some have "?m = ''GET''" "\<exists>ty. a = mk_action namespace ty ''read''"
        by (auto simp: poll_action_def dest: poll_loop_read split: if_splits)
      then show ?thesis by (auto intro: derives.intros)
    qed
  qed
qed

lemma authorize_azure_Inr:
  "authorize_azure g v block = Inr () \<longleftrightarrow>
     (\<exists>args a. block = Inr (Some args) \<and> aza_service args \<noteq> [] \<and> derive_action (azg_catalog g) v = Inr a \<and>
        equal_fold (act_namespace a) (aza_service args) \<and> validate_action (azg_catalog g) a = Inr () \<and>
        role_allowed (azg_role g) a)"
proof -
  have p: "parse_azure_args block = Inr x \<longleftrightarrow> block = Inr (Some x) \<and> aza_service x \<noteq> []" for x
    by (cases block) (auto simp: parse_azure_args_def)
  show ?thesis unfolding authorize_azure_def by (auto simp: result_elim p split: if_splits)
qed

lemma writes_not_read:
  "\<not> has_suffix (fold_case (namespace @ ''/'' @ ty @ ''/write'')) ''/read''"
  "\<not> has_suffix (fold_case (namespace @ ''/'' @ ty @ ''/delete'')) ''/read''"
  "\<not> has_suffix (fold_case (namespace @ ''/'' @ ty @ ''/'' @ token @ ''/action'')) ''/read''"
  using not_read_suffix [of "CHR ''/''" "''write''" "namespace @ ''/'' @ ty"]
    not_read_suffix [of "CHR ''/''" "''delete''" "namespace @ ''/'' @ ty"]
    not_read_suffix [of "CHR ''/''" "''action''" "namespace @ ''/'' @ ty @ ''/'' @ token"]
  by (simp_all add: byte_val_def ascii_lower_def has_suffix_def)

text \<open>
  C9. Under a role that only reads, Azure requests only read. When every action pattern of the role
  names reads, a request the gate lets through is a GET, or a POST whose path is on the pinned list
  of query reads; its action belongs to the claimed service, is in the catalog, is not a data-plane
  action, and no pattern of the role excludes it.
\<close>

theorem azure_read_only:
  assumes "authorize_azure g v (Inr (Some args)) = Inr ()" "\<forall>p \<in> set (rp_actions (azg_role g)). read_pattern p"
  shows "\<exists>a. derive_action (azg_catalog g) v = Inr a \<and> act_verb a = ''read'' \<and>
    (to_upper (v_method v) = ''GET'' \<or>
     to_upper (v_method v) = ''POST'' \<and> (\<exists>token. post_read (act_namespace a) (act_resource_type a) token)) \<and>
    equal_fold (act_namespace a) (aza_service args) \<and> validate_action (azg_catalog g) a = Inr () \<and>
    \<not> match_any (rp_not_actions (azg_role g)) (act_full a)"
proof -
  from assms(1) obtain a where a: "derive_action (azg_catalog g) v = Inr a" "equal_fold (act_namespace a) (aza_service args)"
    "validate_action (azg_catalog g) a = Inr ()" "role_allowed (azg_role g) a" by (auto simp: authorize_azure_Inr)
  from derive_action_derives [OF a(1)] have "act_verb a = ''read'' \<and> (to_upper (v_method v) = ''GET'' \<or>
     to_upper (v_method v) = ''POST'' \<and> (\<exists>token. post_read (act_namespace a) (act_resource_type a) token))"
  proof cases
    case (put namespace ty)
    with a(4) have "has_suffix (fold_case (namespace @ ''/'' @ ty @ ''/write'')) ''/read''"
      using read_role_allows assms(2) by fastforce
    then show ?thesis using writes_not_read by blast
  next
    case (delete namespace ty)
    with a(4) have "has_suffix (fold_case (namespace @ ''/'' @ ty @ ''/delete'')) ''/read''"
      using read_role_allows assms(2) by fastforce
    then show ?thesis using writes_not_read by blast
  next
    case (post namespace ty token)
    with a(4) have "has_suffix (fold_case (namespace @ ''/'' @ ty @ ''/'' @ token @ ''/action'')) ''/read''"
      using read_role_allows assms(2) by fastforce
    then show ?thesis using writes_not_read by blast
  qed (auto simp: mk_action_def)
  with a show ?thesis by (auto simp: role_allowed_def)
qed

subsection \<open>Documented paths\<close>

text \<open>A resource's path: its provider's namespace, then each part of its type before its name.\<close>

fun interleave :: "string list \<Rightarrow> string list \<Rightarrow> string list" where
  "interleave (t # ts) (n # ns) = t # n # interleave ts ns"
| "interleave _ _ = []"

definition plain_segment :: "string \<Rightarrow> bool" where
  "plain_segment s \<longleftrightarrow> s \<notin> {[], ''.'', ''..''} \<and> CHR ''/'' \<notin> set s"

definition arm_path :: "string list \<Rightarrow> string" where
  "arm_path segs = ''/'' @ join ''/'' segs"

lemma trim_char_id:
  assumes "s \<noteq> []" "hd s \<noteq> c" "last s \<noteq> c" shows "trim_char c (c # s) = s"
proof -
  have "dropWhile (\<lambda>x. x = c) (rev s) = rev s" using assms(1,3) by (cases "rev s") (auto simp: hd_rev [symmetric])
  then show ?thesis using assms(1,2) by (cases s) (simp_all add: trim_char_def trim_right_char_def)
qed

lemma join_ends:
  assumes "segs \<noteq> []" "\<forall>s \<in> set segs. s \<noteq> []"
  shows "join sep segs \<noteq> [] \<and> hd (join sep segs) = hd (hd segs) \<and> last (join sep segs) = last (last segs)"
  using assms
proof (induction segs)
  case (Cons x xs)
  then show ?case by (cases xs) (auto simp: last_append)
qed simp

lemma azure_split_arm_path:
  assumes "segs \<noteq> []" "\<forall>s \<in> set segs. plain_segment s" shows "azure_split_path (arm_path segs) = segs"
proof -
  have ne: "\<forall>s \<in> set segs. s \<noteq> []" and ns: "\<forall>s \<in> set segs. CHR ''/'' \<notin> set s" using assms(2) by (auto simp: plain_segment_def)
  note e = join_ends [OF assms(1) ne, of "''/''"]
  have "hd (hd segs) \<noteq> CHR ''/''" "last (last segs) \<noteq> CHR ''/''"
    using ne ns assms(1) by (metis hd_in_set, metis last_in_set)
  with e have "trim_char CHR ''/'' (arm_path segs) = join ''/'' segs" unfolding arm_path_def by (simp add: trim_char_id)
  then show ?thesis using e split_on_join [OF assms(1) ns] by (simp add: azure_split_path_def Let_def)
qed

lemma last_providers_append: "last_providers (xs @ ys) i acc = last_providers ys (i + length xs) (last_providers xs i acc)"
  by (induction xs arbitrary: i acc) auto

lemma last_providers_none: "\<forall>s \<in> set xs. \<not> equal_fold s ''providers'' \<Longrightarrow> last_providers xs i acc = acc"
  by (induction xs arbitrary: i acc) auto

lemma resolve_namespace_path:
  assumes "\<forall>s \<in> set (namespace # rest). \<not> equal_fold s ''providers''" "rest \<noteq> []"
  shows "resolve_namespace (scope @ ''providers'' # namespace # rest) = Some (namespace, rest)"
proof -
  have "last_providers (scope @ ''providers'' # namespace # rest) 0 None = Some (length scope)"
    using last_providers_none [OF assms(1)] by (simp add: last_providers_append)
  moreover have "length rest > 0" using assms(2) by simp
  ultimately show ?thesis by (simp add: resolve_namespace_def nth_append)
qed

lemma length_interleave: "length ts = length ns \<Longrightarrow> length (interleave ts ns) = 2 * length ts"
  by (induction ts ns rule: interleave.induct) auto

lemma interleave_Nil [simp]: "length ts = length ns \<Longrightarrow> interleave ts ns = [] \<longleftrightarrow> ts = []"
  by (cases ts; cases ns) auto

text \<open>Of the type positions, only the last can be a poll: it alone has one segment behind it.\<close>

lemma poll_loop_interleave:
  "length ts = length ns \<Longrightarrow> ts \<noteq> [] \<Longrightarrow> n = i + 2 * length ts \<Longrightarrow>
     poll_loop namespace n i (interleave ts ns) =
       (if to_lower (last ts) \<in> set poll_segments then Some (mk_action namespace (to_lower (last ts)) ''read'') else None)"
proof (induction ts ns arbitrary: i rule: interleave.induct)
  case (1 t ts m ns)
  show ?case
  proof (cases "ts = []")
    case True
    with 1 show ?thesis by (simp add: is_poll_shape_def)
  next
    case False
    then have "\<not> is_poll_shape i n" using 1(4) by (cases ts) (auto simp: is_poll_shape_def)
    with 1 False show ?thesis by simp
  qed
qed auto

lemma walk_interleave:
  assumes "length ts = length ns" "ts \<noteq> []"
  shows "let w' = walk_loop known (interleave ts ns @ rest) w; parts = wk_parts w @ ts in
    \<exists>w1. w' = walk_loop known rest w1 \<and> wk_parts w1 = parts \<and> wk_token w1 = last ts \<and>
      (to_lower (join ''/'' parts) \<in> set known \<longrightarrow> wk_matched w1 = join ''/'' parts \<and> wk_trailing w1 = 0)"
  using assms
proof (induction ts ns arbitrary: w rule: interleave.induct)
  case (1 t ts m ns)
  define w0 where "w0 = \<lparr>wk_parts = wk_parts w @ [t],
    wk_matched = (if to_lower (join ''/'' (wk_parts w @ [t])) \<in> set known then join ''/'' (wk_parts w @ [t]) else wk_matched w),
    wk_trailing = (if to_lower (join ''/'' (wk_parts w @ [t])) \<in> set known then 0 else Suc (wk_trailing w)), wk_token = t\<rparr>"
  have s: "walk_loop known (interleave (t # ts) (m # ns) @ rest) w = walk_loop known (interleave ts ns @ rest) w0"
    by (simp add: w0_def Let_def)
  show ?case
  proof (cases "ts = []")
    case True
    then show ?thesis unfolding s Let_def by (intro exI [of _ w0]) (simp add: w0_def)
  next
    case False
    with 1 have "length ts = length ns" by simp
    from 1(1) [OF this False, of w0] False show ?thesis unfolding s Let_def by (simp add: w0_def)
  qed
qed auto

definition start_walk :: walk where
  "start_walk = \<lparr>wk_parts = [], wk_matched = [], wk_trailing = 0, wk_token = []\<rparr>"

lemma resolve_documented_type:
  assumes "length ts = length ns" "ts \<noteq> []" "\<forall>t \<in> set ts. t \<noteq> []"
    and "resource_types cat namespace = Inr types" "to_lower (join ''/'' ts) \<in> set (map to_lower types)"
  shows "resolve_resource_type cat meth namespace (interleave ts ns) = Inr (join ''/'' ts, last ts)"
proof -
  let ?w = "walk_loop (map to_lower types) (interleave ts ns) start_walk"
  have "wk_matched ?w = join ''/'' ts \<and> wk_trailing ?w = 0 \<and> wk_token ?w = last ts"
    using walk_interleave [OF assms(1,2), of "map to_lower types" "[]" start_walk] assms(5)
    by (auto simp: Let_def start_walk_def)
  moreover have "join ''/'' ts \<noteq> []" using join_ends [OF assms(2,3)] by blast
  ultimately show ?thesis
    unfolding resolve_resource_type_def assms(4) start_walk_def [symmetric] by (simp add: Let_def)
qed

text \<open>A request on a resource: its path renders scope, namespace, type and names.\<close>

definition resource_request :: "view \<Rightarrow> string list \<Rightarrow> string \<Rightarrow> string list \<Rightarrow> string list \<Rightarrow> bool" where
  "resource_request v scope namespace ts ns \<longleftrightarrow>
     v_path v = arm_path (scope @ ''providers'' # namespace # interleave ts ns) \<and> \<not> str_contains (to_lower (v_escaped_path v)) ''%2f'' \<and>
     length ts = length ns \<and> ts \<noteq> [] \<and> (\<forall>s \<in> set (scope @ namespace # interleave ts ns). plain_segment s) \<and>
     (\<forall>s \<in> set (namespace # interleave ts ns). \<not> equal_fold s ''providers'')"

lemma interleave_types: "length ts = length ns \<Longrightarrow> t \<in> set ts \<Longrightarrow> t \<in> set (interleave ts ns)"
  by (induction ts ns rule: interleave.induct) auto

lemma plain_providers: "plain_segment ''providers''"
  by (simp add: plain_segment_def)

lemma resource_request_classified:
  assumes "resource_request v scope namespace ts ns"
  shows "derive_action cat v =
    (if to_upper (v_method v) = ''GET'' \<and> to_lower (last ts) \<in> set poll_segments then
       Inr (mk_action namespace (to_lower (last ts)) ''read'')
     else and_then (resolve_resource_type cat (to_upper (v_method v)) namespace (interleave ts ns))
       (\<lambda>(type_path, token). verb_action cat (to_upper (v_method v)) namespace type_path token))"
proof -
  let ?segs = "scope @ ''providers'' # namespace # interleave ts ns"
  note r = assms [unfolded resource_request_def]
  have p: "\<forall>s \<in> set ?segs. plain_segment s" using r plain_providers by auto
  have segs: "azure_split_path (v_path v) = ?segs" using azure_split_arm_path [OF _ p] r by simp
  have "\<not> list_ex (\<lambda>s. s = [] \<or> s = ''.'' \<or> s = ''..'') ?segs"
    unfolding list_ex_iff using p by (auto simp: plain_segment_def)
  then have c: "\<not> non_canonical_path (v_escaped_path v) ?segs" using r unfolding non_canonical_path_def by simp
  have "interleave ts ns \<noteq> []" using r by simp
  then have n: "resolve_namespace ?segs = Some (namespace, interleave ts ns)" using r resolve_namespace_path by blast
  have "poll_action (to_upper (v_method v)) namespace (interleave ts ns) =
      (if to_upper (v_method v) = ''GET'' \<and> to_lower (last ts) \<in> set poll_segments then
         Some (mk_action namespace (to_lower (last ts)) ''read'') else None)"
    unfolding poll_action_def
    using r poll_loop_interleave [of ts ns "length (interleave ts ns)" 0 namespace] length_interleave [of ts ns] by simp
  then show ?thesis unfolding derive_action_def Let_def segs n using c by simp
qed

definition resource_verb :: "string \<Rightarrow> string option" where
  "resource_verb meth =
     map_of [(''GET'', ''read''), (''PUT'', ''write''), (''PATCH'', ''write''), (''DELETE'', ''delete'')] meth"

text \<open>
  C20. A documented resource path derives its own action. For a resource of a registered type,
  however deep the type nests and wherever in the hierarchy the resource lives, reading, writing and
  deleting it by its path derive the read, write and delete action of that very type; only a read of a
  type whose last part is one of the three poll words is left out.
\<close>

theorem azure_path_derives_type:
  assumes "resource_request v scope namespace ts ns" "resource_verb (to_upper (v_method v)) = Some verb"
    and "resource_types cat namespace = Inr types" "to_lower (join ''/'' ts) \<in> set (map to_lower types)"
    and "to_lower (last ts) \<notin> set poll_segments \<or> to_upper (v_method v) \<noteq> ''GET''"
  shows "derive_action cat v = Inr (mk_action namespace (join ''/'' ts) verb)"
proof -
  have l: "length ts = length ns" "ts \<noteq> []" "\<forall>t \<in> set ts. t \<noteq> []"
    using assms(1) interleave_types unfolding resource_request_def plain_segment_def by auto
  have "verb_action cat (to_upper (v_method v)) namespace (join ''/'' ts) (last ts) = Inr (mk_action namespace (join ''/'' ts) verb)"
    using assms(2) by (auto simp: verb_action_def resource_verb_def split: if_splits)
  then show ?thesis
    using resource_request_classified [OF assms(1), of cat] resolve_documented_type [OF l assms(3,4)] assms(5) by auto
qed

text \<open>
  C11. A resource type named like a poll is not judged as itself. Reading a resource whose type ends
  in one of the poll words, registered or not, gets the verdict of the provider's own
  \<open>operations/read\<close> (or status or result read) and no other: the resource's type, its read action and
  whatever the role says of that action do not enter.
\<close>

theorem azure_poll_word_shadows_type:
  assumes "resource_request v scope namespace ts ns" "to_upper (v_method v) = ''GET''" "to_lower (last ts) \<in> set poll_segments"
  shows "authorize_azure g v (Inr (Some args)) = Inr () \<longleftrightarrow>
    aza_service args \<noteq> [] \<and> equal_fold namespace (aza_service args) \<and>
    validate_action (azg_catalog g) (mk_action namespace (to_lower (last ts)) ''read'') = Inr () \<and>
    role_allowed (azg_role g) (mk_action namespace (to_lower (last ts)) ''read'')"
  unfolding authorize_azure_Inr resource_request_classified [OF assms(1)] using assms(2,3) by (auto simp: mk_action_def)

subsection \<open>Instance actions\<close>

lemma to_lower_append_ascii: "byte_val c < 128 \<Longrightarrow> to_lower (a @ c # b) = to_lower a @ to_lower (c # b)"
proof (induction a rule: to_lower.induct)
  case (2 x s)
  have b0: "c \<noteq> CHR 0xB0" using 2(4) by (auto simp: byte_val_def)
  have t1: "take 1 (s @ c # b) = [CHR 0xB0] \<longleftrightarrow> take 1 s = [CHR 0xB0]" using b0 by (cases s) auto
  have l: "take 2 s = [CHR 0x84, CHR 0xAA] \<Longrightarrow> drop 2 (s @ c # b) = drop 2 s @ c # b"
    "take 1 s = [CHR 0xB0] \<Longrightarrow> drop 1 (s @ c # b) = drop 1 s @ c # b"
    by (cases s; cases "tl s"; force)+
  show ?case
    using 2 l t1 take2_append_ascii [of c s b] by (simp only: append_Cons to_lower.simps) auto
qed simp

lemma to_lower_slash: "to_lower (a @ ''/'' @ b) = to_lower a @ ''/'' @ to_lower b"
  using to_lower_append_ascii [of "CHR ''/''" a b] by (simp add: byte_val_def ascii_lower_def)

lemma lower_no_slash: "CHR ''/'' \<notin> set q \<Longrightarrow> CHR ''/'' \<notin> set (to_lower q)"
proof (induction q rule: to_lower.induct)
  case (2 c s)
  have d: "CHR ''/'' \<notin> set (drop n s)" for n using 2(4) by (auto dest: in_set_dropD)
  have "ascii_lower c \<noteq> CHR ''/''"
  proof
    assume "ascii_lower c = CHR ''/''"
    then have "byte_val (ascii_lower c) = 47" by (simp add: byte_val_def)
    then have "byte_val c = 47" by (auto simp: ascii_lower_def split: if_splits)
    then have "c = char_of (47 :: nat)" unfolding byte_val_def by (metis char_of_char)
    also have "char_of (47 :: nat) = CHR ''/''" by code_simp
    finally have "c = CHR ''/''" .
    with 2(4) show False by simp
  qed
  then show ?case using 2 d by auto
qed simp

lemma last_slash_unique:
  assumes "p @ ''/'' @ q = p' @ ''/'' @ q'" "CHR ''/'' \<notin> set q" "CHR ''/'' \<notin> set q'" shows "p = p' \<and> q = q'"
  using assms by (auto simp: append_eq_append_conv2 append_eq_Cons_conv Cons_eq_append_conv)

text \<open>A type that is an instance action of a registered type does not survive the pruning.\<close>

lemma pruned_landmine:
  assumes "to_lower parent \<in> set (map to_lower types)" "parent \<noteq> []" "CHR ''/'' \<notin> set tok"
    and "to_lower (name @ ''/'' @ parent @ ''/'' @ tok @ ''/action'') \<in> set (map (\<lambda>o1. to_lower (po_name o1)) ops)"
  shows "to_lower (parent @ ''/'' @ tok) \<notin> set (map to_lower (prune_action_verb_types name types ops))"
proof
  assume "to_lower (parent @ ''/'' @ tok) \<in> set (map to_lower (prune_action_verb_types name types ops))"
  then obtain t where t: "\<not> action_landmine name types ops t" "to_lower t = to_lower (parent @ ''/'' @ tok)"
    by (auto simp: prune_action_verb_types_def)
  have "CHR ''/'' \<in> set (to_lower t)" unfolding t(2) to_lower_slash by simp
  then have "CHR ''/'' \<in> set t" using lower_no_slash by blast
  then obtain i where i: "last_index_char t CHR ''/'' = Some i" using last_index_char_None by blast
  define p q where "p = take i t" and "q = drop (Suc i) t"
  have tpq: "t = p @ ''/'' @ q" "CHR ''/'' \<notin> set q" using last_index_char_Some [OF i] by (auto simp: p_def q_def)
  have "to_lower p @ ''/'' @ to_lower q = to_lower parent @ ''/'' @ to_lower tok" using t(2) tpq(1) by (simp only: to_lower_slash)
  then have "to_lower p = to_lower parent" using last_slash_unique lower_no_slash tpq(2) assms(3) by blast
  moreover have "i > 0"
  proof (rule ccontr)
    assume "\<not> i > 0"
    then have "to_lower parent = []" using calculation by (simp add: p_def)
    with assms(2) show False by (cases parent) (auto split: if_splits)
  qed
  moreover have "to_lower (name @ ''/'' @ t @ ''/action'') = to_lower (name @ ''/'' @ parent @ ''/'' @ tok @ ''/action'')"
    using t(2) to_lower_slash [of name "t @ ''/action''"] to_lower_slash [of t "''action''"]
      to_lower_slash [of name "(parent @ ''/'' @ tok) @ ''/action''"] to_lower_slash [of "parent @ ''/'' @ tok" "''action''"]
    by simp
  ultimately show False using t(1) i assms(1,4) by (simp add: action_landmine_def p_def Let_def)
qed

definition action_request :: "view \<Rightarrow> string list \<Rightarrow> string \<Rightarrow> string list \<Rightarrow> string list \<Rightarrow> string \<Rightarrow> bool" where
  "action_request v scope namespace ts ns tok \<longleftrightarrow>
     v_path v = arm_path (scope @ ''providers'' # namespace # interleave ts ns @ [tok]) \<and>
     \<not> str_contains (to_lower (v_escaped_path v)) ''%2f'' \<and> length ts = length ns \<and> ts \<noteq> [] \<and>
     (\<forall>s \<in> set (scope @ namespace # interleave ts ns @ [tok]). plain_segment s) \<and>
     (\<forall>s \<in> set (namespace # interleave ts ns @ [tok]). \<not> equal_fold s ''providers'')"

lemma action_request_classified:
  assumes "action_request v scope namespace ts ns tok" "to_upper (v_method v) = ''POST''"
  shows "derive_action cat v = and_then (resolve_resource_type cat ''POST'' namespace (interleave ts ns @ [tok]))
    (\<lambda>(type_path, token). post_action cat namespace type_path token)"
proof -
  let ?segs = "scope @ ''providers'' # namespace # interleave ts ns @ [tok]"
  note r = assms(1) [unfolded action_request_def]
  have p: "\<forall>s \<in> set ?segs. plain_segment s" using r plain_providers by auto
  have segs: "azure_split_path (v_path v) = ?segs" using azure_split_arm_path [OF _ p] r by simp
  have "\<not> list_ex (\<lambda>s. s = [] \<or> s = ''.'' \<or> s = ''..'') ?segs"
    unfolding list_ex_iff using p by (auto simp: plain_segment_def)
  then have c: "\<not> non_canonical_path (v_escaped_path v) ?segs" using r unfolding non_canonical_path_def by simp
  have n: "resolve_namespace ?segs = Some (namespace, interleave ts ns @ [tok])" using r resolve_namespace_path by blast
  have "verb_action cat ''POST'' = post_action cat" by (intro ext) (simp add: verb_action_def)
  then show ?thesis unfolding derive_action_def Let_def segs n using c assms(2) by (simp add: poll_action_def)
qed

lemma trim_action_suffix:
  assumes "ts \<noteq> []" "\<forall>t \<in> set ts. CHR ''/'' \<notin> set t" "CHR ''/'' \<notin> set tok" "last ts \<noteq> tok"
  shows "trim_suffix (join ''/'' ts) (''/'' @ tok) = join ''/'' ts"
proof -
  have "\<not> has_suffix (join ''/'' ts) (''/'' @ tok)"
  proof
    assume "has_suffix (join ''/'' ts) (''/'' @ tok)"
    then obtain r where r: "join ''/'' ts = join ''/'' (split_on CHR ''/'' r @ [tok])"
      using join_split_on by (auto simp: has_suffix_iff join_snoc)
    have "ts = split_on CHR ''/'' r @ [tok]"
      using arg_cong [OF r, of "split_on CHR ''/''"] assms(1-3) split_on_no_sep [of _ "CHR ''/''" r] by (simp add: split_on_join)
    with assms(4) show False by simp
  qed
  then show ?thesis by (simp add: trim_suffix_def cut_suffix_None [symmetric])
qed

text \<open>
  C21. An instance action stays an action. When the provider's operations register an action of a
  registered resource type, a POST of it on a resource derives exactly that action, the type and
  \<open>token/action\<close>, or is refused as ambiguous; it derives a read only for the paths on the pinned list.
  The catalog's habit of listing the action as a nested type does not hide it.
\<close>

theorem azure_action_stays_action:
  assumes "action_request v scope namespace ts ns tok" "to_upper (v_method v) = ''POST''" "last ts \<noteq> tok"
    and "find_provider_ops cat namespace = Inr (flatten_provider_ops md)"
    and "to_lower (join ''/'' ts) \<in> set (map to_lower (prv_resource_types (flatten_provider_ops md)))"
    and "to_lower (pmd_name md @ ''/'' @ join ''/'' ts @ ''/'' @ tok @ ''/action'') \<in>
      set (map (\<lambda>o1. to_lower (po_name o1)) (prv_operations (flatten_provider_ops md)))"
  shows "derive_action cat v \<in> {Inl AzureActionAmbiguous,
    Inr (mk_action namespace (join ''/'' ts) (if post_read namespace (join ''/'' ts) tok then ''read'' else tok @ ''/action''))}"
proof -
  let ?types = "prv_resource_types (flatten_provider_ops md)" and ?ty = "join ''/'' ts"
  note r = assms(1) [unfolded action_request_def]
  have l: "length ts = length ns" "ts \<noteq> []" and pt: "\<forall>t \<in> set ts. plain_segment t" "plain_segment tok"
    using r interleave_types by auto
  have ne: "?ty \<noteq> []" using join_ends [OF l(2)] pt(1) by (simp add: plain_segment_def)
  let ?raw = "map rtd_name (slice_elems (pmd_resource_types md))" and ?ops = "prv_operations (flatten_provider_ops md)"
  have f: "?types = prune_action_verb_types (pmd_name md) ?raw ?ops" by (simp add: flatten_provider_ops_def Let_def)
  have "to_lower ?ty \<in> set (map to_lower ?raw)" using assms(5) unfolding f prune_action_verb_types_def by auto
  from pruned_landmine [OF this ne _ assms(6)] pt(2)
  have known: "to_lower (join ''/'' (ts @ [tok])) \<notin> set (map to_lower ?types)"
    unfolding f [symmetric] join_snoc [OF l(2)] by (simp add: plain_segment_def)
  obtain w1 where w: "walk_loop (map to_lower ?types) (interleave ts ns @ [tok]) start_walk = walk_loop (map to_lower ?types) [tok] w1"
    "wk_parts w1 = ts" "wk_matched w1 = ?ty" "wk_trailing w1 = 0"
    using walk_interleave [OF l, of "map to_lower ?types" "[tok]" start_walk] assms(5) by (auto simp: Let_def start_walk_def)
  have t: "resource_types cat namespace = Inr ?types" using assms(4) by (simp add: resource_types_def)
  have "resolve_resource_type cat ''POST'' namespace (interleave ts ns @ [tok]) = Inr (?ty, tok)"
    unfolding resolve_resource_type_def t start_walk_def [symmetric] using w known ne by (simp add: Let_def)
  then have d: "derive_action cat v = post_action cat namespace ?ty tok"
    using action_request_classified [OF assms(1,2)] by simp
  have "trim_suffix ?ty (''/'' @ tok) = ?ty" using trim_action_suffix [OF l(2)] pt assms(3) by (auto simp: plain_segment_def)
  moreover obtain verbs where "lookup_operation cat namespace ?ty tok = Inr verbs"
    using assms(4) by (simp add: lookup_operation_def)
  ultimately show ?thesis unfolding d post_action_def post_read_def
    by (auto split: option.splits dest: post_read_verb)
qed

subsection \<open>The host and the credential\<close>

lemma azure_inject_Inr:
  "azure_inject_auth p req = Inr req' \<longleftrightarrow> (\<exists>g token. azp_gate p = Inr g \<and> reject_model_supplied_sas req = Inr () \<and>
     azp_token p (azp_scope p) = Inr token \<and>
     req' = req\<lparr>req_header := header_set (req_header req) ''Authorization'' (''Bearer '' @ token)\<rparr>)"
  by (auto simp: azure_inject_auth_def result_elim split: sum.splits)

interpretation azure_inj: bearer_injector "azure_inject_auth p" "case azp_token p (azp_scope p) of Inr t \<Rightarrow> t | Inl _ \<Rightarrow> []" for p
  by (rule set_bearer_injector) (auto simp: azure_inject_Inr)

text \<open>
  C26. The Azure credential goes to a control plane only. A host the connector admits is, once
  normalized, one of the three known resource managers, pinned by the catalog to a cloud, the
  claimed one if one is claimed; and a request given the credential carries no signature of its own
  in its query.
\<close>

theorem azure_host_confined:
  assumes "azure_authorizes_host p host (Inr (Some args)) = Inr True" "azure_inject_auth p req = Inr req'"
  shows "\<exists>h cloud. normalize_host (azp_to_ascii p) host = Some h \<and> h \<in> set arm_control_plane_hosts \<and>
    (\<exists>data rm. azp_catalog p = Some data \<and> (cloud, rm) \<in> set (azc_clouds data) \<and> equal_fold rm h) \<and>
    (aza_cloud args \<noteq> [] \<longrightarrow> equal_fold (canonicalize_cloud_name cloud) (canonicalize_cloud_name (aza_cloud args))) \<and>
    ''sig'' \<notin> fst ` set (fst (parse_query (url_raw_query req)))"
proof -
  from assms(1) obtain parsed resolved where h: "azure_parse_host (azp_to_ascii p) host = Inr parsed"
    "resolve_cloud (azp_catalog p) parsed = Inr resolved" "azure_verify resolved (aza_cloud args) = Inr ()"
    by (auto simp: azure_authorizes_host_def result_elim parse_azure_args_def split: if_splits)
  from h(1) obtain n where n: "normalize_host (azp_to_ascii p) host = Some n" "n \<in> set arm_control_plane_hosts" "azh_host parsed = n"
    by (auto simp: azure_parse_host_def classify_host_def split: if_splits option.splits)
  from h(2) obtain data e where e: "azp_catalog p = Some data" "List.find (\<lambda>e. equal_fold (snd e) (azh_host parsed)) (azc_clouds data) = Some e"
    "resolved = with_cloud parsed (fst e)" by (auto simp: resolve_cloud_def split: option.splits)
  then have "(fst e, snd e) \<in> set (azc_clouds data)" "equal_fold (snd e) n" using n(3) by (auto simp: find_Some_iff)
  moreover have "aza_cloud args \<noteq> [] \<longrightarrow> equal_fold (canonicalize_cloud_name (fst e)) (canonicalize_cloud_name (aza_cloud args))"
  proof
    assume "aza_cloud args \<noteq> []"
    then have "canonicalize_cloud_name (aza_cloud args) \<noteq> []"
      by (auto simp: canonicalize_cloud_name_def cloud_table_def cloud_public_def cloud_us_gov_def cloud_china_def)
    with h(3) e(3) show "equal_fold (canonicalize_cloud_name (fst e)) (canonicalize_cloud_name (aza_cloud args))"
      by (auto simp: azure_verify_def with_cloud_def Let_def split: if_splits)
  qed
  moreover have "''sig'' \<notin> fst ` set (fst (parse_query (url_raw_query req)))"
    using assms(2) by (auto simp: azure_inject_Inr reject_model_supplied_sas_def values_has_iff split: if_splits)
  ultimately show ?thesis using n(1,2) e(1) by blast
qed

subsection \<open>Witnesses\<close>

text \<open>Two providers with a few operations; the second registers a type named like a poll.\<close>

definition vm_metadata :: provider_metadata where
  "vm_metadata =
     \<lparr>pmd_name = ''A.C'',
      pmd_resource_types =
        ([\<lparr>rtd_name = ''vms'', rtd_operations = ([\<lparr>po_name = ''A.C/vms/read'', po_is_data_action = False\<rparr>,
            \<lparr>po_name = ''A.C/vms/stop/action'', po_is_data_action = False\<rparr>], 2)\<rparr>,
          \<lparr>rtd_name = ''vms/stop'', rtd_operations = ([], 0)\<rparr>], 2),
      pmd_operations = ([], 0)\<rparr>"

definition api_metadata :: provider_metadata where
  "api_metadata =
     \<lparr>pmd_name = ''A.M'',
      pmd_resource_types =
        ([\<lparr>rtd_name = ''apis'', rtd_operations = ([], 0)\<rparr>,
          \<lparr>rtd_name = ''apis/operations'', rtd_operations = ([\<lparr>po_name = ''A.M/apis/operations/read'', po_is_data_action = False\<rparr>], 1)\<rparr>], 2),
      pmd_operations = ([\<lparr>po_name = ''A.M/operations/read'', po_is_data_action = False\<rparr>], 1)\<rparr>"

definition example_azure_catalog :: azure_catalog where
  "example_azure_catalog =
     \<lparr>azc_clouds = [(''AzureCloud'', ''management.azure.com'')], azc_providers = collect_provider_ops [vm_metadata, api_metadata]\<rparr>"

definition example_azure_gate :: "string \<Rightarrow> azure_gate" where
  "example_azure_gate pattern =
     \<lparr>azg_catalog = Some example_azure_catalog, azg_role = \<lparr>rp_actions = [pattern], rp_not_actions = []\<rparr>\<rparr>"

definition azure_view :: "string \<Rightarrow> string list \<Rightarrow> view" where
  "azure_view m segs = example_view\<lparr>v_method := m, v_path := arm_path segs, v_escaped_path := arm_path segs\<rparr>"

definition azure_claim :: "string \<Rightarrow> azure_args" where
  "azure_claim service = \<lparr>aza_service = service, aza_cloud = ''azurecloud''\<rparr>"

lemma vm_read_request: "resource_request (azure_view ''GET'' [''s'', ''providers'', ''A.C'', ''vms'', ''v'']) [''s''] ''A.C'' [''vms''] [''v'']"
  unfolding resource_request_def azure_view_def by (intro conjI; code_simp)

lemma api_operation_request:
  "resource_request (azure_view ''GET'' [''providers'', ''A.M'', ''apis'', ''a'', ''operations'', ''o'']) [] ''A.M''
     [''apis'', ''operations''] [''a'', ''o'']"
  unfolding resource_request_def azure_view_def by (intro conjI; code_simp)

lemma vm_stop_request:
  "action_request (azure_view ''POST'' [''s'', ''providers'', ''A.C'', ''vms'', ''v'', ''stop'']) [''s''] ''A.C'' [''vms''] [''v''] ''stop''"
  unfolding action_request_def azure_view_def by (intro conjI; code_simp)

lemma azure_get_upper: "to_upper (v_method (azure_view ''GET'' segs)) = ''GET''" "to_upper (v_method (azure_view ''POST'' segs)) = ''POST''"
  by (simp_all add: azure_view_def ascii_upper_def byte_val_def)

lemma vm_provider: "find_provider_ops (Some example_azure_catalog) ''A.C'' = Inr (flatten_provider_ops vm_metadata)"
proof -
  have "equal_fold ''A.C'' ''A.C''" by simp
  then show ?thesis
    by (simp add: find_provider_ops_def example_azure_catalog_def collect_provider_ops_def vm_metadata_def api_metadata_def)
qed

lemma vm_types: "resource_types (Some example_azure_catalog) ''A.C'' = Inr [''vms'']"
proof -
  have "prv_resource_types (flatten_provider_ops vm_metadata) = [''vms'']" by code_simp
  then show ?thesis by (simp add: resource_types_def vm_provider)
qed

theorem azure_path_derives_type_witness:
  "derive_action (Some example_azure_catalog) (azure_view ''GET'' [''s'', ''providers'', ''A.C'', ''vms'', ''v'']) =
     Inr (mk_action ''A.C'' ''vms'' ''read'')"
  using azure_path_derives_type [OF vm_read_request _ vm_types, of "''read''"] azure_get_upper(1)
  by (simp add: resource_verb_def poll_segments_def)

theorem azure_read_only_witness:
  "\<exists>a. derive_action (Some example_azure_catalog) (azure_view ''GET'' [''s'', ''providers'', ''A.C'', ''vms'', ''v'']) = Inr a \<and>
     act_verb a = ''read''"
proof -
  have "(case authorize_azure (example_azure_gate ''*/read'') (azure_view ''GET'' [''s'', ''providers'', ''A.C'', ''vms'', ''v''])
      (Inr (Some (azure_claim ''a.c''))) of Inr _ \<Rightarrow> True | _ \<Rightarrow> False)" by code_simp
  then have a: "authorize_azure (example_azure_gate ''*/read'') (azure_view ''GET'' [''s'', ''providers'', ''A.C'', ''vms'', ''v''])
      (Inr (Some (azure_claim ''a.c''))) = Inr ()" by (auto split: sum.splits)
  have "read_pattern ''*/read''" by code_simp
  then have r: "\<forall>p \<in> set (rp_actions (azg_role (example_azure_gate ''*/read''))). read_pattern p" by (simp add: example_azure_gate_def)
  from azure_read_only [OF a r] show ?thesis by (auto simp: example_azure_gate_def)
qed

text \<open>A role that may list the provider's operations, and nothing of its APIs, reads an API's operation.\<close>

theorem azure_poll_word_shadows_type_witness:
  "authorize_azure (example_azure_gate ''A.M/operations/read'')
     (azure_view ''GET'' [''providers'', ''A.M'', ''apis'', ''a'', ''operations'', ''o'']) (Inr (Some (azure_claim ''A.M''))) = Inr () \<and>
   authorize_azure (example_azure_gate ''A.M/apis/*'')
     (azure_view ''GET'' [''providers'', ''A.M'', ''apis'', ''a'', ''operations'', ''o'']) (Inr (Some (azure_claim ''A.M''))) \<noteq> Inr ()"
proof -
  have w: "to_lower (last [''apis'', ''operations'']) \<in> set poll_segments" by code_simp
  note t = azure_poll_word_shadows_type [OF api_operation_request azure_get_upper(1) w]
  have "(case validate_action (Some example_azure_catalog) (mk_action ''A.M'' ''operations'' ''read'') of Inr _ \<Rightarrow> True | _ \<Rightarrow> False)"
    "role_allowed \<lparr>rp_actions = [''A.M/operations/read''], rp_not_actions = []\<rparr> (mk_action ''A.M'' ''operations'' ''read'')"
    "\<not> role_allowed \<lparr>rp_actions = [''A.M/apis/*''], rp_not_actions = []\<rparr> (mk_action ''A.M'' ''operations'' ''read'')"
    "to_lower ''operations'' = ''operations''"
    by code_simp+
  then show ?thesis unfolding t by (auto simp: example_azure_gate_def azure_claim_def split: sum.splits simp del: to_lower.simps)
qed

theorem azure_action_stays_action_witness:
  "derive_action (Some example_azure_catalog) (azure_view ''POST'' [''s'', ''providers'', ''A.C'', ''vms'', ''v'', ''stop'']) \<in>
     {Inl AzureActionAmbiguous, Inr (mk_action ''A.C'' ''vms'' ''stop/action'')}"
proof -
  have "to_lower (join ''/'' [''vms'']) \<in> set (map to_lower (prv_resource_types (flatten_provider_ops vm_metadata)))"
    "to_lower (pmd_name vm_metadata @ ''/'' @ join ''/'' [''vms''] @ ''/'' @ ''stop'' @ ''/action'') \<in>
      set (map (\<lambda>o1. to_lower (po_name o1)) (prv_operations (flatten_provider_ops vm_metadata)))"
    "\<not> post_read ''A.C'' (join ''/'' [''vms'']) ''stop''"
    by code_simp+
  with azure_action_stays_action [OF vm_stop_request azure_get_upper(2) _ vm_provider] show ?thesis by simp
qed

definition example_azure_provider :: azure_provider where
  "example_azure_provider =
     \<lparr>azp_to_ascii = Some, azp_catalog = Some example_azure_catalog, azp_scope = [], azp_gate = Inr (example_azure_gate ''*/read''),
      azp_token = (\<lambda>_. Inr ''t'')\<rparr>"

definition azure_example_request :: http_request where
  "azure_example_request =
     \<lparr>req_method = ''GET'', url_scheme = ''https'', url_hostname = ''management.azure.com'', url_port = [], url_path = ''/tenants'',
      url_escaped_path = ''/tenants'', url_raw_query = ''api-version=1'', url_user = None, req_header = []\<rparr>"

theorem azure_host_confined_witness:
  "\<exists>h. normalize_host Some ''Management.Azure.com.'' = Some h \<and> h \<in> set arm_control_plane_hosts"
proof -
  have "(case azure_authorizes_host example_azure_provider ''Management.Azure.com.'' (Inr (Some (azure_claim ''A.C''))) of
      Inr b \<Rightarrow> b | _ \<Rightarrow> False)"
    "(case azure_inject_auth example_azure_provider azure_example_request of Inr _ \<Rightarrow> True | _ \<Rightarrow> False)" by code_simp+
  then obtain req' where a: "azure_authorizes_host example_azure_provider ''Management.Azure.com.'' (Inr (Some (azure_claim ''A.C''))) = Inr True"
    and i: "azure_inject_auth example_azure_provider azure_example_request = Inr req'" by (auto split: sum.splits)
  from azure_host_confined [OF a i] show ?thesis by (auto simp: example_azure_provider_def)
qed

end
