(* ===== verification/Spec2Isabelle.thy ===== *)
theory Spec2Isabelle
  imports Transport Egress Table_Cache Agent_Bound Agent_Verify Operation_Hint Kube_Session Aws_Gate Aws_Scope Aws_Archive Gcp_Gate Azure_Gate
begin

text \<open>
  A verification development for cynative, an agent framework whose requests to code-hosting
  and cloud APIs pass read-only gates before a credential is attached.

  The theories follow the packages under \<open>src/internal\<close>.

  Library. \<open>Go_Prelude\<close> (results of fallible functions, elimination rules), \<open>Go_Strings\<close>,
  \<open>Go_Url\<close>, \<open>Go_Net\<close>, \<open>Json\<close> and \<open>Json_Parse\<close> model what the program uses of Go's
  standard library: byte strings, percent-decoding and queries, headers, authorities and media
  types, and \<open>encoding/json\<close> on bytes.

  Package \<open>auth/authreq\<close>: \<open>Request_Path\<close> (the view the gates judge, the readings of its
  path) and \<open>Project_Block\<close> (the scanner that cuts a connector's arguments out of a tool
  call, proved equal to the decoder). Package \<open>auth/exposure\<close>: \<open>Exposure\<close> (access levels
  and the ceiling).

  Addresses: \<open>Ip_Addr\<close> (\<open>addr.go\<close>: the ranges no connector may dial, in every spelling),
  \<open>Host_Admission\<close> (\<open>authority.go\<close>, \<open>cloudauth/host.go\<close>: which hosts may be asked for),
  \<open>Dial_Guard\<close> (\<open>dialcontrol.go\<close> and the transport's hook, with the locale \<open>dial_policy\<close>).

  Connectors: \<open>Github_Table\<close> and \<open>Github_Gate\<close> (\<open>auth/github\<close>, \<open>github.go\<close>),
  \<open>Gitlab_Table\<close> and \<open>Gitlab_Gate\<close> (\<open>auth/gitlab\<close>, \<open>gitlab.go\<close>). A table is distilled from
  the provider's OpenAPI document; a request is classified by the most specific template it
  matches and allowed when the ceiling of that category permits the level its method needs.

  Composition: \<open>Provider_Gate\<close> (\<open>provider.go\<close>: the registry and its dispatchers),
  \<open>Connectors\<close> (the two connectors as registry entries, the locale \<open>bearer_injector\<close>) and
  \<open>Transport\<close> (\<open>transport.go\<close>: the one path from a tool call to the network, as a run with
  its events). \<open>Operation_Hint\<close> (package \<open>apiref\<close>, \<open>gcp/hint.go\<close>, \<open>gitlab/hint.go\<close>, \<open>unmatched.go\<close>):
  what a denial suggests instead; its edit distance is the least number of single edits.

  Kubernetes. \<open>Kube_Policy\<close> (package \<open>auth/k8s\<close>: a request as the API server reads it and the
  rules of a ClusterRole), \<open>Kube_Gate\<close> (\<open>k8sgate.go\<close>, \<open>cert_cache.go\<close>, \<open>k8s_identifiers.go\<close>: the gate over
  its policy cache, with the identifier patterns as terms of \<open>Go_Regexp\<close>), \<open>Kube_Config\<close> (\<open>kubernetes.go\<close>: the
  cluster a kubeconfig selects), \<open>Kube_Clusters\<close> (\<open>eks.go\<close>, \<open>gke.go\<close>, \<open>aks.go\<close>) and \<open>Kube_Session\<close> (a
  session's calls: the locale \<open>kube_keys\<close> says that equal cache keys name one cluster, and is
  interpreted on all four connectors).

  AWS. \<open>Aws_Model\<close> (\<open>smithy.go\<close>, \<open>serviceref.go\<close>, \<open>iamdataset.go\<close>: what is read of the service
  models and the action datasets), \<open>Aws_Archive\<close> (\<open>archive.go\<close>: the archive's index and its
  memo, which changes no answer), \<open>Aws_Host\<close> (\<open>network.go\<close>), \<open>Aws_Classify\<close> (\<open>classifier.go\<close>,
  \<open>classifier_proto.go\<close>: the operations a request may run, equal to the maxima of an
  order), \<open>Aws_Gate\<close> (\<open>actions.go\<close>, \<open>policy.go\<close>, \<open>policy_eval.go\<close>, \<open>provider.go\<close>, \<open>aws.go\<close>) and
  \<open>Aws_Scope\<close> (\<open>federation.go\<close>: the scoped session and its fallback). \<open>Json_Decode\<close> is how
  \<open>encoding/json\<close> fills a struct, a slice and a map, shared by both connectors; \<open>Go_Codec\<close> the number,
  base64 and path encodings.

  GCP. \<open>Gcp_Catalog\<close> (\<open>catalog.go\<close>, \<open>network.go\<close>: the Discovery documents merged by service, which
  loses no operation, and the services of a host), \<open>Gcp_Classify\<close> (\<open>classifier.go\<close>: the one method a
  request runs, equal to the greatest shapes) and \<open>Gcp_Gate\<close> (\<open>permissions.go\<close>, \<open>iamdataset.go\<close>,
  \<open>roleeval.go\<close>, \<open>roleref.go\<close>, \<open>identity.go\<close>, \<open>provider.go\<close>, \<open>lazy.go\<close>, \<open>gcp.go\<close>: what a read-only
  role lets through, and that a request is judged as the service it claims).

  Azure. \<open>Azure_Catalog\<close> (\<open>cloud.go\<close>, \<open>network.go\<close>, \<open>catalog.go\<close>: the clouds, the hosts of their control
  planes, the provider operations) and \<open>Azure_Gate\<close> (\<open>classifier.go\<close>, \<open>actions.go\<close>, \<open>roles.go\<close>,
  \<open>roleeval.go\<close>, \<open>provider.go\<close>, \<open>lazy.go\<close>, \<open>azure.go\<close>: the RBAC action of a request, which a documented path
  determines, and the role's patterns).

  Around the gates. \<open>Egress\<close> (\<open>auth/egress.go\<close>, \<open>egress_route.go\<close>): the proxy settings, the
  scrubbing of their credentials, proved equal to masking the positions a spelling occupies, and
  the dialer bound to a route. \<open>Table_Cache\<close> (\<open>cache/cache.go\<close>): the two files of a cached
  table, what a load serves and what a later process reads back. \<open>Json_Write\<close>: how
  \<open>encoding/json\<close> writes, with the round trip through \<open>Json_Parse\<close>.

  The agent. \<open>Session_State\<close> (\<open>interrupt\<close>, \<open>metrics\<close>, \<open>schema\<close>): the interrupt latch, the
  counters at their width and the messages. \<open>Audit_Log\<close> (package \<open>audit\<close>): the logger as a
  refinement of an append-only list of lines, its close protocol as a step relation over holds,
  releases and waiting, and the rotation by age. \<open>Agent_Loop\<close> (package \<open>agent\<close>): a turn from the
  question to the history kept, with its blank, truncated and interrupted turns, its delegation to
  sub-agents and the fence around tool output; the model, the tools and the operator are functions
  on an arbitrary world, and a trace of events records what happened in which order.
  \<open>Agent_Bound\<close> counts the model calls of a run. \<open>Agent_Verify\<close> (\<open>verify.go\<close>, \<open>todos.go\<close>): the agent's own
  tools; the verification of findings reads the model's answers with the token decoder of
  \<open>encoding/json\<close>, a stack machine whose walk is proved to accept only what the parser reads with no
  key repeated, and the turn of the agent with all its tools keeps the trace in order.

  Parameters. Third-party code (the YAML parser, the IDNA tables) and the parts of the
  environment are arguments of the definitions: the decoded tool call, the parsed URL,
  certificates, the network, the resolver, the token source, the cloud SDKs' answers (IAM's
  simulator, STS, the described clusters), the unpacked archives and the redactor.

  Fuel. The JSON parser gets twice the text's length and two units, more never changes its
  answer (\<open>parse_value_fuel\<close>); the key scanner gets one unit per byte, enough by
  \<open>project_block_spec\<close>. The agent loop's bound is the program's own iteration limit.

  Not modelled. The redaction engine;
  the reading and rendering of API documentation; the start-up of the connectors and the
  configuration; the interpreter of the sandbox, the clients of the language
  models, the terminal and the command line, which are third-party code or wiring. Mutexes are not
  modelled: an operation that holds one is a single step.
\<close>

end
